(* ===== verification/Prelude.thy ===== *)
theory Prelude
  imports Complex_Main "HOL-Library.Char_ord" "HOL-Library.List_Lexorder" "HOL-Library.Multiset"
begin

text \<open>
  The shared vocabulary of the development.

  \<^item> The parts of Python and of its standard library that the services use: JSON values,
    truth values, \<open>str\<close>, \<open>int\<close>, \<open>str.strip\<close>, \<open>str.lower\<close>, \<open>str.replace\<close>, \<open>uuid.UUID\<close>.
    Strings are lists of ASCII characters.
  \<^item> Failures of a request handler as values, and the commit of a transaction.
  \<^item> Generic reachability and the invariant rule, as a locale.
  \<^item> Lemmas on sums, filters and association lists that several components use.
\<close>

section \<open>Failures and transactions\<close>

text \<open>
  A handler answers with a failure or a value. \<open>HTTPException\<close> is FastAPI's exception with its
  status code; \<open>Uncaught\<close> is a Python exception that no handler catches, which FastAPI answers
  with status 500.
\<close>

datatype failure = HTTPException int | Uncaught string

type_synonym 'a result = "failure + 'a"

text \<open>The HTTP status a caller sees for a result, given the endpoint's success status.\<close>

definition http_status :: "int \<Rightarrow> 'a result \<Rightarrow> int" where
  "http_status success r =
     (case r of Inl (HTTPException c) \<Rightarrow> c | Inl (Uncaught _) \<Rightarrow> 500 | Inr _ \<Rightarrow> success)"

text \<open>
  \<open>commit io ok db db' r\<close> is the \<open>try: await db.commit() except: rollback; raise 500\<close> idiom:
  \<open>io\<close> says that the database server takes the commit, \<open>ok\<close> that the pending rows
  satisfy the table constraints. A failed commit leaves the database as it was.
\<close>

definition commit :: "bool \<Rightarrow> bool \<Rightarrow> 'db \<Rightarrow> 'db \<Rightarrow> 'a \<Rightarrow> 'a result \<times> 'db" where
  "commit io ok db db' r = (if io \<and> ok then (Inr r, db') else (Inl (HTTPException 500), db))"

lemma commit_Inr [simp]:
  "commit io ok db db' r = (Inr x, d) \<longleftrightarrow> io \<and> ok \<and> x = r \<and> d = db'"
  by (auto simp: commit_def)

lemma commit_Inl [simp]:
  "commit io ok db db' r = (Inl e, d) \<longleftrightarrow> \<not> (io \<and> ok) \<and> e = HTTPException 500 \<and> d = db"
  by (auto simp: commit_def)

lemma commit_True [simp]: "commit True True db db' r = (Inr r, db')"
  by (simp add: commit_def)

lemma commit_snd_cases: "snd (commit io ok db db' r) = db' \<or> snd (commit io ok db db' r) = db"
  by (simp add: commit_def)

section \<open>JSON and Python values\<close>

text \<open>
  A JSON document as \<open>json.loads\<close> builds it. A float carries the text Python prints for it and
  its exact value.
\<close>

datatype json =
    JNull
  | JBool bool
  | JInt int
  | JFloat string rat
  | JStr string
  | JArr "json list"
  | JObj "(string \<times> json) list"

text \<open>The truth value of \<open>if x\<close>.\<close>

fun truthy :: "json \<Rightarrow> bool" where
  "truthy JNull = False"
| "truthy (JBool b) = b"
| "truthy (JInt n) = (n \<noteq> 0)"
| "truthy (JFloat _ q) = (q \<noteq> 0)"
| "truthy (JStr s) = (s \<noteq> [])"
| "truthy (JArr xs) = (xs \<noteq> [])"
| "truthy (JObj kvs) = (kvs \<noteq> [])"

fun is_dict :: "json \<Rightarrow> bool" where
  "is_dict (JObj _) = True"
| "is_dict _ = False"

text \<open>\<open>d.get(k)\<close> on a value that is known to be a dict; \<open>None\<close> is an absent key.\<close>

fun dict_get :: "json \<Rightarrow> string \<Rightarrow> json option" where
  "dict_get (JObj kvs) k = map_of kvs k"
| "dict_get _ k = None"

text \<open>\<open>d.get(k)\<close> with Python's default of \<open>None\<close> for an absent key.\<close>

definition dict_get_null :: "json \<Rightarrow> string \<Rightarrow> json" where
  "dict_get_null d k = (case dict_get d k of None \<Rightarrow> JNull | Some v \<Rightarrow> v)"

definition str_or_null :: "string option \<Rightarrow> json" where
  "str_or_null x = (case x of None \<Rightarrow> JNull | Some s \<Rightarrow> JStr s)"

definition int_or_null :: "int option \<Rightarrow> json" where
  "int_or_null x = (case x of None \<Rightarrow> JNull | Some n \<Rightarrow> JInt n)"

section \<open>Characters and strings\<close>

definition py_isspace :: "char \<Rightarrow> bool" where
  "py_isspace c \<longleftrightarrow> (let n = (of_char c :: nat) in n = 32 \<or> (9 \<le> n \<and> n \<le> 13) \<or> (28 \<le> n \<and> n \<le> 31))"

text \<open>\<open>s.strip()\<close> and \<open>s.strip(chars)\<close>.\<close>

definition strip_by :: "(char \<Rightarrow> bool) \<Rightarrow> string \<Rightarrow> string" where
  "strip_by P s = rev (dropWhile P (rev (dropWhile P s)))"

definition py_strip :: "string \<Rightarrow> string" where
  "py_strip s = strip_by py_isspace s"

definition lower_char :: "char \<Rightarrow> char" where
  "lower_char c = (let n = (of_char c :: nat) in if 65 \<le> n \<and> n \<le> 90 then char_of (n + 32) else c)"

definition py_lower :: "string \<Rightarrow> string" where
  "py_lower s = map lower_char s"

definition upper_char :: "char \<Rightarrow> char" where
  "upper_char c = (let n = (of_char c :: nat) in if 97 \<le> n \<and> n \<le> 122 then char_of (n - 32) else c)"

definition py_upper :: "string \<Rightarrow> string" where
  "py_upper s = map upper_char s"

text \<open>\<open>s.replace(a, b)\<close> for one-character \<open>a\<close> and \<open>b\<close>, and \<open>s.replace(sub, "")\<close>.\<close>

definition replace_char :: "char \<Rightarrow> char \<Rightarrow> string \<Rightarrow> string" where
  "replace_char a b s = map (\<lambda>c. if c = a then b else c) s"

function remove_sub :: "string \<Rightarrow> string \<Rightarrow> string" where
  "remove_sub p s =
     (if s = [] \<or> p = [] then s
      else if take (length p) s = p then remove_sub p (drop (length p) s)
      else hd s # remove_sub p (tl s))"
  by pat_completeness auto
termination
  by (relation "measure (\<lambda>(p, s). length s)") auto

declare remove_sub.simps [simp del]

text \<open>Does a string end in a suffix (\<open>LIKE '%Command'\<close>), or start with a prefix.\<close>

definition ends_with :: "string \<Rightarrow> string \<Rightarrow> bool" where
  "ends_with s suf \<longleftrightarrow> length suf \<le> length s \<and> drop (length s - length suf) s = suf"

definition starts_with :: "string \<Rightarrow> string \<Rightarrow> bool" where
  "starts_with s pre \<longleftrightarrow> take (length pre) s = pre"

section \<open>Numbers as text\<close>

definition digit_char :: "nat \<Rightarrow> char" where
  "digit_char d = char_of (if d < 10 then d + 48 else d + 87)"

fun show_nat :: "nat \<Rightarrow> string" where
  "show_nat n = (if n < 10 then [digit_char n] else show_nat (n div 10) @ [digit_char (n mod 10)])"

declare show_nat.simps [simp del]

definition show_int :: "int \<Rightarrow> string" where
  "show_int i = (if i < 0 then CHR ''-'' # show_nat (nat (- i)) else show_nat (nat i))"

definition digit_of :: "char \<Rightarrow> nat option" where
  "digit_of c =
     (let n = (of_char c :: nat) in
      if 48 \<le> n \<and> n \<le> 57 then Some (n - 48)
      else if 97 \<le> n \<and> n \<le> 122 then Some (n - 87)
      else if 65 \<le> n \<and> n \<le> 90 then Some (n - 55)
      else None)"

text \<open>
  The digits of a Python integer literal: single underscores are allowed between digits.
  \<open>d\<close> says that the previous character was a digit.
\<close>

fun parse_digits :: "nat \<Rightarrow> bool \<Rightarrow> nat \<Rightarrow> string \<Rightarrow> nat option" where
  "parse_digits b d acc [] = (if d then Some acc else None)"
| "parse_digits b d acc (c # cs) =
     (if c = CHR ''_'' then (if d then parse_digits b False acc cs else None)
      else case digit_of c of
             None \<Rightarrow> None
           | Some v \<Rightarrow> if v < b then parse_digits b True (acc * b + v) cs else None)"

definition parse_magnitude :: "nat \<Rightarrow> string \<Rightarrow> nat option" where
  "parse_magnitude b s =
     (if b = 16 \<and> py_lower (take 2 s) = ''0x'' \<and> drop 2 s \<noteq> []
      then (let r = drop 2 s in parse_digits b False 0 (if hd r = CHR ''_'' then tl r else r))
      else parse_digits b False 0 s)"

text \<open>\<open>int(s, base)\<close> on a string: \<open>None\<close> is \<open>ValueError\<close>.\<close>

definition py_int_str :: "nat \<Rightarrow> string \<Rightarrow> int option" where
  "py_int_str b s =
     (case py_strip s of
        [] \<Rightarrow> None
      | c # cs \<Rightarrow>
          if c = CHR ''-'' then map_option (\<lambda>n. - int n) (parse_magnitude b cs)
          else if c = CHR ''+'' then map_option int (parse_magnitude b cs)
          else map_option int (parse_magnitude b (c # cs)))"

text \<open>\<open>int(x)\<close> on a JSON value: \<open>None\<close> is \<open>TypeError\<close> or \<open>ValueError\<close>; a float is truncated.\<close>

fun py_int :: "json \<Rightarrow> int option" where
  "py_int (JInt n) = Some n"
| "py_int (JBool b) = Some (if b then 1 else 0)"
| "py_int (JFloat _ q) = Some (if 0 \<le> q then \<lfloor>q\<rfloor> else \<lceil>q\<rceil>)"
| "py_int (JStr s) = py_int_str 10 s"
| "py_int _ = None"

text \<open>\<open>repr\<close> of a string: Python prefers single quotes.\<close>

definition repr_char :: "char \<Rightarrow> char \<Rightarrow> string" where
  "repr_char q c =
     (let n = (of_char c :: nat) in
      if c = q \<or> n = 92 then [char_of (92::nat), c]
      else if n = 10 then [char_of (92::nat), CHR ''n'']
      else if n = 13 then [char_of (92::nat), CHR ''r'']
      else if n = 9 then [char_of (92::nat), CHR ''t'']
      else if n < 32 \<or> n = 127
        then [char_of (92::nat), CHR ''x'', digit_char (n div 16), digit_char (n mod 16)]
      else [c])"

definition repr_str :: "string \<Rightarrow> string" where
  "repr_str s =
     (let a = (char_of (39::nat) :: char); d = (char_of (34::nat) :: char);
          q = (if a \<in> set s \<and> d \<notin> set s then d else a)
      in q # concat (map (repr_char q) s) @ [q])"

fun join_with :: "string \<Rightarrow> string list \<Rightarrow> string" where
  "join_with sep [] = []"
| "join_with sep [x] = x"
| "join_with sep (x # y # ys) = x @ sep @ join_with sep (y # ys)"

text \<open>\<open>repr(x)\<close> and \<open>str(x)\<close> of a JSON value.\<close>

fun py_repr :: "json \<Rightarrow> string" where
  "py_repr JNull = ''None''"
| "py_repr (JBool b) = (if b then ''True'' else ''False'')"
| "py_repr (JInt n) = show_int n"
| "py_repr (JFloat t _) = t"
| "py_repr (JStr s) = repr_str s"
| "py_repr (JArr xs) = ''['' @ join_with '', '' (map py_repr xs) @ '']''"
| "py_repr (JObj kvs) =
     ''{'' @ join_with '', '' (map (\<lambda>kv. repr_str (fst kv) @ '': '' @ py_repr (snd kv)) kvs) @ ''}''"

fun py_str :: "json \<Rightarrow> string" where
  "py_str (JStr s) = s"
| "py_str x = py_repr x"

section \<open>UUIDs\<close>

text \<open>A UUID is its canonical text, as \<open>str(uuid)\<close> prints it.\<close>

type_synonym uuid = string

fun hex_digits :: "nat \<Rightarrow> nat \<Rightarrow> string" where
  "hex_digits 0 n = []"
| "hex_digits (Suc k) n = hex_digits k (n div 16) @ [digit_char (n mod 16)]"

definition uuid_text :: "nat \<Rightarrow> uuid" where
  "uuid_text n =
     (let h = hex_digits 32 n in
      take 8 h @ ''-'' @ take 4 (drop 8 h) @ ''-'' @ take 4 (drop 12 h) @ ''-''
        @ take 4 (drop 16 h) @ ''-'' @ drop 20 h)"

text \<open>\<open>uuid.UUID(s)\<close>: \<open>None\<close> is \<open>ValueError\<close>.\<close>

definition py_uuid :: "string \<Rightarrow> uuid option" where
  "py_uuid s =
     (let h = filter (\<lambda>c. c \<noteq> CHR ''-'')
                (strip_by (\<lambda>c. c = CHR ''{'' \<or> c = CHR ''}'')
                   (remove_sub ''uuid:'' (remove_sub ''urn:'' s)))
      in if length h \<noteq> 32 then None
         else case py_int_str 16 h of
                None \<Rightarrow> None
              | Some i \<Rightarrow> if 0 \<le> i \<and> i < 2 ^ 128 then Some (uuid_text (nat i)) else None)"

text \<open>Canonical text is a fixed point of \<open>uuid.UUID\<close>, and tells identifiers apart.\<close>

lemma of_char_digit: "d < 16 \<Longrightarrow> (of_char (digit_char d) :: nat) = (if d < 10 then d + 48 else d + 87)"
  by (simp add: digit_char_def)

lemma digit_char_hex:
  assumes "d < 16"
  shows "digit_of (digit_char d) = Some d" and "digit_char d \<notin> {CHR ''_'', CHR ''-'', CHR ''+'', CHR ''{'', CHR ''}'', CHR ''u''}"
    and "lower_char (digit_char d) \<noteq> CHR ''x''" and "\<not> py_isspace (digit_char d)"
proof -
  note of_char_digit [OF assms]
  then show "digit_of (digit_char d) = Some d" "\<not> py_isspace (digit_char d)"
    using assms by (auto simp: digit_of_def py_isspace_def)
  have "digit_char d \<noteq> c" if "of_char c \<notin> {48..57::nat} \<union> {97..102}" for c
    using of_char_digit [OF assms] that assms by (auto split: if_splits)
  then show "digit_char d \<notin> {CHR ''_'', CHR ''-'', CHR ''+'', CHR ''{'', CHR ''}'', CHR ''u''}"
      "lower_char (digit_char d) \<noteq> CHR ''x''"
    using of_char_digit [OF assms] assms by (auto simp: lower_char_def)
qed

lemma hex_digits_set: "c \<in> set (hex_digits k n) \<Longrightarrow> \<exists>d < 16. c = digit_char d"
  by (induction k arbitrary: n) (auto intro: exI [of _ "n mod 16" for n])

lemma length_hex_digits [simp]: "length (hex_digits k n) = k"
  by (induction k arbitrary: n) auto

lemma parse_hex_digits:
  "parse_digits 16 d acc (hex_digits k n @ rest) = parse_digits 16 (d \<or> 0 < k) (acc * 16 ^ k + n mod 16 ^ k) rest"
proof (induction k arbitrary: n rest)
  case (Suc k)
  have "digit_char (n mod 16) \<noteq> CHR ''_''" using digit_char_hex(2) [of "n mod 16"] by auto
  with Suc [of "n div 16" "digit_char (n mod 16) # rest"] digit_char_hex(1) [of "n mod 16"]
  have "parse_digits 16 d acc (hex_digits (Suc k) n @ rest)
      = parse_digits 16 True ((acc * 16 ^ k + (n div 16) mod 16 ^ k) * 16 + n mod 16) rest"
    by simp
  also have "(acc * 16 ^ k + (n div 16) mod 16 ^ k) * 16 + n mod 16 = acc * 16 ^ Suc k + n mod 16 ^ Suc k"
    using mod_mult2_eq [of n 16 "16 ^ k"] by (simp add: algebra_simps)
  finally show ?case by simp
qed simp

lemma remove_sub_absent: "p \<noteq> [] \<Longrightarrow> hd p \<notin> set s \<Longrightarrow> remove_sub p s = s"
proof (induction s)
  case (Cons c s)
  then have "take (length p) (c # s) \<noteq> p" by (cases p) auto
  with Cons show ?case by (simp add: remove_sub.simps [of p "c # s"])
qed (simp add: remove_sub.simps)

lemma strip_by_absent: "(\<And>c. c \<in> set s \<Longrightarrow> \<not> P c) \<Longrightarrow> strip_by P s = s"
proof -
  assume *: "\<And>c. c \<in> set s \<Longrightarrow> \<not> P c"
  have "dropWhile P t = t" if "set t \<subseteq> set s" for t
    using that * by (cases t) auto
  then show ?thesis by (simp add: strip_by_def)
qed

lemma uuid_text_chars:
  assumes "c \<in> set (uuid_text n)"
  shows "c = CHR ''-'' \<or> (\<exists>d < 16. c = digit_char d)"
  using assms hex_digits_set [of c 32 n] by (auto simp: uuid_text_def Let_def dest: in_set_takeD in_set_dropD)

lemma uuid_text_hex: "filter (\<lambda>c. c \<noteq> CHR ''-'') (uuid_text n) = hex_digits 32 n"
proof -
  let ?h = "hex_digits 32 n"
  have "filter (\<lambda>c. c \<noteq> CHR ''-'') ys = ys" if "set ys \<subseteq> set ?h" for ys
    using that hex_digits_set digit_char_hex(2) by (fastforce simp: filter_id_conv)
  then have "filter (\<lambda>c. c \<noteq> CHR ''-'') (uuid_text n) =
      take 8 ?h @ take 4 (drop 8 ?h) @ take 4 (drop 12 ?h) @ take 4 (drop 16 ?h) @ drop 20 ?h"
    by (simp add: uuid_text_def Let_def set_take_subset set_drop_subset order_trans [OF set_take_subset set_drop_subset])
  also have "\<dots> = ?h"
    using append_take_drop_id [of 4 "drop 16 ?h"] append_take_drop_id [of 4 "drop 12 ?h"]
      append_take_drop_id [of 4 "drop 8 ?h"] append_take_drop_id [of 8 ?h] by simp
  finally show ?thesis .
qed

lemma py_uuid_text: "n < 2 ^ 128 \<Longrightarrow> py_uuid (uuid_text n) = Some (uuid_text n)"
proof -
  assume n: "n < 2 ^ 128"
  let ?h = "hex_digits 32 n"
  have no: "c \<notin> set (uuid_text n)" if "c \<in> {CHR ''_'', CHR ''+'', CHR ''{'', CHR ''}'', CHR ''u''}" for c
    using uuid_text_chars [of c n] digit_char_hex(2) that by fastforce
  have u: "remove_sub ''uuid:'' (remove_sub ''urn:'' (uuid_text n)) = uuid_text n"
    using no by (simp add: remove_sub_absent)
  have b: "strip_by (\<lambda>c. c = CHR ''{'' \<or> c = CHR ''}'') (uuid_text n) = uuid_text n"
    using no by (intro strip_by_absent) auto
  have "py_strip ?h = ?h"
    unfolding py_strip_def using hex_digits_set digit_char_hex(4) by (intro strip_by_absent) blast
  moreover obtain c cs where h: "?h = c # cs" by (cases ?h) (auto simp flip: length_0_conv)
  moreover have c: "c \<noteq> CHR ''-''" "c \<noteq> CHR ''+''"
    using hex_digits_set [of c 32 n] digit_char_hex(2) h by fastforce+
  moreover have "parse_magnitude 16 ?h = Some n"
  proof -
    have "CHR ''x'' \<notin> set (py_lower ?h)"
      using hex_digits_set digit_char_hex(3) by (force simp: py_lower_def)
    then have "CHR ''x'' \<notin> set (py_lower (take 2 ?h))"
      using in_set_takeD by (fastforce simp: py_lower_def take_map)
    then have "py_lower (take 2 ?h) \<noteq> ''0x''" by auto
    then show ?thesis using parse_hex_digits [of False 0 32 n "[]"] n by (simp add: parse_magnitude_def)
  qed
  ultimately have "py_int_str 16 ?h = Some (int n)" by (simp add: py_int_str_def)
  with n u b show ?thesis by (simp add: py_uuid_def uuid_text_hex)
qed

lemma py_uuid_canonical: "py_uuid s = Some u \<Longrightarrow> py_uuid u = Some u"
proof -
  assume "py_uuid s = Some u"
  then obtain i where "0 \<le> i" "i < 2 ^ 128" "u = uuid_text (nat i)"
    by (auto simp: py_uuid_def Let_def split: if_splits option.splits)
  moreover from this have "nat i < 2 ^ 128" by (simp add: nat_less_iff)
  ultimately show ?thesis using py_uuid_text by blast
qed

lemma uuid_text_eq_iff: "m < 2 ^ 128 \<Longrightarrow> n < 2 ^ 128 \<Longrightarrow> uuid_text m = uuid_text n \<longleftrightarrow> m = n"
proof
  assume *: "m < 2 ^ 128" "n < 2 ^ 128" and "uuid_text m = uuid_text n"
  then have "hex_digits 32 m = hex_digits 32 n" by (metis uuid_text_hex)
  then show "m = n" using parse_hex_digits [of False 0 32 m "[]"] parse_hex_digits [of False 0 32 n "[]"] * by simp
qed simp

lemma uuid_text_not_Nil [simp]: "uuid_text n \<noteq> []"
  by (simp add: uuid_text_def Let_def)

section \<open>The outbox\<close>

text \<open>
  Every service writes its events to an \<open>outbox_messages\<close> table in the transaction that
  changes its state. The row identifier is drawn by the database layer and no rule of a service
  reads it; the order service's dispatcher, which does, has its own row type.
\<close>

record outbox_message =
  om_aggregate_type :: string
  om_aggregate_id :: string
  om_type :: string
  om_payload :: json

definition outbox :: "string \<Rightarrow> string \<Rightarrow> string \<Rightarrow> json \<Rightarrow> outbox_message" where
  "outbox aggregate_type aggregate_id typ payload =
     \<lparr>om_aggregate_type = aggregate_type, om_aggregate_id = aggregate_id,
      om_type = typ, om_payload = payload\<rparr>"

lemma outbox_sel [simp]:
  "om_aggregate_type (outbox a i t p) = a" "om_aggregate_id (outbox a i t p) = i"
  "om_type (outbox a i t p) = t" "om_payload (outbox a i t p) = p"
  by (simp_all add: outbox_def)

section \<open>Reachable states and invariants\<close>

inductive reachable :: "('s \<Rightarrow> bool) \<Rightarrow> ('s \<Rightarrow> 's \<Rightarrow> bool) \<Rightarrow> 's \<Rightarrow> bool"
  for initial :: "'s \<Rightarrow> bool" and step :: "'s \<Rightarrow> 's \<Rightarrow> bool" where
  reach_init: "initial s \<Longrightarrow> reachable initial step s"
| reach_step: "reachable initial step s \<Longrightarrow> step s t \<Longrightarrow> reachable initial step t"

text \<open>The contract of an inductive invariant, and what it gives in every reachable state.\<close>

locale inductive_invariant =
  fixes initial :: "'s \<Rightarrow> bool" and step :: "'s \<Rightarrow> 's \<Rightarrow> bool" and inv :: "'s \<Rightarrow> bool"
  assumes init_inv: "initial s \<Longrightarrow> inv s"
    and step_inv: "inv s \<Longrightarrow> step s t \<Longrightarrow> inv t"
begin

lemma reachable_inv: "reachable initial step s \<Longrightarrow> inv s"
  by (induction rule: reachable.induct) (auto intro: init_inv step_inv)

lemma steps_inv: "step\<^sup>*\<^sup>* s t \<Longrightarrow> inv s \<Longrightarrow> inv t"
  by (induction rule: rtranclp_induct) (auto intro: step_inv)

end

section \<open>Sums, filters and association lists\<close>

lemma sum_list_filter_partition:
  "sum_list (map f (filter P xs)) + sum_list (map f (filter (\<lambda>x. \<not> P x) xs))
     = sum_list (map f xs)" for f :: "'a \<Rightarrow> 'b::ab_group_add"
  by (induction xs) (auto simp: algebra_simps)

lemma sum_list_map_if_upd:
  "distinct (map key xs) \<Longrightarrow> x \<in> set xs \<Longrightarrow>
     sum_list (map f (map (\<lambda>y. if key y = key x then g y else y) xs))
       = sum_list (map f xs) - f x + f (g x)" for f :: "'a \<Rightarrow> int"
proof (induction xs)
  case Nil
  then show ?case by simp
next
  case (Cons a xs)
  show ?case
  proof (cases "a = x")
    case True
    then have "map (\<lambda>y. if key y = key x then g y else y) xs = xs"
      using Cons.prems by (force simp: image_iff intro!: map_idI)
    with True show ?thesis by simp
  next
    case False
    then have "x \<in> set xs" and "key a \<noteq> key x" using Cons.prems by (auto simp: image_iff)
    with Cons show ?thesis by (simp add: algebra_simps)
  qed
qed

lemma map_of_SomeD_distinct: "map_of xs k = Some v \<Longrightarrow> (k, v) \<in> set xs"
  by (rule map_of_SomeD)

lemma find_SomeD: "find P xs = Some x \<Longrightarrow> x \<in> set xs \<and> P x"
  by (auto simp: find_Some_iff)

lemma find_NoneD: "find P xs = None \<Longrightarrow> y \<in> set xs \<Longrightarrow> \<not> P y"
  by (auto simp: find_None_iff)

lemma find_append_kept: "find P xs = Some x \<Longrightarrow> find P (xs @ ys) = Some x"
  by (induction xs) auto

lemma find_append_fresh: "x \<notin> f ` set xs \<Longrightarrow> f y = x \<Longrightarrow> find (\<lambda>z. f z = x) (xs @ [y]) = Some y"
  by (induction xs) auto

lemma sum_list_const_zero: "(\<And>x. x \<in> set xs \<Longrightarrow> f x = 0) \<Longrightarrow> sum_list (map f xs) = 0"
  for f :: "'a \<Rightarrow> 'b::monoid_add"
  by (induction xs) auto

section \<open>Insertion-ordered dictionaries of lists\<close>

text \<open>\<open>d.setdefault(k, []).append(v)\<close> on a Python dict, which keeps insertion order.\<close>

fun dict_append :: "('k \<times> 'v list) list \<Rightarrow> 'k \<Rightarrow> 'v \<Rightarrow> ('k \<times> 'v list) list" where
  "dict_append [] k v = [(k, [v])]"
| "dict_append ((k', vs) # d) k v =
     (if k' = k then (k', vs @ [v]) # d else (k', vs) # dict_append d k v)"

text \<open>\<open>d[k] = v\<close> on a Python dict: an existing key keeps its position.\<close>

fun dict_set :: "('k \<times> 'v) list \<Rightarrow> 'k \<Rightarrow> 'v \<Rightarrow> ('k \<times> 'v) list" where
  "dict_set [] k v = [(k, v)]"
| "dict_set ((k', w) # d) k v = (if k' = k then (k', v) # d else (k', w) # dict_set d k v)"

lemma keys_dict_append:
  "map fst (dict_append d k v) = (if k \<in> fst ` set d then map fst d else map fst d @ [k])"
  by (induction d k v rule: dict_append.induct) auto

lemma distinct_dict_append [simp]:
  "distinct (map fst (dict_append d k v)) = distinct (map fst d)"
  by (auto simp: keys_dict_append)

lemma lookup_dict_append:
  "map_of (dict_append d k v) k' =
     (if k' = k then Some ((case map_of d k of None \<Rightarrow> [] | Some vs \<Rightarrow> vs) @ [v])
      else map_of d k')"
  by (induction d k v rule: dict_append.induct) auto

lemma keys_dict_set:
  "map fst (dict_set d k v) = (if k \<in> fst ` set d then map fst d else map fst d @ [k])"
  by (induction d k v rule: dict_set.induct) auto

lemma distinct_dict_set [simp]: "distinct (map fst (dict_set d k v)) = distinct (map fst d)"
  by (auto simp: keys_dict_set)

lemma lookup_dict_set: "map_of (dict_set d k v) = (map_of d)(k \<mapsto> v)"
  by (induction d k v rule: dict_set.induct) auto

text \<open>The first element with the least key, \<open>min(xs, key=f)\<close>.\<close>

fun min_key :: "('a \<Rightarrow> nat) \<Rightarrow> 'a list \<Rightarrow> 'a option" where
  "min_key f [] = None"
| "min_key f (x # xs) =
     (case min_key f xs of None \<Rightarrow> Some x | Some m \<Rightarrow> if f m < f x then Some m else Some x)"

lemma min_key_None [simp]: "min_key f xs = None \<longleftrightarrow> xs = []"
  by (cases xs) (auto split: option.splits)

lemma min_key_least:
  "min_key f xs = Some m \<Longrightarrow> m \<in> set xs \<and> (\<forall>x \<in> set xs. f m \<le> f x)"
proof (induction xs arbitrary: m)
  case Nil
  then show ?case by simp
next
  case (Cons x xs)
  then show ?case
    by (cases "min_key f xs") (fastforce split: if_splits)+
qed

text \<open>Two lists with the same elements and distinct sort keys sort to the same list.\<close>

lemma sort_key_mset_eq:
  assumes "mset xs = mset ys" and "distinct (map f xs)"
  shows "sort_key f xs = sort_key f ys"
proof (rule properties_for_sort_key)
  show "mset (sort_key f ys) = mset xs" using assms(1) by simp
next
  fix k assume "k \<in> set (sort_key f ys)"
  have *: "filter (\<lambda>x. f k = f x) zs = [z \<leftarrow> zs. z = k]"
    if "mset zs = mset xs" "k \<in> set zs" for zs
  proof (rule filter_cong [OF refl])
    fix z assume z: "z \<in> set zs"
    have "distinct (map f zs)"
      using assms(2) that(1) by (metis mset_map mset_eq_imp_distinct_iff)
    then show "(f k = f z) = (z = k)"
      using z that(2) by (auto simp: distinct_map inj_on_def)
  qed
  have "mset [z \<leftarrow> sort_key f ys. z = k] = mset [z \<leftarrow> xs. z = k]"
    using assms(1) by (simp add: mset_filter)
  moreover have "[z \<leftarrow> zs. z = k] = replicate (count (mset zs) k) k" for zs
    by (induction zs) auto
  moreover have "k \<in> set xs" using \<open>k \<in> set (sort_key f ys)\<close> assms(1)
    by (metis set_sort mset_eq_setD)
  ultimately show "filter (\<lambda>x. f k = f x) (sort_key f ys) = filter (\<lambda>x. f k = f x) xs"
    using * [of "sort_key f ys"] * [of xs] \<open>k \<in> set (sort_key f ys)\<close> assms(1)
    by (simp add: mset_filter)
next
  show "sorted (map f (sort_key f ys))" by simp
qed

text \<open>Grouping by a key: the groups' sums add up to the whole sum.\<close>

lemma sum_list_indicator:
  "distinct ks \<Longrightarrow> k \<in> set ks \<Longrightarrow> sum_list (map (\<lambda>j. if k = j then (c::int) else 0) ks) = c"
proof (induction ks)
  case Nil
  then show ?case by simp
next
  case (Cons a ks)
  show ?case
  proof (cases "a = k")
    case True
    then have "k \<notin> set ks" using Cons.prems by simp
    then have "sum_list (map (\<lambda>j. if k = j then c else 0) ks) = 0"
      by (intro sum_list_const_zero) auto
    with True show ?thesis by simp
  next
    case False
    with Cons show ?thesis by simp
  qed
qed

lemma sum_list_group_by:
  assumes "distinct ks" and "key ` set xs \<subseteq> set ks"
  shows "sum_list (map (\<lambda>k. sum_list (map f (filter (\<lambda>x. key x = k) xs))) ks)
           = sum_list (map (f :: 'a \<Rightarrow> int) xs)"
  using assms(2)
proof (induction xs)
  case Nil
  then show ?case by (simp add: sum_list_const_zero)
next
  case (Cons x xs)
  have "sum_list (map (\<lambda>k. sum_list (map f (filter (\<lambda>y. key y = k) (x # xs)))) ks)
      = sum_list (map (\<lambda>k. (if key x = k then f x else 0)
                          + sum_list (map f (filter (\<lambda>y. key y = k) xs))) ks)"
    by (rule arg_cong [where f = sum_list], rule map_cong) auto
  also have "\<dots> = f x + sum_list (map f xs)"
    using Cons assms(1) by (simp add: sum_list_addf sum_list_indicator)
  finally show ?case by simp
qed

lemma sum_list_sort_key [simp]:
  "sum_list (map f (sort_key g xs)) = sum_list (map (f :: 'a \<Rightarrow> 'b::comm_monoid_add) xs)"
  by (metis mset_map mset_sort sum_mset_sum_list)

lemma sort_distinct: "distinct xs \<Longrightarrow> sort xs = sorted_list_of_set (set xs)"
  by (simp add: sorted_list_of_set_sort_remdups distinct_remdups_id)

lemma list_all2_left_mem: "list_all2 P xs ys \<Longrightarrow> x \<in> set xs \<Longrightarrow> \<exists>y \<in> set ys. P x y"
  by (induction rule: list_all2_induct) auto

section \<open>Column types and repeated delivery\<close>

text \<open>The values an \<open>INTEGER\<close> column holds; the driver refuses every other one.\<close>

definition int4 :: "int \<Rightarrow> bool" where
  "int4 n \<longleftrightarrow> - 2147483648 \<le> n \<and> n \<le> 2147483647"

text \<open>
  The contract of a request handler that is called at least once with the same idempotency key.
  A call that fails changes nothing, and once a call has succeeded every further call succeeds
  and changes nothing. \<open>'env\<close> is what differs between two deliveries of the same request: the
  clock, the fresh identifiers, whether the commit goes through.
\<close>

locale idempotent_handler =
  fixes handle :: "'env \<Rightarrow> 'db \<Rightarrow> 'r result \<times> 'db"
  assumes failure_keeps: "handle e db = (Inl f, db') \<Longrightarrow> db' = db"
    and replay: "handle e db = (Inr r, db') \<Longrightarrow> \<exists>r'. handle e' db' = (Inr r', db')"
begin

lemma replays: "handle e db = (Inr r, db') \<Longrightarrow> foldl (\<lambda>d e. snd (handle e d)) db' es = db'"
proof (induction es)
  case (Cons e' es)
  from replay [OF Cons.prems, of e'] have "snd (handle e' db') = db'" by auto
  with Cons show ?case by simp
qed simp

lemma delivered_at_most_once:
  "foldl (\<lambda>d e. snd (handle e d)) db es = db \<or>
   (\<exists>e \<in> set es. \<exists>r. handle e db = (Inr r, foldl (\<lambda>d e. snd (handle e d)) db es))"
proof (induction es)
  case (Cons e es)
  obtain x db' where h: "handle e db = (x, db')" by (cases "handle e db")
  show ?case
  proof (cases x)
    case (Inl f)
    with h failure_keeps have "db' = db" by blast
    with Cons h show ?thesis by auto
  next
    case (Inr r)
    with h replays [of e db r db' es] show ?thesis by auto
  qed
qed simp

end

end
