(* ===== verification/Saga_Transitions.thy ===== *)
theory Saga_Transitions
  imports Prelude
begin

text \<open>
  The order saga's state machine, \<open>services/order-saga/app/services/transitions.py\<close>: the
  vocabulary of states and events, the card and cash-on-delivery transition tables, the
  compensations for resources that arrive late, and \<open>resolve\<close>, the decision for one event.
  States and event types are the strings the code stores and receives.
\<close>

section \<open>Vocabulary\<close>

definition PENDING :: string where "PENDING = ''PENDING''"
definition INVENTORY_RESERVED :: string where "INVENTORY_RESERVED = ''INVENTORY_RESERVED''"
definition PAID :: string where "PAID = ''PAID''"
definition ORDER_COMPLETED :: string where "ORDER_COMPLETED = ''ORDER_COMPLETED''"
definition FAILED :: string where "FAILED = ''FAILED''"
definition TIMED_OUT :: string where "TIMED_OUT = ''TIMED_OUT''"
definition ROLLBACK_COMPLETED :: string where "ROLLBACK_COMPLETED = ''ROLLBACK_COMPLETED''"

lemmas saga_status_defs = PENDING_def INVENTORY_RESERVED_def PAID_def ORDER_COMPLETED_def
  FAILED_def TIMED_OUT_def ROLLBACK_COMPLETED_def

definition ALL_STATES :: "string list" where
  "ALL_STATES = [PENDING, INVENTORY_RESERVED, PAID, ORDER_COMPLETED, FAILED, TIMED_OUT,
     ROLLBACK_COMPLETED]"

definition TERMINAL_STATES :: "string list" where
  "TERMINAL_STATES = [ORDER_COMPLETED, ROLLBACK_COMPLETED]"

definition COMPENSATING_STATES :: "string list" where
  "COMPENSATING_STATES = [FAILED, TIMED_OUT]"

definition KNOWN_EVENT_TYPES :: "string list" where
  "KNOWN_EVENT_TYPES = [''InventoryReserved'', ''InventoryReservationFailed'', ''PaymentCharged'',
     ''PaymentFailed'', ''PaymentRefunded'', ''OrderCompleted'', ''InventoryReleased'']"

datatype saga_outcome = APPLY | LATE_DUPLICATE | OUT_OF_ORDER | UNKNOWN_EVENT | COMPENSATE

record saga_decision =
  sd_outcome :: saga_outcome
  sd_new_status :: "string option"
  sd_command :: "string option"

definition emits_command :: "saga_decision \<Rightarrow> bool" where
  "emits_command d \<longleftrightarrow> sd_command d \<noteq> None"

section \<open>The tables\<close>

definition TRANSITIONS :: "((string \<times> string) \<times> (string \<times> string option)) list" where
  "TRANSITIONS = [
     ((PENDING, ''InventoryReserved''), (INVENTORY_RESERVED, Some ''ChargePaymentCommand'')),
     ((INVENTORY_RESERVED, ''PaymentCharged''), (PAID, Some ''ConfirmOrderCommand'')),
     ((PAID, ''OrderCompleted''), (ORDER_COMPLETED, None)),
     ((PENDING, ''InventoryReservationFailed''), (ROLLBACK_COMPLETED, Some ''OrderFailed'')),
     ((INVENTORY_RESERVED, ''PaymentFailed''), (FAILED, Some ''ReleaseInventoryCommand'')),
     ((FAILED, ''InventoryReleased''), (ROLLBACK_COMPLETED, None)),
     ((TIMED_OUT, ''InventoryReleased''), (ROLLBACK_COMPLETED, None)),
     ((PAID, ''PaymentRefunded''), (ROLLBACK_COMPLETED, None)),
     ((TIMED_OUT, ''PaymentRefunded''), (ROLLBACK_COMPLETED, None))]"

definition COD_TRANSITIONS :: "((string \<times> string) \<times> (string \<times> string option)) list" where
  "COD_TRANSITIONS = [((PENDING, ''InventoryReserved''), (ORDER_COMPLETED, None))]"

definition LATE_RESOURCE_COMPENSATIONS :: "((string \<times> string) \<times> string) list" where
  "LATE_RESOURCE_COMPENSATIONS = [
     ((TIMED_OUT, ''InventoryReserved''), ''ReleaseInventoryCommand''),
     ((FAILED, ''InventoryReserved''), ''ReleaseInventoryCommand''),
     ((ROLLBACK_COMPLETED, ''InventoryReserved''), ''ReleaseInventoryCommand'')]"

section \<open>The decision\<close>

definition decision :: "saga_outcome \<Rightarrow> string option \<Rightarrow> string option \<Rightarrow> saga_decision" where
  "decision oc st cmd = \<lparr>sd_outcome = oc, sd_new_status = st, sd_command = cmd\<rparr>"

definition resolve :: "string \<Rightarrow> string \<Rightarrow> string \<Rightarrow> saga_decision" where
  "resolve current_status event_type payment_method =
     (if event_type \<notin> set KNOWN_EVENT_TYPES then decision UNKNOWN_EVENT None None
      else
        case (if payment_method = ''COD''
              then map_of COD_TRANSITIONS (current_status, event_type) else None) of
          Some (new_status, command) \<Rightarrow> decision APPLY (Some new_status) command
        | None \<Rightarrow>
            (case map_of TRANSITIONS (current_status, event_type) of
               Some (new_status, command) \<Rightarrow> decision APPLY (Some new_status) command
             | None \<Rightarrow>
                 (case map_of LATE_RESOURCE_COMPENSATIONS (current_status, event_type) of
                    Some command \<Rightarrow> decision COMPENSATE None (Some command)
                  | None \<Rightarrow>
                      if current_status \<in> set TERMINAL_STATES then decision LATE_DUPLICATE None None
                      else decision OUT_OF_ORDER None None)))"

section \<open>Facts about the vocabulary and the tables\<close>

lemma saga_status_distinct: "distinct ALL_STATES"
  by (simp add: ALL_STATES_def saga_status_defs)

lemma saga_status_neq [simp]:
  "PENDING \<noteq> INVENTORY_RESERVED" "PENDING \<noteq> PAID" "PENDING \<noteq> ORDER_COMPLETED" "PENDING \<noteq> FAILED"
  "PENDING \<noteq> TIMED_OUT" "PENDING \<noteq> ROLLBACK_COMPLETED"
  "INVENTORY_RESERVED \<noteq> PENDING" "INVENTORY_RESERVED \<noteq> PAID" "INVENTORY_RESERVED \<noteq> ORDER_COMPLETED"
  "INVENTORY_RESERVED \<noteq> FAILED" "INVENTORY_RESERVED \<noteq> TIMED_OUT" "INVENTORY_RESERVED \<noteq> ROLLBACK_COMPLETED"
  "PAID \<noteq> PENDING" "PAID \<noteq> INVENTORY_RESERVED" "PAID \<noteq> ORDER_COMPLETED" "PAID \<noteq> FAILED"
  "PAID \<noteq> TIMED_OUT" "PAID \<noteq> ROLLBACK_COMPLETED"
  "ORDER_COMPLETED \<noteq> PENDING" "ORDER_COMPLETED \<noteq> INVENTORY_RESERVED" "ORDER_COMPLETED \<noteq> PAID"
  "ORDER_COMPLETED \<noteq> FAILED" "ORDER_COMPLETED \<noteq> TIMED_OUT" "ORDER_COMPLETED \<noteq> ROLLBACK_COMPLETED"
  "FAILED \<noteq> PENDING" "FAILED \<noteq> INVENTORY_RESERVED" "FAILED \<noteq> PAID" "FAILED \<noteq> ORDER_COMPLETED"
  "FAILED \<noteq> TIMED_OUT" "FAILED \<noteq> ROLLBACK_COMPLETED"
  "TIMED_OUT \<noteq> PENDING" "TIMED_OUT \<noteq> INVENTORY_RESERVED" "TIMED_OUT \<noteq> PAID" "TIMED_OUT \<noteq> ORDER_COMPLETED"
  "TIMED_OUT \<noteq> FAILED" "TIMED_OUT \<noteq> ROLLBACK_COMPLETED"
  "ROLLBACK_COMPLETED \<noteq> PENDING" "ROLLBACK_COMPLETED \<noteq> INVENTORY_RESERVED" "ROLLBACK_COMPLETED \<noteq> PAID"
  "ROLLBACK_COMPLETED \<noteq> ORDER_COMPLETED" "ROLLBACK_COMPLETED \<noteq> FAILED" "ROLLBACK_COMPLETED \<noteq> TIMED_OUT"
  by (simp_all add: saga_status_defs)

lemma decision_sel [simp]:
  "sd_outcome (decision oc st cmd) = oc" "sd_new_status (decision oc st cmd) = st"
  "sd_command (decision oc st cmd) = cmd"
  by (simp_all add: decision_def)

lemma decision_inject [simp]:
  "decision a b c = decision a' b' c' \<longleftrightarrow> a = a' \<and> b = b' \<and> c = c'"
  by (simp add: decision_def)

lemmas saga_table_defs = TRANSITIONS_def COD_TRANSITIONS_def LATE_RESOURCE_COMPENSATIONS_def
  KNOWN_EVENT_TYPES_def TERMINAL_STATES_def

text \<open>
  The whole machine as one relation: \<open>saga_arrow pm s e t c\<close> is an entry of the tables that
  applies to payment method \<open>pm\<close>. Under cash on delivery the entry of \<open>COD_TRANSITIONS\<close>
  shadows the card table's entry for the same key.
\<close>

inductive saga_arrow :: "string \<Rightarrow> string \<Rightarrow> string \<Rightarrow> string \<Rightarrow> string option \<Rightarrow> bool" where
  reserved_cod: "saga_arrow ''COD'' PENDING ''InventoryReserved'' ORDER_COMPLETED None"
| reserved_card: "pm \<noteq> ''COD'' \<Longrightarrow>
    saga_arrow pm PENDING ''InventoryReserved'' INVENTORY_RESERVED (Some ''ChargePaymentCommand'')"
| charged: "saga_arrow pm INVENTORY_RESERVED ''PaymentCharged'' PAID (Some ''ConfirmOrderCommand'')"
| completed: "saga_arrow pm PAID ''OrderCompleted'' ORDER_COMPLETED None"
| reservation_failed:
    "saga_arrow pm PENDING ''InventoryReservationFailed'' ROLLBACK_COMPLETED (Some ''OrderFailed'')"
| declined: "saga_arrow pm INVENTORY_RESERVED ''PaymentFailed'' FAILED (Some ''ReleaseInventoryCommand'')"
| failed_released: "saga_arrow pm FAILED ''InventoryReleased'' ROLLBACK_COMPLETED None"
| reaped_released: "saga_arrow pm TIMED_OUT ''InventoryReleased'' ROLLBACK_COMPLETED None"
| paid_refunded: "saga_arrow pm PAID ''PaymentRefunded'' ROLLBACK_COMPLETED None"
| reaped_refunded: "saga_arrow pm TIMED_OUT ''PaymentRefunded'' ROLLBACK_COMPLETED None"

lemma COD_TRANSITIONS_arrow:
  "map_of COD_TRANSITIONS (s, e) = Some (t, c) \<Longrightarrow> saga_arrow ''COD'' s e t c"
  by (drule map_of_SomeD) (auto simp: COD_TRANSITIONS_def intro: saga_arrow.intros)

lemma TRANSITIONS_arrow:
  assumes "map_of TRANSITIONS (s, e) = Some (t, c)"
    and "pm = ''COD'' \<Longrightarrow> map_of COD_TRANSITIONS (s, e) = None"
  shows "saga_arrow pm s e t c"
proof -
  from assms(1) have "((s, e), (t, c)) \<in> set TRANSITIONS" by (rule map_of_SomeD)
  moreover from assms(2) have "(s, e) = (PENDING, ''InventoryReserved'') \<Longrightarrow> pm \<noteq> ''COD''"
    by (auto simp: COD_TRANSITIONS_def)
  ultimately show ?thesis
    by (auto simp: TRANSITIONS_def simp del: list.inject intro: saga_arrow.intros)
qed

lemma resolve_APPLY_imp_arrow:
  assumes "resolve s e pm = decision APPLY (Some t) c"
  shows "saga_arrow pm s e t c"
  using assms COD_TRANSITIONS_arrow TRANSITIONS_arrow
  by (auto simp: resolve_def split: if_splits option.splits)

lemma arrow_imp_resolve_APPLY:
  "saga_arrow pm s e t c \<Longrightarrow> resolve s e pm = decision APPLY (Some t) c"
  by (induction rule: saga_arrow.induct) (simp_all add: resolve_def saga_table_defs)

lemma resolve_APPLY_status:
  "sd_outcome (resolve s e pm) = APPLY \<Longrightarrow>
     \<exists>t c. resolve s e pm = decision APPLY (Some t) c"
  by (auto simp: resolve_def split: if_splits option.splits)

text \<open>Stock that is reserved for a saga that no longer waits for it.\<close>

definition late_reservation :: "string \<Rightarrow> string \<Rightarrow> bool" where
  "late_reservation s e \<longleftrightarrow> e = ''InventoryReserved'' \<and> s \<in> {TIMED_OUT, FAILED, ROLLBACK_COMPLETED}"

lemma late_keys: "fst ` set LATE_RESOURCE_COMPENSATIONS = {(s, e). late_reservation s e}"
  unfolding LATE_RESOURCE_COMPENSATIONS_def late_reservation_def by auto

lemma late_values: "snd ` set LATE_RESOURCE_COMPENSATIONS = {''ReleaseInventoryCommand''}"
  unfolding LATE_RESOURCE_COMPENSATIONS_def by simp

lemma late_table:
  "map_of LATE_RESOURCE_COMPENSATIONS (s, e) =
     (if late_reservation s e then Some ''ReleaseInventoryCommand'' else None)"
proof (cases "map_of LATE_RESOURCE_COMPENSATIONS (s, e)")
  case None
  then have "(s, e) \<notin> fst ` set LATE_RESOURCE_COMPENSATIONS" by (simp only: map_of_eq_None_iff not_False_eq_True)
  then have "\<not> late_reservation s e" unfolding late_keys by simp
  with None show ?thesis by (simp only: if_False)
next
  case (Some c)
  then have "((s, e), c) \<in> set LATE_RESOURCE_COMPENSATIONS" by (rule map_of_SomeD)
  then have "(s, e) \<in> fst ` set LATE_RESOURCE_COMPENSATIONS" "c \<in> snd ` set LATE_RESOURCE_COMPENSATIONS"
    by force+
  then have "late_reservation s e" "c = ''ReleaseInventoryCommand''" unfolding late_keys late_values by simp_all
  with Some show ?thesis by (simp only: if_True)
qed

lemma no_arrow_tables:
  assumes "\<nexists>t c. saga_arrow pm s e t c"
  shows "pm = ''COD'' \<Longrightarrow> map_of COD_TRANSITIONS (s, e) = None" and "map_of TRANSITIONS (s, e) = None"
proof -
  show cod: "map_of COD_TRANSITIONS (s, e) = None" if "pm = ''COD''"
    using assms that COD_TRANSITIONS_arrow by (metis surj_pair not_None_eq)
  show "map_of TRANSITIONS (s, e) = None"
    using assms cod TRANSITIONS_arrow [of s e _ _ pm] by (metis surj_pair not_None_eq)
qed

lemma resolve_unknown: "e \<notin> set KNOWN_EVENT_TYPES \<Longrightarrow> resolve s e pm = decision UNKNOWN_EVENT None None"
  by (simp add: resolve_def)

lemma late_no_arrow: "saga_arrow pm s e t c \<Longrightarrow> \<not> late_reservation s e"
  by (induction rule: saga_arrow.induct) (simp_all add: late_reservation_def)

lemma resolve_no_arrow:
  assumes "e \<in> set KNOWN_EVENT_TYPES" and "\<nexists>t c. saga_arrow pm s e t c"
  shows "resolve s e pm = (if late_reservation s e then decision COMPENSATE None (Some ''ReleaseInventoryCommand'')
     else decision (if s \<in> set TERMINAL_STATES then LATE_DUPLICATE else OUT_OF_ORDER) None None)"
  using assms no_arrow_tables [OF assms(2)] by (simp add: resolve_def late_table)

lemma resolve_late:
  assumes "late_reservation s e"
  shows "resolve s e pm = decision COMPENSATE None (Some ''ReleaseInventoryCommand'')"
proof -
  have "e \<in> set KNOWN_EVENT_TYPES" using assms by (simp add: late_reservation_def KNOWN_EVENT_TYPES_def)
  moreover have "\<nexists>t c. saga_arrow pm s e t c" using assms late_no_arrow by blast
  ultimately show ?thesis using assms by (simp add: resolve_no_arrow)
qed

lemma resolve_other:
  "e \<in> set KNOWN_EVENT_TYPES \<and> \<not> late_reservation s e \<and> (\<nexists>t c. saga_arrow pm s e t c) \<Longrightarrow>
     resolve s e pm = decision (if s \<in> set TERMINAL_STATES then LATE_DUPLICATE else OUT_OF_ORDER) None None"
  by (simp add: resolve_no_arrow)

lemma arrow_unique: "saga_arrow pm s e t c \<Longrightarrow> saga_arrow pm s e t' c' \<Longrightarrow> t' = t \<and> c' = c"
  by (auto dest!: arrow_imp_resolve_APPLY)

section \<open>Properties\<close>

text \<open>
  \<open>resolve\<close>: the decision on every input. It applies exactly the transitions of the
  machine; a reservation that comes back after the saga has given up is compensated by a
  release; any other known event is a late duplicate in a terminal state and out of order
  elsewhere; an unknown event type is refused as such in every state.
\<close>

theorem resolve_total:
  "resolve s e pm =
     (if e \<notin> set KNOWN_EVENT_TYPES then decision UNKNOWN_EVENT None None
      else if late_reservation s e then decision COMPENSATE None (Some ''ReleaseInventoryCommand'')
      else if \<exists>t c. saga_arrow pm s e t c
        then decision APPLY (Some (fst (the_elem {(t, c). saga_arrow pm s e t c})))
               (snd (the_elem {(t, c). saga_arrow pm s e t c}))
      else decision (if s \<in> set TERMINAL_STATES then LATE_DUPLICATE else OUT_OF_ORDER) None None)"
proof (cases "e \<in> set KNOWN_EVENT_TYPES \<and> \<not> late_reservation s e \<and> (\<exists>t c. saga_arrow pm s e t c)")
  case True
  then obtain t c where a: "saga_arrow pm s e t c" by blast
  then have "{(t, c). saga_arrow pm s e t c} = {(t, c)}" using arrow_unique by auto
  with True a arrow_imp_resolve_APPLY [OF a] show ?thesis by auto
next
  case False
  then show ?thesis by (auto simp: resolve_unknown resolve_late resolve_no_arrow)
qed

end
