(* ===== verification/Seller_Orders.thy ===== *)
theory Seller_Orders
  imports Prelude
begin

text \<open>
  Seller orders: how one buyer's order is split per seller
  (\<open>services/order-saga/app/services/split_rules.py\<close>) and the cash-on-delivery lifecycle
  of each part (\<open>services/order-saga/app/services/cod_rules.py\<close>). Both modules are pure.
\<close>

section \<open>Statuses\<close>

datatype SellerOrderStatus =
    S_PENDING | S_INVENTORY_RESERVED | S_CONFIRMED | S_DISPATCHED | S_RTO_IN_TRANSIT
  | S_DELIVERED | S_SETTLED | S_RETURNED | S_CANCELLED

fun sos_value :: "SellerOrderStatus \<Rightarrow> string" where
  "sos_value S_PENDING = ''PENDING''"
| "sos_value S_INVENTORY_RESERVED = ''INVENTORY_RESERVED''"
| "sos_value S_CONFIRMED = ''CONFIRMED''"
| "sos_value S_DISPATCHED = ''DISPATCHED''"
| "sos_value S_RTO_IN_TRANSIT = ''RTO_IN_TRANSIT''"
| "sos_value S_DELIVERED = ''DELIVERED''"
| "sos_value S_SETTLED = ''SETTLED''"
| "sos_value S_RETURNED = ''RETURNED''"
| "sos_value S_CANCELLED = ''CANCELLED''"

definition sos_members :: "SellerOrderStatus list" where
  "sos_members = [S_PENDING, S_INVENTORY_RESERVED, S_CONFIRMED, S_DISPATCHED, S_RTO_IN_TRANSIT,
     S_DELIVERED, S_SETTLED, S_RETURNED, S_CANCELLED]"

text \<open>\<open>_as_status\<close>: the enum member with this value, or \<open>None\<close> for an unknown string.\<close>

definition as_status :: "string \<Rightarrow> SellerOrderStatus option" where
  "as_status v = find (\<lambda>s. sos_value s = v) sos_members"

definition PROGRESS :: "SellerOrderStatus \<Rightarrow> nat option" where
  "PROGRESS = map_of [(S_PENDING, 0), (S_INVENTORY_RESERVED, 1), (S_CONFIRMED, 2),
     (S_DISPATCHED, 3), (S_RTO_IN_TRANSIT, 4), (S_DELIVERED, 5), (S_SETTLED, 6)]"

definition ENDED_UNFAVOURABLY :: "SellerOrderStatus list" where
  "ENDED_UNFAVOURABLY = [S_CANCELLED, S_RETURNED]"

definition TERMINAL :: "SellerOrderStatus list" where
  "TERMINAL = [S_SETTLED, S_RETURNED, S_CANCELLED]"

section \<open>Splitting an order\<close>

text \<open>
  \<open>SplitError\<close> refuses the order; \<open>SplitCrash\<close> is an exception of another class that
  \<open>split_by_seller\<close> lets escape, raised by \<open>int(line.get("price_cents", 0))\<close>.
\<close>

datatype split_failure = SplitError string | SplitCrash

record plan_line =
  pl_product_id :: string
  pl_quantity :: int
  pl_price_cents :: int
  pl_line_total_cents :: int

record SellerOrderPlan =
  sp_seller_id :: string
  sp_lines :: "plan_line list"
  sp_subtotal_cents :: int

definition item_count :: "SellerOrderPlan \<Rightarrow> int" where
  "item_count p = sum_list (map pl_quantity (sp_lines p))"

definition normalise_items :: "json \<Rightarrow> json list" where
  "normalise_items items_payload =
     (let items = (if is_dict items_payload
                   then (case dict_get items_payload ''items'' of Some x \<Rightarrow> x | None \<Rightarrow> items_payload)
                   else items_payload);
          items = (case items of
                     JObj kvs \<Rightarrow>
                       JArr (map (\<lambda>(k, v). JObj [(''product_id'', JStr k), (''quantity'', v)]) kvs)
                   | _ \<Rightarrow> items)
      in case items of JArr xs \<Rightarrow> filter is_dict xs | _ \<Rightarrow> [])"

text \<open>The body of the loop for one line: the seller it belongs to and the line it adds.\<close>

definition split_line :: "json \<Rightarrow> split_failure + (string \<times> plan_line)" where
  "split_line line =
     (let seller_id = dict_get_null line ''seller_id''; product_id = dict_get_null line ''product_id'' in
      if \<not> truthy seller_id then
        Inl (SplitError (''line for product '' @ py_repr product_id @ '' carries no seller_id; a line nobody can be paid for cannot be shipped''))
      else if \<not> truthy product_id then Inl (SplitError ''line carries no product_id'')
      else
        case (Option.bind (dict_get line ''quantity'') py_int,
              Option.bind (dict_get line ''line_total_cents'') py_int) of
          (Some quantity, Some line_total) \<Rightarrow>
            if quantity \<le> 0 then
              Inl (SplitError (''line for product '' @ py_repr product_id @ '' has quantity '' @ show_int quantity))
            else if line_total < 0 then
              Inl (SplitError (''line for product '' @ py_repr product_id @ '' has a negative total''))
            else
              (case py_int (case dict_get line ''price_cents'' of Some v \<Rightarrow> v | None \<Rightarrow> JInt 0) of
                 None \<Rightarrow> Inl SplitCrash
               | Some price \<Rightarrow>
                   Inr (py_str seller_id,
                        \<lparr>pl_product_id = py_str product_id, pl_quantity = quantity,
                         pl_price_cents = price, pl_line_total_cents = line_total\<rparr>))
        | _ \<Rightarrow>
            Inl (SplitError (''line for product '' @ py_repr product_id
                   @ '' has no usable quantity or line_total_cents'')))"

fun split_lines :: "(string \<times> plan_line list) list \<Rightarrow> json list \<Rightarrow>
    split_failure + (string \<times> plan_line list) list" where
  "split_lines by_seller [] = Inr by_seller"
| "split_lines by_seller (line # items) =
     (case split_line line of
        Inl e \<Rightarrow> Inl e
      | Inr (seller_id, l) \<Rightarrow> split_lines (dict_append by_seller seller_id l) items)"

definition seller_plan :: "(string \<times> plan_line list) list \<Rightarrow> string \<Rightarrow> SellerOrderPlan" where
  "seller_plan by_seller seller_id =
     (let lines = sort_key pl_product_id
                    (case map_of by_seller seller_id of Some ls \<Rightarrow> ls | None \<Rightarrow> [])
      in \<lparr>sp_seller_id = seller_id, sp_lines = lines,
          sp_subtotal_cents = sum_list (map pl_line_total_cents lines)\<rparr>)"

definition split_by_seller :: "json \<Rightarrow> split_failure + SellerOrderPlan list" where
  "split_by_seller items_payload =
     (let items = normalise_items items_payload in
      if items = [] then Inl (SplitError ''order has no items to split'')
      else case split_lines [] items of
             Inl e \<Rightarrow> Inl e
           | Inr by_seller \<Rightarrow> Inr (map (seller_plan by_seller) (sort (map fst by_seller))))"

definition goods_subtotal_cents :: "SellerOrderPlan list \<Rightarrow> int" where
  "goods_subtotal_cents plans = sum_list (map sp_subtotal_cents plans)"

section \<open>The buyer-facing status\<close>

definition derive_order_status :: "string list \<Rightarrow> string option" where
  "derive_order_status child_statuses =
     (let statuses = map as_status child_statuses in
      if statuses = [] \<or> None \<in> set statuses then None
      else
        (let known = map the statuses;
             active = filter (\<lambda>s. s \<notin> set ENDED_UNFAVOURABLY) known
         in if active = [] then
              (if \<forall>s \<in> set known. s = S_CANCELLED then Some (sos_value S_CANCELLED)
               else Some (sos_value S_RETURNED))
            else map_option sos_value (min_key (\<lambda>s. the (PROGRESS s)) active)))"

definition is_order_complete :: "string list \<Rightarrow> bool" where
  "is_order_complete child_statuses =
     (let statuses = map as_status child_statuses in
      if statuses = [] \<or> None \<in> set statuses then False
      else (\<forall>s \<in> set statuses. the s \<in> set TERMINAL))"

definition line_json :: "plan_line \<Rightarrow> json" where
  "line_json l = JObj [(''product_id'', JStr (pl_product_id l)), (''quantity'', JInt (pl_quantity l)),
     (''price_cents'', JInt (pl_price_cents l)), (''line_total_cents'', JInt (pl_line_total_cents l))]"

definition build_seller_order_event ::
  "string \<Rightarrow> string \<Rightarrow> string \<Rightarrow> SellerOrderPlan \<Rightarrow> string \<Rightarrow> json" where
  "build_seller_order_event order_id seller_order_id user_id plan status =
     JObj [(''order_id'', JStr order_id), (''seller_order_id'', JStr seller_order_id),
       (''user_id'', JStr user_id), (''seller_id'', JStr (sp_seller_id plan)),
       (''status'', JStr status), (''subtotal_cents'', JInt (sp_subtotal_cents plan)),
       (''item_count'', JInt (item_count plan)), (''lines'', JArr (map line_json (sp_lines plan)))]"

section \<open>The cash-on-delivery lifecycle\<close>

datatype InventoryEffect = EFFECT_NONE | EFFECT_RELEASE | EFFECT_CONSUME

record Transition =
  tr_to :: SellerOrderStatus
  tr_event :: string
  tr_effect :: InventoryEffect
  tr_requires_reason :: bool

datatype cod_outcome = COD_OK | COD_INVALID | COD_NOT_ALLOWED

record cod_decision =
  cd_outcome :: cod_outcome
  cd_to :: "SellerOrderStatus option"
  cd_event :: "string option"
  cd_effect :: InventoryEffect
  cd_detail :: string

definition cod_ok :: "cod_decision \<Rightarrow> bool" where
  "cod_ok d \<longleftrightarrow> cd_outcome d = COD_OK"

definition cod_http_status :: "cod_decision \<Rightarrow> int" where
  "cod_http_status d = (if cd_outcome d = COD_INVALID then 422 else 409)"

definition transition ::
  "SellerOrderStatus \<Rightarrow> string \<Rightarrow> InventoryEffect \<Rightarrow> bool \<Rightarrow> Transition" where
  "transition to event effect rr =
     \<lparr>tr_to = to, tr_event = event, tr_effect = effect, tr_requires_reason = rr\<rparr>"

definition ACTIONS :: "(string \<times> (SellerOrderStatus \<times> Transition) list) list" where
  "ACTIONS = [
     (''confirm'', [(S_INVENTORY_RESERVED, transition S_CONFIRMED ''SellerOrderConfirmed'' EFFECT_NONE False)]),
     (''dispatch'', [(S_CONFIRMED, transition S_DISPATCHED ''SellerOrderDispatched'' EFFECT_NONE False)]),
     (''deliver'', [(S_DISPATCHED, transition S_DELIVERED ''SellerOrderDelivered'' EFFECT_CONSUME False)]),
     (''settle'', [(S_DELIVERED, transition S_SETTLED ''SellerOrderSettled'' EFFECT_NONE False)]),
     (''mark_rto'', [(S_DISPATCHED, transition S_RTO_IN_TRANSIT ''SellerOrderRtoStarted'' EFFECT_NONE True)]),
     (''complete_return'', [(S_RTO_IN_TRANSIT, transition S_RETURNED ''SellerOrderReturned'' EFFECT_RELEASE False)]),
     (''cancel'', [(S_PENDING, transition S_CANCELLED ''SellerOrderCancelled'' EFFECT_RELEASE True),
                   (S_INVENTORY_RESERVED, transition S_CANCELLED ''SellerOrderCancelled'' EFFECT_RELEASE True),
                   (S_CONFIRMED, transition S_CANCELLED ''SellerOrderCancelled'' EFFECT_RELEASE True)])]"

definition SAGA_STATES_ENDING_THE_ORDER :: "string list" where
  "SAGA_STATES_ENDING_THE_ORDER = [''FAILED'', ''TIMED_OUT'', ''ROLLBACK_COMPLETED'']"

definition action_table :: "string \<Rightarrow> (SellerOrderStatus \<times> Transition) list" where
  "action_table action = (case map_of ACTIONS action of Some t \<Rightarrow> t | None \<Rightarrow> [])"

definition cancellable_child_statuses :: "SellerOrderStatus list" where
  "cancellable_child_statuses = map fst (action_table ''cancel'')"

definition children_to_cancel :: "string \<Rightarrow> string list \<Rightarrow> nat list" where
  "children_to_cancel saga_status child_statuses =
     (if saga_status \<notin> set SAGA_STATES_ENDING_THE_ORDER then []
      else map fst (filter (\<lambda>(index, status).
                       case as_status status of
                         None \<Rightarrow> False
                       | Some resolved \<Rightarrow> resolved \<in> set cancellable_child_statuses)
                     (enumerate 0 child_statuses)))"

definition cancellation_reason :: "string \<Rightarrow> string" where
  "cancellation_reason saga_status = ''order '' @ replace_char (CHR ''_'') (CHR '' '') (py_lower saga_status)"

definition refusal :: "cod_outcome \<Rightarrow> string \<Rightarrow> cod_decision" where
  "refusal oc detail = \<lparr>cd_outcome = oc, cd_to = None, cd_event = None, cd_effect = EFFECT_NONE,
     cd_detail = detail\<rparr>"

definition plan_transition :: "string \<Rightarrow> string \<Rightarrow> string \<Rightarrow> cod_decision" where
  "plan_transition action status reason =
     (case map_of ACTIONS action of
        None \<Rightarrow> refusal COD_INVALID (''unknown action '' @ repr_str action)
      | Some table \<Rightarrow>
          (case as_status status of
             None \<Rightarrow> refusal COD_NOT_ALLOWED (''unrecognised seller order status '' @ repr_str status)
           | Some current \<Rightarrow>
               (case map_of table current of
                  None \<Rightarrow>
                    (let allowed = join_with '', '' (sort (map (sos_value \<circ> fst) table)) in
                     refusal COD_NOT_ALLOWED
                       (''cannot '' @ action @ '' a seller order that is '' @ sos_value current
                          @ ''; allowed from: '' @ (if allowed = [] then ''no state'' else allowed)))
                | Some tr \<Rightarrow>
                    if tr_requires_reason tr \<and> py_strip reason = []
                    then refusal COD_INVALID (action @ '' requires a reason'')
                    else \<lparr>cd_outcome = COD_OK, cd_to = Some (tr_to tr), cd_event = Some (tr_event tr),
                          cd_effect = tr_effect tr, cd_detail = py_strip reason\<rparr>)))"

definition is_terminal :: "string \<Rightarrow> bool" where
  "is_terminal status \<longleftrightarrow> (case as_status status of None \<Rightarrow> False | Some s \<Rightarrow> s \<in> set TERMINAL)"

definition may_cancel :: "string \<Rightarrow> bool" where
  "may_cancel status \<longleftrightarrow>
     (case as_status status of None \<Rightarrow> False | Some s \<Rightarrow> s \<in> set (map fst (action_table ''cancel'')))"

definition reachable_statuses :: "string \<Rightarrow> SellerOrderStatus set" where
  "reachable_statuses status =
     set (concat (map (\<lambda>(a, table). [tr_to t. (frm, t) \<leftarrow> table, Some frm = as_status status]) ACTIONS))"

definition actions_from :: "string \<Rightarrow> string set" where
  "actions_from status =
     set (concat (map (\<lambda>(a, table). if \<exists>frm \<in> set (map fst table). Some frm = as_status status
                                    then [a] else []) ACTIONS))"

section \<open>What the split computes\<close>

text \<open>
  The reference definition: group the parsed lines by seller, sellers in order, each seller's
  lines in product order. \<open>split_lines\<close> computes the same groups with one pass and a dict.
\<close>

definition seller_lines :: "(string \<times> plan_line) list \<Rightarrow> string \<Rightarrow> plan_line list" where
  "seller_lines ls s = map snd (filter (\<lambda>x. fst x = s) ls)"

definition split_spec :: "(string \<times> plan_line) list \<Rightarrow> SellerOrderPlan list" where
  "split_spec ls =
     map (\<lambda>s. \<lparr>sp_seller_id = s, sp_lines = sort_key pl_product_id (seller_lines ls s),
               sp_subtotal_cents = sum_list (map pl_line_total_cents (seller_lines ls s))\<rparr>)
       (sorted_list_of_set (fst ` set ls))"

definition group_lines ::
  "(string \<times> plan_line list) list \<Rightarrow> (string \<times> plan_line) list \<Rightarrow> (string \<times> plan_line list) list" where
  "group_lines acc ls = foldl (\<lambda>d x. dict_append d (fst x) (snd x)) acc ls"

definition parses :: "json list \<Rightarrow> (string \<times> plan_line) list \<Rightarrow> bool" where
  "parses items ls \<longleftrightarrow> list_all2 (\<lambda>i l. split_line i = Inr l) items ls"

lemma parses_simps [simp]:
  "parses [] ls \<longleftrightarrow> ls = []"
  "parses (i # is) ls \<longleftrightarrow> (\<exists>l ls'. ls = l # ls' \<and> split_line i = Inr l \<and> parses is ls')"
  by (auto simp: parses_def list_all2_Cons1)

lemma parses_unique: "parses items ls \<Longrightarrow> parses items ls' \<Longrightarrow> ls' = ls"
  by (induction items arbitrary: ls ls') auto

lemma parses_length: "parses items ls \<Longrightarrow> length ls = length items"
  by (simp add: parses_def list_all2_lengthD)

lemma split_lines_Inr:
  "split_lines acc items = Inr d \<longleftrightarrow> (\<exists>ls. parses items ls \<and> d = group_lines acc ls)"
proof (induction items arbitrary: acc)
  case Nil
  then show ?case by (auto simp: group_lines_def)
next
  case (Cons x xs)
  show ?case
  proof (cases "split_line x")
    case (Inl e)
    then show ?thesis by simp
  next
    case (Inr p)
    obtain s l where "p = (s, l)" by (cases p)
    with Inr Cons [of "dict_append acc s l"] show ?thesis
      by (auto simp: group_lines_def)
  qed
qed

lemma group_lines_keys:
  "fst ` set (group_lines acc ls) = fst ` set acc \<union> fst ` set ls"
proof (induction ls arbitrary: acc)
  case Nil
  then show ?case by (simp add: group_lines_def)
next
  case (Cons x ls)
  have "fst ` set (dict_append acc (fst x) (snd x)) = insert (fst x) (fst ` set acc)"
    using arg_cong [OF keys_dict_append [of acc "fst x" "snd x"], of set] by auto
  with Cons [of "dict_append acc (fst x) (snd x)"] show ?case
    by (auto simp: group_lines_def)
qed

lemma group_lines_distinct:
  "distinct (map fst (group_lines acc ls)) = distinct (map fst acc)"
  by (induction ls arbitrary: acc) (simp_all add: group_lines_def)

lemma group_lines_lookup:
  "(case map_of (group_lines acc ls) s of Some xs \<Rightarrow> xs | None \<Rightarrow> [])
     = (case map_of acc s of Some xs \<Rightarrow> xs | None \<Rightarrow> []) @ seller_lines ls s"
proof (induction ls arbitrary: acc)
  case Nil
  then show ?case by (simp add: group_lines_def seller_lines_def)
next
  case (Cons x ls)
  have "group_lines acc (x # ls) = group_lines (dict_append acc (fst x) (snd x)) ls"
    by (simp add: group_lines_def)
  then show ?case
    using Cons [of "dict_append acc (fst x) (snd x)"]
    by (auto simp: lookup_dict_append seller_lines_def)
qed

lemma seller_plans_spec:
  "map (seller_plan (group_lines [] ls)) (sort (map fst (group_lines [] ls))) = split_spec ls"
proof -
  have "distinct (map fst (group_lines [] ls))" by (simp add: group_lines_distinct)
  moreover have "set (map fst (group_lines [] ls)) = fst ` set ls"
    using group_lines_keys [of "[]" ls] by simp
  ultimately have "sort (map fst (group_lines [] ls)) = sorted_list_of_set (fst ` set ls)"
    by (simp only: sort_distinct)
  moreover have "seller_plan (group_lines [] ls) s =
      \<lparr>sp_seller_id = s, sp_lines = sort_key pl_product_id (seller_lines ls s),
       sp_subtotal_cents = sum_list (map pl_line_total_cents (seller_lines ls s))\<rparr>" for s
    using group_lines_lookup [of "[]" ls s] by (simp add: seller_plan_def Let_def)
  ultimately show ?thesis by (simp add: split_spec_def)
qed

lemma split_by_seller_spec:
  "split_by_seller p = Inr plans \<longleftrightarrow>
     (\<exists>ls. ls \<noteq> [] \<and> parses (normalise_items p) ls \<and> plans = split_spec ls)"
proof (cases "split_lines [] (normalise_items p)")
  case (Inl e)
  then have "\<not> (\<exists>ls. parses (normalise_items p) ls)"
    using split_lines_Inr [of "[]" "normalise_items p"] by auto
  with Inl show ?thesis by (simp add: split_by_seller_def Let_def)
next
  case (Inr d)
  then obtain ls where ls: "parses (normalise_items p) ls" "d = group_lines [] ls"
    using split_lines_Inr by blast
  have "normalise_items p = [] \<longleftrightarrow> ls = []" using parses_length [OF ls(1)] by auto
  then have "split_by_seller p = Inr plans \<longleftrightarrow> ls \<noteq> [] \<and> plans = split_spec ls"
    using Inr ls(2) by (auto simp: split_by_seller_def Let_def seller_plans_spec)
  then show ?thesis using ls(1) parses_unique by blast
qed

lemma split_spec_conserves:
  "goods_subtotal_cents (split_spec ls) = sum_list (map (pl_line_total_cents \<circ> snd) ls)"
proof -
  have "goods_subtotal_cents (split_spec ls)
      = sum_list (map (\<lambda>s. sum_list (map (pl_line_total_cents \<circ> snd) (filter (\<lambda>x. fst x = s) ls)))
          (sorted_list_of_set (fst ` set ls)))"
    by (simp add: goods_subtotal_cents_def split_spec_def seller_lines_def o_def)
  also have "\<dots> = sum_list (map (pl_line_total_cents \<circ> snd) ls)"
    by (rule sum_list_group_by) auto
  finally show ?thesis .
qed

lemma split_spec_perm:
  assumes "mset ls = mset ls'" and "\<And>s. distinct (map pl_product_id (seller_lines ls s))"
  shows "split_spec ls = split_spec ls'"
proof -
  have m: "mset (seller_lines ls s) = mset (seller_lines ls' s)" for s
    using assms(1) by (simp add: seller_lines_def mset_filter)
  have "sort_key pl_product_id (seller_lines ls s) = sort_key pl_product_id (seller_lines ls' s)" for s
    by (rule sort_key_mset_eq [OF m assms(2)])
  moreover have "sum_list (map pl_line_total_cents (seller_lines ls s))
      = sum_list (map pl_line_total_cents (seller_lines ls' s))" for s
    using m [of s] by (metis mset_map sum_mset_sum_list)
  moreover have "set ls = set ls'" using assms(1) by (rule mset_eq_setD)
  ultimately show ?thesis by (simp add: split_spec_def)
qed

section \<open>The lifecycle as a relation\<close>

lemma as_status_value [simp]: "as_status (sos_value s) = Some s"
  by (cases s) (simp_all add: as_status_def sos_members_def)

lemma as_status_Some: "as_status v = Some s \<longleftrightarrow> v = sos_value s"
proof
  assume "as_status v = Some s"
  then show "v = sos_value s" unfolding as_status_def by (auto dest: find_SomeD)
qed simp

lemma sos_value_inject [simp]: "sos_value s = sos_value t \<longleftrightarrow> s = t"
  by (metis as_status_value option.inject)

text \<open>One row of \<open>ACTIONS\<close>: action, source, target, event, stock effect, needs a reason.\<close>

inductive cod_arrow :: "string \<Rightarrow> SellerOrderStatus \<Rightarrow> SellerOrderStatus \<Rightarrow> string
    \<Rightarrow> InventoryEffect \<Rightarrow> bool \<Rightarrow> bool" where
  confirm: "cod_arrow ''confirm'' S_INVENTORY_RESERVED S_CONFIRMED ''SellerOrderConfirmed'' EFFECT_NONE False"
| dispatch: "cod_arrow ''dispatch'' S_CONFIRMED S_DISPATCHED ''SellerOrderDispatched'' EFFECT_NONE False"
| deliver: "cod_arrow ''deliver'' S_DISPATCHED S_DELIVERED ''SellerOrderDelivered'' EFFECT_CONSUME False"
| settle: "cod_arrow ''settle'' S_DELIVERED S_SETTLED ''SellerOrderSettled'' EFFECT_NONE False"
| mark_rto: "cod_arrow ''mark_rto'' S_DISPATCHED S_RTO_IN_TRANSIT ''SellerOrderRtoStarted'' EFFECT_NONE True"
| complete_return:
    "cod_arrow ''complete_return'' S_RTO_IN_TRANSIT S_RETURNED ''SellerOrderReturned'' EFFECT_RELEASE False"
| cancel_pending:
    "cod_arrow ''cancel'' S_PENDING S_CANCELLED ''SellerOrderCancelled'' EFFECT_RELEASE True"
| cancel_reserved:
    "cod_arrow ''cancel'' S_INVENTORY_RESERVED S_CANCELLED ''SellerOrderCancelled'' EFFECT_RELEASE True"
| cancel_confirmed:
    "cod_arrow ''cancel'' S_CONFIRMED S_CANCELLED ''SellerOrderCancelled'' EFFECT_RELEASE True"

inductive_cases cod_arrow_from: "cod_arrow a s t ev eff rr"

lemma transition_sel [simp]:
  "tr_to (transition t e f r) = t" "tr_event (transition t e f r) = e"
  "tr_effect (transition t e f r) = f" "tr_requires_reason (transition t e f r) = r"
  by (simp_all add: transition_def)

lemma ACTIONS_arrow:
  assumes "map_of ACTIONS action = Some table" and "map_of table s = Some tr"
  shows "cod_arrow action s (tr_to tr) (tr_event tr) (tr_effect tr) (tr_requires_reason tr)"
proof -
  from assms have "(action, table) \<in> set ACTIONS" and "(s, tr) \<in> set table"
    by (auto dest: map_of_SomeD)
  then show ?thesis
    by (auto simp: ACTIONS_def intro!: cod_arrow.intros)
qed

lemma arrow_ACTIONS:
  assumes "cod_arrow action s t ev eff rr"
  shows "\<exists>table. map_of ACTIONS action = Some table \<and> map_of table s = Some (transition t ev eff rr)"
  using assms by (induction rule: cod_arrow.induct) (auto simp: ACTIONS_def)

lemma refusal_sel [simp]:
  "cd_outcome (refusal oc d) = oc" "cd_to (refusal oc d) = None"
  by (simp_all add: refusal_def)

lemma plan_transition_ok:
  "plan_transition action status reason =
      \<lparr>cd_outcome = COD_OK, cd_to = to, cd_event = ev, cd_effect = eff, cd_detail = det\<rparr> \<longleftrightarrow>
   (\<exists>s t e rr. status = sos_value s \<and> cod_arrow action s t e eff rr \<and> to = Some t \<and> ev = Some e \<and>
      (rr \<longrightarrow> py_strip reason \<noteq> []) \<and> det = py_strip reason)" (is "?plan \<longleftrightarrow> ?arrow")
proof
  assume plan: ?plan
  then have ok: "cd_outcome (plan_transition action status reason) = COD_OK" by simp
  then obtain table where table: "map_of ACTIONS action = Some table"
    by (cases "map_of ACTIONS action") (simp_all add: plan_transition_def)
  with ok obtain s where s: "as_status status = Some s"
    by (cases "as_status status") (simp_all add: plan_transition_def)
  with ok table obtain tr where tr: "map_of table s = Some tr"
    by (cases "map_of table s") (simp_all add: plan_transition_def Let_def)
  with ok table s have rr: "\<not> (tr_requires_reason tr \<and> py_strip reason = [])"
    by (simp add: plan_transition_def split: if_split_asm)
  with plan table s tr have "to = Some (tr_to tr)" "ev = Some (tr_event tr)" "eff = tr_effect tr"
    "det = py_strip reason"
    by (simp_all add: plan_transition_def)
  with ACTIONS_arrow [OF table tr] rr s show ?arrow by (auto simp: as_status_Some)
next
  assume ?arrow
  then obtain s t e rr where a: "status = sos_value s" "cod_arrow action s t e eff rr" "to = Some t"
      "ev = Some e" "rr \<longrightarrow> py_strip reason \<noteq> []" "det = py_strip reason"
    by blast
  from arrow_ACTIONS [OF a(2)] obtain table where
    "map_of ACTIONS action = Some table" "map_of table s = Some (transition t e eff rr)"
    by blast
  with a show ?plan by (cases rr) (simp_all add: plan_transition_def)
qed

lemma plan_transition_okD:
  assumes "cod_ok (plan_transition action status reason)"
  shows "\<exists>s t e eff rr. status = sos_value s \<and> cod_arrow action s t e eff rr \<and>
    (rr \<longrightarrow> py_strip reason \<noteq> []) \<and> plan_transition action status reason =
      \<lparr>cd_outcome = COD_OK, cd_to = Some t, cd_event = Some e, cd_effect = eff, cd_detail = py_strip reason\<rparr>"
proof -
  let ?d = "plan_transition action status reason"
  have eq: "?d = \<lparr>cd_outcome = COD_OK, cd_to = cd_to ?d, cd_event = cd_event ?d, cd_effect = cd_effect ?d,
      cd_detail = cd_detail ?d\<rparr>"
    using assms by (cases ?d) (simp add: cod_ok_def)
  from iffD1 [OF plan_transition_ok eq]
  obtain s t e rr where a: "status = sos_value s" "cod_arrow action s t e (cd_effect ?d) rr"
      "cd_to ?d = Some t" "cd_event ?d = Some e" "rr \<longrightarrow> py_strip reason \<noteq> []"
      "cd_detail ?d = py_strip reason"
    by blast
  moreover have "?d = \<lparr>cd_outcome = COD_OK, cd_to = Some t, cd_event = Some e,
      cd_effect = cd_effect ?d, cd_detail = py_strip reason\<rparr>"
    using eq unfolding a(3,4,6) .
  ultimately show ?thesis by blast
qed

lemma nonterminal_arrow: "s \<notin> set TERMINAL \<Longrightarrow> \<exists>a t e f rr. cod_arrow a s t e f rr"
  by (cases s) (simp_all add: TERMINAL_def, (rule exI, rule exI, rule exI, rule exI, rule exI, rule cod_arrow.intros)+)

lemma terminal_iff_stuck:
  "s \<in> set TERMINAL \<longleftrightarrow> (\<forall>action reason. \<not> cod_ok (plan_transition action (sos_value s) reason))"
proof
  assume s: "s \<in> set TERMINAL"
  show "\<forall>action reason. \<not> cod_ok (plan_transition action (sos_value s) reason)"
  proof (intro allI notI)
    fix action reason
    assume "cod_ok (plan_transition action (sos_value s) reason)"
    from plan_transition_okD [OF this] obtain t e f rr where "cod_arrow action s t e f rr" by auto
    then show False using s by cases (simp_all add: TERMINAL_def)
  qed
next
  assume stuck: "\<forall>action reason. \<not> cod_ok (plan_transition action (sos_value s) reason)"
  have "\<not> cod_arrow action s t e f rr" for action t e f rr
  proof
    assume "cod_arrow action s t e f rr"
    then have "plan_transition action (sos_value s) ''x'' = \<lparr>cd_outcome = COD_OK, cd_to = Some t,
        cd_event = Some e, cd_effect = f, cd_detail = py_strip ''x''\<rparr>"
      by (subst plan_transition_ok) (auto simp: py_strip_def strip_by_def py_isspace_def)
    with stuck show False by (metis cod_ok_def cod_decision.select_convs(1))
  qed
  with nonterminal_arrow show "s \<in> set TERMINAL" by blast
qed

lemma plan_transition_invalid:
  "cd_outcome (plan_transition action status reason) = COD_INVALID \<longleftrightarrow>
     map_of ACTIONS action = None \<or>
     (\<exists>s t e f. status = sos_value s \<and> cod_arrow action s t e f True \<and> py_strip reason = [])"
proof (cases "map_of ACTIONS action")
  case None
  then show ?thesis by (simp add: plan_transition_def)
next
  case (Some table)
  have row: "(\<exists>t e f. cod_arrow action s t e f True) \<longleftrightarrow>
      (\<exists>tr. map_of table s = Some tr \<and> tr_requires_reason tr)" for s
    using Some ACTIONS_arrow [OF Some] arrow_ACTIONS by fastforce
  show ?thesis
  proof (cases "as_status status")
    case None
    then have "status \<noteq> sos_value s" for s by auto
    with Some None show ?thesis by (simp add: plan_transition_def)
  next
    case s: (Some s)
    then have st: "status = sos_value s" by (simp add: as_status_Some)
    have "cd_outcome (plan_transition action status reason) = COD_INVALID \<longleftrightarrow>
        (\<exists>tr. map_of table s = Some tr \<and> tr_requires_reason tr) \<and> py_strip reason = []"
      using Some s by (cases "map_of table s") (simp_all add: plan_transition_def Let_def)
    with row Some st show ?thesis by simp
  qed
qed

text \<open>How far along the lifecycle a status is; every arrow increases it.\<close>

fun cod_rank :: "SellerOrderStatus \<Rightarrow> nat" where
  "cod_rank S_PENDING = 0"
| "cod_rank S_INVENTORY_RESERVED = 1"
| "cod_rank S_CONFIRMED = 2"
| "cod_rank S_DISPATCHED = 3"
| "cod_rank S_RTO_IN_TRANSIT = 4"
| "cod_rank S_DELIVERED = 4"
| "cod_rank S_SETTLED = 5"
| "cod_rank S_RETURNED = 5"
| "cod_rank S_CANCELLED = 5"

lemma cod_arrow_rank: "cod_arrow a s t e f rr \<Longrightarrow> cod_rank s < cod_rank t"
  by (induction rule: cod_arrow.induct) auto

lemma cod_arrow_cancel: "cod_arrow a s t e f rr \<Longrightarrow> a = ''cancel'' \<longleftrightarrow> t = S_CANCELLED"
  by (induction rule: cod_arrow.induct) auto

lemma cod_rank_bound: "cod_rank s \<le> 5"
  by (cases s) auto

text \<open>
  A sequence of requested actions, each with a reason: a refused one leaves the status as it is,
  an accepted one moves it and applies its stock effect.
\<close>

fun cod_run :: "string \<Rightarrow> (string \<times> string) list \<Rightarrow> string \<times> InventoryEffect list" where
  "cod_run status [] = (status, [])"
| "cod_run status ((action, reason) # rest) =
     (let d = plan_transition action status reason in
      if cod_ok d then
        (let (final, effects) = cod_run (sos_value (the (cd_to d))) rest
         in (final, (if cd_effect d = EFFECT_NONE then [] else [cd_effect d]) @ effects))
      else cod_run status rest)"

text \<open>The stock effects a run that starts before dispatch has had when it is in a status.\<close>

fun effects_at :: "SellerOrderStatus \<Rightarrow> InventoryEffect list" where
  "effects_at S_DELIVERED = [EFFECT_CONSUME]"
| "effects_at S_SETTLED = [EFFECT_CONSUME]"
| "effects_at S_RETURNED = [EFFECT_RELEASE]"
| "effects_at S_CANCELLED = [EFFECT_RELEASE]"
| "effects_at _ = []"

lemma cod_arrow_effects:
  "cod_arrow a s t e f rr \<Longrightarrow> effects_at t = effects_at s @ (if f = EFFECT_NONE then [] else [f])"
  by (induction rule: cod_arrow.induct) auto

lemma cod_run_effects:
  "cod_run (sos_value s) acts = (final, effs) \<Longrightarrow>
     \<exists>t. final = sos_value t \<and> effects_at t = effects_at s @ effs"
proof (induction acts arbitrary: s final effs)
  case Nil
  then show ?case by auto
next
  case (Cons ar acts)
  obtain action reason where ar: "ar = (action, reason)" by (cases ar)
  let ?d = "plan_transition action (sos_value s) reason"
  show ?case
  proof (cases "cod_ok ?d")
    case False
    with Cons ar show ?thesis by (simp add: Let_def)
  next
    case True
    then obtain t e f rr where arrow: "cod_arrow action s t e f rr"
      and d: "?d = \<lparr>cd_outcome = COD_OK, cd_to = Some t, cd_event = Some e, cd_effect = f,
        cd_detail = py_strip reason\<rparr>"
      using plan_transition_okD [OF True] by auto
    obtain effs' where run: "cod_run (sos_value t) acts = (final, effs')"
      and effs: "effs = (if f = EFFECT_NONE then [] else [f]) @ effs'"
      using Cons.prems True by (auto simp: ar d Let_def split: prod.splits)
    from Cons.IH [OF run] cod_arrow_effects [OF arrow] effs show ?thesis by auto
  qed
qed

section \<open>The derived status\<close>

definition least_advanced :: "SellerOrderStatus list \<Rightarrow> SellerOrderStatus \<Rightarrow> bool" where
  "least_advanced ss m \<longleftrightarrow>
     (if \<forall>s \<in> set ss. s \<in> set ENDED_UNFAVOURABLY
      then m = (if \<forall>s \<in> set ss. s = S_CANCELLED then S_CANCELLED else S_RETURNED)
      else m \<in> set ss \<and> m \<notin> set ENDED_UNFAVOURABLY \<and>
        (\<forall>s \<in> set ss. s \<notin> set ENDED_UNFAVOURABLY \<longrightarrow> the (PROGRESS m) \<le> the (PROGRESS s)))"

lemma PROGRESS_active: "s \<notin> set ENDED_UNFAVOURABLY \<Longrightarrow> PROGRESS s \<noteq> None"
  by (cases s) (simp_all add: ENDED_UNFAVOURABLY_def PROGRESS_def)

lemma PROGRESS_inj:
  "PROGRESS s = Some n \<Longrightarrow> PROGRESS t = Some n \<Longrightarrow> s = t"
  by (cases s; cases t) (simp_all add: PROGRESS_def)

lemma as_statuses_known: "None \<notin> set (map as_status cs) \<longleftrightarrow> (\<exists>ss. cs = map sos_value ss)"
proof
  assume "None \<notin> set (map as_status cs)"
  then have "cs = map sos_value (map (the \<circ> as_status) cs)"
    by (induction cs) (auto simp: as_status_Some [symmetric])
  then show "\<exists>ss. cs = map sos_value ss" by blast
qed (auto simp: o_def)

lemma derive_known:
  "ss \<noteq> [] \<Longrightarrow> derive_order_status (map sos_value ss) =
     (let active = filter (\<lambda>s. s \<notin> set ENDED_UNFAVOURABLY) ss in
      if active = [] then
        Some (sos_value (if \<forall>s \<in> set ss. s = S_CANCELLED then S_CANCELLED else S_RETURNED))
      else map_option sos_value (min_key (\<lambda>s. the (PROGRESS s)) active))"
  by (simp add: derive_order_status_def Let_def o_def image_iff)

lemma least_advanced_unique: "least_advanced ss m \<Longrightarrow> least_advanced ss m' \<Longrightarrow> m = m'"
proof (cases "\<forall>s \<in> set ss. s \<in> set ENDED_UNFAVOURABLY")
  case False
  assume "least_advanced ss m" "least_advanced ss m'"
  with False have *: "m \<notin> set ENDED_UNFAVOURABLY" "m' \<notin> set ENDED_UNFAVOURABLY"
      "the (PROGRESS m) = the (PROGRESS m')"
    by (simp_all add: least_advanced_def if_not_P order_antisym)
  with PROGRESS_active [of m] PROGRESS_active [of m'] show ?thesis by (auto intro: PROGRESS_inj)
qed (auto simp: least_advanced_def)

lemma derive_least_advanced:
  assumes "ss \<noteq> []"
  shows "\<exists>m. derive_order_status (map sos_value ss) = Some (sos_value m) \<and> least_advanced ss m"
proof (cases "filter (\<lambda>s. s \<notin> set ENDED_UNFAVOURABLY) ss = []")
  case True
  with assms show ?thesis by (auto simp: derive_known least_advanced_def filter_empty_conv)
next
  case False
  let ?act = "filter (\<lambda>s. s \<notin> set ENDED_UNFAVOURABLY) ss"
  from False obtain m where m: "min_key (\<lambda>s. the (PROGRESS s)) ?act = Some m"
    by (cases "min_key (\<lambda>s. the (PROGRESS s)) ?act") auto
  from min_key_least [OF m] False have "least_advanced ss m"
    by (auto simp: least_advanced_def filter_empty_conv)
  moreover from assms False m have "derive_order_status (map sos_value ss) = Some (sos_value m)"
    by (simp add: derive_known Let_def)
  ultimately show ?thesis by blast
qed

lemma sum_filter_mset_keys:
  "distinct ks \<Longrightarrow> fst ` set ls \<subseteq> set ks \<Longrightarrow>
     sum_list (map (\<lambda>s. filter_mset (\<lambda>x. fst x = s) (mset ls)) ks) = mset ls"
proof (rule multiset_eqI)
  fix x
  assume ks: "distinct ks" "fst ` set ls \<subseteq> set ks"
  have "count (sum_list (map (\<lambda>s. filter_mset (\<lambda>y. fst y = s) (mset ls)) ks)) x
      = (if fst x \<in> set ks then count (mset ls) x else 0)"
    using ks(1) by (induction ks) auto
  moreover have "count (mset ls) x = 0" if "fst x \<notin> set ks"
    using that ks(2) by (auto simp: count_eq_zero_iff)
  ultimately show "count (sum_list (map (\<lambda>s. filter_mset (\<lambda>y. fst y = s) (mset ls)) ks)) x
      = count (mset ls) x" by simp
qed

lemma seller_lines_mset:
  "mset (map (Pair s) (sort_key pl_product_id (seller_lines ls s))) = filter_mset (\<lambda>x. fst x = s) (mset ls)"
proof -
  have "map (Pair s) (seller_lines ls s) = filter (\<lambda>x. fst x = s) ls"
    by (auto simp: seller_lines_def intro!: map_idI)
  then have "image_mset (Pair s) (mset (seller_lines ls s)) = filter_mset (\<lambda>x. fst x = s) (mset ls)"
    by (simp flip: mset_map mset_filter)
  then show ?thesis by simp
qed

lemma split_spec_lines:
  "mset (concat (map (\<lambda>q. map (Pair (sp_seller_id q)) (sp_lines q)) (split_spec ls))) = mset ls"
proof -
  have "mset (concat (map (\<lambda>q. map (Pair (sp_seller_id q)) (sp_lines q)) (split_spec ls)))
      = sum_list (map (\<lambda>s. mset (map (Pair s) (sort_key pl_product_id (seller_lines ls s))))
          (sorted_list_of_set (fst ` set ls)))"
    by (simp add: split_spec_def mset_concat o_def)
  also have "\<dots> = mset ls"
    by (simp only: seller_lines_mset) (rule sum_filter_mset_keys; simp)
  finally show ?thesis .
qed

lemma split_spec_plan:
  assumes "q \<in> set (split_spec ls)"
  shows "sp_lines q \<noteq> [] \<and> sp_subtotal_cents q = sum_list (map pl_line_total_cents (sp_lines q))"
proof -
  from assms obtain s where s: "s \<in> fst ` set ls"
      "q = \<lparr>sp_seller_id = s, sp_lines = sort_key pl_product_id (seller_lines ls s),
            sp_subtotal_cents = sum_list (map pl_line_total_cents (seller_lines ls s))\<rparr>"
    by (auto simp: split_spec_def)
  then have "seller_lines ls s \<noteq> []" by (auto simp: seller_lines_def filter_empty_conv)
  then have "set (sort_key pl_product_id (seller_lines ls s)) \<noteq> {}" by simp
  then show ?thesis using s(2) by (auto simp del: set_sort)
qed

section \<open>Properties\<close>

text \<open>
  Property C1 (\<open>split_by_seller\<close>): an order that splits is split completely and exactly. The
  plans are one per seller in strictly increasing seller order, every input line is in exactly
  one plan, and the seller subtotals add up to the line totals of the input to the last minor
  unit.
\<close>

theorem split_conserves:
  assumes "split_by_seller p = Inr plans"
  shows "\<exists>ls. parses (normalise_items p) ls \<and>
     sorted_wrt (<) (map sp_seller_id plans) \<and>
     mset (concat (map (\<lambda>q. map (Pair (sp_seller_id q)) (sp_lines q)) plans)) = mset ls \<and>
     (\<forall>q \<in> set plans. sp_lines q \<noteq> [] \<and>
        sp_subtotal_cents q = sum_list (map pl_line_total_cents (sp_lines q))) \<and>
     goods_subtotal_cents plans = sum_list (map (pl_line_total_cents \<circ> snd) ls)"
proof -
  from assms obtain ls where ls: "parses (normalise_items p) ls" "plans = split_spec ls"
    using split_by_seller_spec by blast
  moreover have "sorted_wrt (<) (map sp_seller_id (split_spec ls))"
    by (simp add: split_spec_def o_def)
  ultimately show ?thesis
    using split_spec_conserves split_spec_lines split_spec_plan by blast
qed

lemmas split_eval = split_by_seller_def normalise_items_def split_line_def seller_plan_def
  dict_get_null_def

theorem split_conserves_witness:
  "\<exists>plans ls. split_by_seller (JArr [
      JObj [(''product_id'', JStr ''b''), (''seller_id'', JStr ''s2''), (''quantity'', JInt 2), (''line_total_cents'', JInt 700)],
      JObj [(''product_id'', JStr ''a''), (''seller_id'', JStr ''s1''), (''quantity'', JInt 1), (''line_total_cents'', JInt 150)]])
     = Inr plans \<and> map sp_seller_id plans = [''s1'', ''s2''] \<and> length ls = 2 \<and>
     goods_subtotal_cents plans = sum_list (map (pl_line_total_cents \<circ> snd) (ls :: (string \<times> plan_line) list))"
proof -
  let ?p = "JArr [
      JObj [(''product_id'', JStr ''b''), (''seller_id'', JStr ''s2''), (''quantity'', JInt 2), (''line_total_cents'', JInt 700)],
      JObj [(''product_id'', JStr ''a''), (''seller_id'', JStr ''s1''), (''quantity'', JInt 1), (''line_total_cents'', JInt 150)]]"
  obtain plans where p: "split_by_seller ?p = Inr plans" "map sp_seller_id plans = [''s1'', ''s2'']"
    by (simp add: split_eval)
  from split_conserves [OF p(1)] obtain ls where
    ls: "parses (normalise_items ?p) ls" "goods_subtotal_cents plans = sum_list (map (pl_line_total_cents \<circ> snd) ls)"
    by blast
  from ls(1) have "length ls = 2" using parses_length [OF ls(1)] by (simp add: normalise_items_def)
  with p ls(2) show ?thesis by (intro exI conjI)
qed

text \<open>
  \<open>split_by_seller\<close>: the split does not depend on the order of the cart's lines,
  so re-running it on a reordered payload gives the same seller orders. The one assumption is
  that no seller has two lines of the same product, whose relative order would then show.
\<close>

theorem split_order_irrelevant:
  assumes "split_by_seller (JArr items) = Inr plans" and "mset items' = mset items"
    and "\<forall>q \<in> set plans. distinct (map pl_product_id (sp_lines q))"
  shows "split_by_seller (JArr items') = Inr plans"
proof -
  from assms(1) obtain ls where ls: "ls \<noteq> []" "parses (filter is_dict items) ls" "plans = split_spec ls"
    using split_by_seller_spec [of "JArr items" plans] by (auto simp: normalise_items_def)
  have "mset (filter is_dict items') = mset (filter is_dict items)"
    using assms(2) by (simp only: mset_filter)
  then obtain ls' where ls': "parses (filter is_dict items') ls'" "mset ls' = mset ls"
    using ls(2) list_all2_reorder_left_invariance unfolding parses_def by metis
  have "distinct (map pl_product_id (seller_lines ls s))" for s
  proof (cases "s \<in> fst ` set ls")
    case True
    then have "distinct (map pl_product_id (sort_key pl_product_id (seller_lines ls s)))"
      using assms(3) by (auto simp: ls(3) split_spec_def)
    then show ?thesis by (metis mset_map mset_sort mset_eq_imp_distinct_iff)
  next
    case False
    then have "filter (\<lambda>x. fst x = s) ls = []" by (auto simp: filter_empty_conv)
    then show ?thesis by (simp add: seller_lines_def)
  qed
  then have "split_spec ls' = plans" using split_spec_perm [of ls ls'] ls'(2) ls(3) by simp
  moreover have "ls' \<noteq> []" using ls'(2) ls(1) by auto
  ultimately show ?thesis using ls'(1) by (auto simp: split_by_seller_spec normalise_items_def)
qed

theorem split_order_irrelevant_witness:
  "\<exists>plans. split_by_seller (JArr [
      JObj [(''product_id'', JStr ''a''), (''seller_id'', JStr ''s1''), (''quantity'', JInt 1), (''line_total_cents'', JInt 150)],
      JObj [(''product_id'', JStr ''b''), (''seller_id'', JStr ''s2''), (''quantity'', JInt 2), (''line_total_cents'', JInt 700)]])
     = Inr plans \<and> length plans = 2"
proof -
  let ?a = "JObj [(''product_id'', JStr ''a''), (''seller_id'', JStr ''s1''), (''quantity'', JInt 1), (''line_total_cents'', JInt 150)]"
  let ?b = "JObj [(''product_id'', JStr ''b''), (''seller_id'', JStr ''s2''), (''quantity'', JInt 2), (''line_total_cents'', JInt 700)]"
  obtain plans where p: "split_by_seller (JArr [?b, ?a]) = Inr plans" "length plans = 2"
      "\<forall>q \<in> set plans. distinct (map pl_product_id (sp_lines q))"
    by (simp add: split_eval)
  have "mset [?a, ?b] = mset [?b, ?a]" by simp
  from split_order_irrelevant [OF p(1) this p(3)] p(2) show ?thesis by blast
qed

text \<open>
  \<open>derive_order_status\<close>: the status a buyer sees is that of the least advanced
  seller order still under way; cancelled and returned ones count only when there is no other,
  and then the order shows as cancelled exactly when all of them are. There is a derived status
  exactly when there is a seller order and every status is known.
\<close>

theorem derive_order_status_least_advanced:
  "derive_order_status cs = Some v \<longleftrightarrow>
     (\<exists>ss m. ss \<noteq> [] \<and> cs = map sos_value ss \<and> v = sos_value m \<and> least_advanced ss m)"
proof
  assume d: "derive_order_status cs = Some v"
  then have "cs \<noteq> []" "None \<notin> set (map as_status cs)"
    by (auto simp: derive_order_status_def Let_def split: if_splits)
  then obtain ss where ss: "cs = map sos_value ss" "ss \<noteq> []" using as_statuses_known by auto
  with derive_least_advanced [of ss] d show
    "\<exists>ss m. ss \<noteq> [] \<and> cs = map sos_value ss \<and> v = sos_value m \<and> least_advanced ss m" by auto
next
  assume "\<exists>ss m. ss \<noteq> [] \<and> cs = map sos_value ss \<and> v = sos_value m \<and> least_advanced ss m"
  then obtain ss m where *: "ss \<noteq> []" "cs = map sos_value ss" "v = sos_value m" "least_advanced ss m"
    by blast
  from derive_least_advanced [OF *(1)] *(4) least_advanced_unique show "derive_order_status cs = Some v"
    unfolding *(2,3) by blast
qed

text \<open>
  \<open>is_order_complete\<close>, \<open>plan_transition\<close>: an order is complete exactly when it has
  seller orders, all of known status, and no action with whatever reason would be accepted for
  any of them. So the terminal statuses are those the action table leaves no way out of.
\<close>

theorem complete_iff_no_action_left:
  "is_order_complete cs \<longleftrightarrow> cs \<noteq> [] \<and>
     (\<forall>c \<in> set cs. as_status c \<noteq> None \<and>
        (\<forall>action reason. \<not> cod_ok (plan_transition action c reason)))"
proof -
  have "s \<in> set TERMINAL \<longleftrightarrow> (\<forall>action reason. \<not> cod_ok (plan_transition action (sos_value s) reason))" for s
    by (rule terminal_iff_stuck)
  then have "as_status c \<noteq> None \<and> the (as_status c) \<in> set TERMINAL \<longleftrightarrow> as_status c \<noteq> None \<and>
        (\<forall>action reason. \<not> cod_ok (plan_transition action c reason))" for c
    by (cases "as_status c") (simp_all add: as_status_Some)
  moreover have "is_order_complete cs \<longleftrightarrow> cs \<noteq> [] \<and>
      (\<forall>c \<in> set cs. as_status c \<noteq> None \<and> the (as_status c) \<in> set TERMINAL)"
  proof -
    have "None \<in> set (map as_status cs) \<longleftrightarrow> (\<exists>c \<in> set cs. as_status c = None)"
      by (simp add: image_iff eq_commute [of None])
    moreover have "(\<forall>s \<in> set (map as_status cs). the s \<in> set TERMINAL) \<longleftrightarrow>
        (\<forall>c \<in> set cs. the (as_status c) \<in> set TERMINAL)" by simp
    ultimately show ?thesis
      unfolding is_order_complete_def Let_def by (auto simp del: set_map not_None_eq)
  qed
  ultimately show ?thesis by simp
qed

theorem complete_iff_no_action_left_witness:
  "\<not> cod_ok (plan_transition ''cancel'' ''SETTLED'' ''changed my mind'')"
proof -
  have "is_order_complete [''SETTLED'']"
    by (simp add: is_order_complete_def as_status_def sos_members_def TERMINAL_def)
  with complete_iff_no_action_left [of "[''SETTLED'']"] show ?thesis by simp
qed

text \<open>
  \<open>plan_transition\<close>: the decision on every input. It is accepted exactly when the
  action table has a row for the action and the current status and the row's reason, if it needs
  one, is not blank, and then it carries the row's target, event and stock effect; a 422 is
  answered exactly for an unknown action or a missing reason; everything else is a 409.
\<close>

theorem plan_transition_total:
  "(cod_ok (plan_transition action status reason) \<longleftrightarrow>
     (\<exists>s t e f rr. status = sos_value s \<and> cod_arrow action s t e f rr \<and> (rr \<longrightarrow> py_strip reason \<noteq> []) \<and>
        plan_transition action status reason = \<lparr>cd_outcome = COD_OK, cd_to = Some t, cd_event = Some e,
          cd_effect = f, cd_detail = py_strip reason\<rparr>)) \<and>
   (cod_http_status (plan_transition action status reason) = 422 \<longleftrightarrow>
     map_of ACTIONS action = None \<or>
     (\<exists>s t e f. status = sos_value s \<and> cod_arrow action s t e f True \<and> py_strip reason = []))"
proof
  show "cod_ok (plan_transition action status reason) \<longleftrightarrow>
     (\<exists>s t e f rr. status = sos_value s \<and> cod_arrow action s t e f rr \<and> (rr \<longrightarrow> py_strip reason \<noteq> []) \<and>
        plan_transition action status reason = \<lparr>cd_outcome = COD_OK, cd_to = Some t, cd_event = Some e,
          cd_effect = f, cd_detail = py_strip reason\<rparr>)"
    using plan_transition_okD by (auto simp: cod_ok_def)
qed (simp add: cod_http_status_def plan_transition_invalid)

theorem plan_transition_total_witness:
  "cd_to (plan_transition ''cancel'' ''CONFIRMED'' '' out of stock '') = Some S_CANCELLED"
proof -
  let ?d = "plan_transition ''cancel'' ''CONFIRMED'' '' out of stock ''"
  have "cod_ok ?d"
    by (simp add: plan_transition_def ACTIONS_def as_status_def sos_members_def cod_ok_def refusal_def
        py_strip_def strip_by_def py_isspace_def)
  from iffD1 [OF conjunct1 [OF plan_transition_total] this] obtain s t e f rr where
    *: "cod_arrow ''cancel'' s t e f rr" "?d = \<lparr>cd_outcome = COD_OK,
      cd_to = Some t, cd_event = Some e, cd_effect = f, cd_detail = py_strip '' out of stock ''\<rparr>"
    by (elim exE conjE)
  from cod_arrow_cancel [OF *(1)] have "t = S_CANCELLED" by simp
  then show ?thesis by (simp add: *(2))
qed

text \<open>
  Property C24 (\<open>plan_transition\<close>): whatever actions are requested of a seller order whose stock is
  reserved, in whatever order and however often, its stock is consumed exactly once (when it
  ends up delivered or settled), or released exactly once (when it ends up cancelled or
  returned), or not touched at all (every other status).
\<close>

theorem stock_effect_at_most_once:
  assumes "cod_run ''INVENTORY_RESERVED'' acts = (final, effs)"
  shows "\<exists>t. final = sos_value t \<and>
     effs = (if t \<in> {S_DELIVERED, S_SETTLED} then [EFFECT_CONSUME]
             else if t \<in> {S_RETURNED, S_CANCELLED} then [EFFECT_RELEASE] else [])"
proof -
  from assms have "cod_run (sos_value S_INVENTORY_RESERVED) acts = (final, effs)" by simp
  from cod_run_effects [OF this] obtain t where t: "final = sos_value t" "effects_at t = effs"
    unfolding effects_at.simps append_Nil by blast
  from t(2) have "effs = (if t \<in> {S_DELIVERED, S_SETTLED} then [EFFECT_CONSUME]
      else if t \<in> {S_RETURNED, S_CANCELLED} then [EFFECT_RELEASE] else [])"
    by (cases t) simp_all
  with t(1) show ?thesis by blast
qed

lemma delivered_run:
  "cod_run ''INVENTORY_RESERVED'' [(''confirm'', []), (''dispatch'', []), (''deliver'', []),
     (''deliver'', []), (''cancel'', ''late'')] = (''DELIVERED'', [EFFECT_CONSUME])"
  by (simp add: plan_transition_def ACTIONS_def as_status_def sos_members_def cod_ok_def refusal_def Let_def)

theorem stock_effect_at_most_once_witness:
  "cod_run ''INVENTORY_RESERVED'' [(''confirm'', []), (''dispatch'', []), (''deliver'', []),
     (''deliver'', []), (''cancel'', ''late'')] = (''DELIVERED'', [EFFECT_CONSUME]) \<and>
   (\<exists>t. ''DELIVERED'' = sos_value t \<and>
      [EFFECT_CONSUME] = (if t \<in> {S_DELIVERED, S_SETTLED} then [EFFECT_CONSUME]
             else if t \<in> {S_RETURNED, S_CANCELLED} then [EFFECT_RELEASE] else []))"
  by (rule conjI [OF delivered_run stock_effect_at_most_once [OF delivered_run]])

end
