(* ===== verification/Order_Saga.thy ===== *)
theory Order_Saga
  imports Saga_Transitions Seller_Orders
begin

text \<open>
  The order service, \<open>services/order-saga/app\<close>: the tables of \<open>models.py\<close>, the request handlers
  of \<open>services/saga_orchestrator.py\<close> with their routes, and the background loops of \<open>main.py\<close>
  (the saga reaper and the outbox retention).

  A handler takes the database and returns its answer and the database it leaves. \<open>io\<close> says
  whether the server takes the commit, \<open>now\<close> is the clock in seconds and \<open>fresh\<close> the sequence of
  identifiers \<open>uuid.uuid4\<close> gives out during the call. A table is the list of its rows in the
  order they were inserted, which is also the order a query without \<open>ORDER BY\<close> returns.
\<close>

section \<open>Tables\<close>

record saga_row =
  sg_id :: uuid
  sg_user_id :: uuid
  sg_status :: string
  sg_payment_method :: string
  sg_total_cents :: int
  sg_created_at :: int
  sg_updated_at :: int

record seller_order =
  so_id :: uuid
  so_order_id :: uuid
  so_seller_id :: uuid
  so_status :: string
  so_status_reason :: "string option"
  so_subtotal_cents :: int
  so_currency :: string
  so_item_count :: int
  so_confirmed_at :: "int option"
  so_dispatched_at :: "int option"
  so_delivered_at :: "int option"
  so_settled_at :: "int option"
  so_courier_name :: "string option"
  so_tracking_code :: "string option"
  so_created_at :: int
  so_updated_at :: int

record order_line =
  ol_order_id :: uuid
  ol_seller_order_id :: "uuid option"
  ol_product_id :: uuid
  ol_seller_id :: uuid
  ol_quantity :: int
  ol_price_cents :: int
  ol_line_total_cents :: int
  ol_currency :: string
  ol_created_at :: int

text \<open>The outbox keeps each message with its \<open>created_at\<close>; an idempotency key with its \<open>result_id\<close>.\<close>

record order_db =
  od_sagas :: "saga_row list"
  od_seller_orders :: "seller_order list"
  od_order_lines :: "order_line list"
  od_outbox :: "(int \<times> outbox_message) list"
  od_idempotency_keys :: "(string \<times> uuid option) list"

definition saga_by_id :: "order_db \<Rightarrow> uuid \<Rightarrow> saga_row option" where
  "saga_by_id db i = find (\<lambda>s. sg_id s = i) (od_sagas db)"

definition update_saga :: "uuid \<Rightarrow> (saga_row \<Rightarrow> saga_row) \<Rightarrow> order_db \<Rightarrow> order_db" where
  "update_saga i f db = db\<lparr>od_sagas := map (\<lambda>s. if sg_id s = i then f s else s) (od_sagas db)\<rparr>"

definition update_seller_orders :: "(seller_order \<Rightarrow> bool) \<Rightarrow> (seller_order \<Rightarrow> seller_order) \<Rightarrow> order_db \<Rightarrow> order_db" where
  "update_seller_orders P f db =
     db\<lparr>od_seller_orders := map (\<lambda>so. if P so then f so else so) (od_seller_orders db)\<rparr>"

definition add_outbox :: "int \<Rightarrow> outbox_message list \<Rightarrow> order_db \<Rightarrow> order_db" where
  "add_outbox now ms db = db\<lparr>od_outbox := od_outbox db @ map (Pair now) ms\<rparr>"

section \<open>Idempotency\<close>

definition check_idempotency :: "order_db \<Rightarrow> string \<Rightarrow> saga_row option result" where
  "check_idempotency db key =
     (case map_of (od_idempotency_keys db) key of
        None \<Rightarrow> Inr None
      | Some result_id \<Rightarrow>
          (case Option.bind result_id (saga_by_id db) of
             Some cached \<Rightarrow> Inr (Some cached)
           | None \<Rightarrow> Inl (HTTPException 409)))"

definition store_key :: "string \<Rightarrow> uuid \<Rightarrow> order_db \<Rightarrow> order_db" where
  "store_key key result_id db =
     db\<lparr>od_idempotency_keys := od_idempotency_keys db @ [(key, Some result_id)]\<rparr>"

section \<open>Starting a saga\<close>

record CreateOrderRequest =
  cr_user_id :: uuid
  cr_total_cents :: int
  cr_items_payload :: json

definition new_seller_order :: "int \<Rightarrow> uuid \<Rightarrow> uuid \<Rightarrow> uuid \<Rightarrow> SellerOrderPlan \<Rightarrow> seller_order" where
  "new_seller_order now saga_id seller_order_id seller plan =
     \<lparr>so_id = seller_order_id, so_order_id = saga_id, so_seller_id = seller, so_status = ''PENDING'',
      so_status_reason = None, so_subtotal_cents = sp_subtotal_cents plan, so_currency = ''BDT'',
      so_item_count = item_count plan, so_confirmed_at = None, so_dispatched_at = None,
      so_delivered_at = None, so_settled_at = None, so_courier_name = None, so_tracking_code = None,
      so_created_at = now, so_updated_at = now\<rparr>"

definition new_order_line :: "int \<Rightarrow> uuid \<Rightarrow> uuid \<Rightarrow> uuid \<Rightarrow> uuid \<Rightarrow> plan_line \<Rightarrow> order_line" where
  "new_order_line now saga_id seller_order_id seller product l =
     \<lparr>ol_order_id = saga_id, ol_seller_order_id = Some seller_order_id, ol_product_id = product,
      ol_seller_id = seller, ol_quantity = pl_quantity l, ol_price_cents = pl_price_cents l,
      ol_line_total_cents = pl_line_total_cents l, ol_currency = ''BDT'', ol_created_at = now\<rparr>"

text \<open>
  The rows and the event of one plan; \<open>None\<close> when \<open>uuid.UUID\<close> raises on the seller or on a
  product.
\<close>

definition plan_rows ::
  "int \<Rightarrow> uuid \<Rightarrow> uuid \<Rightarrow> uuid \<Rightarrow> SellerOrderPlan \<Rightarrow> (seller_order \<times> order_line list \<times> outbox_message) option" where
  "plan_rows now saga_id user_id seller_order_id plan =
     (case (py_uuid (sp_seller_id plan), those (map (py_uuid \<circ> pl_product_id) (sp_lines plan))) of
        (Some seller, Some products) \<Rightarrow>
          Some (new_seller_order now saga_id seller_order_id seller plan,
                map2 (new_order_line now saga_id seller_order_id seller) products (sp_lines plan),
                outbox ''SellerOrder'' seller_order_id ''SellerOrderCreated''
                  (build_seller_order_event saga_id seller_order_id user_id plan ''PENDING''))
      | _ \<Rightarrow> None)"

definition plans_rows ::
  "int \<Rightarrow> uuid \<Rightarrow> uuid \<Rightarrow> (nat \<Rightarrow> uuid) \<Rightarrow> SellerOrderPlan list \<Rightarrow>
     (seller_order \<times> order_line list \<times> outbox_message) list option" where
  "plans_rows now saga_id user_id fresh plans =
     those (map (\<lambda>(i, plan). plan_rows now saga_id user_id (fresh i) plan) (enumerate 1 plans))"

definition new_saga :: "int \<Rightarrow> uuid \<Rightarrow> CreateOrderRequest \<Rightarrow> saga_row" where
  "new_saga now saga_id request =
     \<lparr>sg_id = saga_id, sg_user_id = cr_user_id request, sg_status = ''PENDING'',
      sg_payment_method = ''COD'', sg_total_cents = cr_total_cents request,
      sg_created_at = now, sg_updated_at = now\<rparr>"

definition reserve_command :: "saga_row \<Rightarrow> json \<Rightarrow> outbox_message" where
  "reserve_command saga items_payload =
     outbox ''OrderSaga'' (sg_id saga) ''ReserveInventoryCommand''
       (JObj [(''order_id'', JStr (sg_id saga)), (''user_id'', JStr (sg_user_id saga)),
              (''items_payload'', items_payload)])"

text \<open>
  What the tables accept: primary keys, one seller order per order and seller, one line per order
  and product, and integer columns in range.
\<close>

definition rows_accepted :: "order_db \<Rightarrow> saga_row \<Rightarrow> seller_order list \<Rightarrow> order_line list \<Rightarrow> bool" where
  "rows_accepted db saga sos ols \<longleftrightarrow>
     sg_id saga \<notin> sg_id ` set (od_sagas db) \<and> int4 (sg_total_cents saga) \<and>
     distinct (map so_id sos) \<and> so_id ` set sos \<inter> so_id ` set (od_seller_orders db) = {} \<and>
     distinct (map (\<lambda>so. (so_order_id so, so_seller_id so)) (od_seller_orders db @ sos)) \<and>
     distinct (map (\<lambda>l. (ol_order_id l, ol_product_id l)) (od_order_lines db @ ols)) \<and>
     (\<forall>so \<in> set sos. int4 (so_subtotal_cents so) \<and> int4 (so_item_count so)) \<and>
     (\<forall>l \<in> set ols. int4 (ol_quantity l) \<and> int4 (ol_price_cents l) \<and> int4 (ol_line_total_cents l))"

definition start_saga ::
  "bool \<Rightarrow> int \<Rightarrow> (nat \<Rightarrow> uuid) \<Rightarrow> CreateOrderRequest \<Rightarrow> string \<Rightarrow> order_db \<Rightarrow> saga_row result \<times> order_db" where
  "start_saga io now fresh request idempotency_key db =
     (case check_idempotency db idempotency_key of
        Inl e \<Rightarrow> (Inl e, db)
      | Inr (Some cached) \<Rightarrow> (Inr cached, db)
      | Inr None \<Rightarrow>
          (let saga = new_saga now (fresh 0) request in
           case split_by_seller (cr_items_payload request) of
             Inl (SplitError _) \<Rightarrow> (Inl (HTTPException 422), db)
           | Inl SplitCrash \<Rightarrow> (Inl (Uncaught ''ValueError''), db)
           | Inr plans \<Rightarrow>
               (case plans_rows now (sg_id saga) (sg_user_id saga) fresh plans of
                  None \<Rightarrow> (Inl (Uncaught ''ValueError''), db)
                | Some rows \<Rightarrow>
                    (let sos = map fst rows; ols = concat (map (fst \<circ> snd) rows);
                         events = map (snd \<circ> snd) rows in
                     if \<not> rows_accepted db saga sos ols then (Inl (Uncaught ''IntegrityError''), db)
                     else
                       commit io True db
                         (store_key idempotency_key (sg_id saga)
                           (add_outbox now (events @ [reserve_command saga (cr_items_payload request)])
                             (db\<lparr>od_sagas := od_sagas db @ [saga],
                                 od_seller_orders := od_seller_orders db @ sos,
                                 od_order_lines := od_order_lines db @ ols\<rparr>)))
                         saga))))"

definition create_order_endpoint ::
  "bool \<Rightarrow> int \<Rightarrow> (nat \<Rightarrow> uuid) \<Rightarrow> CreateOrderRequest \<Rightarrow> string \<Rightarrow> order_db \<Rightarrow> saga_row result \<times> order_db" where
  "create_order_endpoint io now fresh request idempotency_key db =
     (if cr_total_cents request < 1 then (Inl (HTTPException 422), db)
      else if idempotency_key = [] then (Inl (HTTPException 400), db)
      else start_saga io now fresh request idempotency_key db)"

section \<open>Advancing a saga\<close>

definition command_payload :: "string \<Rightarrow> saga_row \<Rightarrow> json" where
  "command_payload command saga =
     (let base = [(''order_id'', JStr (sg_id saga))] in
      if command = ''ChargePaymentCommand'' then
        JObj (base @ [(''user_id'', JStr (sg_user_id saga)), (''amount_cents'', JInt (sg_total_cents saga))])
      else if command = ''OrderFailed'' then
        JObj (base @ [(''user_id'', JStr (sg_user_id saga)), (''reason'', JStr ''InventoryReservationFailed'')])
      else JObj base)"

definition product_ids_of :: "order_db \<Rightarrow> uuid \<Rightarrow> uuid list" where
  "product_ids_of db i = map ol_product_id (filter (\<lambda>l. ol_seller_order_id l = Some i) (od_order_lines db))"

definition children_of :: "order_db \<Rightarrow> uuid \<Rightarrow> seller_order list" where
  "children_of db order_id =
     sort_key so_seller_id (filter (\<lambda>so. so_order_id so = order_id) (od_seller_orders db))"

definition cancel_child :: "int \<Rightarrow> string \<Rightarrow> seller_order \<Rightarrow> seller_order" where
  "cancel_child now reason so =
     so\<lparr>so_status := ''CANCELLED'', so_status_reason := Some reason, so_updated_at := now\<rparr>"

definition seller_order_event :: "order_db \<Rightarrow> string \<Rightarrow> seller_order \<Rightarrow> outbox_message" where
  "seller_order_event db event so =
     outbox ''SellerOrder'' (so_id so) event
       (JObj [(''order_id'', JStr (so_order_id so)), (''seller_order_id'', JStr (so_id so)),
              (''seller_id'', JStr (so_seller_id so)), (''status'', JStr (so_status so)),
              (''status_reason'', str_or_null (so_status_reason so)),
              (''subtotal_cents'', JInt (so_subtotal_cents so)),
              (''courier_name'', str_or_null (so_courier_name so)),
              (''tracking_code'', str_or_null (so_tracking_code so)),
              (''product_ids'', JArr (map JStr (product_ids_of db (so_id so))))])"

definition cancel_children_of_ended_saga :: "int \<Rightarrow> saga_row \<Rightarrow> order_db \<Rightarrow> nat \<times> order_db" where
  "cancel_children_of_ended_saga now saga db =
     (let status = sg_status saga in
      if status \<notin> set SAGA_STATES_ENDING_THE_ORDER then (0, db)
      else
        (let children = children_of db (sg_id saga);
             indices = children_to_cancel status (map so_status children);
             closing = map (\<lambda>i. children ! i) indices;
             cancelled = map (cancel_child now (cancellation_reason status)) closing
         in (length indices,
             add_outbox now (map (seller_order_event db ''SellerOrderCancelled'') cancelled)
               (update_seller_orders (\<lambda>so. so_id so \<in> set (map so_id closing))
                  (cancel_child now (cancellation_reason status)) db))))"

definition reserve_children :: "int \<Rightarrow> uuid \<Rightarrow> order_db \<Rightarrow> order_db" where
  "reserve_children now order_id =
     update_seller_orders (\<lambda>so. so_order_id so = order_id \<and> so_status so = ''PENDING'')
       (\<lambda>so. so\<lparr>so_status := ''INVENTORY_RESERVED'', so_updated_at := now\<rparr>)"

text \<open>The body of \<open>advance_saga\<close> once the decision is to apply or to compensate.\<close>

definition apply_decision :: "int \<Rightarrow> saga_row \<Rightarrow> string \<Rightarrow> saga_decision \<Rightarrow> order_db \<Rightarrow> saga_row \<times> order_db" where
  "apply_decision now saga event_type d db =
     (let applied = sd_outcome d = APPLY;
          saga' = (if applied then saga\<lparr>sg_status := the (sd_new_status d), sg_updated_at := now\<rparr> else saga);
          db1 = (if applied then update_saga (sg_id saga) (\<lambda>_. saga') db else db);
          db2 = (if applied then snd (cancel_children_of_ended_saga now saga' db1) else db1);
          db3 = (if event_type = ''InventoryReserved'' \<and> applied then reserve_children now (sg_id saga) db2 else db2);
          db4 = (case sd_command d of
                   None \<Rightarrow> db3
                 | Some command \<Rightarrow>
                     add_outbox now [outbox ''OrderSaga'' (sg_id saga) command (command_payload command saga')] db3)
      in (saga', db4))"

definition advance_saga ::
  "bool \<Rightarrow> int \<Rightarrow> uuid \<Rightarrow> string \<Rightarrow> string \<Rightarrow> order_db \<Rightarrow> saga_row result \<times> order_db" where
  "advance_saga io now order_id event_type idempotency_key db =
     (case check_idempotency db idempotency_key of
        Inl e \<Rightarrow> (Inl e, db)
      | Inr (Some cached) \<Rightarrow> (Inr cached, db)
      | Inr None \<Rightarrow>
          (case saga_by_id db order_id of
             None \<Rightarrow> (Inl (HTTPException 404), db)
           | Some saga \<Rightarrow>
               (let d = resolve (sg_status saga) event_type (sg_payment_method saga) in
                if sd_outcome d \<notin> {APPLY, COMPENSATE} then
                  (case sd_outcome d of
                     UNKNOWN_EVENT \<Rightarrow> (Inl (HTTPException 422), db)
                   | LATE_DUPLICATE \<Rightarrow> (Inr saga, db)
                   | _ \<Rightarrow> (Inl (HTTPException 409), db))
                else
                  (let (saga', db') = apply_decision now saga event_type d db in
                   commit io True db (store_key idempotency_key (sg_id saga) db') saga'))))"

definition process_saga_event_endpoint ::
  "bool \<Rightarrow> int \<Rightarrow> string \<Rightarrow> string \<Rightarrow> string \<Rightarrow> order_db \<Rightarrow> saga_row result \<times> order_db" where
  "process_saga_event_endpoint io now order_id event_type idempotency_key db =
     (if idempotency_key = [] then (Inl (HTTPException 400), db)
      else case py_uuid order_id of
             None \<Rightarrow> (Inl (HTTPException 400), db)
           | Some i \<Rightarrow> advance_saga io now i event_type idempotency_key db)"

section \<open>Moving a seller order\<close>

record SellerOrderActionRequest =
  ar_reason :: "string option"
  ar_courier_name :: "string option"
  ar_tracking_code :: "string option"

definition effect_value :: "InventoryEffect \<Rightarrow> string" where
  "effect_value e = (case e of EFFECT_NONE \<Rightarrow> ''none'' | EFFECT_RELEASE \<Rightarrow> ''release'' | EFFECT_CONSUME \<Rightarrow> ''consume'')"

definition EFFECT_COMMANDS :: "InventoryEffect \<Rightarrow> string option" where
  "EFFECT_COMMANDS e = (case e of
     EFFECT_NONE \<Rightarrow> None
   | EFFECT_RELEASE \<Rightarrow> Some ''ReleaseSellerOrderInventoryCommand''
   | EFFECT_CONSUME \<Rightarrow> Some ''ConsumeSellerOrderInventoryCommand'')"

definition stamp_action :: "string \<Rightarrow> int \<Rightarrow> seller_order \<Rightarrow> seller_order" where
  "stamp_action action now so =
     (if action = ''confirm'' then so\<lparr>so_confirmed_at := Some now\<rparr>
      else if action = ''dispatch'' then so\<lparr>so_dispatched_at := Some now\<rparr>
      else if action = ''deliver'' then so\<lparr>so_delivered_at := Some now\<rparr>
      else if action = ''settle'' then so\<lparr>so_settled_at := Some now\<rparr>
      else so)"

text \<open>The row after an accepted action: status, reason, time stamp and, on dispatch, the courier.\<close>

definition moved_seller_order ::
  "string \<Rightarrow> int \<Rightarrow> SellerOrderActionRequest \<Rightarrow> cod_decision \<Rightarrow> seller_order \<Rightarrow> seller_order" where
  "moved_seller_order action now request d so =
     (let so = so\<lparr>so_status := sos_value (the (cd_to d)),
                  so_status_reason := (if cd_detail d = [] then None else Some (cd_detail d)),
                  so_updated_at := now\<rparr>;
          so = stamp_action action now so
      in if action = ''dispatch''
         then so\<lparr>so_courier_name := ar_courier_name request, so_tracking_code := ar_tracking_code request\<rparr>
         else so)"

definition book_escrow_delivery_command :: "seller_order \<Rightarrow> outbox_message" where
  "book_escrow_delivery_command so =
     outbox ''SellerOrder'' (so_id so) ''BookEscrowDeliveryCommand''
       (JObj [(''order_id'', JStr (so_order_id so)), (''seller_order_id'', JStr (so_id so)),
              (''seller_id'', JStr (so_seller_id so)), (''collected_cents'', JInt (so_subtotal_cents so)),
              (''currency'', JStr (so_currency so))])"

definition effect_command :: "order_db \<Rightarrow> string \<Rightarrow> seller_order \<Rightarrow> outbox_message" where
  "effect_command db command so =
     outbox ''SellerOrder'' (so_id so) command
       (JObj [(''order_id'', JStr (so_order_id so)), (''seller_order_id'', JStr (so_id so)),
              (''product_ids'', JArr (map JStr (product_ids_of db (so_id so))))])"

definition transition_messages :: "order_db \<Rightarrow> string \<Rightarrow> cod_decision \<Rightarrow> seller_order \<Rightarrow> outbox_message list" where
  "transition_messages db action d so =
     [seller_order_event db (the (cd_event d)) so]
     @ (if action = ''deliver'' then [book_escrow_delivery_command so] else [])
     @ (case EFFECT_COMMANDS (cd_effect d) of None \<Rightarrow> [] | Some command \<Rightarrow> [effect_command db command so])"

definition transition_seller_order ::
  "bool \<Rightarrow> int \<Rightarrow> uuid \<Rightarrow> uuid \<Rightarrow> string \<Rightarrow> SellerOrderActionRequest \<Rightarrow> order_db \<Rightarrow>
     (seller_order \<times> string) result \<times> order_db" where
  "transition_seller_order io now order_id seller_order_id action request db =
     (case find (\<lambda>so. so_id so = seller_order_id \<and> so_order_id so = order_id) (od_seller_orders db) of
        None \<Rightarrow> (Inl (HTTPException 404), db)
      | Some so \<Rightarrow>
          (let reason = (case ar_reason request of None \<Rightarrow> [] | Some r \<Rightarrow> r);
               d = plan_transition action (so_status so) reason in
           if \<not> cod_ok d then (Inl (HTTPException (cod_http_status d)), db)
           else
             (let so' = moved_seller_order action now request d so in
              commit io True db
                (add_outbox now (transition_messages db action d so')
                  (update_seller_orders (\<lambda>x. so_id x = seller_order_id) (\<lambda>_. so') db))
                (so', effect_value (cd_effect d)))))"

section \<open>Reading orders\<close>

definition order_line_json :: "order_line \<Rightarrow> json" where
  "order_line_json l = JObj [(''product_id'', JStr (ol_product_id l)), (''quantity'', JInt (ol_quantity l)),
     (''price_cents'', JInt (ol_price_cents l)), (''line_total_cents'', JInt (ol_line_total_cents l))]"

definition lines_for :: "order_db \<Rightarrow> uuid \<Rightarrow> json list" where
  "lines_for db i = map order_line_json
     (sort_key ol_product_id (filter (\<lambda>l. ol_seller_order_id l = Some i) (od_order_lines db)))"

record order_breakdown =
  ob_seller_order_count :: nat
  ob_derived_status :: "string option"
  ob_complete :: bool
  ob_goods_subtotal_cents :: int
  ob_seller_orders :: "(seller_order \<times> json list) list"

text \<open>\<open>get_seller_orders\<close> groups the lines of the order, so a line of another order never shows.\<close>

definition get_seller_orders :: "order_db \<Rightarrow> uuid \<Rightarrow> order_breakdown" where
  "get_seller_orders db order_id =
     (let children = children_of db order_id;
          lines = sort_key ol_product_id (filter (\<lambda>l. ol_order_id l = order_id) (od_order_lines db));
          statuses = map so_status children
      in \<lparr>ob_seller_order_count = length children,
          ob_derived_status = derive_order_status statuses,
          ob_complete = is_order_complete statuses,
          ob_goods_subtotal_cents = sum_list (map so_subtotal_cents children),
          ob_seller_orders = map (\<lambda>so. (so, map order_line_json
            (filter (\<lambda>l. ol_seller_order_id l = Some (so_id so)) lines))) children\<rparr>)"

record purchase =
  pu_seller_order_id :: uuid
  pu_order_id :: uuid
  pu_seller_id :: uuid
  pu_buyer_id :: uuid
  pu_status :: string
  pu_delivered_at :: "int option"
  pu_product_ids :: "uuid list"

definition get_purchase :: "order_db \<Rightarrow> uuid \<Rightarrow> purchase result" where
  "get_purchase db seller_order_id =
     (case find (\<lambda>so. so_id so = seller_order_id) (od_seller_orders db) of
        None \<Rightarrow> Inl (HTTPException 404)
      | Some so \<Rightarrow>
          (case saga_by_id db (so_order_id so) of
             None \<Rightarrow> Inl (HTTPException 409)
           | Some saga \<Rightarrow>
               Inr \<lparr>pu_seller_order_id = so_id so, pu_order_id = so_order_id so, pu_seller_id = so_seller_id so,
                    pu_buyer_id = sg_user_id saga, pu_status = so_status so,
                    pu_delivered_at = so_delivered_at so, pu_product_ids = product_ids_of db (so_id so)\<rparr>))"

text \<open>The seller's queue, newest first; a falsy status filters nothing. \<open>LIMIT\<close> refuses a negative count.\<close>

definition list_seller_orders ::
  "order_db \<Rightarrow> uuid \<Rightarrow> string option \<Rightarrow> int \<Rightarrow> (seller_order \<times> json list) list result" where
  "list_seller_orders db seller_id status limit =
     (if min limit 200 < 0 then Inl (Uncaught ''DBAPIError'')
      else
        (let mine = filter (\<lambda>so. so_seller_id so = seller_id \<and>
                       (case status of None \<Rightarrow> True | Some [] \<Rightarrow> True | Some st \<Rightarrow> so_status so = st))
                     (od_seller_orders db);
             newest = sort_key (\<lambda>so. - so_created_at so) mine
         in Inr (map (\<lambda>so. (so, lines_for db (so_id so))) (take (nat (min limit 200)) newest))))"

definition get_seller_order :: "order_db \<Rightarrow> uuid \<Rightarrow> (seller_order \<times> json list) result" where
  "get_seller_order db seller_order_id =
     (case find (\<lambda>so. so_id so = seller_order_id) (od_seller_orders db) of
        None \<Rightarrow> Inl (HTTPException 404)
      | Some so \<Rightarrow> Inr (so, lines_for db (so_id so)))"

section \<open>The background loops\<close>

text \<open>
  One iteration of \<open>saga_reaper_loop\<close>: both statements run in one transaction. \<open>locked\<close> marks the
  rows another transaction holds, which \<open>SKIP LOCKED\<close> passes over.
\<close>

definition reapable :: "int \<Rightarrow> saga_row \<Rightarrow> bool" where
  "reapable now s \<longleftrightarrow> sg_updated_at s < now - 15 * 60 \<and>
     ((sg_payment_method s = ''CARD'' \<and> sg_status s \<in> {''PENDING'', ''INVENTORY_RESERVED'', ''PAID''}) \<or>
      (sg_payment_method s \<noteq> ''CARD'' \<and> sg_status s = ''PENDING''))"

definition reap_commands :: "string \<Rightarrow> string list" where
  "reap_commands previous_status =
     (if previous_status = ''PENDING'' then [''SagaTimedOut'']
      else if previous_status = ''INVENTORY_RESERVED'' then [''ReleaseInventoryCommand'', ''RefundPaymentCommand'']
      else if previous_status = ''PAID'' then [''RefundPaymentCommand'']
      else [])"

definition reap_messages :: "saga_row \<Rightarrow> outbox_message list" where
  "reap_messages s =
     map (\<lambda>cmd. outbox ''OrderSaga'' (sg_id s) cmd
           (JObj [(''order_id'', JStr (sg_id s)), (''user_id'', JStr (sg_user_id s)),
                  (''previous_status'', JStr (sg_status s)),
                  (''reason'', JStr ''Saga timeout after 15 minutes'')]))
       (reap_commands (sg_status s))"

definition reap_sagas :: "(uuid \<Rightarrow> bool) \<Rightarrow> int \<Rightarrow> order_db \<Rightarrow> order_db" where
  "reap_sagas locked now db =
     (let candidates = filter (\<lambda>s. reapable now s \<and> \<not> locked (sg_id s)) (od_sagas db) in
      add_outbox now (concat (map reap_messages candidates))
        (db\<lparr>od_sagas := map (\<lambda>s. if sg_id s \<in> set (map sg_id candidates)
                                 then s\<lparr>sg_status := ''TIMED_OUT'', sg_updated_at := now\<rparr> else s) (od_sagas db)\<rparr>))"

definition stranded :: "order_db \<Rightarrow> seller_order \<Rightarrow> string option" where
  "stranded db so =
     (case saga_by_id db (so_order_id so) of
        None \<Rightarrow> None
      | Some s \<Rightarrow>
          if sg_status s \<in> {''FAILED'', ''TIMED_OUT'', ''ROLLBACK_COMPLETED''} \<and>
             so_status so \<in> {''PENDING'', ''INVENTORY_RESERVED'', ''CONFIRMED''}
          then Some (sg_status s) else None)"

definition close_stranded :: "(uuid \<Rightarrow> bool) \<Rightarrow> int \<Rightarrow> order_db \<Rightarrow> order_db" where
  "close_stranded locked now db =
     (let close = (\<lambda>so. case stranded db so of
                          None \<Rightarrow> so
                        | Some st \<Rightarrow>
                            so\<lparr>so_status := ''CANCELLED'',
                               so_status_reason := Some (''order '' @ replace_char (CHR ''_'') (CHR '' '') (py_lower st)),
                               so_updated_at := now\<rparr>);
          hit = (\<lambda>so. stranded db so \<noteq> None \<and> \<not> locked (so_id so))
      in add_outbox now
           (map (\<lambda>so. seller_order_event db ''SellerOrderCancelled'' (close so)) (filter hit (od_seller_orders db)))
           (update_seller_orders hit close db))"

definition saga_reaper_pass ::
  "bool \<Rightarrow> (uuid \<Rightarrow> bool) \<Rightarrow> (uuid \<Rightarrow> bool) \<Rightarrow> int \<Rightarrow> order_db \<Rightarrow> order_db" where
  "saga_reaper_pass io locked_sagas locked_children now db =
     (if io then close_stranded locked_children now (reap_sagas locked_sagas now db) else db)"

definition outbox_cleanup_pass :: "bool \<Rightarrow> int \<Rightarrow> order_db \<Rightarrow> order_db" where
  "outbox_cleanup_pass io now db =
     (if io then db\<lparr>od_outbox := filter (\<lambda>(created_at, _). \<not> created_at < now - 7 * 24 * 60 * 60) (od_outbox db)\<rparr>
      else db)"

section \<open>What the handlers do, case by case\<close>

lemma order_db_update_sel [simp]:
  "od_sagas (update_seller_orders P f db) = od_sagas db"
  "od_order_lines (update_seller_orders P f db) = od_order_lines db"
  "od_outbox (update_seller_orders P f db) = od_outbox db"
  "od_idempotency_keys (update_seller_orders P f db) = od_idempotency_keys db"
  "od_seller_orders (update_saga i g db) = od_seller_orders db"
  "od_order_lines (update_saga i g db) = od_order_lines db"
  "od_outbox (update_saga i g db) = od_outbox db"
  "od_idempotency_keys (update_saga i g db) = od_idempotency_keys db"
  "od_sagas (add_outbox now ms db) = od_sagas db"
  "od_seller_orders (add_outbox now ms db) = od_seller_orders db"
  "od_order_lines (add_outbox now ms db) = od_order_lines db"
  "od_idempotency_keys (add_outbox now ms db) = od_idempotency_keys db"
  "od_outbox (add_outbox now ms db) = od_outbox db @ map (Pair now) ms"
  "od_sagas (store_key k r db) = od_sagas db"
  "od_seller_orders (store_key k r db) = od_seller_orders db"
  "od_order_lines (store_key k r db) = od_order_lines db"
  "od_outbox (store_key k r db) = od_outbox db"
  "od_idempotency_keys (store_key k r db) = od_idempotency_keys db @ [(k, Some r)]"
  "od_seller_orders (update_seller_orders P f db) = map (\<lambda>so. if P so then f so else so) (od_seller_orders db)"
  "od_sagas (update_saga i g db) = map (\<lambda>s. if sg_id s = i then g s else s) (od_sagas db)"
  by (simp_all add: update_seller_orders_def update_saga_def add_outbox_def store_key_def)

lemma saga_by_id_cong: "od_sagas db = od_sagas db' \<Longrightarrow> saga_by_id db = saga_by_id db'"
  by (simp add: saga_by_id_def fun_eq_iff)

lemma saga_by_id_SomeD: "saga_by_id db i = Some s \<Longrightarrow> s \<in> set (od_sagas db) \<and> sg_id s = i"
  unfolding saga_by_id_def by (rule find_SomeD)

lemma saga_by_id_exists: "i \<in> sg_id ` set (od_sagas db) \<longleftrightarrow> (\<exists>s. saga_by_id db i = Some s)"
  by (auto simp: saga_by_id_def find_None_iff image_iff simp flip: not_None_eq)

lemma start_saga_failure: "start_saga io now fresh request key db = (Inl f, db') \<Longrightarrow> db' = db"
  unfolding start_saga_def Let_def
  by (auto split: sum.splits option.splits split_failure.splits if_splits)

text \<open>The rows a successful \<open>start_saga\<close> writes.\<close>

definition started :: "int \<Rightarrow> (nat \<Rightarrow> uuid) \<Rightarrow> CreateOrderRequest \<Rightarrow> string \<Rightarrow> order_db \<Rightarrow> SellerOrderPlan list
    \<Rightarrow> (seller_order \<times> order_line list \<times> outbox_message) list \<Rightarrow> order_db" where
  "started now fresh request key db plans rows =
     store_key key (fresh 0)
       (add_outbox now (map (snd \<circ> snd) rows
            @ [reserve_command (new_saga now (fresh 0) request) (cr_items_payload request)])
         (db\<lparr>od_sagas := od_sagas db @ [new_saga now (fresh 0) request],
             od_seller_orders := od_seller_orders db @ map fst rows,
             od_order_lines := od_order_lines db @ concat (map (fst \<circ> snd) rows)\<rparr>))"

lemma new_saga_sel [simp]:
  "sg_id (new_saga now i request) = i" "sg_status (new_saga now i request) = PENDING"
  "sg_payment_method (new_saga now i request) = ''COD''"
  "sg_user_id (new_saga now i request) = cr_user_id request"
  "sg_total_cents (new_saga now i request) = cr_total_cents request"
  by (simp_all add: new_saga_def PENDING_def)

lemma start_saga_cases:
  assumes "start_saga io now fresh request key db = (Inr r, db')"
  obtains (cached) "check_idempotency db key = Inr (Some r)" "db' = db"
  | (started) plans rows where "check_idempotency db key = Inr None" "io"
      "split_by_seller (cr_items_payload request) = Inr plans"
      "plans_rows now (fresh 0) (cr_user_id request) fresh plans = Some rows"
      "rows_accepted db (new_saga now (fresh 0) request) (map fst rows) (concat (map (fst \<circ> snd) rows))"
      "r = new_saga now (fresh 0) request" "db' = started now fresh request key db plans rows"
  using assms unfolding start_saga_def Let_def started_def
  by (auto split: sum.splits option.splits split_failure.splits if_splits)

lemma advance_saga_failure: "advance_saga io now order_id ev key db = (Inl f, db') \<Longrightarrow> db' = db"
  unfolding advance_saga_def Let_def
  by (auto split: sum.splits option.splits saga_outcome.splits if_splits prod.splits)

lemma advance_saga_cases:
  assumes "advance_saga io now order_id ev key db = (Inr r, db')"
  obtains (cached) "check_idempotency db key = Inr (Some r)" "db' = db"
  | (duplicate) "check_idempotency db key = Inr None" "saga_by_id db order_id = Some r"
      "sd_outcome (resolve (sg_status r) ev (sg_payment_method r)) = LATE_DUPLICATE" "db' = db"
  | (moved) s d where "check_idempotency db key = Inr None" "io" "saga_by_id db order_id = Some s"
      "d = resolve (sg_status s) ev (sg_payment_method s)" "sd_outcome d \<in> {APPLY, COMPENSATE}"
      "r = fst (apply_decision now s ev d db)"
      "db' = store_key key (sg_id s) (snd (apply_decision now s ev d db))"
proof (cases "check_idempotency db key")
  case (Inl e)
  with assms show ?thesis by (simp add: advance_saga_def)
next
  case (Inr c)
  show ?thesis
  proof (cases c)
    case (Some x)
    with Inr assms show ?thesis by (intro that(1)) (simp_all add: advance_saga_def)
  next
    case None
    with Inr assms obtain s where s: "saga_by_id db order_id = Some s"
      by (cases "saga_by_id db order_id") (simp_all add: advance_saga_def)
    let ?d = "resolve (sg_status s) ev (sg_payment_method s)"
    show ?thesis
    proof (cases "sd_outcome ?d \<in> {APPLY, COMPENSATE}")
      case True
      with Inr None s have "advance_saga io now order_id ev key db = commit io True db
          (store_key key (sg_id s) (snd (apply_decision now s ev ?d db))) (fst (apply_decision now s ev ?d db))"
        by (simp add: advance_saga_def Let_def case_prod_beta del: insert_iff)
      with assms Inr None s True show ?thesis by (intro that(3) [of s ?d]) (simp_all only: commit_Inr)
    next
      case False
      with assms Inr None s show ?thesis
        by (intro that(2)) (cases "sd_outcome ?d"; simp add: advance_saga_def Let_def)+
    qed
  qed
qed

lemma apply_decision_saga_id [simp]: "sg_id (fst (apply_decision now s ev d db)) = sg_id s"
  by (simp add: apply_decision_def Let_def)

lemma cancel_children_sagas [simp]:
  "od_sagas (snd (cancel_children_of_ended_saga now s db)) = od_sagas db"
  "od_order_lines (snd (cancel_children_of_ended_saga now s db)) = od_order_lines db"
  "od_idempotency_keys (snd (cancel_children_of_ended_saga now s db)) = od_idempotency_keys db"
  by (simp_all add: cancel_children_of_ended_saga_def Let_def)

lemma reserve_children_sel [simp]:
  "od_sagas (reserve_children now i db) = od_sagas db"
  "od_order_lines (reserve_children now i db) = od_order_lines db"
  "od_outbox (reserve_children now i db) = od_outbox db"
  "od_idempotency_keys (reserve_children now i db) = od_idempotency_keys db"
  by (simp_all add: reserve_children_def)

lemma apply_decision_sel [simp]:
  "od_sagas (snd (apply_decision now s ev d db)) =
     (if sd_outcome d = APPLY
      then map (\<lambda>x. if sg_id x = sg_id s then fst (apply_decision now s ev d db) else x) (od_sagas db)
      else od_sagas db)"
  "od_order_lines (snd (apply_decision now s ev d db)) = od_order_lines db"
  "od_idempotency_keys (snd (apply_decision now s ev d db)) = od_idempotency_keys db"
  by (simp_all add: apply_decision_def Let_def split: option.splits)

lemma apply_decision_ids [simp]:
  "map sg_id (od_sagas (snd (apply_decision now s ev d db))) = map sg_id (od_sagas db)"
  by (simp add: o_def)

section \<open>Repeated requests\<close>

lemma check_idempotency_stored:
  assumes "i \<in> sg_id ` set (od_sagas db)" and "check_idempotency db0 key = Inr None"
    and "od_idempotency_keys db = od_idempotency_keys db0 @ [(key, Some i)]"
  shows "\<exists>c. check_idempotency db key = Inr (Some c)"
proof -
  from assms(2) have "map_of (od_idempotency_keys db0) key = None"
    by (auto simp: check_idempotency_def split: option.splits)
  with assms(1,3) show ?thesis
    by (auto simp: check_idempotency_def saga_by_id_exists map_add_def)
qed

lemma start_saga_replay:
  assumes "start_saga io now fresh request key db = (Inr r, db')"
  shows "\<exists>r'. start_saga io' now' fresh' request' key db' = (Inr r', db')"
  using assms
proof (cases rule: start_saga_cases)
  case cached
  then show ?thesis by (simp add: start_saga_def)
next
  case (started plans rows)
  have "\<exists>c. check_idempotency db' key = Inr (Some c)"
    by (rule check_idempotency_stored [OF _ started(1), where i = "fresh 0"])
      (auto simp: started(7) started_def)
  then show ?thesis by (auto simp: start_saga_def)
qed

lemma advance_saga_replay:
  assumes "advance_saga io now order_id ev key db = (Inr r, db')"
  shows "\<exists>r'. advance_saga io' now' order_id ev key db' = (Inr r', db')"
  using assms
proof (cases rule: advance_saga_cases)
  case cached
  then show ?thesis by (simp add: advance_saga_def)
next
  case duplicate
  then show ?thesis by (auto simp: advance_saga_def Let_def)
next
  case (moved s d)
  have "sg_id s \<in> sg_id ` set (od_sagas db')"
    using saga_by_id_SomeD [OF moved(3)] unfolding moved(7) order_db_update_sel set_map [symmetric] apply_decision_ids
    by auto
  then have "\<exists>c. check_idempotency db' key = Inr (Some c)"
    by (rule check_idempotency_stored [OF _ moved(1)]) (simp add: moved(7))
  then show ?thesis by (auto simp: advance_saga_def)
qed

interpretation start_delivery: idempotent_handler
  "\<lambda>(io, now, fresh). start_saga io now fresh request key" for request key
  by unfold_locales (auto dest: start_saga_failure start_saga_replay)

interpretation advance_delivery: idempotent_handler
  "\<lambda>(io, now). advance_saga io now order_id ev key" for order_id ev key
  by unfold_locales (auto dest: advance_saga_failure advance_saga_replay)

section \<open>The structure of the tables\<close>

text \<open>
  What no operation may break: keys are unique; every seller order belongs to a saga and its
  subtotal and item count are the sums over its lines; every line belongs to a seller order of
  the same order and seller. It depends on the parts of the rows that only \<open>start_saga\<close> writes.
\<close>

type_synonym seller_order_core = "uuid \<times> uuid \<times> uuid \<times> int \<times> int"

definition so_core :: "seller_order \<Rightarrow> seller_order_core" where
  "so_core so = (so_id so, so_order_id so, so_seller_id so, so_subtotal_cents so, so_item_count so)"

definition lines_of :: "order_line list \<Rightarrow> uuid \<Rightarrow> order_line list" where
  "lines_of ols i = filter (\<lambda>l. ol_seller_order_id l = Some i) ols"

definition core_ok :: "uuid set \<Rightarrow> order_line list \<Rightarrow> seller_order_core \<Rightarrow> bool" where
  "core_ok ids ols = (\<lambda>(i, order, seller, subtotal, count). order \<in> ids \<and>
     subtotal = sum_list (map ol_line_total_cents (lines_of ols i)) \<and>
     count = sum_list (map ol_quantity (lines_of ols i)))"

definition line_ok :: "seller_order_core set \<Rightarrow> order_line \<Rightarrow> bool" where
  "line_ok cores l \<longleftrightarrow> (\<exists>(i, order, seller, _, _) \<in> cores.
     ol_seller_order_id l = Some i \<and> ol_order_id l = order \<and> ol_seller_id l = seller)"

definition structure_ok :: "uuid list \<Rightarrow> seller_order_core list \<Rightarrow> order_line list \<Rightarrow> bool" where
  "structure_ok ids cores ols \<longleftrightarrow>
     distinct ids \<and> distinct (map fst cores) \<and> distinct (map (\<lambda>(i, order, seller, _). (order, seller)) cores) \<and>
     distinct (map (\<lambda>l. (ol_order_id l, ol_product_id l)) ols) \<and>
     (\<forall>c \<in> set cores. core_ok (set ids) ols c) \<and> (\<forall>l \<in> set ols. line_ok (set cores) l)"

definition order_structure :: "order_db \<Rightarrow> bool" where
  "order_structure db \<longleftrightarrow>
     structure_ok (map sg_id (od_sagas db)) (map so_core (od_seller_orders db)) (od_order_lines db)"

lemma lines_of_append [simp]: "lines_of (xs @ ys) i = lines_of xs i @ lines_of ys i"
  by (simp add: lines_of_def)

lemma lines_of_none: "(\<And>l. l \<in> set ols \<Longrightarrow> ol_seller_order_id l \<noteq> Some i) \<Longrightarrow> lines_of ols i = []"
  by (simp add: lines_of_def filter_empty_conv)

lemma those_Some_iff: "those xs = Some ys \<longleftrightarrow> xs = map Some ys"
  by (induction xs arbitrary: ys) (auto split: option.splits)

text \<open>The rows of one plan.\<close>

definition rows_of_plan :: "uuid \<Rightarrow> (seller_order \<times> order_line list \<times> outbox_message) \<Rightarrow> SellerOrderPlan \<Rightarrow> bool" where
  "rows_of_plan saga_id row plan \<longleftrightarrow>
     (let so = fst row; ols = fst (snd row) in
      so_order_id so = saga_id \<and> so_status so = ''PENDING'' \<and>
      so_subtotal_cents so = sp_subtotal_cents plan \<and> so_item_count so = item_count plan \<and>
      map ol_line_total_cents ols = map pl_line_total_cents (sp_lines plan) \<and>
      map ol_quantity ols = map pl_quantity (sp_lines plan) \<and>
      (\<forall>l \<in> set ols. ol_order_id l = saga_id \<and> ol_seller_order_id l = Some (so_id so) \<and>
         ol_seller_id l = so_seller_id so) \<and>
      om_type (snd (snd row)) = ''SellerOrderCreated'')"

lemma rows_of_planD:
  assumes "rows_of_plan saga_id row plan"
  shows "so_order_id (fst row) = saga_id"
    and "l \<in> set (fst (snd row)) \<Longrightarrow> ol_seller_order_id l = Some (so_id (fst row))"
    and "l \<in> set (fst (snd row)) \<Longrightarrow> ol_order_id l = saga_id"
    and "l \<in> set (fst (snd row)) \<Longrightarrow> ol_seller_id l = so_seller_id (fst row)"
    and "so_status (fst row) = ''PENDING''"
  using assms by (simp_all add: rows_of_plan_def Let_def)

lemma plan_rows_Some:
  assumes "plan_rows now saga_id user so plan = Some row"
  shows "rows_of_plan saga_id row plan \<and> so_id (fst row) = so"
proof -
  from assms obtain seller products where
    ps: "those (map (py_uuid \<circ> pl_product_id) (sp_lines plan)) = Some products"
    and row: "row = (new_seller_order now saga_id so seller plan,
        map2 (new_order_line now saga_id so seller) products (sp_lines plan),
        outbox ''SellerOrder'' so ''SellerOrderCreated''
          (build_seller_order_event saga_id so user plan ''PENDING''))"
    by (auto simp: plan_rows_def split: option.splits)
  from ps have len: "length products = length (sp_lines plan)"
    unfolding those_Some_iff by (metis length_map)
  have "map ol_line_total_cents (map2 (new_order_line now saga_id so seller) ps ls) = map pl_line_total_cents ls \<and>
      map ol_quantity (map2 (new_order_line now saga_id so seller) ps ls) = map pl_quantity ls"
    if "length ps = length ls" for ps ls
    using that by (induction ps ls rule: list_induct2) (simp_all add: new_order_line_def)
  from this [OF len] show ?thesis
    by (auto simp: rows_of_plan_def row new_seller_order_def new_order_line_def Let_def)
qed

lemma plans_rows_Some:
  assumes "plans_rows now saga_id user fresh plans = Some rows"
  shows "list_all2 (rows_of_plan saga_id) rows plans"
proof -
  from assms have "map (\<lambda>(i, plan). plan_rows now saga_id user (fresh i) plan) (enumerate 1 plans) = map Some rows"
    by (simp add: plans_rows_def those_Some_iff)
  then have eq: "list_all2 (\<lambda>(i, plan) row. plan_rows now saga_id user (fresh i) plan = Some row)
      (enumerate 1 plans) rows"
    by (auto simp: list_all2_conv_all_nth list_eq_iff_nth_eq case_prod_beta)
  then show ?thesis
    by (auto simp: list_all2_conv_all_nth nth_enumerate_eq dest: plan_rows_Some)
qed

text \<open>Adding the rows of a new order keeps the structure.\<close>

lemma own_lines:
  assumes "row \<in> set rows" and "distinct (map (so_id \<circ> fst) rows)"
    and "\<forall>row \<in> set rows. \<forall>l \<in> set (fst (snd row)). ol_seller_order_id l = Some (so_id (fst row))"
  shows "lines_of (concat (map (fst \<circ> snd) rows)) (so_id (fst row)) = fst (snd row)"
  using assms
proof (induction rows)
  case (Cons r rows)
  have "lines_of (fst (snd r)) (so_id (fst r)) = fst (snd r)"
    using Cons.prems(3) by (auto simp: lines_of_def filter_id_conv)
  show ?case
  proof (cases "so_id (fst row) = so_id (fst r)")
    case True
    with Cons.prems have row: "row = r" by (auto simp: image_iff)
    have "lines_of (concat (map (fst \<circ> snd) rows)) (so_id (fst r)) = []"
      using Cons.prems(2,3) by (intro lines_of_none) (fastforce simp: image_iff)
    with row \<open>lines_of (fst (snd r)) (so_id (fst r)) = fst (snd r)\<close> show ?thesis by (simp add: o_def)
  next
    case False
    then have "row \<in> set rows" using Cons.prems(1) by auto
    moreover have "lines_of (fst (snd r)) (so_id (fst row)) = []"
      using Cons.prems(3) False by (intro lines_of_none) auto
    ultimately show ?thesis using Cons by simp
  qed
qed simp

lemma core_ok_add_lines:
  "core_ok ids ols c \<Longrightarrow> ids \<subseteq> ids' \<Longrightarrow> (\<And>l. l \<in> set ols' \<Longrightarrow> ol_seller_order_id l \<noteq> Some (fst c)) \<Longrightarrow>
     core_ok ids' (ols @ ols') c"
  using lines_of_none [of ols' "fst c"] by (auto simp: core_ok_def split: prod.splits)

lemma line_ok_mono: "line_ok cores l \<Longrightarrow> cores \<subseteq> cores' \<Longrightarrow> line_ok cores' l"
  by (auto simp: line_ok_def)

lemma started_structure:
  assumes st: "order_structure db"
    and plans: "split_by_seller (cr_items_payload request) = Inr plans"
    and rows: "plans_rows now (fresh 0) (cr_user_id request) fresh plans = Some rows"
    and acc: "rows_accepted db (new_saga now (fresh 0) request) (map fst rows) (concat (map (fst \<circ> snd) rows))"
  shows "order_structure (started now fresh request key db plans rows)"
proof -
  let ?ols = "concat (map (fst \<circ> snd) rows)"
  let ?ids = "map sg_id (od_sagas db)" and ?cores = "map so_core (od_seller_orders db)"
  from st have S: "distinct ?ids" "distinct (map fst ?cores)"
      "\<And>c. c \<in> set ?cores \<Longrightarrow> core_ok (set ?ids) (od_order_lines db) c"
      "\<And>l. l \<in> set (od_order_lines db) \<Longrightarrow> line_ok (set ?cores) l"
    unfolding order_structure_def structure_ok_def by blast+
  have R: "list_all2 (rows_of_plan (fresh 0)) rows plans" by (rule plans_rows_Some [OF rows])
  have rp: "\<exists>plan \<in> set plans. rows_of_plan (fresh 0) row plan" if "row \<in> set rows" for row
    using list_all2_left_mem [OF R that] .
  then have own: "\<forall>row \<in> set rows. \<forall>l \<in> set (fst (snd row)). ol_seller_order_id l = Some (so_id (fst row))"
    using rows_of_planD(2) by blast
  from acc have A: "fresh 0 \<notin> sg_id ` set (od_sagas db)" "distinct (map (so_id \<circ> fst) rows)"
      "so_id ` fst ` set rows \<inter> so_id ` set (od_seller_orders db) = {}"
      "distinct (map (\<lambda>so. (so_order_id so, so_seller_id so)) (od_seller_orders db @ map fst rows))"
      "distinct (map (\<lambda>l. (ol_order_id l, ol_product_id l)) (od_order_lines db @ ?ols))"
    by (simp_all add: rows_accepted_def o_def)
  have old_line: "\<exists>so \<in> set (od_seller_orders db). ol_seller_order_id l = Some (so_id so)"
    if "l \<in> set (od_order_lines db)" for l
    using S(4) [OF that] by (auto simp: line_ok_def so_core_def)
  have c1: "core_ok (insert (fresh 0) (set ?ids)) (od_order_lines db @ ?ols) c" if "c \<in> set ?cores" for c
    using that own A(3) by (intro core_ok_add_lines [OF S(3) [OF that]]) (fastforce simp: so_core_def)+
  have c2: "core_ok (insert (fresh 0) (set ?ids)) (od_order_lines db @ ?ols) (so_core (fst row))"
    if row: "row \<in> set rows" for row
  proof -
    from rp [OF row] obtain plan where plan: "plan \<in> set plans" "rows_of_plan (fresh 0) row plan" by blast
    from split_by_seller_spec plans obtain ls where "plans = split_spec ls" by blast
    with plan(1) split_spec_plan have "sp_subtotal_cents plan = sum_list (map pl_line_total_cents (sp_lines plan))"
      by blast
    moreover have "lines_of (od_order_lines db) (so_id (fst row)) = []"
      using old_line A(3) row by (intro lines_of_none) fastforce
    moreover have "lines_of ?ols (so_id (fst row)) = fst (snd row)" by (rule own_lines [OF row A(2) own])
    ultimately show ?thesis
      using plan(2) by (simp add: core_ok_def so_core_def rows_of_plan_def Let_def item_count_def)
  qed
  have c3: "line_ok (set ?cores \<union> so_core ` fst ` set rows) l" if "l \<in> set ?ols" for l
  proof -
    from that obtain row where row: "row \<in> set rows" "l \<in> set (fst (snd row))" by auto
    from rp [OF row(1)] obtain plan where "rows_of_plan (fresh 0) row plan" by blast
    from rows_of_planD [OF this] row have "line_ok {so_core (fst row)} l" by (simp add: line_ok_def so_core_def)
    then show ?thesis by (rule line_ok_mono) (use row(1) in auto)
  qed
  let ?db = "started now fresh request key db plans rows"
  have eqs: "map sg_id (od_sagas ?db) = ?ids @ [fresh 0]" "od_order_lines ?db = od_order_lines db @ ?ols"
      "map so_core (od_seller_orders ?db) = ?cores @ map (so_core \<circ> fst) rows"
    by (simp_all add: started_def)
  have "distinct (map fst (?cores @ map (so_core \<circ> fst) rows))"
    using S(2) A(2,3) by (simp add: so_core_def o_def image_image Int_commute)
  moreover have "distinct (map (\<lambda>(i, order, seller, _). (order, seller)) (?cores @ map (so_core \<circ> fst) rows))"
    using A(4) by (simp add: so_core_def o_def)
  moreover have "\<forall>c \<in> set (?cores @ map (so_core \<circ> fst) rows).
      core_ok (set (?ids @ [fresh 0])) (od_order_lines db @ ?ols) c"
    using c1 c2 by (auto simp del: set_map) (auto simp: image_iff)
  moreover have "\<forall>l \<in> set (od_order_lines db @ ?ols). line_ok (set (?cores @ map (so_core \<circ> fst) rows)) l"
  proof
    fix l
    assume "l \<in> set (od_order_lines db @ ?ols)"
    then have "line_ok (set ?cores \<union> so_core ` fst ` set rows) l"
      using c3 S(4) line_ok_mono [of "set ?cores" l] by auto
    then show "line_ok (set (?cores @ map (so_core \<circ> fst) rows)) l" by (simp add: image_comp)
  qed
  ultimately show ?thesis
    using S(1) A(1,5) unfolding order_structure_def eqs structure_ok_def by simp
qed

end
