(* ===== verification/Order_Lifecycle.thy ===== *)
theory Order_Lifecycle
  imports Order_Saga
begin

text \<open>
  What the order service guarantees across its operations. The handlers and loops of
  \<open>Order_Saga\<close> are the steps of a transition system on the database; this theory shows that the
  tables keep their structure, that every saga and every seller order only ever moves along its
  own state machine, and how the two machines constrain each other.
\<close>

section \<open>Closing the seller orders of an ended saga\<close>

lemma filter_enumerate_fst:
  "map fst (filter (\<lambda>(i, y). P y) (enumerate n ys)) = filter (\<lambda>i. P (ys ! (i - n))) [n..<n + length ys]"
proof (induction ys arbitrary: n)
  case (Cons y ys)
  have "filter (\<lambda>i. P ((y # ys) ! (i - n))) [Suc n..<Suc (n + length ys)]
      = filter (\<lambda>i. P (ys ! (i - Suc n))) [Suc n..<Suc (n + length ys)]"
    by (rule filter_cong) (auto simp: nth_Cons' Suc_diff_le)
  with Cons [of "Suc n"] show ?case by (simp add: upt_conv_Cons del: upt_Suc)
qed simp

lemma map_nth_filter: "map ((!) xs) (filter (\<lambda>i. P (xs ! i)) [0..<length xs]) = filter P xs"
proof -
  have "filter P xs = filter P (map ((!) xs) [0..<length xs])" by (simp add: map_nth)
  also have "\<dots> = map ((!) xs) (filter (P \<circ> (!) xs) [0..<length xs])" by (rule filter_map)
  finally show ?thesis by (simp add: o_def)
qed

lemma may_cancel_children: "may_cancel st \<longleftrightarrow>
    (case as_status st of None \<Rightarrow> False | Some r \<Rightarrow> r \<in> set cancellable_child_statuses)"
  by (simp add: may_cancel_def cancellable_child_statuses_def split: option.splits)

lemma closing_filter:
  assumes "st \<in> set SAGA_STATES_ENDING_THE_ORDER"
  shows "map (\<lambda>i. xs ! i) (children_to_cancel st (map so_status xs)) = filter (\<lambda>so. may_cancel (so_status so)) xs"
proof -
  have "children_to_cancel st (map so_status xs)
      = map fst (filter (\<lambda>(i, y). may_cancel y) (enumerate 0 (map so_status xs)))"
    using assms by (simp add: children_to_cancel_def may_cancel_children)
  also have "\<dots> = filter (\<lambda>i. may_cancel (map so_status xs ! (i - 0))) [0..<0 + length (map so_status xs)]"
    by (rule filter_enumerate_fst)
  also have "\<dots> = filter (\<lambda>i. may_cancel (so_status (xs ! i))) [0..<length xs]"
    by (auto intro: filter_cong)
  finally show ?thesis using map_nth_filter [of xs "\<lambda>so. may_cancel (so_status so)"] by simp
qed

lemma so_id_in_filter:
  assumes "distinct (map so_id sos)" and "so \<in> set sos"
  shows "so_id so \<in> set (map so_id (filter P sos)) \<longleftrightarrow> P so"
  using assms by (auto simp: distinct_map inj_on_def)

lemma order_structure_distinct:
  assumes "order_structure db"
  shows "distinct (map sg_id (od_sagas db))" and "distinct (map so_id (od_seller_orders db))"
proof -
  have "fst \<circ> so_core = so_id" by (simp add: fun_eq_iff so_core_def)
  with assms show "distinct (map sg_id (od_sagas db))" "distinct (map so_id (od_seller_orders db))"
    by (simp_all add: order_structure_def structure_ok_def)
qed

lemma set_children_of: "set (children_of db i) = {so \<in> set (od_seller_orders db). so_order_id so = i}"
  by (auto simp: children_of_def)

lemma cancel_children_eq:
  assumes "sg_status s \<in> set SAGA_STATES_ENDING_THE_ORDER"
  shows "cancel_children_of_ended_saga now s db =
     (let closing = filter (\<lambda>so. may_cancel (so_status so)) (children_of db (sg_id s));
          close = cancel_child now (cancellation_reason (sg_status s))
      in (length closing,
          add_outbox now (map (seller_order_event db ''SellerOrderCancelled'') (map close closing))
            (update_seller_orders (\<lambda>so. so_id so \<in> set (map so_id closing)) close db)))"
proof -
  let ?ch = "children_of db (sg_id s)"
  let ?ix = "children_to_cancel (sg_status s) (map so_status ?ch)"
  have "length ?ix = length (map (\<lambda>i. ?ch ! i) ?ix)" by simp
  then show ?thesis
    using assms unfolding cancel_children_of_ended_saga_def Let_def closing_filter [OF assms] by simp
qed

text \<open>What \<open>cancel_children_of_ended_saga\<close> does to each row, and the events it emits.\<close>

lemma cancel_children_rows:
  assumes "order_structure db"
  shows "od_seller_orders (snd (cancel_children_of_ended_saga now s db)) =
     map (\<lambda>so. if so_order_id so = sg_id s \<and> sg_status s \<in> set SAGA_STATES_ENDING_THE_ORDER \<and> may_cancel (so_status so)
               then cancel_child now (cancellation_reason (sg_status s)) so else so) (od_seller_orders db)"
proof (cases "sg_status s \<in> set SAGA_STATES_ENDING_THE_ORDER")
  case True
  let ?closing = "filter (\<lambda>so. may_cancel (so_status so)) (children_of db (sg_id s))"
  have "so_id so \<in> so_id ` set ?closing \<longleftrightarrow> so_order_id so = sg_id s \<and> may_cancel (so_status so)"
    if "so \<in> set (od_seller_orders db)" for so
    using order_structure_distinct(2) [OF assms] that
    by (auto simp: set_children_of distinct_map inj_on_def)
  with True show ?thesis by (simp add: cancel_children_eq Let_def)
qed (simp add: cancel_children_of_ended_saga_def)

lemma cancel_children_messages:
  "od_outbox (snd (cancel_children_of_ended_saga now s db)) = od_outbox db @
     (if sg_status s \<in> set SAGA_STATES_ENDING_THE_ORDER
      then map (\<lambda>so. (now, seller_order_event db ''SellerOrderCancelled''
             (cancel_child now (cancellation_reason (sg_status s)) so)))
           (filter (\<lambda>so. may_cancel (so_status so)) (children_of db (sg_id s)))
      else [])"
proof (cases "sg_status s \<in> set SAGA_STATES_ENDING_THE_ORDER")
  case True
  then show ?thesis by (simp add: cancel_children_eq Let_def o_def)
qed (simp add: cancel_children_of_ended_saga_def)

text \<open>The row of a child after an applied event.\<close>

definition child_after :: "int \<Rightarrow> string \<Rightarrow> string \<Rightarrow> seller_order \<Rightarrow> seller_order" where
  "child_after now status event_type so =
     (let so = (if status \<in> set SAGA_STATES_ENDING_THE_ORDER \<and> may_cancel (so_status so)
                then cancel_child now (cancellation_reason status) so else so)
      in if event_type = ''InventoryReserved'' \<and> so_status so = ''PENDING''
         then so\<lparr>so_status := ''INVENTORY_RESERVED'', so_updated_at := now\<rparr> else so)"

lemma child_after_core [simp]: "so_core (child_after now st ev so) = so_core so"
  by (simp add: child_after_def so_core_def cancel_child_def Let_def)

lemma apply_decision_children:
  assumes "order_structure db"
  shows "od_seller_orders (snd (apply_decision now s ev d db)) =
     map (\<lambda>so. if sd_outcome d = APPLY \<and> so_order_id so = sg_id s
               then child_after now (the (sd_new_status d)) ev so else so) (od_seller_orders db)"
proof (cases "sd_outcome d = APPLY")
  case True
  let ?s = "s\<lparr>sg_status := the (sd_new_status d), sg_updated_at := now\<rparr>"
  let ?db1 = "update_saga (sg_id s) (\<lambda>_. ?s) db"
  let ?db2 = "snd (cancel_children_of_ended_saga now ?s ?db1)"
  have "map sg_id (od_sagas ?db1) = map sg_id (od_sagas db)" by simp
  with assms have "order_structure ?db1" by (simp only: order_structure_def order_db_update_sel)
  then have rows: "od_seller_orders ?db2 =
     map (\<lambda>so. if so_order_id so = sg_id s \<and> the (sd_new_status d) \<in> set SAGA_STATES_ENDING_THE_ORDER
                  \<and> may_cancel (so_status so)
               then cancel_child now (cancellation_reason (the (sd_new_status d))) so else so) (od_seller_orders db)"
    by (simp add: cancel_children_rows)
  have "od_seller_orders (snd (apply_decision now s ev d db)) =
      od_seller_orders (if ev = ''InventoryReserved'' then reserve_children now (sg_id s) ?db2 else ?db2)"
    using True unfolding apply_decision_def Let_def by (cases "sd_command d") simp_all
  also have "\<dots> = map (\<lambda>so. if so_order_id so = sg_id s then child_after now (the (sd_new_status d)) ev so else so)
      (od_seller_orders db)"
  proof (cases "ev = ''InventoryReserved''")
    case True
    show ?thesis
      unfolding True reserve_children_def simp_thms if_True order_db_update_sel rows map_map
      by (rule map_cong [OF refl]) (simp add: child_after_def cancel_child_def)
  next
    case False
    then show ?thesis by (simp add: rows child_after_def Let_def)
  qed
  finally show ?thesis using True by simp
next
  case False
  then show ?thesis unfolding apply_decision_def Let_def by (cases "sd_command d") simp_all
qed

lemma cancel_table: "map fst (action_table ''cancel'') = [S_PENDING, S_INVENTORY_RESERVED, S_CONFIRMED]"
  by (simp add: action_table_def ACTIONS_def)

lemma may_cancel_iff: "may_cancel st \<longleftrightarrow> st \<in> {''PENDING'', ''INVENTORY_RESERVED'', ''CONFIRMED''}"
proof
  assume "may_cancel st"
  then obtain k where "as_status st = Some k" "k \<in> {S_PENDING, S_INVENTORY_RESERVED, S_CONFIRMED}"
    by (auto simp: may_cancel_def cancel_table split: option.splits)
  then show "st \<in> {''PENDING'', ''INVENTORY_RESERVED'', ''CONFIRMED''}"
    by (auto simp: as_status_Some)
next
  assume "st \<in> {''PENDING'', ''INVENTORY_RESERVED'', ''CONFIRMED''}"
  then have "st \<in> sos_value ` {S_PENDING, S_INVENTORY_RESERVED, S_CONFIRMED}" by auto
  then show "may_cancel st" by (auto simp: may_cancel_def cancel_table simp del: sos_value.simps)
qed

lemma stranded_iff:
  "stranded db so = (case saga_by_id db (so_order_id so) of
      None \<Rightarrow> None
    | Some s \<Rightarrow> if sg_status s \<in> set SAGA_STATES_ENDING_THE_ORDER \<and> may_cancel (so_status so)
               then Some (sg_status s) else None)"
  unfolding stranded_def may_cancel_iff by (simp add: SAGA_STATES_ENDING_THE_ORDER_def cong: option.case_cong)

section \<open>The rows after each operation\<close>

lemma transition_seller_order_failure:
  "transition_seller_order io now oid sid action request db = (Inl f, db') \<Longrightarrow> db' = db"
  unfolding transition_seller_order_def Let_def by (auto split: option.splits if_splits)

lemma transition_seller_order_cases:
  assumes "transition_seller_order io now oid sid action request db = (Inr r, db')"
  obtains so d where
    "find (\<lambda>so. so_id so = sid \<and> so_order_id so = oid) (od_seller_orders db) = Some so"
    "d = plan_transition action (so_status so) (case ar_reason request of None \<Rightarrow> [] | Some x \<Rightarrow> x)"
    "cod_ok d" "io" "r = (moved_seller_order action now request d so, effect_value (cd_effect d))"
    "db' = add_outbox now (transition_messages db action d (moved_seller_order action now request d so))
       (update_seller_orders (\<lambda>x. so_id x = sid) (\<lambda>_. moved_seller_order action now request d so) db)"
proof (cases "find (\<lambda>so. so_id so = sid \<and> so_order_id so = oid) (od_seller_orders db)")
  case None
  with assms show ?thesis by (simp add: transition_seller_order_def)
next
  case (Some so)
  let ?d = "plan_transition action (so_status so) (case ar_reason request of None \<Rightarrow> [] | Some x \<Rightarrow> x)"
  from Some assms have ok: "cod_ok ?d" by (simp add: transition_seller_order_def Let_def split: if_splits)
  with Some assms show ?thesis
    by (intro that [OF Some refl ok]) (simp_all add: transition_seller_order_def Let_def)
qed

lemma moved_seller_order_sel [simp]:
  "so_core (moved_seller_order action now request d so) = so_core so"
  "so_id (moved_seller_order action now request d so) = so_id so"
  "so_order_id (moved_seller_order action now request d so) = so_order_id so"
  "so_status (moved_seller_order action now request d so) = sos_value (the (cd_to d))"
  by (simp_all add: moved_seller_order_def stamp_action_def so_core_def Let_def)

lemma update_one_seller_order:
  assumes "distinct (map so_id sos)" and "so \<in> set sos"
  shows "map (\<lambda>x. if so_id x = so_id so then f so else x) sos = map (\<lambda>x. if x = so then f x else x) sos"
  using assms by (auto simp: distinct_map inj_on_def)

lemma reap_sagas_rows:
  assumes "order_structure db"
  shows "od_sagas (reap_sagas locked now db) =
     map (\<lambda>s. if reapable now s \<and> \<not> locked (sg_id s) then s\<lparr>sg_status := ''TIMED_OUT'', sg_updated_at := now\<rparr> else s)
       (od_sagas db)"
proof -
  have "sg_id s \<in> set (map sg_id (filter (\<lambda>s. reapable now s \<and> \<not> locked (sg_id s)) (od_sagas db)))
      \<longleftrightarrow> reapable now s \<and> \<not> locked (sg_id s)" if "s \<in> set (od_sagas db)" for s
    using order_structure_distinct(1) [OF assms] that by (auto simp: distinct_map inj_on_def)
  then show ?thesis by (simp add: reap_sagas_def Let_def cong: map_cong)
qed

lemma reap_sagas_sel [simp]:
  "od_seller_orders (reap_sagas locked now db) = od_seller_orders db"
  "od_order_lines (reap_sagas locked now db) = od_order_lines db"
  "od_idempotency_keys (reap_sagas locked now db) = od_idempotency_keys db"
  by (simp_all add: reap_sagas_def Let_def)

lemma reap_sagas_structure:
  assumes "order_structure db"
  shows "order_structure (reap_sagas locked now db)"
proof -
  have "map sg_id (od_sagas (reap_sagas locked now db)) = map sg_id (od_sagas db)"
    unfolding reap_sagas_rows [OF assms] map_map by (rule map_cong [OF refl]) simp
  with assms show ?thesis by (simp only: order_structure_def reap_sagas_sel)
qed

definition close_child :: "order_db \<Rightarrow> int \<Rightarrow> seller_order \<Rightarrow> seller_order" where
  "close_child db now so = (case stranded db so of
     None \<Rightarrow> so | Some st \<Rightarrow> cancel_child now (cancellation_reason st) so)"

lemma close_stranded_eq:
  "close_stranded locked now db =
     add_outbox now
       (map (\<lambda>so. seller_order_event db ''SellerOrderCancelled'' (close_child db now so))
          (filter (\<lambda>so. stranded db so \<noteq> None \<and> \<not> locked (so_id so)) (od_seller_orders db)))
       (update_seller_orders (\<lambda>so. stranded db so \<noteq> None \<and> \<not> locked (so_id so)) (close_child db now) db)"
  unfolding close_stranded_def close_child_def cancel_child_def cancellation_reason_def Let_def ..

lemma close_child_core [simp]: "so_core (close_child db now so) = so_core so"
  by (simp add: close_child_def so_core_def cancel_child_def split: option.splits)

section \<open>The two state machines\<close>

text \<open>
  A saga moves by an entry of its transition tables, or is reaped; a seller order moves by an
  accepted action, or when its order's stock is reserved.
\<close>

inductive saga_move :: "string \<Rightarrow> string \<Rightarrow> string \<Rightarrow> bool" where
  event: "saga_arrow pm s e t c \<Longrightarrow> saga_move pm s t"
| reaped: "saga_move pm PENDING TIMED_OUT"
| reaped_reserved: "saga_move ''CARD'' INVENTORY_RESERVED TIMED_OUT"
| reaped_paid: "saga_move ''CARD'' PAID TIMED_OUT"

inductive child_move :: "SellerOrderStatus \<Rightarrow> SellerOrderStatus \<Rightarrow> bool" where
  action: "cod_arrow a s t e f rr \<Longrightarrow> child_move s t"
| reserved: "child_move S_PENDING S_INVENTORY_RESERVED"

definition saga_next :: "saga_row \<Rightarrow> saga_row \<Rightarrow> bool" where
  "saga_next s s' \<longleftrightarrow> sg_id s' = sg_id s \<and> sg_user_id s' = sg_user_id s \<and>
     sg_payment_method s' = sg_payment_method s \<and> sg_total_cents s' = sg_total_cents s \<and>
     (sg_status s' = sg_status s \<or> saga_move (sg_payment_method s) (sg_status s) (sg_status s'))"

definition child_next :: "seller_order \<Rightarrow> seller_order \<Rightarrow> bool" where
  "child_next so so' \<longleftrightarrow> so_core so' = so_core so \<and>
     (so_status so' = so_status so \<or>
      (\<exists>a b. so_status so = sos_value a \<and> so_status so' = sos_value b \<and> child_move a b))"

inductive order_step :: "order_db \<Rightarrow> order_db \<Rightarrow> bool" where
  create: "order_step db (snd (create_order_endpoint io now fresh request key db))"
| saga_event: "order_step db (snd (process_saga_event_endpoint io now oid ev key db))"
| seller_action: "order_step db (snd (transition_seller_order io now oid sid action request db))"
| reaper: "order_step db (saga_reaper_pass io locked_sagas locked_children now db)"
| cleanup: "order_step db (outbox_cleanup_pass io now db)"

lemma saga_next_refl [simp]: "saga_next s s" and child_next_refl [simp]: "child_next so so"
  by (simp_all add: saga_next_def child_next_def)

lemma may_cancel_move: "may_cancel st \<Longrightarrow> \<exists>k. st = sos_value k \<and> child_move k S_CANCELLED"
proof -
  assume "may_cancel st"
  then obtain k where "st = sos_value k" "k \<in> {S_PENDING, S_INVENTORY_RESERVED, S_CONFIRMED}"
    by (auto simp: may_cancel_def cancel_table as_status_Some split: option.splits)
  then show ?thesis by (auto intro: child_move.action cod_arrow.intros)
qed

text \<open>Every step either adds the rows of a new order or moves the rows there are.\<close>

definition rows_moved :: "order_db \<Rightarrow> order_db \<Rightarrow> bool" where
  "rows_moved db db' \<longleftrightarrow> list_all2 saga_next (od_sagas db) (od_sagas db') \<and>
     list_all2 child_next (od_seller_orders db) (od_seller_orders db') \<and> od_order_lines db' = od_order_lines db"

definition rows_added :: "order_db \<Rightarrow> order_db \<Rightarrow> bool" where
  "rows_added db db' \<longleftrightarrow> (\<exists>now fresh request key plans rows. db' = started now fresh request key db plans rows \<and>
     check_idempotency db key = Inr None \<and>
     split_by_seller (cr_items_payload request) = Inr plans \<and>
     plans_rows now (fresh 0) (cr_user_id request) fresh plans = Some rows \<and>
     rows_accepted db (new_saga now (fresh 0) request) (map fst rows) (concat (map (fst \<circ> snd) rows)))"

lemma rows_moved_map:
  assumes "od_sagas db' = map f (od_sagas db)" and "od_seller_orders db' = map g (od_seller_orders db)"
    and "od_order_lines db' = od_order_lines db"
    and "\<And>s. s \<in> set (od_sagas db) \<Longrightarrow> saga_next s (f s)"
    and "\<And>so. so \<in> set (od_seller_orders db) \<Longrightarrow> child_next so (g so)"
  shows "rows_moved db db'"
  using assms by (auto simp: rows_moved_def list_all2_map2 intro: list.rel_refl_strong)

lemma rows_moved_refl [simp]: "rows_moved db db"
  by (rule rows_moved_map [where f = id and g = id]) simp_all

lemma child_next_cancel: "may_cancel (so_status so) \<Longrightarrow> child_next so (cancel_child now reason so)"
  using may_cancel_move [of "so_status so"]
  by (force simp: child_next_def cancel_child_def so_core_def)

lemma child_next_after: "child_next so (child_after now st ev so)"
proof (cases "st \<in> set SAGA_STATES_ENDING_THE_ORDER \<and> may_cancel (so_status so)")
  case True
  then have "child_after now st ev so = cancel_child now (cancellation_reason st) so"
    by (simp add: child_after_def cancel_child_def)
  with True show ?thesis by (simp add: child_next_cancel)
next
  case False
  have "so_status so = ''PENDING'' \<Longrightarrow> child_next so (so\<lparr>so_status := ''INVENTORY_RESERVED'', so_updated_at := now\<rparr>)"
    using child_move.reserved by (force simp: child_next_def so_core_def)
  with False show ?thesis by (auto simp: child_after_def Let_def)
qed

lemma arrow_not_same: "saga_arrow pm s e t c \<Longrightarrow> s \<noteq> t"
  by (induction rule: saga_arrow.induct) simp_all

lemma apply_decision_next:
  assumes "d = resolve (sg_status s) ev (sg_payment_method s)"
  shows "saga_next s (fst (apply_decision now s ev d db))"
proof (cases "sd_outcome d = APPLY")
  case True
  then obtain t c where d: "d = decision APPLY (Some t) c" using resolve_APPLY_status assms by blast
  with assms resolve_APPLY_imp_arrow [of "sg_status s" ev "sg_payment_method s" t c]
  have "saga_move (sg_payment_method s) (sg_status s) t" by (auto intro: saga_move.event)
  then show ?thesis by (simp add: d saga_next_def apply_decision_def Let_def)
qed (simp add: apply_decision_def Let_def)

lemma saga_event_moved:
  assumes "order_structure db"
  shows "rows_moved db (snd (advance_saga io now oid ev key db))"
proof (cases "advance_saga io now oid ev key db")
  case (Pair x db')
  show ?thesis
  proof (cases x)
    case (Inl f)
    with Pair advance_saga_failure show ?thesis by fastforce
  next
    case (Inr r)
    with Pair have "advance_saga io now oid ev key db = (Inr r, db')" by simp
    then show ?thesis
    proof (cases rule: advance_saga_cases)
      case (moved s d)
      let ?s = "fst (apply_decision now s ev d db)"
      have same: "x = s" if "x \<in> set (od_sagas db)" "sg_id x = sg_id s" for x
        using that saga_by_id_SomeD [OF moved(3)] order_structure_distinct(1) [OF assms]
        by (auto simp: distinct_map inj_on_def)
      have "rows_moved db (store_key key (sg_id s) (snd (apply_decision now s ev d db)))"
        by (rule rows_moved_map [where
              f = "\<lambda>x. if sd_outcome d = APPLY \<and> sg_id x = sg_id s then ?s else x" and
              g = "\<lambda>so. if sd_outcome d = APPLY \<and> so_order_id so = sg_id s
                         then child_after now (the (sd_new_status d)) ev so else so"])
          (auto simp: apply_decision_children [OF assms] child_next_after apply_decision_next [OF moved(4)]
            dest: same)
      with Pair moved(7) show ?thesis by simp
    qed (simp_all add: Pair)
  qed
qed

lemma seller_action_moved:
  assumes "order_structure db"
  shows "rows_moved db (snd (transition_seller_order io now oid sid action request db))"
proof (cases "transition_seller_order io now oid sid action request db")
  case (Pair x db')
  show ?thesis
  proof (cases x)
    case (Inl f)
    with Pair transition_seller_order_failure show ?thesis by fastforce
  next
    case (Inr r)
    with Pair have "transition_seller_order io now oid sid action request db = (Inr r, db')" by simp
    then show ?thesis
    proof (cases rule: transition_seller_order_cases)
      case (1 so d)
      let ?m = "moved_seller_order action now request d"
      from find_SomeD [OF 1(1)] have so: "so \<in> set (od_seller_orders db)" "so_id so = sid" by auto
      have "od_seller_orders db' = map (\<lambda>x. if x = so then ?m x else x) (od_seller_orders db)"
        using update_one_seller_order [OF order_structure_distinct(2) [OF assms] so(1), of ?m]
        by (simp add: 1(6) so(2))
      moreover have "child_next so (?m so)"
        using plan_transition_okD [OF 1(3) [unfolded 1(2)]] child_move.action
        by (fastforce simp: child_next_def 1(2))
      ultimately have "rows_moved db db'"
        by (intro rows_moved_map [where f = id and g = "\<lambda>x. if x = so then ?m x else x"]) (auto simp: 1(6))
      with Pair show ?thesis by simp
    qed
  qed
qed

lemma reaped_next: "reapable now s \<Longrightarrow> saga_next s (s\<lparr>sg_status := ''TIMED_OUT'', sg_updated_at := t\<rparr>)"
  using saga_move.intros(2-4)
  by (auto simp: reapable_def saga_next_def saga_status_defs)

lemma reaper_moved:
  assumes "order_structure db"
  shows "rows_moved db (saga_reaper_pass io locked_sagas locked_children now db)"
proof -
  let ?db1 = "reap_sagas locked_sagas now db"
  have "rows_moved db (close_stranded locked_children now ?db1)"
  proof (rule rows_moved_map)
    show "od_sagas (close_stranded locked_children now ?db1) =
        map (\<lambda>s. if reapable now s \<and> \<not> locked_sagas (sg_id s)
                 then s\<lparr>sg_status := ''TIMED_OUT'', sg_updated_at := now\<rparr> else s) (od_sagas db)"
      by (simp add: close_stranded_eq reap_sagas_rows [OF assms])
    show "od_seller_orders (close_stranded locked_children now ?db1) =
        map (\<lambda>so. if stranded ?db1 so \<noteq> None \<and> \<not> locked_children (so_id so) then close_child ?db1 now so else so)
          (od_seller_orders db)"
      by (simp add: close_stranded_eq)
    show "child_next so (if stranded ?db1 so \<noteq> None \<and> \<not> locked_children (so_id so) then close_child ?db1 now so else so)"
      for so
      by (auto simp: close_child_def stranded_iff child_next_cancel split: option.splits if_splits)
  qed (auto simp: close_stranded_eq intro: reaped_next)
  then show ?thesis by (simp add: saga_reaper_pass_def)
qed

lemma create_same_or_added:
  "snd (create_order_endpoint io now fresh request key db) = db \<or>
   rows_added db (snd (create_order_endpoint io now fresh request key db))"
proof (cases "start_saga io now fresh request key db")
  case (Pair x db')
  have "db' = db \<or> rows_added db db'"
  proof (cases x)
    case (Inl f)
    with Pair start_saga_failure show ?thesis by fastforce
  next
    case (Inr r)
    with Pair have "start_saga io now fresh request key db = (Inr r, db')" by simp
    then show ?thesis by (cases rule: start_saga_cases) (auto simp: rows_added_def)
  qed
  with Pair show ?thesis by (simp add: create_order_endpoint_def)
qed

lemma step_moved_or_added:
  assumes "order_structure db" and "order_step db db'"
  shows "rows_moved db db' \<or> rows_added db db'"
  using assms(2,1)
proof cases
  case (create io now fresh request key)
  with create_same_or_added [of io now fresh request key db] show ?thesis by auto
next
  case (saga_event io now oid ev key)
  with saga_event_moved [OF assms(1)] show ?thesis
    by (auto simp: process_saga_event_endpoint_def split: option.splits)
next
  case (cleanup io now)
  then show ?thesis
    by (intro disjI1) (auto simp: outbox_cleanup_pass_def intro: rows_moved_map [where f = id and g = id])
qed (simp_all add: seller_action_moved reaper_moved assms(1))

lemma rows_moved_cores:
  assumes "rows_moved db db'"
  shows "map sg_id (od_sagas db') = map sg_id (od_sagas db)"
    and "map so_core (od_seller_orders db') = map so_core (od_seller_orders db)"
    and "od_order_lines db' = od_order_lines db"
proof -
  have "list_all2 (\<lambda>s s'. sg_id s' = sg_id s) (od_sagas db) (od_sagas db')"
    "list_all2 (\<lambda>s s'. so_core s' = so_core s) (od_seller_orders db) (od_seller_orders db')"
    using assms by (auto simp: rows_moved_def saga_next_def child_next_def elim: list_all2_mono)
  then show "map sg_id (od_sagas db') = map sg_id (od_sagas db)"
    "map so_core (od_seller_orders db') = map so_core (od_seller_orders db)"
    by (auto simp: list_all2_conv_all_nth list_eq_iff_nth_eq)
  show "od_order_lines db' = od_order_lines db" using assms by (simp add: rows_moved_def)
qed

definition empty_order_db :: "order_db \<Rightarrow> bool" where
  "empty_order_db db \<longleftrightarrow> db = \<lparr>od_sagas = [], od_seller_orders = [], od_order_lines = [], od_outbox = [],
     od_idempotency_keys = []\<rparr>"

interpretation order_structure_inv: inductive_invariant empty_order_db order_step order_structure
proof unfold_locales
  show "empty_order_db db \<Longrightarrow> order_structure db" for db
    by (simp add: empty_order_db_def order_structure_def structure_ok_def)
next
  fix db db'
  assume st: "order_structure db" and step: "order_step db db'"
  from step_moved_or_added [OF st step] show "order_structure db'"
  proof
    assume "rows_moved db db'"
    from rows_moved_cores [OF this] st show ?thesis by (simp only: order_structure_def)
  next
    assume "rows_added db db'"
    then show ?thesis unfolding rows_added_def using started_structure [OF st] by blast
  qed
qed

text \<open>A row there is stays, and moves by its machine.\<close>

lemma saga_by_id_next:
  assumes "list_all2 saga_next ss ss'" and "find (\<lambda>s. sg_id s = i) ss = Some s"
  shows "\<exists>s'. find (\<lambda>s. sg_id s = i) (ss' @ new) = Some s' \<and> saga_next s s'"
  using assms by (induction rule: list_all2_induct) (auto simp: saga_next_def split: if_splits)

lemma step_saga_next:
  assumes "order_structure db" and "order_step db db'" and "saga_by_id db i = Some s"
  shows "\<exists>s'. saga_by_id db' i = Some s' \<and> saga_next s s'"
  using step_moved_or_added [OF assms(1,2)]
proof
  assume "rows_moved db db'"
  then show ?thesis using saga_by_id_next [of "od_sagas db" "od_sagas db'" i s "[]"] assms(3)
    by (simp add: rows_moved_def saga_by_id_def)
next
  assume "rows_added db db'"
  then obtain new where "od_sagas db' = od_sagas db @ new" by (auto simp: rows_added_def started_def)
  moreover have "list_all2 saga_next (od_sagas db) (od_sagas db)" by (simp add: list.rel_refl_strong)
  ultimately show ?thesis using saga_by_id_next [of "od_sagas db" "od_sagas db" i s new] assms(3)
    by (simp add: saga_by_id_def)
qed

lemma step_child_next:
  assumes "order_structure db" and "order_step db db'" and "so \<in> set (od_seller_orders db)"
  shows "\<exists>so' \<in> set (od_seller_orders db'). child_next so so'"
  using step_moved_or_added [OF assms(1,2)]
proof
  assume "rows_moved db db'"
  then show ?thesis using list_all2_left_mem assms(3) by (auto simp: rows_moved_def)
next
  assume "rows_added db db'"
  then have "set (od_seller_orders db) \<subseteq> set (od_seller_orders db')" by (auto simp: rows_added_def started_def)
  with assms(3) show ?thesis using child_next_refl by blast
qed

section \<open>Orders placed through the service\<close>

text \<open>
  \<open>start_saga\<close> leaves \<open>payment_method\<close> at its default, so every order it creates is cash on
  delivery. \<open>child_ok\<close> relates the status of such an order to that of its seller orders.
\<close>

definition child_ok :: "string \<Rightarrow> string \<Rightarrow> bool" where
  "child_ok parent child \<longleftrightarrow>
     (if parent = ORDER_COMPLETED then as_status child \<noteq> None \<and> child \<noteq> ''PENDING''
      else child = ''PENDING'' \<or> child = ''CANCELLED'')"

definition cod_saga :: "saga_row \<Rightarrow> bool" where
  "cod_saga s \<longleftrightarrow> sg_payment_method s = ''COD'' \<and>
     sg_status s \<in> {PENDING, ORDER_COMPLETED, TIMED_OUT, ROLLBACK_COMPLETED}"

definition order_live :: "order_db \<Rightarrow> bool" where
  "order_live db \<longleftrightarrow> (\<forall>s \<in> set (od_sagas db). cod_saga s) \<and>
     (\<forall>so \<in> set (od_seller_orders db). \<forall>s \<in> set (od_sagas db).
        sg_id s = so_order_id so \<longrightarrow> child_ok (sg_status s) (so_status so))"

lemma order_live_map:
  assumes "order_live db" and "od_sagas db' = map f (od_sagas db)" and "od_seller_orders db' = map g (od_seller_orders db)"
    and "\<And>s. s \<in> set (od_sagas db) \<Longrightarrow> cod_saga s \<Longrightarrow> cod_saga (f s) \<and> sg_id (f s) = sg_id s"
    and "\<And>so. so \<in> set (od_seller_orders db) \<Longrightarrow> so_order_id (g so) = so_order_id so"
    and "\<And>s so. s \<in> set (od_sagas db) \<Longrightarrow> so \<in> set (od_seller_orders db) \<Longrightarrow> cod_saga s \<Longrightarrow>
           sg_id s = so_order_id so \<Longrightarrow> child_ok (sg_status s) (so_status so) \<Longrightarrow>
           child_ok (sg_status (f s)) (so_status (g so))"
  shows "order_live db'"
  using assms by (auto simp: order_live_def)

lemma as_status_names [simp]:
  "as_status ''CANCELLED'' = Some S_CANCELLED" "as_status ''INVENTORY_RESERVED'' = Some S_INVENTORY_RESERVED"
  "as_status ''PENDING'' = Some S_PENDING"
  by (simp_all add: as_status_Some)

lemma child_ok_cancelled [simp]: "child_ok st ''CANCELLED''"
  by (simp add: child_ok_def)

lemma ended_names [simp]:
  "ORDER_COMPLETED \<notin> set SAGA_STATES_ENDING_THE_ORDER" "PENDING \<notin> set SAGA_STATES_ENDING_THE_ORDER"
  "ROLLBACK_COMPLETED \<in> set SAGA_STATES_ENDING_THE_ORDER" "TIMED_OUT \<in> set SAGA_STATES_ENDING_THE_ORDER"
  "FAILED \<in> set SAGA_STATES_ENDING_THE_ORDER"
  by (simp_all add: SAGA_STATES_ENDING_THE_ORDER_def saga_status_defs)

lemma child_after_status:
  "so_status (child_after now st ev so) =
     (if st \<in> set SAGA_STATES_ENDING_THE_ORDER \<and> may_cancel (so_status so) then ''CANCELLED''
      else if ev = ''InventoryReserved'' \<and> so_status so = ''PENDING'' then ''INVENTORY_RESERVED'' else so_status so)"
  by (simp add: child_after_def cancel_child_def Let_def)

lemma child_after_order [simp]: "so_order_id (child_after now st ev so) = so_order_id so"
  by (simp add: child_after_def cancel_child_def Let_def)

lemma may_cancel_pending [simp]: "may_cancel ''PENDING''" "\<not> may_cancel ''CANCELLED''"
  by (simp_all add: may_cancel_iff)

lemma cod_arrow_live:
  assumes "saga_arrow pm st ev t c" and "pm = ''COD''" and "st \<in> {PENDING, ORDER_COMPLETED, TIMED_OUT, ROLLBACK_COMPLETED}"
    and "child_ok st (so_status so)"
  shows "t \<in> {ORDER_COMPLETED, ROLLBACK_COMPLETED} \<and> child_ok t (so_status (child_after now t ev so))"
  using assms by cases (auto simp: child_after_status child_ok_def)

lemma saga_event_live:
  assumes st: "order_structure db" and live: "order_live db"
  shows "order_live (snd (advance_saga io now oid ev key db))"
proof (cases "advance_saga io now oid ev key db")
  case (Pair x db')
  show ?thesis
  proof (cases x)
    case (Inl f)
    with Pair advance_saga_failure live show ?thesis by fastforce
  next
    case (Inr r)
    with Pair have "advance_saga io now oid ev key db = (Inr r, db')" by simp
    then show ?thesis
    proof (cases rule: advance_saga_cases)
      case (moved s d)
      let ?s = "fst (apply_decision now s ev d db)"
      have s: "s \<in> set (od_sagas db)" using saga_by_id_SomeD [OF moved(3)] by blast
      have same: "x = s" if "x \<in> set (od_sagas db)" "sg_id x = sg_id s" for x
        using that s order_structure_distinct(1) [OF st] by (auto simp: distinct_map inj_on_def)
      show ?thesis
      proof (cases "sd_outcome d = APPLY")
        case False
        then have "od_sagas db' = map id (od_sagas db)" "od_seller_orders db' = map id (od_seller_orders db)"
          by (simp_all add: moved(7) apply_decision_children [OF st])
        then show ?thesis using Pair by (auto intro!: order_live_map [OF live])
      next
        case True
        then obtain t c where d: "d = decision APPLY (Some t) c" using resolve_APPLY_status moved(4) by blast
        then have arrow: "saga_arrow (sg_payment_method s) (sg_status s) ev t c"
          using moved(4) resolve_APPLY_imp_arrow by simp
        have "cod_saga s" using live s by (simp add: order_live_def)
        note live_step = cod_arrow_live [OF arrow, of _ now]
        have s': "?s = s\<lparr>sg_status := t, sg_updated_at := now\<rparr>" by (simp add: d apply_decision_def Let_def)
        have "t \<in> {ORDER_COMPLETED, ROLLBACK_COMPLETED}"
          using live_step [of "undefined\<lparr>so_status := ''CANCELLED''\<rparr>"] \<open>cod_saga s\<close> by (simp add: cod_saga_def)
        then have t: "cod_saga ?s" using \<open>cod_saga s\<close> by (auto simp: s' cod_saga_def)
        have "order_live db'"
        proof (rule order_live_map [OF live])
          show "od_sagas db' = map (\<lambda>x. if sg_id x = sg_id s then ?s else x) (od_sagas db)"
            by (simp add: moved(7) d)
          show "od_seller_orders db' = map (\<lambda>so. if so_order_id so = sg_id s then child_after now t ev so else so)
              (od_seller_orders db)"
            by (simp add: moved(7) apply_decision_children [OF st] d)
          fix x and so :: seller_order
          assume x: "x \<in> set (od_sagas db)" "sg_id x = so_order_id so" "child_ok (sg_status x) (so_status so)"
          show "child_ok (sg_status (if sg_id x = sg_id s then ?s else x))
              (so_status (if so_order_id so = sg_id s then child_after now t ev so else so))"
          proof (cases "sg_id x = sg_id s")
            case True
            with same x(1) have "x = s" by blast
            with x live_step [of so] \<open>cod_saga s\<close> True show ?thesis by (simp add: s' cod_saga_def)
          qed (use x in simp)
        qed (use t in auto)
        then show ?thesis using Pair by simp
      qed
    qed (use Pair live in simp_all)
  qed
qed

lemma child_ok_value:
  "child_ok st (sos_value k) \<longleftrightarrow> (if st = ORDER_COMPLETED then k \<noteq> S_PENDING else k = S_PENDING \<or> k = S_CANCELLED)"
proof -
  have "sos_value k = ''PENDING'' \<longleftrightarrow> k = S_PENDING" "sos_value k = ''CANCELLED'' \<longleftrightarrow> k = S_CANCELLED"
    by (cases k; simp)+
  then show ?thesis by (simp add: child_ok_def)
qed

lemma cod_arrow_child_ok:
  "cod_arrow a k t e f rr \<Longrightarrow> child_ok st (sos_value k) \<Longrightarrow> child_ok st (sos_value t)"
  by (induction rule: cod_arrow.induct) (simp_all add: child_ok_value del: sos_value.simps split: if_splits)

lemma seller_action_live:
  assumes st: "order_structure db" and live: "order_live db"
  shows "order_live (snd (transition_seller_order io now oid sid action request db))"
proof (cases "transition_seller_order io now oid sid action request db")
  case (Pair x db')
  show ?thesis
  proof (cases x)
    case (Inl f)
    with Pair transition_seller_order_failure live show ?thesis by fastforce
  next
    case (Inr r)
    with Pair have "transition_seller_order io now oid sid action request db = (Inr r, db')" by simp
    then have "order_live db'"
    proof (cases rule: transition_seller_order_cases)
      case (1 so d)
      let ?m = "moved_seller_order action now request d"
      from find_SomeD [OF 1(1)] have so: "so \<in> set (od_seller_orders db)" "so_id so = sid" by auto
      obtain k t e f rr where k: "so_status so = sos_value k" "cod_arrow action k t e f rr" "cd_to d = Some t"
        using plan_transition_okD [OF 1(3) [unfolded 1(2)]] 1(2) by force
      show ?thesis
      proof (rule order_live_map [OF live])
        show "od_sagas db' = map id (od_sagas db)" by (simp add: 1(6))
        show "od_seller_orders db' = map (\<lambda>x. if x = so then ?m x else x) (od_seller_orders db)"
          using update_one_seller_order [OF order_structure_distinct(2) [OF st] so(1), of ?m]
          by (simp add: 1(6) so(2))
        fix s :: saga_row and y :: seller_order
        assume "child_ok (sg_status s) (so_status y)"
        then show "child_ok (sg_status (id s)) (so_status (if y = so then ?m y else y))"
          using k cod_arrow_child_ok by auto
      qed auto
    qed
    with Pair show ?thesis by simp
  qed
qed

lemma reaper_live:
  assumes st: "order_structure db" and live: "order_live db"
  shows "order_live (saga_reaper_pass io locked_sagas locked_children now db)"
proof -
  let ?db1 = "reap_sagas locked_sagas now db"
  let ?reap = "\<lambda>s. if reapable now s \<and> \<not> locked_sagas (sg_id s)
      then s\<lparr>sg_status := ''TIMED_OUT'', sg_updated_at := now\<rparr> else s"
  let ?close = "\<lambda>so. if stranded ?db1 so \<noteq> None \<and> \<not> locked_children (so_id so) then close_child ?db1 now so else so"
  have "order_live (close_stranded locked_children now ?db1)"
  proof (rule order_live_map [OF live])
    show "od_sagas (close_stranded locked_children now ?db1) = map ?reap (od_sagas db)"
      by (simp add: close_stranded_eq reap_sagas_rows [OF st])
    show "od_seller_orders (close_stranded locked_children now ?db1) = map ?close (od_seller_orders db)"
      by (simp add: close_stranded_eq)
    show "so_order_id (?close so) = so_order_id so" for so
      by (simp add: close_child_def cancel_child_def split: option.splits)
    show "cod_saga s \<Longrightarrow> cod_saga (?reap s) \<and> sg_id (?reap s) = sg_id s" for s
      by (simp add: cod_saga_def TIMED_OUT_def)
    fix s and so :: seller_order
    assume s: "cod_saga s" and ok: "child_ok (sg_status s) (so_status so)"
    have "child_ok (sg_status (?reap s)) (so_status so)"
      using s ok by (auto simp: reapable_def cod_saga_def child_ok_def saga_status_defs)
    then show "child_ok (sg_status (?reap s)) (so_status (?close so))"
      by (simp add: close_child_def cancel_child_def split: option.splits)
  qed
  then show ?thesis using live by (simp add: saga_reaper_pass_def)
qed

lemma added_live:
  assumes st: "order_structure db" and live: "order_live db" and added: "rows_added db db'"
  shows "order_live db'"
proof -
  from added obtain now fresh request key plans rows where
    db': "db' = started now fresh request key db plans rows" and
    rows: "plans_rows now (fresh 0) (cr_user_id request) fresh plans = Some rows" and
    acc: "rows_accepted db (new_saga now (fresh 0) request) (map fst rows) (concat (map (fst \<circ> snd) rows))"
    by (auto simp: rows_added_def)
  have new: "so_order_id so = fresh 0 \<and> so_status so = ''PENDING''" if "so \<in> fst ` set rows" for so
    using that list_all2_left_mem [OF plans_rows_Some [OF rows]] rows_of_planD(1,5) by fastforce
  have old: "so_order_id so \<noteq> fresh 0" if "so \<in> set (od_seller_orders db)" for so
  proof -
    have "so_order_id so \<in> sg_id ` set (od_sagas db)"
      using st that by (auto simp: order_structure_def structure_ok_def core_ok_def so_core_def)
    then show ?thesis using acc by (auto simp: rows_accepted_def)
  qed
  have sagas: "od_sagas db' = od_sagas db @ [new_saga now (fresh 0) request]"
    and sos: "od_seller_orders db' = od_seller_orders db @ map fst rows"
    by (simp_all add: db' started_def)
  have "fresh 0 \<notin> sg_id ` set (od_sagas db)" using acc by (simp add: rows_accepted_def)
  moreover have "cod_saga (new_saga now (fresh 0) request)" by (simp add: cod_saga_def)
  moreover have "child_ok PENDING ''PENDING''" by (simp add: child_ok_def)
  ultimately show ?thesis
    using live new old unfolding order_live_def sagas sos by (fastforce simp: image_iff)
qed

definition order_inv :: "order_db \<Rightarrow> bool" where
  "order_inv db \<longleftrightarrow> order_structure db \<and> order_live db"

interpretation order_inv: inductive_invariant empty_order_db order_step order_inv
proof unfold_locales
  show "empty_order_db db \<Longrightarrow> order_inv db" for db
    using order_structure_inv.init_inv by (auto simp: order_inv_def order_live_def empty_order_db_def)
next
  fix db db'
  assume inv: "order_inv db" and step: "order_step db db'"
  then have st: "order_structure db" and live: "order_live db" by (simp_all add: order_inv_def)
  from step live st have "order_live db'"
  proof cases
    case (create io now fresh request key)
    with create_same_or_added [of io now fresh request key db] live added_live [OF st live] show ?thesis by auto
  next
    case (saga_event io now oid ev key)
    with saga_event_live [OF st live] live show ?thesis
      by (auto simp: process_saga_event_endpoint_def split: option.splits)
  next
    case (cleanup io now)
    then show ?thesis using live by (simp add: outbox_cleanup_pass_def order_live_def)
  qed (simp_all add: seller_action_live reaper_live)
  with order_structure_inv.step_inv [OF st step] show "order_inv db'" by (simp add: order_inv_def)
qed

section \<open>Consequences of the structure\<close>

lemma seller_order_consistent:
  assumes st: "order_structure db" and so: "so \<in> set (od_seller_orders db)"
  shows "(\<exists>s \<in> set (od_sagas db). sg_id s = so_order_id so) \<and>
     so_subtotal_cents so = sum_list (map ol_line_total_cents (lines_of (od_order_lines db) (so_id so))) \<and>
     so_item_count so = sum_list (map ol_quantity (lines_of (od_order_lines db) (so_id so))) \<and>
     (\<forall>l \<in> set (lines_of (od_order_lines db) (so_id so)). ol_order_id l = so_order_id so \<and> ol_seller_id l = so_seller_id so) \<and>
     (\<forall>so' \<in> set (od_seller_orders db).
        so_order_id so' = so_order_id so \<and> so_seller_id so' = so_seller_id so \<longrightarrow> so' = so)"
proof -
  have core: "core_ok (sg_id ` set (od_sagas db)) (od_order_lines db) (so_core so)"
    using st so by (simp add: order_structure_def structure_ok_def)
  have line: "line_ok (so_core ` set (od_seller_orders db)) l" if "l \<in> set (od_order_lines db)" for l
    using st that by (simp add: order_structure_def structure_ok_def)
  have d: "distinct (map (\<lambda>so. (so_order_id so, so_seller_id so)) (od_seller_orders db))"
    using st by (simp add: order_structure_def structure_ok_def so_core_def o_def)
  have own: "ol_order_id l = so_order_id so \<and> ol_seller_id l = so_seller_id so"
    if "l \<in> set (lines_of (od_order_lines db) (so_id so))" for l
  proof -
    from that have l: "l \<in> set (od_order_lines db)" "ol_seller_order_id l = Some (so_id so)"
      by (simp_all add: lines_of_def)
    with line [OF l(1)] obtain so' where "so' \<in> set (od_seller_orders db)" "so_id so' = so_id so"
      "ol_order_id l = so_order_id so'" "ol_seller_id l = so_seller_id so'"
      by (auto simp: line_ok_def so_core_def)
    moreover from this so order_structure_distinct(2) [OF st] have "so' = so"
      by (auto simp: distinct_map inj_on_def)
    ultimately show ?thesis by simp
  qed
  show ?thesis using core own d so by (auto simp: core_ok_def so_core_def distinct_map inj_on_def)
qed

lemma order_subtotal:
  assumes st: "order_structure db"
  shows "ob_goods_subtotal_cents (get_seller_orders db i) =
     sum_list (map ol_line_total_cents (filter (\<lambda>l. ol_order_id l = i) (od_order_lines db)))"
proof -
  let ?sos = "filter (\<lambda>so. so_order_id so = i) (od_seller_orders db)"
  let ?ols = "filter (\<lambda>l. ol_order_id l = i) (od_order_lines db)"
  have "ob_goods_subtotal_cents (get_seller_orders db i) = sum_list (map so_subtotal_cents ?sos)"
    by (simp add: get_seller_orders_def children_of_def Let_def)
  also have "\<dots> = sum_list (map (\<lambda>so. sum_list (map ol_line_total_cents
      (filter (\<lambda>l. ol_seller_order_id l = Some (so_id so)) ?ols))) ?sos)"
  proof (rule arg_cong [where f = sum_list], rule map_cong [OF refl])
    fix so
    assume "so \<in> set ?sos"
    with seller_order_consistent [OF st, of so] show "so_subtotal_cents so =
        sum_list (map ol_line_total_cents (filter (\<lambda>l. ol_seller_order_id l = Some (so_id so)) ?ols))"
      by (auto simp: lines_of_def cong: filter_cong intro!: arg_cong [where f = "\<lambda>xs. sum_list (map ol_line_total_cents xs)"] filter_cong)
  qed
  also have "\<dots> = sum_list (map (\<lambda>k. sum_list (map ol_line_total_cents
      (filter (\<lambda>l. ol_seller_order_id l = k) ?ols))) (map (Some \<circ> so_id) ?sos))"
    by (simp add: o_def)
  also have "\<dots> = sum_list (map ol_line_total_cents ?ols)"
  proof (rule sum_list_group_by)
    show "distinct (map (Some \<circ> so_id) ?sos)"
      using order_structure_distinct(2) [OF st] by (auto simp: distinct_map inj_on_def)
    have "line_ok (so_core ` set (od_seller_orders db)) l" if "l \<in> set (od_order_lines db)" for l
      using st that by (simp add: order_structure_def structure_ok_def)
    then show "ol_seller_order_id ` set ?ols \<subseteq> set (map (Some \<circ> so_id) ?sos)"
      by (fastforce simp: line_ok_def so_core_def)
  qed
  finally show ?thesis .
qed

lemma terminal_no_arrow: "saga_move pm s t \<Longrightarrow> s \<notin> set TERMINAL_STATES"
  by (induction rule: saga_move.induct) (auto simp: TERMINAL_STATES_def elim!: saga_arrow.cases)

lemma saga_terminal_stays: "(saga_move pm)\<^sup>*\<^sup>* s t \<Longrightarrow> s \<in> set TERMINAL_STATES \<Longrightarrow> t = s"
  by (induction rule: rtranclp_induct) (auto dest: terminal_no_arrow)

lemma child_terminal_stays: "child_move\<^sup>*\<^sup>* a b \<Longrightarrow> a \<in> set TERMINAL \<Longrightarrow> b = a"
proof (induction rule: rtranclp_induct)
  case (step b c)
  then have "child_move a c" by simp
  then show ?case using step.prems by (auto simp: TERMINAL_def elim!: child_move.cases cod_arrow_from)
qed simp

lemma saga_by_id_mem:
  assumes "order_structure db" and "s \<in> set (od_sagas db)"
  shows "saga_by_id db (sg_id s) = Some s"
proof -
  from assms(2) obtain s' where s': "saga_by_id db (sg_id s) = Some s'" using saga_by_id_exists by blast
  with saga_by_id_SomeD [OF s'] assms order_structure_distinct(1) [OF assms(1)] show ?thesis
    by (auto simp: distinct_map inj_on_def)
qed

section \<open>The reaper's SQL\<close>

lemma filter_map_inv: "(\<And>x. P (f x) = P x) \<Longrightarrow> filter P (map f xs) = map f (filter P xs)"
  by (simp add: filter_map o_def)

lemma stranded_of:
  assumes "order_structure db" and "s \<in> set (od_sagas db)" and "so_order_id so = sg_id s"
  shows "stranded db so = (if sg_status s \<in> set SAGA_STATES_ENDING_THE_ORDER \<and> may_cancel (so_status so)
    then Some (sg_status s) else None)"
  using saga_by_id_mem [OF assms(1,2)] assms(3) by (simp add: stranded_iff)

lemma close_child_order [simp]: "so_order_id (close_child db now so) = so_order_id so"
  by (simp add: close_child_def cancel_child_def split: option.splits)

lemma cancel_child_order [simp]: "so_order_id (cancel_child now reason so) = so_order_id so"
  by (simp add: cancel_child_def)

lemma close_stranded_rows_of:
  assumes "order_structure db" and "s \<in> set (od_sagas db)"
  shows "filter (\<lambda>so. so_order_id so = sg_id s) (od_seller_orders (close_stranded (\<lambda>_. False) now db))
       = filter (\<lambda>so. so_order_id so = sg_id s) (od_seller_orders (snd (cancel_children_of_ended_saga now s db)))"
proof -
  let ?P = "\<lambda>so. so_order_id so = sg_id s"
  let ?f = "\<lambda>so. if stranded db so \<noteq> None \<and> \<not> False then close_child db now so else so"
  let ?g = "\<lambda>so. if so_order_id so = sg_id s \<and> sg_status s \<in> set SAGA_STATES_ENDING_THE_ORDER \<and> may_cancel (so_status so)
      then cancel_child now (cancellation_reason (sg_status s)) so else so"
  have "filter ?P (map ?f (od_seller_orders db)) = map ?f (filter ?P (od_seller_orders db))"
    "filter ?P (map ?g (od_seller_orders db)) = map ?g (filter ?P (od_seller_orders db))"
    by (rule filter_map_inv; simp)+
  moreover have "map ?f (filter ?P (od_seller_orders db)) = map ?g (filter ?P (od_seller_orders db))"
    by (rule map_cong [OF refl]) (simp add: close_child_def stranded_of [OF assms])
  ultimately show ?thesis
    by (simp only: close_stranded_eq cancel_children_rows [OF assms(1)] order_db_update_sel)
qed

lemma seller_order_event_order [simp]:
  "dict_get (om_payload (seller_order_event db e so)) ''order_id'' = Some (JStr (so_order_id so))"
  by (simp add: seller_order_event_def)

lemma close_stranded_messages_of:
  assumes "order_structure db" and "s \<in> set (od_sagas db)"
  shows "mset (filter (\<lambda>(_, m). dict_get (om_payload m) ''order_id'' = Some (JStr (sg_id s)))
         (drop (length (od_outbox db)) (od_outbox (close_stranded (\<lambda>_. False) now db))))
       = mset (drop (length (od_outbox db)) (od_outbox (snd (cancel_children_of_ended_saga now s db))))"
proof -
  let ?ev = "\<lambda>so. (now, seller_order_event db ''SellerOrderCancelled'' (close_child db now so))"
  let ?of = "\<lambda>so. so_order_id so = sg_id s"
  have 1: "filter (\<lambda>(_, m). dict_get (om_payload m) ''order_id'' = Some (JStr (sg_id s)))
         (drop (length (od_outbox db)) (od_outbox (close_stranded (\<lambda>_. False) now db)))
      = map ?ev (filter ?of (filter (\<lambda>so. stranded db so \<noteq> None) (od_seller_orders db)))"
    by (simp add: close_stranded_eq filter_map o_def)
  have 2: "filter ?of (filter (\<lambda>so. stranded db so \<noteq> None) (od_seller_orders db))
      = filter (\<lambda>so. stranded db so \<noteq> None) (filter ?of (od_seller_orders db))"
    by (simp only: filter_filter) (simp add: conj_commute)
  have 3: "mset (map ?ev (filter (\<lambda>so. stranded db so \<noteq> None) (filter ?of (od_seller_orders db))))
      = mset (map ?ev (filter (\<lambda>so. stranded db so \<noteq> None) (children_of db (sg_id s))))"
    unfolding children_of_def mset_map mset_filter mset_sort ..
  have 4: "map ?ev (filter (\<lambda>so. stranded db so \<noteq> None) (children_of db (sg_id s))) =
      (if sg_status s \<in> set SAGA_STATES_ENDING_THE_ORDER
       then map (\<lambda>so. (now, seller_order_event db ''SellerOrderCancelled''
              (cancel_child now (cancellation_reason (sg_status s)) so)))
            (filter (\<lambda>so. may_cancel (so_status so)) (children_of db (sg_id s)))
       else [])"
  proof (cases "sg_status s \<in> set SAGA_STATES_ENDING_THE_ORDER")
    case True
    have "filter (\<lambda>so. stranded db so \<noteq> None) (children_of db (sg_id s))
        = filter (\<lambda>so. may_cancel (so_status so)) (children_of db (sg_id s))"
      by (rule filter_cong [OF refl]) (simp add: set_children_of stranded_of [OF assms] True)
    moreover have "map ?ev (filter (\<lambda>so. may_cancel (so_status so)) (children_of db (sg_id s))) =
        map (\<lambda>so. (now, seller_order_event db ''SellerOrderCancelled''
            (cancel_child now (cancellation_reason (sg_status s)) so)))
          (filter (\<lambda>so. may_cancel (so_status so)) (children_of db (sg_id s)))"
      by (rule map_cong [OF refl]) (simp add: set_children_of stranded_of [OF assms] True close_child_def)
    ultimately show ?thesis by (simp only: True if_True)
  next
    case False
    then have "filter (\<lambda>so. stranded db so \<noteq> None) (children_of db (sg_id s)) = []"
      by (simp add: filter_empty_conv set_children_of stranded_of [OF assms])
    with False show ?thesis by simp
  qed
  show ?thesis unfolding 1 2 3 4 cancel_children_messages by simp
qed

lemma apply_decision_fst:
  "fst (apply_decision now s ev (decision APPLY (Some t) c) db) = s\<lparr>sg_status := t, sg_updated_at := now\<rparr>"
  by (simp add: apply_decision_def Let_def)

lemma check_idempotency_None: "check_idempotency db key = Inr None \<Longrightarrow> map_of (od_idempotency_keys db) key = None"
  by (auto simp: check_idempotency_def split: option.splits)

lemma check_idempotency_new:
  "key \<notin> fst ` set (od_idempotency_keys db) \<Longrightarrow> check_idempotency db key = Inr None"
proof -
  assume "key \<notin> fst ` set (od_idempotency_keys db)"
  then have "map_of (od_idempotency_keys db) key = None" by (simp only: map_of_eq_None_iff not_False_eq_True)
  then show ?thesis by (simp add: check_idempotency_def)
qed

section \<open>An order to run the properties on\<close>

text \<open>One line of two units from one seller, placed at time 100.\<close>

definition demo_request :: CreateOrderRequest where
  "demo_request = \<lparr>cr_user_id = uuid_text 7, cr_total_cents = 900, cr_items_payload = JArr [
     JObj [(''product_id'', JStr (uuid_text 21)), (''seller_id'', JStr (uuid_text 11)),
           (''quantity'', JInt 2), (''line_total_cents'', JInt 700)]]\<rparr>"

definition no_orders :: order_db where
  "no_orders = \<lparr>od_sagas = [], od_seller_orders = [], od_order_lines = [], od_outbox = [], od_idempotency_keys = []\<rparr>"

definition demo_fresh :: "nat \<Rightarrow> uuid" where
  "demo_fresh n = uuid_text (1000 + n)"

definition demo_db :: order_db where
  "demo_db = snd (create_order_endpoint True 100 demo_fresh demo_request ''k1'' no_orders)"

lemma demo_start:
  "start_saga True 100 demo_fresh demo_request ''k1'' no_orders =
     (Inr (new_saga 100 (uuid_text 1000) demo_request), demo_db) \<and>
   od_sagas demo_db = [new_saga 100 (uuid_text 1000) demo_request] \<and>
   od_seller_orders demo_db = [new_seller_order 100 (uuid_text 1000) (uuid_text 1001) (uuid_text 11)
     \<lparr>sp_seller_id = uuid_text 11, sp_lines = [\<lparr>pl_product_id = uuid_text 21, pl_quantity = 2,
        pl_price_cents = 0, pl_line_total_cents = 700\<rparr>], sp_subtotal_cents = 700\<rparr>] \<and>
   od_order_lines demo_db = [new_order_line 100 (uuid_text 1000) (uuid_text 1001) (uuid_text 11) (uuid_text 21)
     \<lparr>pl_product_id = uuid_text 21, pl_quantity = 2, pl_price_cents = 0, pl_line_total_cents = 700\<rparr>] \<and>
   od_idempotency_keys demo_db = [(''k1'', Some (uuid_text 1000))]"
  by (simp add: demo_db_def create_order_endpoint_def start_saga_def no_orders_def check_idempotency_def
      demo_request_def split_eval plans_rows_def plan_rows_def py_uuid_text demo_fresh_def rows_accepted_def
      new_saga_def new_seller_order_def new_order_line_def int4_def item_count_def Let_def
      add_outbox_def store_key_def)

lemma demo_reachable: "reachable empty_order_db order_step demo_db"
proof (rule reach_step)
  show "reachable empty_order_db order_step no_orders"
    by (rule reach_init) (simp add: empty_order_db_def no_orders_def)
  show "order_step no_orders demo_db" unfolding demo_db_def by (rule order_step.create)
qed

lemma demo_child:
  "\<exists>so \<in> set (od_seller_orders demo_db). so_order_id so = uuid_text 1000 \<and> so_subtotal_cents so = 700 \<and>
     so_status so = ''PENDING''"
  by (simp add: demo_start new_seller_order_def)

lemma demo_saga: "saga_by_id demo_db (uuid_text 1000) = Some (new_saga 100 (uuid_text 1000) demo_request)"
  by (simp add: saga_by_id_def demo_start)

section \<open>Properties\<close>

text \<open>
  Property C7 (\<open>start_saga\<close>, \<open>advance_saga\<close>, \<open>transition_seller_order\<close>, the reaper and the retention
  loop): in every state the service can reach, a seller order belongs to a saga, its subtotal and
  item count are the sums over its lines, its lines carry its order and its seller, and no other
  seller order is for the same order and seller.
\<close>

theorem order_tables_consistent:
  assumes "reachable empty_order_db order_step db" and "so \<in> set (od_seller_orders db)"
  shows "(\<exists>s \<in> set (od_sagas db). sg_id s = so_order_id so) \<and>
     so_subtotal_cents so = sum_list (map ol_line_total_cents (lines_of (od_order_lines db) (so_id so))) \<and>
     so_item_count so = sum_list (map ol_quantity (lines_of (od_order_lines db) (so_id so))) \<and>
     (\<forall>l \<in> set (lines_of (od_order_lines db) (so_id so)). ol_order_id l = so_order_id so \<and> ol_seller_id l = so_seller_id so) \<and>
     (\<forall>so' \<in> set (od_seller_orders db).
        so_order_id so' = so_order_id so \<and> so_seller_id so' = so_seller_id so \<longrightarrow> so' = so)"
  using seller_order_consistent [OF order_structure_inv.reachable_inv [OF assms(1)] assms(2)] .

theorem order_tables_consistent_witness:
  "\<exists>so \<in> set (od_seller_orders demo_db). so_subtotal_cents so = 700 \<and>
     so_subtotal_cents so = sum_list (map ol_line_total_cents (lines_of (od_order_lines demo_db) (so_id so)))"
  using demo_child order_tables_consistent [OF demo_reachable] by blast

text \<open>
  \<open>get_seller_orders\<close>: the goods subtotal a buyer is shown for an order is the sum of
  the line totals of that order's lines, whoever sells them.
\<close>

theorem breakdown_subtotal:
  assumes "reachable empty_order_db order_step db"
  shows "ob_goods_subtotal_cents (get_seller_orders db order_id) =
     sum_list (map ol_line_total_cents (filter (\<lambda>l. ol_order_id l = order_id) (od_order_lines db)))"
  using order_subtotal [OF order_structure_inv.reachable_inv [OF assms]] .

theorem breakdown_subtotal_witness:
  "ob_goods_subtotal_cents (get_seller_orders demo_db (uuid_text 1000)) = 700"
  unfolding breakdown_subtotal [OF demo_reachable] by (simp add: demo_start new_order_line_def)

text \<open>
  Property C8: however the operations of the service interleave, a saga never disappears, keeps its
  buyer, amount and payment method, and its status only moves along the entries of its transition
  tables or by being reaped. A saga that has reached \<open>ORDER_COMPLETED\<close> or \<open>ROLLBACK_COMPLETED\<close> stays there.
\<close>

theorem saga_follows_machine:
  assumes "order_structure db" and "order_step\<^sup>*\<^sup>* db db'" and "saga_by_id db i = Some s"
  shows "\<exists>s'. saga_by_id db' i = Some s' \<and> sg_user_id s' = sg_user_id s \<and> sg_total_cents s' = sg_total_cents s \<and>
     sg_payment_method s' = sg_payment_method s \<and>
     (saga_move (sg_payment_method s))\<^sup>*\<^sup>* (sg_status s) (sg_status s') \<and>
     (sg_status s \<in> set TERMINAL_STATES \<longrightarrow> sg_status s' = sg_status s)"
proof -
  from assms(2) have "\<exists>s'. saga_by_id db' i = Some s' \<and> sg_user_id s' = sg_user_id s \<and>
      sg_total_cents s' = sg_total_cents s \<and> sg_payment_method s' = sg_payment_method s \<and>
      (saga_move (sg_payment_method s))\<^sup>*\<^sup>* (sg_status s) (sg_status s')"
  proof (induction rule: rtranclp_induct)
    case (step db1 db2)
    from order_structure_inv.steps_inv [OF step(1) assms(1)] have "order_structure db1" .
    with step step_saga_next show ?case by (fastforce simp: saga_next_def intro: rtranclp.rtrancl_into_rtrancl)
  qed (use assms(3) in auto)
  then show ?thesis using saga_terminal_stays by blast
qed

theorem saga_follows_machine_witness:
  "\<exists>s'. saga_by_id (snd (advance_saga True 200 (uuid_text 1000) ''InventoryReserved'' ''k2'' demo_db)) (uuid_text 1000) = Some s' \<and>
     (saga_move ''COD'')\<^sup>*\<^sup>* PENDING (sg_status s')"
proof -
  have step: "order_step\<^sup>*\<^sup>* demo_db (snd (advance_saga True 200 (uuid_text 1000) ''InventoryReserved'' ''k2'' demo_db))"
    using order_step.saga_event [of demo_db True 200 "uuid_text 1000" "''InventoryReserved''" "''k2''"]
    by (simp add: process_saga_event_endpoint_def py_uuid_text)
  from saga_follows_machine [OF order_structure_inv.reachable_inv [OF demo_reachable] step demo_saga]
  show ?thesis by auto
qed

text \<open>
  Property C9: a seller order never disappears and keeps its order, seller, subtotal and item count;
  its status only moves by an action of the cash-on-delivery table or, once, when its order's
  stock is reserved. In particular \<open>SETTLED\<close>, \<open>RETURNED\<close> and \<open>CANCELLED\<close> are final.
\<close>

theorem child_follows_machine:
  assumes "order_structure db" and "order_step\<^sup>*\<^sup>* db db'" and "so \<in> set (od_seller_orders db)"
    and "so_status so = sos_value a"
  shows "\<exists>so' \<in> set (od_seller_orders db'). \<exists>b. so_core so' = so_core so \<and> so_status so' = sos_value b \<and>
     child_move\<^sup>*\<^sup>* a b \<and> (a \<in> set TERMINAL \<longrightarrow> b = a)"
proof -
  from assms(2) have "\<exists>so' \<in> set (od_seller_orders db'). \<exists>b. so_core so' = so_core so \<and>
      so_status so' = sos_value b \<and> child_move\<^sup>*\<^sup>* a b"
  proof (induction rule: rtranclp_induct)
    case (step db1 db2)
    then obtain x b where x: "x \<in> set (od_seller_orders db1)" "so_core x = so_core so"
      "so_status x = sos_value b" "child_move\<^sup>*\<^sup>* a b" by blast
    from order_structure_inv.steps_inv [OF step(1) assms(1)] have "order_structure db1" .
    from step_child_next [OF this step(2) x(1)] obtain y where
      y: "y \<in> set (od_seller_orders db2)" "child_next x y" by blast
    from y(2) x(3) have "\<exists>c. so_status y = sos_value c \<and> (c = b \<or> child_move b c)"
      by (auto simp: child_next_def)
    with x y show ?case by (fastforce simp: child_next_def intro: rtranclp.rtrancl_into_rtrancl)
  qed (use assms(3,4) in auto)
  then show ?thesis using child_terminal_stays by blast
qed

theorem child_follows_machine_witness:
  "\<exists>so' \<in> set (od_seller_orders (snd (advance_saga True 200 (uuid_text 1000) ''InventoryReserved'' ''k2'' demo_db))).
     \<exists>b. so_status so' = sos_value b \<and> child_move\<^sup>*\<^sup>* S_PENDING b"
proof -
  have step: "order_step\<^sup>*\<^sup>* demo_db (snd (advance_saga True 200 (uuid_text 1000) ''InventoryReserved'' ''k2'' demo_db))"
    using order_step.saga_event [of demo_db True 200 "uuid_text 1000" "''InventoryReserved''" "''k2''"]
    by (simp add: process_saga_event_endpoint_def py_uuid_text)
  from demo_child obtain so where so: "so \<in> set (od_seller_orders demo_db)" "so_status so = sos_value S_PENDING"
    by auto
  from child_follows_machine [OF order_structure_inv.reachable_inv [OF demo_reachable] step so]
  show ?thesis by blast
qed

text \<open>
  Which step completes an order: only the event \<open>InventoryReserved\<close> does, and it finds the saga pending.
\<close>

lemma completed_by_report:
  assumes "order_structure db" and "order_live db" and "order_step db db'" and "saga_by_id db i = Some s"
    and "saga_by_id db' i = Some s'" and "sg_status s \<noteq> ORDER_COMPLETED" and "sg_status s' = ORDER_COMPLETED"
  shows "sg_status s = PENDING \<and> (\<exists>io now oid key. py_uuid oid = Some i \<and>
     db' = snd (process_saga_event_endpoint io now oid ''InventoryReserved'' key db))"
proof -
  have s: "s \<in> set (od_sagas db)" "sg_id s = i" and s': "s' \<in> set (od_sagas db')" "sg_id s' = i"
    using saga_by_id_SomeD [OF assms(4)] saga_by_id_SomeD [OF assms(5)] by auto
  have same: "x = s" if "x \<in> set (od_sagas db)" "sg_id x = i" for x
    using that s order_structure_distinct(1) [OF assms(1)] by (auto simp: distinct_map inj_on_def)
  have kept: False if "od_sagas db' = od_sagas db" using that s' same assms(6,7) by auto
  from assms(3) show ?thesis
  proof cases
    case (create io now fresh request key)
    from create_same_or_added [of io now fresh request key db] kept create have "rows_added db db'" by auto
    then obtain new where "od_sagas db' = od_sagas db @ new" by (auto simp: rows_added_def started_def)
    with assms(4-7) show ?thesis by (simp add: saga_by_id_def find_append_kept)
  next
    case (seller_action io now oid sid action request)
    have "od_sagas (snd (transition_seller_order io now oid sid action request db)) = od_sagas db"
      by (simp add: transition_seller_order_def Let_def commit_def split: option.split)
    then show ?thesis using kept seller_action by simp
  next
    case (reaper io locked_sagas locked_children now)
    have "io" using kept by (cases io) (simp_all add: reaper saga_reaper_pass_def)
    with s' obtain x where "x \<in> set (od_sagas db)" "s' = (if reapable now x \<and> \<not> locked_sagas (sg_id x)
        then x\<lparr>sg_status := ''TIMED_OUT'', sg_updated_at := now\<rparr> else x)"
      by (auto simp: reaper saga_reaper_pass_def close_stranded_eq reap_sagas_rows [OF assms(1)])
    with same [of x] s'(2) assms(6,7) show ?thesis by (auto simp: saga_status_defs split: if_splits)
  next
    case (cleanup io now)
    then have "od_sagas db' = od_sagas db" by (simp add: outbox_cleanup_pass_def)
    then show ?thesis using kept by simp
  next
    case (saga_event io now oid ev key)
    have "db' = db" if "key = [] \<or> py_uuid oid = None" using that saga_event by (auto simp: process_saga_event_endpoint_def)
    with kept have "key \<noteq> []" "py_uuid oid \<noteq> None" by auto
    then obtain j where j: "py_uuid oid = Some j" and "db' = snd (advance_saga io now j ev key db)"
      by (auto simp: saga_event process_saga_event_endpoint_def)
    then obtain r where run: "advance_saga io now j ev key db = (r, db')" by (metis prod.collapse)
    with kept advance_saga_failure obtain r' where "r = Inr r'" by (cases r) blast+
    with run have "advance_saga io now j ev key db = (Inr r', db')" by simp
    then show ?thesis
    proof (cases rule: advance_saga_cases)
      case (moved x d)
      have x: "x \<in> set (od_sagas db)" "sg_id x = j" using saga_by_id_SomeD [OF moved(3)] by auto
      have "od_sagas db' = map (\<lambda>y. if sd_outcome d = APPLY \<and> sg_id y = sg_id x then fst (apply_decision now x ev d db) else y) (od_sagas db)"
        by (simp add: moved(7))
      with s' same assms(6,7) have "sd_outcome d = APPLY" and i: "j = i" and c: "sg_status (fst (apply_decision now x ev d db)) = ORDER_COMPLETED"
        using x by (auto split: if_splits)
      from this(1) obtain t c where d: "d = decision APPLY (Some t) c" using resolve_APPLY_status moved(4) by blast
      from same [OF x(1)] x(2) i have "x = s" by simp
      have "t = ORDER_COMPLETED" using c by (simp add: d apply_decision_def Let_def)
      with moved(4) d \<open>x = s\<close> have "saga_arrow (sg_payment_method s) (sg_status s) ev ORDER_COMPLETED c"
        using resolve_APPLY_imp_arrow [of "sg_status s" ev "sg_payment_method s" t c] by simp
      moreover have "cod_saga s" using assms(2) s(1) by (simp add: order_live_def)
      ultimately have "ev = ''InventoryReserved'' \<and> sg_status s = PENDING"
        by cases (auto simp: cod_saga_def saga_status_defs)
      with saga_event j i show ?thesis by blast
    qed (use kept in simp_all)
  qed
qed

text \<open>
  Property C23 (work waits for the report of a reservation): every order placed through the service is
  cash on delivery and only ever \<open>PENDING\<close>, \<open>ORDER_COMPLETED\<close>, \<open>TIMED_OUT\<close> or \<open>ROLLBACK_COMPLETED\<close>; the
  card states are unreachable. A seller order that a seller has to work on, or that is on its way,
  belongs to a completed order, and the only step that completes an order is the accepted event
  \<open>InventoryReserved\<close> on a pending one. That the reported stock is really held is not claimed:
  \<open>retried_rejection_confirms_order\<close> shows a report without a reservation.
\<close>

theorem live_work_needs_reservation_report:
  assumes "reachable empty_order_db order_step db" and "s \<in> set (od_sagas db)"
    and "so \<in> set (od_seller_orders db)" and "so_order_id so = sg_id s"
  shows "sg_payment_method s = ''COD'' \<and> sg_status s \<in> {PENDING, ORDER_COMPLETED, TIMED_OUT, ROLLBACK_COMPLETED} \<and>
     (so_status so \<notin> {''PENDING'', ''CANCELLED''} \<longrightarrow> sg_status s = ORDER_COMPLETED) \<and>
     (sg_status s = ORDER_COMPLETED \<longrightarrow> so_status so \<noteq> ''PENDING'') \<and>
     (\<forall>db' s'. order_step db db' \<longrightarrow> saga_by_id db' (sg_id s) = Some s' \<longrightarrow>
        sg_status s \<noteq> ORDER_COMPLETED \<longrightarrow> sg_status s' = ORDER_COMPLETED \<longrightarrow>
        sg_status s = PENDING \<and> (\<exists>io now oid key. py_uuid oid = Some (sg_id s) \<and>
          db' = snd (process_saga_event_endpoint io now oid ''InventoryReserved'' key db)))"
proof -
  have st: "order_structure db" by (rule order_structure_inv.reachable_inv [OF assms(1)])
  have live: "order_live db" using order_inv.reachable_inv [OF assms(1)] by (simp add: order_inv_def)
  with assms(2-4) have "cod_saga s" "child_ok (sg_status s) (so_status so)" by (auto simp: order_live_def)
  then show ?thesis using completed_by_report [OF st live _ saga_by_id_mem [OF st assms(2)]]
    by (auto simp: cod_saga_def child_ok_def split: if_splits)
qed

definition reserved_order_db :: order_db where
  "reserved_order_db = snd (process_saga_event_endpoint True 200 (uuid_text 1000) ''InventoryReserved'' ''k2'' demo_db)"

lemma reserved_reachable: "reachable empty_order_db order_step reserved_order_db"
  unfolding reserved_order_db_def by (rule reach_step [OF demo_reachable]) (rule order_step.saga_event)

lemma reserved_rows:
  "\<exists>s so. od_sagas reserved_order_db = [s] \<and> od_seller_orders reserved_order_db = [so] \<and> sg_id s = uuid_text 1000 \<and>
     so_order_id so = uuid_text 1000 \<and> so_status so = ''INVENTORY_RESERVED''"
proof -
  let ?s = "new_saga 100 (uuid_text 1000) demo_request"
  have d: "resolve PENDING ''InventoryReserved'' ''COD'' = decision APPLY (Some ORDER_COMPLETED) None"
    by code_simp
  have key: "check_idempotency demo_db ''k2'' = Inr None" by (simp add: check_idempotency_def demo_start)
  have run: "reserved_order_db = store_key ''k2'' (sg_id ?s) (snd (apply_decision 200 ?s ''InventoryReserved'' (decision APPLY (Some ORDER_COMPLETED) None) demo_db))"
    by (simp add: reserved_order_db_def process_saga_event_endpoint_def py_uuid_text advance_saga_def key demo_saga d Let_def split: prod.split)
  show ?thesis
    unfolding run
    by (simp add: apply_decision_children [OF order_structure_inv.reachable_inv [OF demo_reachable]] demo_start child_after_status)
      (simp add: new_seller_order_def)
qed

theorem live_work_needs_reservation_report_witness:
  "\<exists>s so. s \<in> set (od_sagas reserved_order_db) \<and> so \<in> set (od_seller_orders reserved_order_db) \<and> so_order_id so = sg_id s \<and>
     so_status so = ''INVENTORY_RESERVED'' \<and> sg_status s = ORDER_COMPLETED"
proof -
  from reserved_rows obtain s so where r: "s \<in> set (od_sagas reserved_order_db)" "so \<in> set (od_seller_orders reserved_order_db)"
    "so_order_id so = sg_id s" "so_status so = ''INVENTORY_RESERVED''" by auto
  from live_work_needs_reservation_report [OF reserved_reachable r(1-3)] r show ?thesis by auto
qed

text \<open>
  Property C37 (\<open>saga_reaper_loop\<close> against \<open>cancel_children_of_ended_saga\<close>): the reaper's SQL and the
  orchestrator's Python close the same seller orders of an order, with the same row values, and
  emit the same cancellation events for them.
\<close>

theorem reaper_sql_agrees:
  assumes "order_structure db" and "s \<in> set (od_sagas db)"
  shows "filter (\<lambda>so. so_order_id so = sg_id s) (od_seller_orders (close_stranded (\<lambda>_. False) now db))
       = filter (\<lambda>so. so_order_id so = sg_id s) (od_seller_orders (snd (cancel_children_of_ended_saga now s db))) \<and>
     mset (filter (\<lambda>(_, m). dict_get (om_payload m) ''order_id'' = Some (JStr (sg_id s)))
         (drop (length (od_outbox db)) (od_outbox (close_stranded (\<lambda>_. False) now db))))
       = mset (drop (length (od_outbox db)) (od_outbox (snd (cancel_children_of_ended_saga now s db))))"
  using close_stranded_rows_of [OF assms] close_stranded_messages_of [OF assms] by blast

theorem reaper_sql_agrees_witness:
  "filter (\<lambda>so. so_order_id so = uuid_text 1000)
     (od_seller_orders (close_stranded (\<lambda>_. False) 300 (reap_sagas (\<lambda>_. False) 5000 demo_db)))
   = filter (\<lambda>so. so_order_id so = uuid_text 1000) (od_seller_orders (snd (cancel_children_of_ended_saga 300
       ((new_saga 100 (uuid_text 1000) demo_request)\<lparr>sg_status := ''TIMED_OUT'', sg_updated_at := 5000\<rparr>)
       (reap_sagas (\<lambda>_. False) 5000 demo_db))))"
proof -
  let ?s = "(new_saga 100 (uuid_text 1000) demo_request)\<lparr>sg_status := ''TIMED_OUT'', sg_updated_at := 5000\<rparr>"
  let ?db = "reap_sagas (\<lambda>_. False) 5000 demo_db"
  have st: "order_structure demo_db" by (rule order_structure_inv.reachable_inv [OF demo_reachable])
  have "?s \<in> set (od_sagas ?db)"
    by (simp add: reap_sagas_rows [OF st] demo_start reapable_def new_saga_def)
  moreover have "order_structure ?db" by (rule reap_sagas_structure [OF st])
  ultimately have "filter (\<lambda>so. so_order_id so = sg_id ?s) (od_seller_orders (close_stranded (\<lambda>_. False) 300 ?db))
       = filter (\<lambda>so. so_order_id so = sg_id ?s) (od_seller_orders (snd (cancel_children_of_ended_saga 300 ?s ?db)))"
    using reaper_sql_agrees [of ?db ?s 300] by blast
  then show ?thesis by simp
qed

text \<open>
  Property C38 (\<open>saga_reaper_loop\<close>): after a pass that found no row locked, a seller order of an order that
  has failed, timed out or been rolled back is in no status from which the action table allows the
  action \<open>cancel\<close>. A seller order that could be cancelled before the pass is \<open>CANCELLED\<close> when its order has
  so ended and keeps its status otherwise; a parcel that is dispatched or further is left as it is.
\<close>

theorem reaper_leaves_no_stranded_child:
  assumes "order_structure db" and "db' = saga_reaper_pass True (\<lambda>_. False) (\<lambda>_. False) now db"
    and "so' \<in> set (od_seller_orders db')" and "saga_by_id db' (so_order_id so') = Some s"
  shows "(sg_status s \<in> {FAILED, TIMED_OUT, ROLLBACK_COMPLETED} \<longrightarrow> \<not> may_cancel (so_status so')) \<and>
     (\<exists>so \<in> set (od_seller_orders db). so_core so = so_core so' \<and> (\<not> may_cancel (so_status so) \<longrightarrow> so' = so) \<and>
        so_status so' = (if may_cancel (so_status so) \<and> sg_status s \<in> {FAILED, TIMED_OUT, ROLLBACK_COMPLETED}
          then ''CANCELLED'' else so_status so))"
proof -
  let ?db1 = "reap_sagas (\<lambda>_. False) now db"
  have db': "od_seller_orders db' = map (\<lambda>so. if stranded ?db1 so \<noteq> None then close_child ?db1 now so else so)
      (od_seller_orders db)" and sagas: "od_sagas db' = od_sagas ?db1"
    by (simp_all add: assms(2) saga_reaper_pass_def close_stranded_eq)
  from assms(3) obtain so where so: "so \<in> set (od_seller_orders db)"
      "so' = (if stranded ?db1 so \<noteq> None then close_child ?db1 now so else so)"
    by (auto simp: db')
  have "so_order_id so' = so_order_id so" by (simp add: so(2))
  with assms(4) have "saga_by_id ?db1 (so_order_id so) = Some s" by (simp add: saga_by_id_def sagas)
  then have strand: "stranded ?db1 so = (if sg_status s \<in> {FAILED, TIMED_OUT, ROLLBACK_COMPLETED} \<and> may_cancel (so_status so)
      then Some (sg_status s) else None)"
    by (simp add: stranded_iff SAGA_STATES_ENDING_THE_ORDER_def saga_status_defs)
  show ?thesis
  proof (cases "stranded ?db1 so")
    case None
    then have "so' = so" using so(2) by simp
    with None strand so(1) show ?thesis by (auto split: if_splits)
  next
    case (Some st)
    then have "so' = cancel_child now (cancellation_reason st) so" by (simp add: so(2) close_child_def)
    with Some strand so(1) show ?thesis by (auto simp: so_core_def cancel_child_def split: if_splits)
  qed
qed

theorem reaper_leaves_no_stranded_child_witness:
  "\<exists>s so'. so' \<in> set (od_seller_orders (saga_reaper_pass True (\<lambda>_. False) (\<lambda>_. False) 5000 demo_db)) \<and>
     saga_by_id (saga_reaper_pass True (\<lambda>_. False) (\<lambda>_. False) 5000 demo_db) (so_order_id so') = Some s \<and>
     sg_status s = TIMED_OUT \<and> so_status so' = ''CANCELLED''"
proof -
  let ?db' = "saga_reaper_pass True (\<lambda>_. False) (\<lambda>_. False) 5000 demo_db"
  have st: "order_structure demo_db" by (rule order_structure_inv.reachable_inv [OF demo_reachable])
  have rows: "od_sagas ?db' = [(new_saga 100 (uuid_text 1000) demo_request)\<lparr>sg_status := ''TIMED_OUT'', sg_updated_at := 5000\<rparr>]"
    by (simp add: saga_reaper_pass_def close_stranded_eq reap_sagas_rows [OF st] demo_start reapable_def new_saga_def)
  have "list_all (\<lambda>so. so_order_id so = uuid_text 1000) (od_seller_orders ?db') \<and> length (od_seller_orders ?db') = 1"
    by (simp add: saga_reaper_pass_def close_stranded_eq demo_start) (simp add: new_seller_order_def)
  then obtain so' where so': "so' \<in> set (od_seller_orders ?db')" "so_order_id so' = uuid_text 1000"
    by (cases "od_seller_orders ?db'") auto
  obtain s where s: "saga_by_id ?db' (so_order_id so') = Some s" "sg_status s = TIMED_OUT"
    by (simp add: saga_by_id_def rows so'(2) saga_status_defs)
  from reaper_leaves_no_stranded_child [OF st refl so'(1) s(1)] obtain so where
    "so \<in> set (od_seller_orders demo_db)" "so_status so' = (if may_cancel (so_status so) then ''CANCELLED'' else so_status so)"
    by (auto simp: s(2))
  then have "so_status so' = ''CANCELLED''" by (simp add: demo_start) (simp add: new_seller_order_def)
  with so' s show ?thesis by blast
qed

text \<open>
  Property C10 (\<open>advance_saga\<close>): an event that is delivered any number of times under one idempotency
  key, with commits that may fail in between, changes the database at most once: what is left is
  either the database as it was or the result of one successful delivery.
\<close>

theorem saga_event_applied_at_most_once:
  "foldl (\<lambda>d (io, now). snd (advance_saga io now order_id ev key d)) db deliveries = db \<or>
   (\<exists>(io, now) \<in> set deliveries. \<exists>r. advance_saga io now order_id ev key db =
      (Inr r, foldl (\<lambda>d (io, now). snd (advance_saga io now order_id ev key d)) db deliveries))"
  using advance_delivery.delivered_at_most_once [where db = db and es = deliveries and order_id = order_id
      and ev = ev and key = key]
  by (simp add: case_prod_beta')

text \<open>
  \<open>saga_reaper_loop\<close> with \<open>advance_saga\<close>: a card order that is reaped when it is already
  paid is refunded and rolled back, but no command ever asks for its reserved stock back. The
  reaper's second statement relies on the opposite (\<open>PARENT_COMPENSATION_RELEASES_STOCK\<close>).
\<close>

theorem reaped_paid_order_keeps_stock:
  assumes "order_structure db" and "s \<in> set (od_sagas db)" and "sg_payment_method s = ''CARD''"
    and "sg_status s = PAID" and "sg_updated_at s < now - 15 * 60"
    and "key \<notin> fst ` set (od_idempotency_keys db)"
    and "db1 = saga_reaper_pass True (\<lambda>_. False) locked now db"
  shows "\<exists>r db2. advance_saga True now' (sg_id s) ''PaymentRefunded'' key db1 = (Inr r, db2) \<and>
     sg_status r = ROLLBACK_COMPLETED \<and>
     (\<forall>(t, m) \<in> set (drop (length (od_outbox db)) (od_outbox db2)).
        om_aggregate_type m = ''OrderSaga'' \<and> om_aggregate_id m = sg_id s \<longrightarrow> om_type m = ''RefundPaymentCommand'')"
proof -
  let ?s = "s\<lparr>sg_status := ''TIMED_OUT'', sg_updated_at := now\<rparr>"
  let ?d = "decision APPLY (Some ROLLBACK_COMPLETED) None"
  have reap: "reapable now s" using assms(3-5) by (simp add: reapable_def PAID_def)
  have s1: "saga_by_id db1 (sg_id s) = Some ?s"
  proof -
    have "?s \<in> set (od_sagas (reap_sagas (\<lambda>_. False) now db))"
      using assms(2) reap by (force simp: reap_sagas_rows [OF assms(1)])
    from saga_by_id_mem [OF reap_sagas_structure [OF assms(1)] this] show ?thesis
      by (simp add: assms(7) saga_reaper_pass_def close_stranded_eq saga_by_id_def)
  qed
  have res: "resolve (sg_status ?s) ''PaymentRefunded'' (sg_payment_method ?s) = ?d"
    using arrow_imp_resolve_APPLY [OF saga_arrow.reaped_refunded, of "sg_payment_method s"] by (simp add: TIMED_OUT_def)
  have key: "check_idempotency db1 key = Inr None"
    using assms(6) by (intro check_idempotency_new) (simp add: assms(7) saga_reaper_pass_def close_stranded_eq)
  let ?db2 = "store_key key (sg_id s) (snd (apply_decision now' ?s ''PaymentRefunded'' ?d db1))"
  have adv: "advance_saga True now' (sg_id s) ''PaymentRefunded'' key db1 =
      (Inr (fst (apply_decision now' ?s ''PaymentRefunded'' ?d db1)), ?db2)"
    using s1 key res by (simp add: advance_saga_def Let_def case_prod_beta)
  have "\<exists>evs. od_outbox ?db2 = od_outbox db1 @ evs \<and> (\<forall>(t, m) \<in> set evs. om_aggregate_type m = ''SellerOrder'')"
    by (auto simp: apply_decision_def Let_def cancel_children_messages seller_order_event_def)
  moreover have "\<exists>evs. od_outbox db1 = od_outbox db @ map (Pair now) (concat (map reap_messages
        (filter (reapable now) (od_sagas db)))) @ evs \<and> (\<forall>(t, m) \<in> set evs. om_aggregate_type m = ''SellerOrder'')"
    by (auto simp: assms(7) saga_reaper_pass_def close_stranded_eq reap_sagas_def Let_def seller_order_event_def)
  moreover have "om_type m = ''RefundPaymentCommand''"
    if "x \<in> set (od_sagas db)" "m \<in> set (reap_messages x)" "om_aggregate_id m = sg_id s" for x m
  proof -
    from that have "sg_id x = sg_id s" by (auto simp: reap_messages_def)
    then have "x = s" using that(1) assms(2) order_structure_distinct(1) [OF assms(1)]
      by (auto simp: distinct_map inj_on_def)
    with that(2) assms(4) show ?thesis by (simp add: reap_messages_def reap_commands_def PAID_def)
  qed
  ultimately have "\<forall>(t, m) \<in> set (drop (length (od_outbox db)) (od_outbox ?db2)).
      om_aggregate_type m = ''OrderSaga'' \<and> om_aggregate_id m = sg_id s \<longrightarrow> om_type m = ''RefundPaymentCommand''"
    by fastforce
  with adv show ?thesis by (auto simp: apply_decision_def Let_def)
qed

definition paid_card_order :: order_db where
  "paid_card_order = no_orders\<lparr>od_sagas := [(new_saga 100 (uuid_text 1000) demo_request)
     \<lparr>sg_payment_method := ''CARD'', sg_status := ''PAID''\<rparr>]\<rparr>"

theorem reaped_paid_order_keeps_stock_witness:
  "\<exists>r db2. advance_saga True 6000 (uuid_text 1000) ''PaymentRefunded'' ''k9''
     (saga_reaper_pass True (\<lambda>_. False) (\<lambda>_. False) 5000 paid_card_order) = (Inr r, db2) \<and>
     sg_status r = ROLLBACK_COMPLETED"
proof -
  let ?s = "(new_saga 100 (uuid_text 1000) demo_request)\<lparr>sg_payment_method := ''CARD'', sg_status := ''PAID''\<rparr>"
  have s: "?s \<in> set (od_sagas paid_card_order)" "order_structure paid_card_order"
    by (simp_all add: paid_card_order_def no_orders_def order_structure_def structure_ok_def)
  from reaped_paid_order_keeps_stock [OF s(2,1), of 5000 "''k9''" _ "\<lambda>_. False" 6000]
  show ?thesis by (auto simp: paid_card_order_def no_orders_def PAID_def new_saga_def)
qed

text \<open>
  \<open>advance_saga\<close>: the answer to an event under a new key, when the commit goes through.
  An unknown event is 422 and an event that does not apply yet is 409; both, and a late duplicate,
  leave every table as it was, the idempotency key included. An event that applies moves the
  saga to the table's target, and one that arrives too late for stock asks for its release.
\<close>

theorem advance_saga_answer:
  assumes "check_idempotency db key = Inr None" and "saga_by_id db i = Some s"
  shows "(ev \<notin> set KNOWN_EVENT_TYPES \<longrightarrow> advance_saga True now i ev key db = (Inl (HTTPException 422), db)) \<and>
     (\<forall>t c. saga_arrow (sg_payment_method s) (sg_status s) ev t c \<longrightarrow>
        (\<exists>db'. advance_saga True now i ev key db = (Inr (s\<lparr>sg_status := t, sg_updated_at := now\<rparr>), db') \<and>
               map_of (od_idempotency_keys db') key = Some (Some (sg_id s)))) \<and>
     (ev \<in> set KNOWN_EVENT_TYPES \<and> \<not> late_reservation (sg_status s) ev \<and>
        (\<nexists>t c. saga_arrow (sg_payment_method s) (sg_status s) ev t c) \<longrightarrow>
        advance_saga True now i ev key db =
          ((if sg_status s \<in> set TERMINAL_STATES then Inr s else Inl (HTTPException 409)), db)) \<and>
     (late_reservation (sg_status s) ev \<longrightarrow>
        advance_saga True now i ev key db = (Inr s, store_key key (sg_id s)
          (add_outbox now [outbox ''OrderSaga'' (sg_id s) ''ReleaseInventoryCommand'' (JObj [(''order_id'', JStr (sg_id s))])] db)))"
proof (intro conjI impI allI)
  assume "ev \<notin> set KNOWN_EVENT_TYPES"
  then show "advance_saga True now i ev key db = (Inl (HTTPException 422), db)"
    using assms by (simp add: advance_saga_def resolve_unknown)
next
  fix t c
  assume "saga_arrow (sg_payment_method s) (sg_status s) ev t c"
  from arrow_imp_resolve_APPLY [OF this] assms
  show "\<exists>db'. advance_saga True now i ev key db = (Inr (s\<lparr>sg_status := t, sg_updated_at := now\<rparr>), db') \<and>
      map_of (od_idempotency_keys db') key = Some (Some (sg_id s))"
    using check_idempotency_None [OF assms(1)]
    by (simp add: advance_saga_def Let_def case_prod_beta apply_decision_fst map_add_def)
next
  assume "ev \<in> set KNOWN_EVENT_TYPES \<and> \<not> late_reservation (sg_status s) ev \<and>
        (\<nexists>t c. saga_arrow (sg_payment_method s) (sg_status s) ev t c)"
  then show "advance_saga True now i ev key db =
          ((if sg_status s \<in> set TERMINAL_STATES then Inr s else Inl (HTTPException 409)), db)"
    using assms by (simp add: advance_saga_def resolve_other)
next
  assume "late_reservation (sg_status s) ev"
  with assms show "advance_saga True now i ev key db = (Inr s, store_key key (sg_id s)
      (add_outbox now [outbox ''OrderSaga'' (sg_id s) ''ReleaseInventoryCommand'' (JObj [(''order_id'', JStr (sg_id s))])] db))"
    by (simp add: advance_saga_def resolve_late case_prod_beta) (simp add: apply_decision_def command_payload_def Let_def)
qed

theorem advance_saga_answer_witness:
  "fst (advance_saga True 200 (uuid_text 1000) ''PaymentCharged'' ''k2'' demo_db) = Inl (HTTPException 409)"
proof -
  let ?s = "new_saga 100 (uuid_text 1000) demo_request"
  have key: "check_idempotency demo_db ''k2'' = Inr None" by (rule check_idempotency_new) (simp add: demo_start)
  have "\<nexists>t c. saga_arrow (sg_payment_method ?s) (sg_status ?s) ''PaymentCharged'' t c"
    by (auto elim: saga_arrow.cases)
  moreover have "\<not> late_reservation (sg_status ?s) ''PaymentCharged''" by (simp add: late_reservation_def)
  moreover have "''PaymentCharged'' \<in> set KNOWN_EVENT_TYPES" by (simp add: KNOWN_EVENT_TYPES_def)
  moreover have "sg_status ?s \<notin> set TERMINAL_STATES" by (simp add: TERMINAL_STATES_def)
  ultimately show ?thesis using advance_saga_answer [OF key demo_saga, of "''PaymentCharged''" 200] by simp
qed

end
