(* ===== verification/Payments.thy ===== *)
theory Payments
  imports Prelude
begin

text \<open>
  Card payments (\<open>src/services/payment-service\<close>): the charge and refund rules of
  \<open>services/charge_rules.py\<close> and \<open>services/refund_rules.py\<close>, and the handlers of
  \<open>services/payment_service.py\<close> with their routes, over the payment ledger of \<open>models.py\<close>.

  The advisory lock of a refund serialises the refunds of an order, so a handler is one step.
  A \<open>NULL\<close> in a column with a default takes the default when the row is written; the event is
  built before that and still carries the null. The dash of two messages is written as a colon.
\<close>

section \<open>Rules\<close>

definition authorize :: "string option \<Rightarrow> string" where
  "authorize payment_token = (if payment_token = Some ''tok_fail'' then ''FAILED'' else ''SUCCESS'')"

definition event_for :: "string \<Rightarrow> string" where
  "event_for status = (if status = ''SUCCESS'' then ''PaymentCharged'' else ''PaymentFailed'')"

definition is_declined :: "string \<Rightarrow> bool" where
  "is_declined status \<longleftrightarrow> status = ''FAILED''"

datatype IdempotencyOutcome = PROCEED | RETURN_CACHED | RETRY_LATER

definition resolve_idempotency :: "bool \<Rightarrow> uuid option \<Rightarrow> bool \<Rightarrow> IdempotencyOutcome" where
  "resolve_idempotency key_was_inserted stored_result_id cached_result_found =
     (if key_was_inserted then PROCEED
      else if stored_result_id \<noteq> None \<and> cached_result_found then RETURN_CACHED
      else RETRY_LATER)"

definition SETTLED_STATUSES :: "string list" where
  "SETTLED_STATUSES = [''REFUNDED'', ''REFUND_NOOP'']"

datatype RefundOutcome = ALREADY_SETTLED | NO_CHARGE | REVERSED

record RefundEntry =
  en_status :: string
  en_amount_cents :: int

record RefundPlan =
  rf_outcome :: RefundOutcome
  rf_refunded :: bool
  rf_refunded_cents :: int
  rf_append_status :: "string option"
  rf_append_amount_cents :: int
  rf_emit_event :: bool
  rf_detail :: string

definition plan_refund :: "RefundEntry option \<Rightarrow> RefundEntry option \<Rightarrow> RefundPlan" where
  "plan_refund prior charge =
     (case prior of
        Some p \<Rightarrow>
          \<lparr>rf_outcome = ALREADY_SETTLED, rf_refunded = (en_status p = ''REFUNDED''),
           rf_refunded_cents = abs (en_amount_cents p), rf_append_status = None, rf_append_amount_cents = 0,
           rf_emit_event = False, rf_detail = ''Already settled: returning prior outcome''\<rparr>
      | None \<Rightarrow>
          (case charge of
             None \<Rightarrow>
               \<lparr>rf_outcome = NO_CHARGE, rf_refunded = False, rf_refunded_cents = 0,
                rf_append_status = Some ''REFUND_NOOP'', rf_append_amount_cents = 0, rf_emit_event = True,
                rf_detail = ''No charge found for this order: recorded as no-op''\<rparr>
           | Some c \<Rightarrow>
               \<lparr>rf_outcome = REVERSED, rf_refunded = True, rf_refunded_cents = en_amount_cents c,
                rf_append_status = Some ''REFUNDED'', rf_append_amount_cents = - en_amount_cents c,
                rf_emit_event = True, rf_detail = ''Refunded '' @ show_int (en_amount_cents c) @ '' cents''\<rparr>))"

definition net_position :: "RefundEntry list \<Rightarrow> int" where
  "net_position entries = sum_list (map en_amount_cents entries)"

section \<open>Tables\<close>

record payment =
  pay_id :: uuid
  pay_order_id :: uuid
  pay_user_id :: uuid
  pay_amount_cents :: int
  pay_currency :: string
  pay_payment_token :: string
  pay_status :: string
  pay_created_at :: int

record payment_db =
  pd_ledger :: "payment list"
  pd_outbox :: "(int \<times> outbox_message) list"
  pd_keys :: "(string \<times> uuid option) list"

definition ledger_entry :: "payment \<Rightarrow> RefundEntry" where
  "ledger_entry p = \<lparr>en_status = pay_status p, en_amount_cents = pay_amount_cents p\<rparr>"

section \<open>Handlers\<close>

record ChargeRequest =
  cq_order_id :: uuid
  cq_user_id :: uuid
  cq_amount_cents :: int
  cq_payment_token :: "string option"
  cq_currency :: "string option"

definition charged_payload :: "payment \<Rightarrow> string option \<Rightarrow> json" where
  "charged_payload p currency =
     JObj [(''id'', JStr (pay_id p)), (''order_id'', JStr (pay_order_id p)), (''user_id'', JStr (pay_user_id p)),
           (''amount_cents'', JInt (pay_amount_cents p)), (''currency'', str_or_null currency),
           (''status'', JStr (pay_status p)), (''created_at'', JInt (pay_created_at p))]"

text \<open>What the columns of the ledger take.\<close>

definition payment_accepted :: "payment_db \<Rightarrow> payment \<Rightarrow> bool" where
  "payment_accepted db p \<longleftrightarrow>
     pay_id p \<notin> pay_id ` set (pd_ledger db) \<and> int4 (pay_amount_cents p) \<and>
     length (pay_currency p) \<le> 3 \<and> length (pay_payment_token p) \<le> 255"

definition process_charge ::
  "bool \<Rightarrow> int \<Rightarrow> uuid \<Rightarrow> ChargeRequest \<Rightarrow> string \<Rightarrow> payment_db \<Rightarrow> payment result \<times> payment_db" where
  "process_charge io now fresh request idempotency_key db =
     (let stored = map_of (pd_keys db) idempotency_key;
          stored_result_id = Option.bind stored (\<lambda>r. r);
          cached = Option.bind stored_result_id (\<lambda>i. find (\<lambda>p. pay_id p = i) (pd_ledger db)) in
      case resolve_idempotency (stored = None) stored_result_id (cached \<noteq> None) of
        RETURN_CACHED \<Rightarrow> (Inr (the cached), db)
      | RETRY_LATER \<Rightarrow> (Inl (HTTPException 409), db)
      | PROCEED \<Rightarrow>
          (let status = authorize (cq_payment_token request) in
           case cq_payment_token request of
             None \<Rightarrow> (Inl (Uncaught ''IntegrityError''), db)
           | Some token \<Rightarrow>
               (let p = \<lparr>pay_id = fresh, pay_order_id = cq_order_id request, pay_user_id = cq_user_id request,
                         pay_amount_cents = cq_amount_cents request,
                         pay_currency = (case cq_currency request of None \<Rightarrow> ''USD'' | Some c \<Rightarrow> c),
                         pay_payment_token = token, pay_status = status, pay_created_at = now\<rparr> in
                if \<not> payment_accepted db p then (Inl (Uncaught ''DBAPIError''), db)
                else
                  commit io True db
                    (db\<lparr>pd_ledger := pd_ledger db @ [p],
                       pd_outbox := pd_outbox db @ [(now, outbox ''Payment'' (pay_order_id p) (event_for status)
                         (charged_payload p (cq_currency request)))],
                       pd_keys := pd_keys db @ [(idempotency_key, Some fresh)]\<rparr>)
                    p)))"

record RefundRequest =
  fq_order_id :: uuid
  fq_user_id :: uuid
  fq_reason :: "string option"

record RefundResponse =
  fr_order_id :: uuid
  fr_refunded :: bool
  fr_refunded_cents :: int
  fr_status :: string
  fr_detail :: string

definition refunded_payload :: "payment \<Rightarrow> int \<Rightarrow> string option \<Rightarrow> json" where
  "refunded_payload p refunded_cents reason =
     JObj [(''id'', JStr (pay_id p)), (''order_id'', JStr (pay_order_id p)), (''user_id'', JStr (pay_user_id p)),
           (''refunded_cents'', JInt refunded_cents), (''currency'', JStr (pay_currency p)),
           (''status'', JStr (pay_status p)), (''reason'', str_or_null reason), (''occurred_at'', JInt (pay_created_at p))]"

definition charges_of :: "payment_db \<Rightarrow> uuid \<Rightarrow> payment list" where
  "charges_of db order_id = filter (\<lambda>p. pay_order_id p = order_id \<and> pay_status p = ''SUCCESS'') (pd_ledger db)"

definition settled_of :: "payment_db \<Rightarrow> uuid \<Rightarrow> payment list" where
  "settled_of db order_id =
     filter (\<lambda>p. pay_order_id p = order_id \<and> pay_status p \<in> set SETTLED_STATUSES) (pd_ledger db)"

text \<open>\<open>scalars().first()\<close> and \<open>scalar_one_or_none()\<close>; the latter raises on a second row.\<close>

definition first_row :: "'a list \<Rightarrow> 'a option" where
  "first_row xs = (case xs of [] \<Rightarrow> None | x # _ \<Rightarrow> Some x)"

fun one_or_none :: "'a list \<Rightarrow> 'a option result" where
  "one_or_none [] = Inr None"
| "one_or_none [x] = Inr (Some x)"
| "one_or_none (x # y # zs) = Inl (Uncaught ''MultipleResultsFound'')"

definition reversal :: "int \<Rightarrow> uuid \<Rightarrow> RefundRequest \<Rightarrow> payment option \<Rightarrow> RefundPlan \<Rightarrow> payment" where
  "reversal now fresh request charge plan =
     \<lparr>pay_id = fresh, pay_order_id = fq_order_id request,
      pay_user_id = (case charge of None \<Rightarrow> fq_user_id request | Some c \<Rightarrow> pay_user_id c),
      pay_amount_cents = rf_append_amount_cents plan,
      pay_currency = (case charge of None \<Rightarrow> ''USD'' | Some c \<Rightarrow> pay_currency c),
      pay_payment_token = (case charge of None \<Rightarrow> ''n/a'' | Some c \<Rightarrow> pay_payment_token c),
      pay_status = the (rf_append_status plan), pay_created_at = now\<rparr>"

definition process_refund ::
  "bool \<Rightarrow> int \<Rightarrow> uuid \<Rightarrow> RefundRequest \<Rightarrow> payment_db \<Rightarrow> RefundResponse result \<times> payment_db" where
  "process_refund io now fresh request db =
     (let prior = first_row (settled_of db (fq_order_id request)) in
      case one_or_none (charges_of db (fq_order_id request)) of
        Inl e \<Rightarrow> (Inl e, db)
      | Inr charge \<Rightarrow>
          (let plan = plan_refund (map_option ledger_entry prior) (map_option ledger_entry charge) in
           if rf_append_status plan = None then
             (Inr \<lparr>fr_order_id = fq_order_id request, fr_refunded = rf_refunded plan,
                   fr_refunded_cents = rf_refunded_cents plan, fr_status = pay_status (the prior),
                   fr_detail = rf_detail plan\<rparr>, db)
           else
             (let p = reversal now fresh request charge plan in
              commit io (payment_accepted db p) db
                (db\<lparr>pd_ledger := pd_ledger db @ [p],
                   pd_outbox := pd_outbox db @ [(now, outbox ''Payment'' (fq_order_id request) ''PaymentRefunded''
                     (refunded_payload p (rf_refunded_cents plan) (fq_reason request)))]\<rparr>)
                \<lparr>fr_order_id = fq_order_id request, fr_refunded = rf_refunded plan,
                 fr_refunded_cents = rf_refunded_cents plan, fr_status = pay_status p, fr_detail = rf_detail plan\<rparr>)))"

definition charge_payment_endpoint ::
  "bool \<Rightarrow> int \<Rightarrow> uuid \<Rightarrow> ChargeRequest \<Rightarrow> string \<Rightarrow> payment_db \<Rightarrow> payment result \<times> payment_db" where
  "charge_payment_endpoint io now fresh request idempotency_key db =
     (if cq_amount_cents request < 1 then (Inl (HTTPException 422), db)
      else if idempotency_key = [] then (Inl (HTTPException 400), db)
      else process_charge io now fresh request idempotency_key db)"

definition refund_payment_endpoint ::
  "bool \<Rightarrow> int \<Rightarrow> uuid \<Rightarrow> RefundRequest \<Rightarrow> string \<Rightarrow> payment_db \<Rightarrow> RefundResponse result \<times> payment_db" where
  "refund_payment_endpoint io now fresh request idempotency_key db =
     (if idempotency_key = [] then (Inl (HTTPException 400), db)
      else process_refund io now fresh request db)"

section \<open>What the handlers do\<close>

lemma one_or_none_Inr: "one_or_none xs = Inr c \<longleftrightarrow> (xs = [] \<and> c = None) \<or> (\<exists>x. xs = [x] \<and> c = Some x)"
  by (cases xs rule: one_or_none.cases) auto

lemma one_or_none_Inl: "one_or_none xs = Inl e \<longleftrightarrow> 2 \<le> length xs \<and> e = Uncaught ''MultipleResultsFound''"
  by (cases xs rule: one_or_none.cases) auto

lemma process_charge_cases:
  assumes "process_charge io now fresh request key db = (r, db')"
  obtains (kept) "db' = db"
      "\<forall>p. r = Inr p \<longrightarrow> (\<exists>i. map_of (pd_keys db) key = Some (Some i) \<and> find (\<lambda>p. pay_id p = i) (pd_ledger db) = Some p)"
  | (charged) p where "map_of (pd_keys db) key = None" "r = Inr p" "pd_ledger db' = pd_ledger db @ [p]"
      "pd_keys db' = pd_keys db @ [(key, Some (pay_id p))]" "pay_id p \<notin> pay_id ` set (pd_ledger db)"
      "pay_order_id p = cq_order_id request" "pay_amount_cents p = cq_amount_cents request"
      "pay_status p = authorize (cq_payment_token request)"
proof (cases "map_of (pd_keys db) key")
  case (Some stored)
  with assms show ?thesis
    by (intro kept) (auto simp: process_charge_def resolve_idempotency_def Let_def bind_eq_Some_conv split: if_splits)
next
  case None
  show ?thesis
  proof (cases "cq_payment_token request")
    case no: None
    with assms None show ?thesis
      by (intro kept) (auto simp: process_charge_def resolve_idempotency_def Let_def)
  next
    case (Some token)
    let ?p = "\<lparr>pay_id = fresh, pay_order_id = cq_order_id request, pay_user_id = cq_user_id request,
       pay_amount_cents = cq_amount_cents request, pay_currency = (case cq_currency request of None \<Rightarrow> ''USD'' | Some c \<Rightarrow> c),
       pay_payment_token = token, pay_status = authorize (cq_payment_token request), pay_created_at = now\<rparr>"
    show ?thesis
    proof (cases "payment_accepted db ?p \<and> io")
      case True
      with assms None Some show ?thesis
        by (intro charged [of ?p])
          (auto simp: process_charge_def resolve_idempotency_def Let_def payment_accepted_def commit_def)
    next
      case False
      with assms None Some show ?thesis
        by (intro kept) (auto simp: process_charge_def resolve_idempotency_def Let_def commit_def split: if_splits)
    qed
  qed
qed

lemma process_refund_cases:
  assumes "process_refund io now fresh request db = (r, db')"
  obtains (kept) "db' = db" "\<forall>x. r = Inr x \<longrightarrow> settled_of db (fq_order_id request) \<noteq> [] \<and> length (charges_of db (fq_order_id request)) \<le> 1"
  | (noop) p x where "settled_of db (fq_order_id request) = []" "charges_of db (fq_order_id request) = []"
      "pd_ledger db' = pd_ledger db @ [p]" "pd_keys db' = pd_keys db" "pay_order_id p = fq_order_id request"
      "pay_status p = ''REFUND_NOOP''" "pay_amount_cents p = 0" "pay_id p \<notin> pay_id ` set (pd_ledger db)" "r = Inr x"
  | (reversed) p c x where "settled_of db (fq_order_id request) = []" "charges_of db (fq_order_id request) = [c]"
      "pd_ledger db' = pd_ledger db @ [p]" "pd_keys db' = pd_keys db" "pay_order_id p = fq_order_id request"
      "pay_status p = ''REFUNDED''" "pay_amount_cents p = - pay_amount_cents c" "pay_id p \<notin> pay_id ` set (pd_ledger db)" "r = Inr x"
proof -
  let ?o = "fq_order_id request"
  consider (many) e where "one_or_none (charges_of db ?o) = Inl e"
    | (settled) q qs charge where "one_or_none (charges_of db ?o) = Inr charge" "settled_of db ?o = q # qs"
    | (none) "charges_of db ?o = []" "settled_of db ?o = []"
    | (one) c where "charges_of db ?o = [c]" "settled_of db ?o = []"
    by (cases "one_or_none (charges_of db ?o)"; cases "settled_of db ?o") (auto simp: one_or_none_Inr)
  then show ?thesis
  proof cases
    case many
    with assms show ?thesis by (intro kept) (auto simp: process_refund_def Let_def)
  next
    case settled
    with assms show ?thesis
      by (intro kept) (auto simp: process_refund_def Let_def first_row_def plan_refund_def one_or_none_Inr)
  next
    case none
    let ?p = "reversal now fresh request None (plan_refund None None)"
    show ?thesis
    proof (cases "io \<and> payment_accepted db ?p")
      case True
      with assms none show ?thesis
        by (intro noop [of ?p])
          (auto simp: process_refund_def Let_def first_row_def plan_refund_def commit_def payment_accepted_def reversal_def)
    next
      case False
      with assms none show ?thesis
        by (intro kept) (auto simp: process_refund_def Let_def first_row_def plan_refund_def commit_def split: if_splits)
    qed
  next
    case one
    let ?p = "reversal now fresh request (Some c) (plan_refund None (Some (ledger_entry c)))"
    show ?thesis
    proof (cases "io \<and> payment_accepted db ?p")
      case True
      with assms one show ?thesis
        by (intro reversed [of c ?p])
          (auto simp: process_refund_def Let_def first_row_def plan_refund_def commit_def payment_accepted_def reversal_def ledger_entry_def)
    next
      case False
      with assms one show ?thesis
        by (intro kept) (auto simp: process_refund_def Let_def first_row_def plan_refund_def commit_def split: if_splits)
    qed
  qed
qed

section \<open>Delivered at least once\<close>

lemma charge_replay:
  assumes "charge_payment_endpoint io now fresh request key db = (Inr p, db')"
  shows "\<exists>p'. charge_payment_endpoint io2 now2 fresh2 request key db' = (Inr p', db')"
proof -
  from assms have valid: "1 \<le> cq_amount_cents request" "key \<noteq> []"
    and run: "process_charge io now fresh request key db = (Inr p, db')"
    by (auto simp: charge_payment_endpoint_def split: if_splits)
  from run have "\<exists>i q. map_of (pd_keys db') key = Some (Some i) \<and> find (\<lambda>p. pay_id p = i) (pd_ledger db') = Some q"
  proof (cases rule: process_charge_cases)
    case (charged q)
    then have "find (\<lambda>x. pay_id x = pay_id q) (pd_ledger db @ [q]) \<noteq> None" by (auto simp: find_None_iff)
    with charged show ?thesis by (auto simp: map_add_def)
  qed auto
  with valid show ?thesis
    by (auto simp: charge_payment_endpoint_def process_charge_def resolve_idempotency_def Let_def)
qed

lemma charge_failure: "charge_payment_endpoint io now fresh request key db = (Inl f, db') \<Longrightarrow> db' = db"
  by (auto simp: charge_payment_endpoint_def elim: process_charge_cases split: if_splits)

lemma refund_failure: "refund_payment_endpoint io now fresh request key db = (Inl f, db') \<Longrightarrow> db' = db"
  by (auto simp: refund_payment_endpoint_def elim: process_refund_cases split: if_splits)

lemma SETTLED [simp]: "x \<in> set SETTLED_STATUSES \<longleftrightarrow> x = ''REFUNDED'' \<or> x = ''REFUND_NOOP''"
  by (auto simp: SETTLED_STATUSES_def)

lemma refund_settled:
  assumes "settled_of db (fq_order_id request) \<noteq> []" and "length (charges_of db (fq_order_id request)) \<le> 1"
  shows "\<exists>x. process_refund io now fresh request db = (Inr x, db)"
proof -
  have "one_or_none (charges_of db (fq_order_id request)) = Inl e \<Longrightarrow> False" for e
    using assms(2) by (simp add: one_or_none_Inl)
  with assms(1) show ?thesis
    by (auto simp: process_refund_def Let_def first_row_def plan_refund_def neq_Nil_conv split: sum.split)
qed

lemma appended_payment:
  assumes "pd_ledger db' = pd_ledger db @ [p]"
  shows "charges_of db' x = charges_of db x @ (if pay_order_id p = x \<and> pay_status p = ''SUCCESS'' then [p] else [])"
    and "settled_of db' x = settled_of db x @ (if pay_order_id p = x \<and> pay_status p \<in> set SETTLED_STATUSES then [p] else [])"
  by (simp_all add: charges_of_def settled_of_def assms)

lemma refund_replay:
  assumes "refund_payment_endpoint io now fresh request key db = (Inr x, db')"
  shows "\<exists>x'. refund_payment_endpoint io2 now2 fresh2 request key db' = (Inr x', db')"
proof -
  from assms have key: "key \<noteq> []" and run: "process_refund io now fresh request db = (Inr x, db')"
    by (auto simp: refund_payment_endpoint_def split: if_splits)
  from run have "settled_of db' (fq_order_id request) \<noteq> [] \<and> length (charges_of db' (fq_order_id request)) \<le> 1"
    by (cases rule: process_refund_cases) (simp_all add: appended_payment)
  with key refund_settled show ?thesis by (simp add: refund_payment_endpoint_def)
qed

interpretation charge_delivery: idempotent_handler
  "\<lambda>(io, now, fresh). charge_payment_endpoint io now fresh request key" for request key
  by unfold_locales (auto dest: charge_failure charge_replay)

interpretation refund_delivery: idempotent_handler
  "\<lambda>(io, now, fresh). refund_payment_endpoint io now fresh request key" for request key
  by unfold_locales (auto dest: refund_failure refund_replay)

section \<open>The invariant of the ledger\<close>

definition payments_inv :: "payment_db \<Rightarrow> bool" where
  "payments_inv db \<longleftrightarrow>
     (\<forall>x. length (settled_of db x) \<le> 1) \<and>
     (\<forall>p \<in> set (pd_ledger db). pay_status p = ''SUCCESS'' \<longrightarrow> 1 \<le> pay_amount_cents p) \<and>
     (\<forall>p \<in> set (pd_ledger db). pay_status p = ''REFUNDED'' \<longrightarrow>
        (\<exists>c \<in> set (pd_ledger db). pay_order_id c = pay_order_id p \<and> pay_status c = ''SUCCESS'' \<and>
           pay_amount_cents p = - pay_amount_cents c))"

inductive payment_step :: "payment_db \<Rightarrow> payment_db \<Rightarrow> bool" where
  charge: "payment_step db (snd (charge_payment_endpoint io now fresh request key db))"
| refund: "payment_step db (snd (refund_payment_endpoint io now fresh refund_request key db))"

lemma authorize_cases: "authorize t = ''SUCCESS'' \<or> authorize t = ''FAILED''"
  by (simp add: authorize_def)

lemma charge_inv:
  assumes "payments_inv db" and "charge_payment_endpoint io now fresh request key db = (r, db')"
  shows "payments_inv db'"
proof (cases "1 \<le> cq_amount_cents request \<and> key \<noteq> []")
  case True
  with assms(2) have "process_charge io now fresh request key db = (r, db')" by (simp add: charge_payment_endpoint_def)
  then show ?thesis
  proof (cases rule: process_charge_cases)
    case (charged p)
    have "settled_of db' x = settled_of db x" for x
      using authorize_cases [of "cq_payment_token request"] charged(8) by (auto simp: appended_payment(2) [OF charged(3)])
    with assms(1) charged True authorize_cases [of "cq_payment_token request"] show ?thesis
      by (auto simp: payments_inv_def)
  qed (use assms(1) in simp)
qed (use assms in \<open>auto simp: charge_payment_endpoint_def split: if_splits\<close>)

lemma refund_inv:
  assumes "payments_inv db" and "refund_payment_endpoint io now fresh request key db = (r, db')"
  shows "payments_inv db'"
proof (cases "key = []")
  case False
  with assms(2) have "process_refund io now fresh request db = (r, db')" by (simp add: refund_payment_endpoint_def)
  then show ?thesis
  proof (cases rule: process_refund_cases)
    case (noop p)
    with assms(1) show ?thesis by (auto simp: payments_inv_def appended_payment(2) [OF noop(3)])
  next
    case (reversed p c)
    have "c \<in> set (charges_of db (fq_order_id request))" by (simp add: reversed(2))
    then have "c \<in> set (pd_ledger db)" "pay_order_id c = fq_order_id request" "pay_status c = ''SUCCESS''"
      by (auto simp: charges_of_def)
    with assms(1) reversed show ?thesis by (auto simp: payments_inv_def appended_payment(2) [OF reversed(3)])
  qed (use assms(1) in simp)
qed (use assms in \<open>simp add: refund_payment_endpoint_def\<close>)

definition empty_ledger :: "payment_db \<Rightarrow> bool" where
  "empty_ledger db \<longleftrightarrow> pd_ledger db = [] \<and> pd_keys db = []"

interpretation payments: inductive_invariant empty_ledger payment_step payments_inv
proof unfold_locales
  show "empty_ledger db \<Longrightarrow> payments_inv db" for db by (simp add: empty_ledger_def payments_inv_def settled_of_def)
  show "payments_inv db \<Longrightarrow> payment_step db db' \<Longrightarrow> payments_inv db'" for db db'
    by (auto elim!: payment_step.cases intro: charge_inv [OF _ surjective_pairing] refund_inv [OF _ surjective_pairing])
qed

section \<open>Properties\<close>

text \<open>Money taken from a customer for an order, and money given back.\<close>

definition captured :: "payment_db \<Rightarrow> uuid \<Rightarrow> int" where
  "captured db x = sum_list (map pay_amount_cents (charges_of db x))"

definition given_back :: "payment_db \<Rightarrow> uuid \<Rightarrow> int" where
  "given_back db x =
     - sum_list (map pay_amount_cents (filter (\<lambda>p. pay_order_id p = x \<and> pay_status p = ''REFUNDED'') (pd_ledger db)))"

lemma given_back_settled:
  "given_back db x = - sum_list (map pay_amount_cents (filter (\<lambda>p. pay_status p = ''REFUNDED'') (settled_of db x)))"
proof -
  have "filter (\<lambda>p. pay_status p = ''REFUNDED'') (settled_of db x) =
      filter (\<lambda>p. pay_order_id p = x \<and> pay_status p = ''REFUNDED'') (pd_ledger db)"
    unfolding settled_of_def filter_filter by (rule filter_cong) auto
  then show ?thesis by (simp add: given_back_def)
qed

definition no_payments :: payment_db where
  "no_payments = \<lparr>pd_ledger = [], pd_outbox = [], pd_keys = []\<rparr>"

definition demo_charge :: ChargeRequest where
  "demo_charge = \<lparr>cq_order_id = ''o1'', cq_user_id = ''u1'', cq_amount_cents = 500, cq_payment_token = Some ''tok'', cq_currency = None\<rparr>"

definition demo_refund :: RefundRequest where
  "demo_refund = \<lparr>fq_order_id = ''o1'', fq_user_id = ''u1'', fq_reason = None\<rparr>"

definition charged_once :: payment_db where
  "charged_once = snd (charge_payment_endpoint True 1 ''p1'' demo_charge ''k1'' no_payments)"

definition charged_twice :: payment_db where
  "charged_twice = snd (charge_payment_endpoint True 2 ''p2'' demo_charge ''k2'' charged_once)"

lemmas payment_run = charged_once_def charged_twice_def charge_payment_endpoint_def process_charge_def
  resolve_idempotency_def authorize_def payment_accepted_def demo_charge_def demo_refund_def no_payments_def int4_def
  charges_of_def Let_def

lemma no_payments_reachable: "reachable empty_ledger payment_step no_payments"
  by (rule reach_init) (simp add: empty_ledger_def no_payments_def)

lemma charged_once_reachable: "reachable empty_ledger payment_step charged_once"
  unfolding charged_once_def by (rule reach_step [OF no_payments_reachable]) (rule payment_step.charge)

text \<open>
  Property C11 (never more back than was taken). Under any sequence of charges and refunds, an
  order has at most one refund row, and the money given back for it is at most the money
  captured and never negative.
\<close>

theorem refund_bounded:
  assumes "reachable empty_ledger payment_step db"
  shows "length (settled_of db x) \<le> 1 \<and> 0 \<le> given_back db x \<and> given_back db x \<le> captured db x"
proof -
  have inv: "payments_inv db" by (rule payments.reachable_inv [OF assms])
  then have one: "length (settled_of db x) \<le> 1" by (simp add: payments_inv_def)
  have pos: "0 \<le> pay_amount_cents c" if "c \<in> set (charges_of db x)" for c
    using that inv by (auto simp: charges_of_def payments_inv_def)
  then have nonneg: "0 \<le> captured db x" unfolding captured_def by (intro sum_list_nonneg) auto
  show ?thesis
  proof (cases "filter (\<lambda>p. pay_status p = ''REFUNDED'') (settled_of db x)")
    case Nil
    with one nonneg show ?thesis by (simp add: given_back_settled)
  next
    case (Cons p ps)
    have "p \<in> set (filter (\<lambda>p. pay_status p = ''REFUNDED'') (settled_of db x))" by (simp add: Cons)
    then have p: "p \<in> set (settled_of db x)" "pay_status p = ''REFUNDED''" by simp_all
    have "length (filter (\<lambda>p. pay_status p = ''REFUNDED'') (settled_of db x)) \<le> 1"
      using one length_filter_le by (rule order_trans [rotated])
    then have "length (p # ps) \<le> 1" by (simp add: Cons)
    then have gb: "given_back db x = - pay_amount_cents p" by (simp add: given_back_settled Cons)
    from p inv obtain c where c: "c \<in> set (charges_of db x)" "pay_amount_cents p = - pay_amount_cents c"
      by (auto simp: payments_inv_def settled_of_def charges_of_def)
    have "pay_amount_cents c \<le> captured db x"
      unfolding captured_def by (rule member_le_sum_list) (use c(1) pos in auto)
    with c pos gb one show ?thesis by auto
  qed
qed

theorem refund_bounded_witness:
  "captured charged_once ''o1'' = 500 \<and> length (settled_of charged_once ''o1'') \<le> 1 \<and>
   0 \<le> given_back charged_once ''o1'' \<and> given_back charged_once ''o1'' \<le> captured charged_once ''o1''"
  using refund_bounded [OF charged_once_reachable, of "''o1''"] by (simp add: captured_def payment_run)

text \<open>
  Property C27 (a payment is taken and returned once). However often a charge with one key is
  delivered, with whatever clock, identifiers and commit failures, at most one row is added to
  the ledger; the same holds for the deliveries of a refund.
\<close>

theorem payment_delivered_once:
  "length (pd_ledger (foldl (\<lambda>d (io, now, fresh). snd (charge_payment_endpoint io now fresh request key d)) db es))
     \<le> Suc (length (pd_ledger db)) \<and>
   length (pd_ledger (foldl (\<lambda>d (io, now, fresh). snd (refund_payment_endpoint io now fresh refund_request key d)) db es))
     \<le> Suc (length (pd_ledger db))"
proof
  have one: "length (pd_ledger db') \<le> Suc (length (pd_ledger db))"
    if "charge_payment_endpoint io now fresh request key db = (r, db')" for io now fresh r db'
    using that by (auto simp: charge_payment_endpoint_def elim: process_charge_cases split: if_splits)
  have two: "length (pd_ledger db') \<le> Suc (length (pd_ledger db))"
    if "refund_payment_endpoint io now fresh refund_request key db = (r, db')" for io now fresh r db'
    using that by (auto simp: refund_payment_endpoint_def elim: process_refund_cases split: if_splits)
  let ?charge = "\<lambda>d (io, now, fresh). snd (charge_payment_endpoint io now fresh request key d)"
  let ?refund = "\<lambda>d (io, now, fresh). snd (refund_payment_endpoint io now fresh refund_request key d)"
  have "?charge = (\<lambda>d e. snd ((case e of (io, now, fresh) \<Rightarrow> charge_payment_endpoint io now fresh request key) d))"
    "?refund = (\<lambda>d e. snd ((case e of (io, now, fresh) \<Rightarrow> refund_payment_endpoint io now fresh refund_request key) d))"
    by (auto simp: fun_eq_iff)
  then show "length (pd_ledger (foldl ?charge db es)) \<le> Suc (length (pd_ledger db))"
    "length (pd_ledger (foldl ?refund db es)) \<le> Suc (length (pd_ledger db))"
    using charge_delivery.delivered_at_most_once [of request key db es] one
      refund_delivery.delivered_at_most_once [of refund_request key db es] two by auto
qed

text \<open>
  Two charges block every refund. Once an order has two successful charges, which
  two charge requests with different keys produce, every refund of the order ends in an
  uncaught exception and gives nothing back.
\<close>

theorem double_charge_blocks_refund:
  assumes "2 \<le> length (charges_of db (fq_order_id refund_request))" and "key \<noteq> []"
  shows "refund_payment_endpoint io now fresh refund_request key db = (Inl (Uncaught ''MultipleResultsFound''), db)"
proof -
  have "one_or_none (charges_of db (fq_order_id refund_request)) = Inl (Uncaught ''MultipleResultsFound'')"
    using assms(1) by (simp add: one_or_none_Inl)
  then show ?thesis by (simp add: refund_payment_endpoint_def process_refund_def assms(2))
qed

theorem double_charge_blocks_refund_witness:
  "captured charged_twice ''o1'' = 1000 \<and>
   refund_payment_endpoint True 3 ''p3'' demo_refund ''k3'' charged_twice = (Inl (Uncaught ''MultipleResultsFound''), charged_twice)"
  using double_charge_blocks_refund [of charged_twice demo_refund "''k3''" True 3 "''p3''"]
  by (simp add: captured_def payment_run)

text \<open>
  A declined charge is a row with the amount that was asked for, so the sum over an order's rows
  is not what the customer has paid.
\<close>

lemma declined_charge_counts:
  "let db = snd (charge_payment_endpoint True 1 ''p1'' (demo_charge\<lparr>cq_payment_token := Some ''tok_fail''\<rparr>) ''k1'' no_payments) in
   captured db ''o1'' = 0 \<and> net_position (map ledger_entry (pd_ledger db)) = 500"
  by (simp add: captured_def payment_run net_position_def ledger_entry_def)

end
