(* ===== verification/Sellers.thy ===== *)
theory Sellers
  imports Prelude
begin

text \<open>
  The seller service (\<open>src/services/seller-service\<close>): the onboarding rules of
  \<open>services/seller_rules.py\<close>, the handlers of \<open>services/seller_service.py\<close> over the tables of
  \<open>models.py\<close>, and the routes of \<open>routes/sellers.py\<close> with the checks of \<open>schemas.py\<close>.

  A Python set of documents is a list without repetitions. The id of a document row is left
  out: nothing reads it.

  A handler loads the seller without a lock and commits later, so requests about one seller overtake
  each other. A handler is therefore a load followed by its \<open>_loaded\<close> part, which takes the row as it
  was loaded, and the flush writes only the columns that the handler has changed. Migration 015 puts
  the platform's own shop into the table; it is part of the initial state.
\<close>

section \<open>Onboarding rules\<close>

datatype SellerStatus =
    REGISTERED
  | DOCUMENTS_SUBMITTED
  | UNDER_REVIEW
  | APPROVED
  | ACTIVE
  | REJECTED
  | SUSPENDED
  | BANNED

definition all_statuses :: "SellerStatus list" where
  "all_statuses = [REGISTERED, DOCUMENTS_SUBMITTED, UNDER_REVIEW, APPROVED, ACTIVE, REJECTED, SUSPENDED, BANNED]"

fun status_value :: "SellerStatus \<Rightarrow> string" where
  "status_value REGISTERED = ''registered''"
| "status_value DOCUMENTS_SUBMITTED = ''documents_submitted''"
| "status_value UNDER_REVIEW = ''under_review''"
| "status_value APPROVED = ''approved''"
| "status_value ACTIVE = ''active''"
| "status_value REJECTED = ''rejected''"
| "status_value SUSPENDED = ''suspended''"
| "status_value BANNED = ''banned''"

definition SELLER_TERMINAL :: "SellerStatus list" where
  "SELLER_TERMINAL = [BANNED]"

datatype DocumentType = NATIONAL_ID | TRADE_LICENCE | TAX_REGISTRATION | BANK_STATEMENT

fun document_value :: "DocumentType \<Rightarrow> string" where
  "document_value NATIONAL_ID = ''national_id''"
| "document_value TRADE_LICENCE = ''trade_licence''"
| "document_value TAX_REGISTRATION = ''tax_registration''"
| "document_value BANK_STATEMENT = ''bank_statement''"

definition as_document_type :: "string \<Rightarrow> DocumentType option" where
  "as_document_type v =
     find (\<lambda>d. document_value d = v) [NATIONAL_ID, TRADE_LICENCE, TAX_REGISTRATION, BANK_STATEMENT]"

definition REQUIRED_DOCUMENTS :: "DocumentType list" where
  "REQUIRED_DOCUMENTS = [NATIONAL_ID, TRADE_LICENCE]"

definition CURRENT_CONTRACT_VERSION :: int where
  "CURRENT_CONTRACT_VERSION = 1"

definition COMMISSION_BPS_BY_VERSION :: "(int \<times> int) list" where
  "COMMISSION_BPS_BY_VERSION = [(1, 1200)]"

definition commission_bps :: "int option \<Rightarrow> int option" where
  "commission_bps version = (case version of None \<Rightarrow> None | Some v \<Rightarrow> map_of COMMISSION_BPS_BY_VERSION v)"

datatype SellerOutcome = OK | INVALID | NOT_ALLOWED

record SellerDecision =
  sd_outcome :: SellerOutcome
  sd_new_status :: "SellerStatus option"
  sd_event :: "string option"
  sd_detail :: string

definition sd_ok :: "SellerDecision \<Rightarrow> bool" where
  "sd_ok d \<longleftrightarrow> sd_outcome d = OK"

definition decide_ok :: "SellerStatus \<Rightarrow> string \<Rightarrow> string \<Rightarrow> SellerDecision" where
  "decide_ok status event detail =
     \<lparr>sd_outcome = OK, sd_new_status = Some status, sd_event = Some event, sd_detail = detail\<rparr>"

definition decide_not_allowed :: "string \<Rightarrow> SellerDecision" where
  "decide_not_allowed detail = \<lparr>sd_outcome = NOT_ALLOWED, sd_new_status = None, sd_event = None, sd_detail = detail\<rparr>"

definition decide_invalid :: "string \<Rightarrow> SellerDecision" where
  "decide_invalid detail = \<lparr>sd_outcome = INVALID, sd_new_status = None, sd_event = None, sd_detail = detail\<rparr>"

definition as_seller_status :: "string \<Rightarrow> SellerStatus option" where
  "as_seller_status v = find (\<lambda>s. status_value s = v) all_statuses"

definition may_list_products :: "string \<Rightarrow> int option \<Rightarrow> int \<Rightarrow> bool" where
  "may_list_products status accepted current_version =
     (if as_seller_status status \<noteq> Some ACTIVE then False else accepted = Some current_version)"

definition may_receive_orders :: "string \<Rightarrow> int option \<Rightarrow> int \<Rightarrow> bool" where
  "may_receive_orders status accepted current_version = may_list_products status accepted current_version"

definition needs_contract_acceptance :: "string \<Rightarrow> int option \<Rightarrow> int \<Rightarrow> bool" where
  "needs_contract_acceptance status accepted current_version =
     (if as_seller_status status \<notin> {Some ACTIVE, Some APPROVED} then False else accepted \<noteq> Some current_version)"

definition missing_documents :: "string list \<Rightarrow> DocumentType list" where
  "missing_documents submitted =
     (let have = List.map_filter as_document_type submitted in filter (\<lambda>d. d \<notin> set have) REQUIRED_DOCUMENTS)"

definition is_blank :: "string \<Rightarrow> bool" where
  "is_blank s \<longleftrightarrow> s = [] \<or> py_strip s = []"

definition plan_registration :: "string \<Rightarrow> string \<Rightarrow> string \<Rightarrow> SellerDecision" where
  "plan_registration legal_name display_name contact_email =
     (if is_blank legal_name then decide_invalid ''legal_name is required''
      else if is_blank display_name then decide_invalid ''display_name is required''
      else if contact_email = [] \<or> CHR ''@'' \<notin> set contact_email then decide_invalid ''contact_email must be an email address''
      else decide_ok REGISTERED ''SellerRegistered'' ''registered; documents required before review'')"

definition plan_document_submission :: "string \<Rightarrow> string list \<Rightarrow> SellerDecision" where
  "plan_document_submission status submitted =
     (case as_seller_status status of
        None \<Rightarrow> decide_not_allowed (''unrecognised seller status '' @ repr_str status)
      | Some current \<Rightarrow>
          if current \<notin> {REGISTERED, REJECTED, DOCUMENTS_SUBMITTED} then
            decide_not_allowed (''documents cannot be submitted from '' @ status_value current
              @ '' (a seller past review resubmits by appealing, not by uploading)'')
          else
            (let missing = missing_documents submitted in
             if missing \<noteq> [] then
               decide_invalid (''missing required document(s): '' @ join_with '', '' (sort (map document_value missing)))
             else decide_ok DOCUMENTS_SUBMITTED ''SellerDocumentsSubmitted'' ''queued for review''))"

definition plan_review_start :: "string \<Rightarrow> SellerDecision" where
  "plan_review_start status =
     (if as_seller_status status \<noteq> Some DOCUMENTS_SUBMITTED then
        decide_not_allowed (''review can only start from documents_submitted, not '' @ repr_str status)
      else decide_ok UNDER_REVIEW ''SellerReviewStarted'' ''under review'')"

definition plan_review_result :: "string \<Rightarrow> bool \<Rightarrow> string \<Rightarrow> SellerDecision" where
  "plan_review_result status approved reason =
     (if as_seller_status status \<noteq> Some UNDER_REVIEW then
        decide_not_allowed (''a verdict requires a review in progress; status is '' @ repr_str status)
      else if approved then
        decide_ok APPROVED ''SellerApproved'' ''approved; contract acceptance required before selling''
      else if is_blank reason then decide_invalid ''a rejection must carry a reason the seller can act on''
      else decide_ok REJECTED ''SellerRejected'' (py_strip reason))"

definition plan_contract_acceptance :: "string \<Rightarrow> int \<Rightarrow> int \<Rightarrow> SellerDecision" where
  "plan_contract_acceptance status version current_version =
     (if as_seller_status status \<notin> {Some APPROVED, Some ACTIVE} then
        decide_not_allowed (''contract cannot be accepted from '' @ repr_str status @ ''; it requires a completed review'')
      else if version \<noteq> current_version then
        decide_invalid (''contract version '' @ show_int version @ '' is not the current version ''
          @ show_int current_version @ ''; the seller was shown terms that are no longer in force'')
      else decide_ok ACTIVE ''SellerActivated'' (''active on contract version '' @ show_int version))"

definition plan_suspension :: "string \<Rightarrow> string \<Rightarrow> SellerDecision" where
  "plan_suspension status reason =
     (if as_seller_status status \<noteq> Some ACTIVE then
        decide_not_allowed (''only an active seller can be suspended, not '' @ repr_str status)
      else if is_blank reason then decide_invalid ''a suspension must carry a reason''
      else decide_ok SUSPENDED ''SellerSuspended'' (py_strip reason))"

definition plan_reinstatement :: "string \<Rightarrow> SellerDecision" where
  "plan_reinstatement status =
     (if as_seller_status status \<noteq> Some SUSPENDED then
        decide_not_allowed (''only a suspended seller can be reinstated, not '' @ repr_str status)
      else decide_ok ACTIVE ''SellerReinstated'' ''reinstated'')"

definition plan_ban :: "string \<Rightarrow> string \<Rightarrow> SellerDecision" where
  "plan_ban status reason =
     (case as_seller_status status of
        None \<Rightarrow> decide_not_allowed (''unrecognised seller status '' @ repr_str status)
      | Some current \<Rightarrow>
          if current = BANNED then decide_not_allowed ''seller is already banned''
          else if is_blank reason then decide_invalid ''a ban must carry a reason''
          else decide_ok BANNED ''SellerBanned'' (py_strip reason))"

fun SELLER_TRANSITIONS :: "SellerStatus \<Rightarrow> SellerStatus list" where
  "SELLER_TRANSITIONS REGISTERED = [DOCUMENTS_SUBMITTED, BANNED]"
| "SELLER_TRANSITIONS DOCUMENTS_SUBMITTED = [DOCUMENTS_SUBMITTED, UNDER_REVIEW, BANNED]"
| "SELLER_TRANSITIONS UNDER_REVIEW = [APPROVED, REJECTED, BANNED]"
| "SELLER_TRANSITIONS APPROVED = [ACTIVE, BANNED]"
| "SELLER_TRANSITIONS ACTIVE = [ACTIVE, SUSPENDED, BANNED]"
| "SELLER_TRANSITIONS REJECTED = [DOCUMENTS_SUBMITTED, BANNED]"
| "SELLER_TRANSITIONS SUSPENDED = [ACTIVE, BANNED]"
| "SELLER_TRANSITIONS BANNED = []"

definition reachable_seller_statuses :: "string \<Rightarrow> SellerStatus list" where
  "reachable_seller_statuses status = (case as_seller_status status of None \<Rightarrow> [] | Some s \<Rightarrow> SELLER_TRANSITIONS s)"

section \<open>Tables\<close>

record seller =
  sr_id :: uuid
  sr_legal_name :: string
  sr_display_name :: string
  sr_contact_email :: string
  sr_contact_phone :: "string option"
  sr_status :: string
  sr_status_reason :: "string option"
  sr_accepted_contract_version :: "int option"
  sr_contract_accepted_at :: "int option"
  sr_address_line :: "string option"
  sr_city :: "string option"
  sr_district :: "string option"
  sr_country :: string
  sr_latitude :: "string option"
  sr_longitude :: "string option"
  sr_created_at :: int
  sr_updated_at :: int

record seller_document =
  dc_seller_id :: uuid
  dc_document_type :: string
  dc_media_id :: uuid
  dc_submitted_at :: int

record seller_db =
  sd_sellers :: "seller list"
  sd_documents :: "seller_document list"
  sd_outbox :: "(int \<times> outbox_message) list"
  sd_keys :: "(string \<times> uuid option) list"

section \<open>Handlers\<close>

record SellerResponse =
  rs_id :: uuid
  rs_legal_name :: string
  rs_display_name :: string
  rs_contact_email :: string
  rs_contact_phone :: "string option"
  rs_status :: string
  rs_status_reason :: "string option"
  rs_accepted_contract_version :: "int option"
  rs_current_contract_version :: int
  rs_may_list_products :: bool
  rs_may_receive_orders :: bool
  rs_needs_contract_acceptance :: bool
  rs_missing_documents :: "string list"
  rs_city :: "string option"
  rs_district :: "string option"
  rs_country :: string
  rs_latitude :: "string option"
  rs_longitude :: "string option"
  rs_created_at :: int

definition to_response :: "seller \<Rightarrow> string list \<Rightarrow> SellerResponse" where
  "to_response s submitted_types =
     \<lparr>rs_id = sr_id s, rs_legal_name = sr_legal_name s, rs_display_name = sr_display_name s,
      rs_contact_email = sr_contact_email s, rs_contact_phone = sr_contact_phone s, rs_status = sr_status s,
      rs_status_reason = sr_status_reason s, rs_accepted_contract_version = sr_accepted_contract_version s,
      rs_current_contract_version = CURRENT_CONTRACT_VERSION,
      rs_may_list_products = may_list_products (sr_status s) (sr_accepted_contract_version s) CURRENT_CONTRACT_VERSION,
      rs_may_receive_orders = may_receive_orders (sr_status s) (sr_accepted_contract_version s) CURRENT_CONTRACT_VERSION,
      rs_needs_contract_acceptance =
        needs_contract_acceptance (sr_status s) (sr_accepted_contract_version s) CURRENT_CONTRACT_VERSION,
      rs_missing_documents = sort (map document_value (missing_documents submitted_types)),
      rs_city = sr_city s, rs_district = sr_district s, rs_country = sr_country s,
      rs_latitude = sr_latitude s, rs_longitude = sr_longitude s, rs_created_at = sr_created_at s\<rparr>"

definition load_seller :: "seller_db \<Rightarrow> uuid \<Rightarrow> seller result" where
  "load_seller db seller_id =
     (case find (\<lambda>s. sr_id s = seller_id) (sd_sellers db) of
        None \<Rightarrow> Inl (HTTPException 404)
      | Some s \<Rightarrow> Inr s)"

definition document_types :: "seller_db \<Rightarrow> uuid \<Rightarrow> string list" where
  "document_types db seller_id =
     map dc_document_type (filter (\<lambda>d. dc_seller_id d = seller_id) (sd_documents db))"

definition emit_seller_event :: "int \<Rightarrow> seller \<Rightarrow> string \<Rightarrow> seller_db \<Rightarrow> seller_db" where
  "emit_seller_event now s event db = db\<lparr>sd_outbox := sd_outbox db @ [(now, outbox ''Seller'' (sr_id s) event
     (JObj [(''seller_id'', JStr (sr_id s)), (''display_name'', JStr (sr_display_name s)),
            (''status'', JStr (sr_status s)), (''status_reason'', str_or_null (sr_status_reason s)),
            (''accepted_contract_version'', int_or_null (sr_accepted_contract_version s)),
            (''city'', str_or_null (sr_city s)), (''district'', str_or_null (sr_district s)),
            (''country'', JStr (sr_country s)), (''latitude'', str_or_null (sr_latitude s)),
            (''longitude'', str_or_null (sr_longitude s)),
            (''may_list_products'',
              JBool (may_list_products (sr_status s) (sr_accepted_contract_version s) CURRENT_CONTRACT_VERSION))]))]\<rparr>"

definition reject_decision :: "SellerDecision \<Rightarrow> failure" where
  "reject_decision d = HTTPException (if sd_outcome d = INVALID then 422 else 409)"

text \<open>
  Writing a loaded row back: the columns in which the new row differs from the row as it was loaded
  are written to the present row, and \<open>updated_at\<close> moves when there is such a column.
\<close>

definition dirty_seller :: "seller \<Rightarrow> seller \<Rightarrow> seller \<Rightarrow> seller" where
  "dirty_seller old new x =
     x\<lparr>sr_status := if sr_status new = sr_status old then sr_status x else sr_status new,
       sr_status_reason := if sr_status_reason new = sr_status_reason old then sr_status_reason x else sr_status_reason new,
       sr_accepted_contract_version := if sr_accepted_contract_version new = sr_accepted_contract_version old
         then sr_accepted_contract_version x else sr_accepted_contract_version new,
       sr_contract_accepted_at := if sr_contract_accepted_at new = sr_contract_accepted_at old
         then sr_contract_accepted_at x else sr_contract_accepted_at new,
       sr_address_line := if sr_address_line new = sr_address_line old then sr_address_line x else sr_address_line new,
       sr_city := if sr_city new = sr_city old then sr_city x else sr_city new,
       sr_district := if sr_district new = sr_district old then sr_district x else sr_district new,
       sr_latitude := if sr_latitude new = sr_latitude old then sr_latitude x else sr_latitude new,
       sr_longitude := if sr_longitude new = sr_longitude old then sr_longitude x else sr_longitude new\<rparr>"

definition save_seller :: "int \<Rightarrow> seller \<Rightarrow> seller \<Rightarrow> seller_db \<Rightarrow> seller_db" where
  "save_seller now old new db =
     db\<lparr>sd_sellers := map (\<lambda>x. if sr_id x = sr_id new
          then (if new = old then x else (dirty_seller old new x)\<lparr>sr_updated_at := now\<rparr>) else x) (sd_sellers db)\<rparr>"

text \<open>\<open>old\<close> is the row as it was loaded, \<open>s\<close> the row with what the handler has assigned before.\<close>

definition apply_seller_decision ::
  "bool \<Rightarrow> int \<Rightarrow> seller \<Rightarrow> seller \<Rightarrow> SellerDecision \<Rightarrow> string option \<Rightarrow> seller_db \<Rightarrow> seller_db \<Rightarrow>
     SellerResponse result \<times> seller_db" where
  "apply_seller_decision io now old s decision reason original db =
     (if \<not> sd_ok decision then (Inl (reject_decision decision), original)
      else
        (let s1 = s\<lparr>sr_status := status_value (the (sd_new_status decision))\<rparr>;
             s2 = (case reason of None \<Rightarrow> s1 | Some r \<Rightarrow> s1\<lparr>sr_status_reason := Some r\<rparr>);
             db1 = save_seller now old s2 db;
             db2 = (case sd_event decision of None \<Rightarrow> db1 | Some e \<Rightarrow> emit_seller_event now s2 e db1) in
         commit io True original db2 (to_response s2 (document_types db2 (sr_id s)))))"

record SellerRegisterRequest =
  gr_legal_name :: string
  gr_display_name :: string
  gr_contact_email :: string
  gr_contact_phone :: "string option"
  gr_address_line :: "string option"
  gr_city :: "string option"
  gr_district :: "string option"
  gr_country :: string
  gr_latitude :: "string option"
  gr_longitude :: "string option"

definition new_seller :: "int \<Rightarrow> uuid \<Rightarrow> SellerRegisterRequest \<Rightarrow> SellerDecision \<Rightarrow> seller" where
  "new_seller now fresh request decision =
     \<lparr>sr_id = fresh, sr_legal_name = py_strip (gr_legal_name request), sr_display_name = py_strip (gr_display_name request),
      sr_contact_email = py_strip (gr_contact_email request), sr_contact_phone = gr_contact_phone request,
      sr_status = status_value (the (sd_new_status decision)), sr_status_reason = None,
      sr_accepted_contract_version = None, sr_contract_accepted_at = None,
      sr_address_line = gr_address_line request, sr_city = gr_city request, sr_district = gr_district request,
      sr_country = py_upper (gr_country request), sr_latitude = gr_latitude request, sr_longitude = gr_longitude request,
      sr_created_at = now, sr_updated_at = now\<rparr>"

definition register_seller ::
  "bool \<Rightarrow> int \<Rightarrow> uuid \<Rightarrow> SellerRegisterRequest \<Rightarrow> string \<Rightarrow> seller_db \<Rightarrow> SellerResponse result \<times> seller_db" where
  "register_seller io now fresh request idempotency_key db =
     (case map_of (sd_keys db) idempotency_key of
        Some (Some result_id) \<Rightarrow>
          (case load_seller db result_id of
             Inl e \<Rightarrow> (Inl e, db)
           | Inr s \<Rightarrow> (Inr (to_response s (document_types db result_id)), db))
      | Some None \<Rightarrow> (Inl (HTTPException 409), db)
      | None \<Rightarrow>
          (let decision = plan_registration (gr_legal_name request) (gr_display_name request) (gr_contact_email request) in
           if \<not> sd_ok decision then (Inl (reject_decision decision), db)
           else if fresh \<in> sr_id ` set (sd_sellers db) then (Inl (Uncaught ''IntegrityError''), db)
           else
             (let s = new_seller now fresh request decision;
                  db1 = emit_seller_event now s (the (sd_event decision)) (db\<lparr>sd_sellers := sd_sellers db @ [s]\<rparr>) in
              commit io True db (db1\<lparr>sd_keys := sd_keys db1 @ [(idempotency_key, Some (sr_id s))]\<rparr>) (to_response s []))))"

text \<open>The documents of a request: a dict from type to media id, the last one of a type wins.\<close>

definition incoming_documents :: "(string \<times> uuid) list \<Rightarrow> (string \<times> uuid) list" where
  "incoming_documents documents = foldl (\<lambda>d (t, m). dict_set d t m) [] documents"

definition replace_document :: "int \<Rightarrow> uuid \<Rightarrow> seller_db \<Rightarrow> string \<times> uuid \<Rightarrow> seller_db" where
  "replace_document now seller_id db tm =
     db\<lparr>sd_documents := filter (\<lambda>d. \<not> (dc_seller_id d = seller_id \<and> dc_document_type d = fst tm)) (sd_documents db)
          @ [\<lparr>dc_seller_id = seller_id, dc_document_type = fst tm, dc_media_id = snd tm, dc_submitted_at = now\<rparr>]\<rparr>"

definition submit_documents_loaded ::
  "bool \<Rightarrow> int \<Rightarrow> seller \<Rightarrow> string list \<Rightarrow> (string \<times> uuid) list \<Rightarrow> seller_db \<Rightarrow> SellerResponse result \<times> seller_db" where
  "submit_documents_loaded io now s existing documents db =
     (let incoming = incoming_documents documents;
          resulting = sort (remdups (existing @ map fst incoming));
          decision = plan_document_submission (sr_status s) resulting in
      if \<not> sd_ok decision then (Inl (reject_decision decision), db)
      else apply_seller_decision io now s s decision (Some []) db (foldl (replace_document now (sr_id s)) db incoming))"

definition submit_documents ::
  "bool \<Rightarrow> int \<Rightarrow> uuid \<Rightarrow> (string \<times> uuid) list \<Rightarrow> seller_db \<Rightarrow> SellerResponse result \<times> seller_db" where
  "submit_documents io now seller_id documents db =
     (case load_seller db seller_id of
        Inl e \<Rightarrow> (Inl e, db)
      | Inr s \<Rightarrow> submit_documents_loaded io now s (document_types db seller_id) documents db)"

definition start_review_loaded :: "bool \<Rightarrow> int \<Rightarrow> seller \<Rightarrow> seller_db \<Rightarrow> SellerResponse result \<times> seller_db" where
  "start_review_loaded io now s db = apply_seller_decision io now s s (plan_review_start (sr_status s)) None db db"

definition start_review :: "bool \<Rightarrow> int \<Rightarrow> uuid \<Rightarrow> seller_db \<Rightarrow> SellerResponse result \<times> seller_db" where
  "start_review io now seller_id db =
     (case load_seller db seller_id of Inl e \<Rightarrow> (Inl e, db) | Inr s \<Rightarrow> start_review_loaded io now s db)"

definition review_result_loaded ::
  "bool \<Rightarrow> int \<Rightarrow> seller \<Rightarrow> bool \<Rightarrow> string option \<Rightarrow> seller_db \<Rightarrow> SellerResponse result \<times> seller_db" where
  "review_result_loaded io now s approved reason db =
     (let decision = plan_review_result (sr_status s) approved (case reason of None \<Rightarrow> [] | Some r \<Rightarrow> r) in
      apply_seller_decision io now s s decision (if \<not> approved then Some (sd_detail decision) else None) db db)"

definition record_review_result ::
  "bool \<Rightarrow> int \<Rightarrow> uuid \<Rightarrow> bool \<Rightarrow> string option \<Rightarrow> seller_db \<Rightarrow> SellerResponse result \<times> seller_db" where
  "record_review_result io now seller_id approved reason db =
     (case load_seller db seller_id of Inl e \<Rightarrow> (Inl e, db) | Inr s \<Rightarrow> review_result_loaded io now s approved reason db)"

definition accept_contract_loaded :: "bool \<Rightarrow> int \<Rightarrow> seller \<Rightarrow> int \<Rightarrow> seller_db \<Rightarrow> SellerResponse result \<times> seller_db" where
  "accept_contract_loaded io now s version db =
     (let decision = plan_contract_acceptance (sr_status s) version CURRENT_CONTRACT_VERSION in
      if \<not> sd_ok decision then (Inl (reject_decision decision), db)
      else apply_seller_decision io now s
        (s\<lparr>sr_accepted_contract_version := Some version, sr_contract_accepted_at := Some now\<rparr>) decision None db db)"

definition accept_contract :: "bool \<Rightarrow> int \<Rightarrow> uuid \<Rightarrow> int \<Rightarrow> seller_db \<Rightarrow> SellerResponse result \<times> seller_db" where
  "accept_contract io now seller_id version db =
     (case load_seller db seller_id of Inl e \<Rightarrow> (Inl e, db) | Inr s \<Rightarrow> accept_contract_loaded io now s version db)"

definition suspend_loaded :: "bool \<Rightarrow> int \<Rightarrow> seller \<Rightarrow> string \<Rightarrow> seller_db \<Rightarrow> SellerResponse result \<times> seller_db" where
  "suspend_loaded io now s reason db =
     (let decision = plan_suspension (sr_status s) reason in
      apply_seller_decision io now s s decision (Some (sd_detail decision)) db db)"

definition suspend_seller :: "bool \<Rightarrow> int \<Rightarrow> uuid \<Rightarrow> string \<Rightarrow> seller_db \<Rightarrow> SellerResponse result \<times> seller_db" where
  "suspend_seller io now seller_id reason db =
     (case load_seller db seller_id of Inl e \<Rightarrow> (Inl e, db) | Inr s \<Rightarrow> suspend_loaded io now s reason db)"

definition reinstate_loaded :: "bool \<Rightarrow> int \<Rightarrow> seller \<Rightarrow> seller_db \<Rightarrow> SellerResponse result \<times> seller_db" where
  "reinstate_loaded io now s db = apply_seller_decision io now s s (plan_reinstatement (sr_status s)) (Some []) db db"

definition reinstate_seller :: "bool \<Rightarrow> int \<Rightarrow> uuid \<Rightarrow> seller_db \<Rightarrow> SellerResponse result \<times> seller_db" where
  "reinstate_seller io now seller_id db =
     (case load_seller db seller_id of Inl e \<Rightarrow> (Inl e, db) | Inr s \<Rightarrow> reinstate_loaded io now s db)"

definition ban_loaded :: "bool \<Rightarrow> int \<Rightarrow> seller \<Rightarrow> string \<Rightarrow> seller_db \<Rightarrow> SellerResponse result \<times> seller_db" where
  "ban_loaded io now s reason db =
     (let decision = plan_ban (sr_status s) reason in
      apply_seller_decision io now s s decision (Some (sd_detail decision)) db db)"

definition ban_seller :: "bool \<Rightarrow> int \<Rightarrow> uuid \<Rightarrow> string \<Rightarrow> seller_db \<Rightarrow> SellerResponse result \<times> seller_db" where
  "ban_seller io now seller_id reason db =
     (case load_seller db seller_id of Inl e \<Rightarrow> (Inl e, db) | Inr s \<Rightarrow> ban_loaded io now s reason db)"

definition get_seller :: "uuid \<Rightarrow> seller_db \<Rightarrow> SellerResponse result" where
  "get_seller seller_id db =
     (case load_seller db seller_id of
        Inl e \<Rightarrow> Inl e
      | Inr s \<Rightarrow> Inr (to_response s (document_types db seller_id)))"

record SellerPermissionResponse =
  pm_seller_id :: uuid
  pm_status :: string
  pm_may_list_products :: bool
  pm_may_receive_orders :: bool

definition get_permission :: "uuid \<Rightarrow> seller_db \<Rightarrow> SellerPermissionResponse result" where
  "get_permission seller_id db =
     (case load_seller db seller_id of
        Inl e \<Rightarrow> Inl e
      | Inr s \<Rightarrow> Inr
          \<lparr>pm_seller_id = sr_id s, pm_status = sr_status s,
           pm_may_list_products = may_list_products (sr_status s) (sr_accepted_contract_version s) CURRENT_CONTRACT_VERSION,
           pm_may_receive_orders = may_receive_orders (sr_status s) (sr_accepted_contract_version s) CURRENT_CONTRACT_VERSION\<rparr>)"

text \<open>Rows with the same \<open>created_at\<close> come in table order, one of the orders SQL allows.\<close>

definition list_sellers :: "string option \<Rightarrow> int \<Rightarrow> seller_db \<Rightarrow> SellerResponse list result" where
  "list_sellers status limit db =
     (let run = (\<lambda>P. map (\<lambda>s. to_response s (document_types db (sr_id s)))
                  (take (nat (min limit 200)) (sort_key (\<lambda>s. - sr_created_at s) (filter P (sd_sellers db))))) in
      case status of
        Some (c # cs) \<Rightarrow>
          if (c # cs) \<notin> status_value ` set all_statuses then Inl (HTTPException 422)
          else Inr (run (\<lambda>s. sr_status s = c # cs))
      | _ \<Rightarrow> Inr (run (\<lambda>_. True)))"

record commission_response =
  cm_seller_id :: uuid
  cm_accepted_contract_version :: "int option"
  cm_current_contract_version :: int
  cm_commission_bps :: int

definition get_commission :: "uuid \<Rightarrow> seller_db \<Rightarrow> commission_response result" where
  "get_commission seller_id db =
     (case load_seller db seller_id of
        Inl e \<Rightarrow> Inl e
      | Inr s \<Rightarrow>
          (case commission_bps (sr_accepted_contract_version s) of
             None \<Rightarrow> Inl (HTTPException 409)
           | Some rate \<Rightarrow> Inr
               \<lparr>cm_seller_id = sr_id s, cm_accepted_contract_version = sr_accepted_contract_version s,
                cm_current_contract_version = CURRENT_CONTRACT_VERSION, cm_commission_bps = rate\<rparr>))"

record SellerLocationRequest =
  lc_latitude :: "string option"
  lc_longitude :: "string option"
  lc_address_line :: "string option"
  lc_city :: "string option"
  lc_district :: "string option"

definition given :: "'a option \<Rightarrow> 'a option \<Rightarrow> 'a option" where
  "given new old = (case new of None \<Rightarrow> old | Some v \<Rightarrow> Some v)"

definition moved_to :: "SellerLocationRequest \<Rightarrow> seller \<Rightarrow> seller" where
  "moved_to request s =
     s\<lparr>sr_latitude := given (lc_latitude request) (sr_latitude s),
       sr_longitude := given (lc_longitude request) (sr_longitude s),
       sr_address_line := given (lc_address_line request) (sr_address_line s),
       sr_city := given (lc_city request) (sr_city s),
       sr_district := given (lc_district request) (sr_district s)\<rparr>"

definition set_location_loaded ::
  "bool \<Rightarrow> int \<Rightarrow> seller \<Rightarrow> SellerLocationRequest \<Rightarrow> seller_db \<Rightarrow> SellerResponse result \<times> seller_db" where
  "set_location_loaded io now s request db =
     (let s1 = moved_to request s;
          db1 = emit_seller_event now s1 ''SellerLocationUpdated'' (save_seller now s s1 db) in
      if io then
        (case load_seller db1 (sr_id s) of
           Inl e \<Rightarrow> (Inl (Uncaught ''InvalidRequestError''), db1)
         | Inr x \<Rightarrow> (Inr (to_response x (document_types db1 (sr_id s))), db1))
      else (Inl (Uncaught ''DBAPIError''), db))"

definition set_location ::
  "bool \<Rightarrow> int \<Rightarrow> uuid \<Rightarrow> SellerLocationRequest \<Rightarrow> seller_db \<Rightarrow> SellerResponse result \<times> seller_db" where
  "set_location io now seller_id request db =
     (case load_seller db seller_id of Inl e \<Rightarrow> (Inl e, db) | Inr s \<Rightarrow> set_location_loaded io now s request db)"

section \<open>Routes\<close>

definition length_within :: "nat \<Rightarrow> nat \<Rightarrow> string \<Rightarrow> bool" where
  "length_within lo hi s \<longleftrightarrow> lo \<le> length s \<and> length s \<le> hi"

definition optional_within :: "nat \<Rightarrow> string option \<Rightarrow> bool" where
  "optional_within hi s = (case s of None \<Rightarrow> True | Some t \<Rightarrow> length t \<le> hi)"

definition register_request_valid :: "SellerRegisterRequest \<Rightarrow> bool" where
  "register_request_valid r \<longleftrightarrow>
     length_within 1 255 (gr_legal_name r) \<and> length_within 1 255 (gr_display_name r) \<and> length_within 3 320 (gr_contact_email r) \<and>
     optional_within 32 (gr_contact_phone r) \<and> optional_within 512 (gr_address_line r) \<and>
     optional_within 128 (gr_city r) \<and> optional_within 128 (gr_district r) \<and> length_within 2 2 (gr_country r) \<and>
     optional_within 32 (gr_latitude r) \<and> optional_within 32 (gr_longitude r)"

definition register_endpoint ::
  "bool \<Rightarrow> int \<Rightarrow> uuid \<Rightarrow> SellerRegisterRequest \<Rightarrow> string \<Rightarrow> seller_db \<Rightarrow> SellerResponse result \<times> seller_db" where
  "register_endpoint io now fresh request idempotency_key db =
     (if \<not> register_request_valid request then (Inl (HTTPException 422), db)
      else if idempotency_key = [] then (Inl (HTTPException 400), db)
      else register_seller io now fresh request idempotency_key db)"

definition documents_endpoint ::
  "bool \<Rightarrow> int \<Rightarrow> uuid \<Rightarrow> (string \<times> uuid) list \<Rightarrow> seller_db \<Rightarrow> SellerResponse result \<times> seller_db" where
  "documents_endpoint io now seller_id documents db =
     (if documents = [] \<or> (\<exists>(t, m) \<in> set documents. 32 < length t) then (Inl (HTTPException 422), db)
      else submit_documents io now seller_id documents db)"

definition start_review_endpoint :: "bool \<Rightarrow> int \<Rightarrow> uuid \<Rightarrow> seller_db \<Rightarrow> SellerResponse result \<times> seller_db" where
  "start_review_endpoint io now seller_id db = start_review io now seller_id db"

definition review_result_endpoint ::
  "bool \<Rightarrow> int \<Rightarrow> uuid \<Rightarrow> bool \<Rightarrow> string option \<Rightarrow> seller_db \<Rightarrow> SellerResponse result \<times> seller_db" where
  "review_result_endpoint io now seller_id approved reason db =
     (if \<not> optional_within 1024 reason then (Inl (HTTPException 422), db)
      else record_review_result io now seller_id approved reason db)"

definition contract_endpoint :: "bool \<Rightarrow> int \<Rightarrow> uuid \<Rightarrow> int \<Rightarrow> seller_db \<Rightarrow> SellerResponse result \<times> seller_db" where
  "contract_endpoint io now seller_id version db = accept_contract io now seller_id version db"

definition suspend_endpoint :: "bool \<Rightarrow> int \<Rightarrow> uuid \<Rightarrow> string \<Rightarrow> seller_db \<Rightarrow> SellerResponse result \<times> seller_db" where
  "suspend_endpoint io now seller_id reason db =
     (if \<not> length_within 1 1024 reason then (Inl (HTTPException 422), db) else suspend_seller io now seller_id reason db)"

definition reinstate_endpoint :: "bool \<Rightarrow> int \<Rightarrow> uuid \<Rightarrow> seller_db \<Rightarrow> SellerResponse result \<times> seller_db" where
  "reinstate_endpoint io now seller_id db = reinstate_seller io now seller_id db"

definition ban_endpoint :: "bool \<Rightarrow> int \<Rightarrow> uuid \<Rightarrow> string \<Rightarrow> seller_db \<Rightarrow> SellerResponse result \<times> seller_db" where
  "ban_endpoint io now seller_id reason db =
     (if \<not> length_within 1 1024 reason then (Inl (HTTPException 422), db) else ban_seller io now seller_id reason db)"

definition location_request_valid :: "SellerLocationRequest \<Rightarrow> bool" where
  "location_request_valid r \<longleftrightarrow>
     optional_within 32 (lc_latitude r) \<and> optional_within 32 (lc_longitude r) \<and>
     optional_within 512 (lc_address_line r) \<and> optional_within 128 (lc_city r) \<and> optional_within 128 (lc_district r)"

definition update_location ::
  "bool \<Rightarrow> int \<Rightarrow> uuid \<Rightarrow> SellerLocationRequest \<Rightarrow> seller_db \<Rightarrow> SellerResponse result \<times> seller_db" where
  "update_location io now seller_id request db =
     (if \<not> location_request_valid request then (Inl (HTTPException 422), db)
      else set_location io now seller_id request db)"

definition list_endpoint :: "string option \<Rightarrow> int \<Rightarrow> seller_db \<Rightarrow> SellerResponse list result" where
  "list_endpoint status limit db =
     (if limit < 1 \<or> 200 < limit then Inl (HTTPException 422) else list_sellers status limit db)"

definition commission_endpoint :: "uuid \<Rightarrow> seller_db \<Rightarrow> commission_response result" where
  "commission_endpoint seller_id db = get_commission seller_id db"

section \<open>Rules as lemmas\<close>

lemma as_seller_status_value [simp]: "as_seller_status (status_value t) = Some t"
  by (cases t) (simp_all add: as_seller_status_def all_statuses_def)

declare status_value.simps [simp del]

lemma as_seller_status_Some: "as_seller_status v = Some t \<longleftrightarrow> v = status_value t"
proof
  assume "as_seller_status v = Some t"
  from find_SomeD [OF this [unfolded as_seller_status_def]] show "v = status_value t" by simp
qed simp

definition kyc_documents :: "string set" where
  "kyc_documents = {''national_id'', ''trade_licence''}"

lemma as_document_type_Some: "as_document_type v = Some d \<longleftrightarrow> v = document_value d"
proof
  assume "as_document_type v = Some d"
  from find_SomeD [OF this [unfolded as_document_type_def]] show "v = document_value d" by simp
next
  show "v = document_value d \<Longrightarrow> as_document_type v = Some d"
    by (cases d) (simp_all add: as_document_type_def)
qed

lemma as_document_value [simp]: "as_document_type (document_value d) = Some d"
  by (simp add: as_document_type_Some)

lemma document_value_eq [simp]: "document_value d = document_value e \<longleftrightarrow> d = e"
  using as_document_type_Some [of "document_value d" e] as_document_type_Some [of "document_value d" d] by auto

lemma missing_documents_none: "missing_documents submitted = [] \<longleftrightarrow> kyc_documents \<subseteq> set submitted"
proof -
  have "d \<in> set (List.map_filter as_document_type submitted) \<longleftrightarrow> document_value d \<in> set submitted" for d
    by (induction submitted) (auto simp: map_filter_simps as_document_type_Some split: option.splits)
  then show ?thesis
    by (auto simp: missing_documents_def REQUIRED_DOCUMENTS_def kyc_documents_def filter_empty_conv Let_def)
qed

lemma decide_sel [simp]:
  "sd_ok (decide_ok t e x)" "\<not> sd_ok (decide_invalid x)" "\<not> sd_ok (decide_not_allowed x)"
  "sd_new_status (decide_ok t e x) = Some t" "sd_event (decide_ok t e x) = Some e" "sd_detail (decide_ok t e x) = x"
  by (simp_all add: sd_ok_def decide_ok_def decide_invalid_def decide_not_allowed_def)

text \<open>When each rule agrees, and the status it moves to.\<close>

lemma plan_ok:
  "sd_ok (plan_registration n d m) \<longleftrightarrow> \<not> is_blank n \<and> \<not> is_blank d \<and> m \<noteq> [] \<and> CHR ''@'' \<in> set m"
  "sd_ok (plan_document_submission v ds) \<longleftrightarrow>
     (\<exists>t \<in> {REGISTERED, REJECTED, DOCUMENTS_SUBMITTED}. as_seller_status v = Some t) \<and> kyc_documents \<subseteq> set ds"
  "sd_ok (plan_review_start v) \<longleftrightarrow> as_seller_status v = Some DOCUMENTS_SUBMITTED"
  "sd_ok (plan_review_result v approved r) \<longleftrightarrow> as_seller_status v = Some UNDER_REVIEW \<and> (approved \<or> \<not> is_blank r)"
  "sd_ok (plan_contract_acceptance v k c) \<longleftrightarrow> as_seller_status v \<in> {Some APPROVED, Some ACTIVE} \<and> k = c"
  "sd_ok (plan_suspension v r) \<longleftrightarrow> as_seller_status v = Some ACTIVE \<and> \<not> is_blank r"
  "sd_ok (plan_reinstatement v) \<longleftrightarrow> as_seller_status v = Some SUSPENDED"
  "sd_ok (plan_ban v r) \<longleftrightarrow> (\<exists>t. as_seller_status v = Some t \<and> t \<noteq> BANNED) \<and> \<not> is_blank r"
  by (auto simp: plan_registration_def plan_document_submission_def plan_review_start_def plan_review_result_def
      plan_contract_acceptance_def plan_suspension_def plan_reinstatement_def plan_ban_def missing_documents_none Let_def
      split: option.splits)

lemma plan_status:
  "sd_ok (plan_registration n d m) \<Longrightarrow> sd_new_status (plan_registration n d m) = Some REGISTERED"
  "sd_ok (plan_document_submission v ds) \<Longrightarrow> sd_new_status (plan_document_submission v ds) = Some DOCUMENTS_SUBMITTED"
  "sd_ok (plan_review_start v) \<Longrightarrow> sd_new_status (plan_review_start v) = Some UNDER_REVIEW"
  "sd_ok (plan_review_result v approved r) \<Longrightarrow>
     sd_new_status (plan_review_result v approved r) = Some (if approved then APPROVED else REJECTED)"
  "sd_ok (plan_contract_acceptance v k c) \<Longrightarrow> sd_new_status (plan_contract_acceptance v k c) = Some ACTIVE"
  "sd_ok (plan_suspension v r) \<Longrightarrow> sd_new_status (plan_suspension v r) = Some SUSPENDED"
  "sd_ok (plan_reinstatement v) \<Longrightarrow> sd_new_status (plan_reinstatement v) = Some ACTIVE"
  "sd_ok (plan_ban v r) \<Longrightarrow> sd_new_status (plan_ban v r) = Some BANNED"
  by (auto simp: plan_registration_def plan_document_submission_def plan_review_start_def plan_review_result_def
      plan_contract_acceptance_def plan_suspension_def plan_reinstatement_def plan_ban_def Let_def
      split: option.splits if_splits)

section \<open>The platform's own shop\<close>

definition PLATFORM_SELLER_ID :: uuid where
  "PLATFORM_SELLER_ID = ''00000000-0000-0000-0000-000000000001''"

text \<open>The row of migration 015.\<close>

definition platform_seller :: "int \<Rightarrow> seller" where
  "platform_seller now =
     \<lparr>sr_id = PLATFORM_SELLER_ID, sr_legal_name = ''Platform First-Party Seller'', sr_display_name = ''Marketplace'',
      sr_contact_email = ''platform@example.invalid'', sr_contact_phone = None, sr_status = ''active'',
      sr_status_reason = Some (''seeded by migration 015; the platform'' @ [CHR 0x27] @ ''s own first-party shop''),
      sr_accepted_contract_version = Some 1, sr_contract_accepted_at = Some now, sr_address_line = None, sr_city = None,
      sr_district = None, sr_country = ''BD'', sr_latitude = None, sr_longitude = None, sr_created_at = now, sr_updated_at = now\<rparr>"

definition migrated :: "seller_db \<Rightarrow> bool" where
  "migrated db \<longleftrightarrow> (sd_sellers db = [] \<or> (\<exists>now. sd_sellers db = [platform_seller now])) \<and>
     sd_documents db = [] \<and> sd_outbox db = [] \<and> sd_keys db = []"

lemma platform_seller_sel [simp]:
  "sr_id (platform_seller now) = PLATFORM_SELLER_ID" "sr_status (platform_seller now) = status_value ACTIVE"
  "sr_accepted_contract_version (platform_seller now) = Some CURRENT_CONTRACT_VERSION"
  by (simp_all add: platform_seller_def CURRENT_CONTRACT_VERSION_def status_value.simps)

section \<open>The invariant of the tables\<close>

text \<open>
  What holds of a row whose seller has attached documents of the types \<open>docs\<close> when requests do not
  overlap: past registration the required documents are there, a seller who was activated has accepted
  the current contract, and a reason is shown only for a status that carries one. The platform's own
  shop is exempt.
\<close>

definition seller_ok :: "string set \<Rightarrow> seller \<Rightarrow> bool" where
  "seller_ok docs s \<longleftrightarrow>
     (\<exists>t. as_seller_status (sr_status s) = Some t \<and>
        (sr_id s \<noteq> PLATFORM_SELLER_ID \<longrightarrow>
          (t \<notin> {REGISTERED, BANNED} \<longrightarrow> kyc_documents \<subseteq> docs) \<and>
          (t \<in> {ACTIVE, SUSPENDED} \<longrightarrow> sr_accepted_contract_version s = Some CURRENT_CONTRACT_VERSION) \<and>
          (t \<notin> {REJECTED, SUSPENDED, BANNED} \<longrightarrow> sr_status_reason s \<in> {None, Some []})))"

definition seller_inv :: "seller_db \<Rightarrow> bool" where
  "seller_inv db \<longleftrightarrow>
     distinct (map sr_id (sd_sellers db)) \<and>
     distinct (map (\<lambda>d. (dc_seller_id d, dc_document_type d)) (sd_documents db)) \<and>
     (\<forall>s \<in> set (sd_sellers db). seller_ok (set (document_types db (sr_id s))) s)"

lemma seller_ok_mono: "seller_ok docs s \<Longrightarrow> docs \<subseteq> docs' \<Longrightarrow> seller_ok docs' s"
  unfolding seller_ok_def by (meson subset_trans)

lemma seller_ok_updated_at [simp]: "seller_ok docs (s\<lparr>sr_updated_at := now\<rparr>) = seller_ok docs s"
  by (simp add: seller_ok_def)

lemma seller_sel [simp]:
  "sd_sellers (emit_seller_event now s e db) = sd_sellers db" "sd_documents (emit_seller_event now s e db) = sd_documents db"
  "sd_keys (emit_seller_event now s e db) = sd_keys db" "sd_documents (save_seller now old s db) = sd_documents db"
  "sd_outbox (save_seller now old s db) = sd_outbox db" "sd_outbox (replace_document now i db tm) = sd_outbox db"
  "sd_keys (save_seller now old s db) = sd_keys db" "sd_sellers (replace_document now i db tm) = sd_sellers db"
  "sd_keys (replace_document now i db tm) = sd_keys db"
  "map sr_id (sd_sellers (save_seller now old s db)) = map sr_id (sd_sellers db)"
  by (simp_all add: emit_seller_event_def save_seller_def replace_document_def dirty_seller_def)

lemma document_types_cong: "sd_documents db' = sd_documents db \<Longrightarrow> document_types db' = document_types db"
  by (simp add: document_types_def fun_eq_iff)

lemma load_seller_Inr: "load_seller db i = Inr s \<Longrightarrow> s \<in> set (sd_sellers db) \<and> sr_id s = i"
  by (auto simp: load_seller_def dest: find_SomeD split: option.splits)

lemma apply_seller_decision_cases:
  assumes "apply_seller_decision io now old s d reason original db = (r, db')"
  obtains (refused) "db' = original"
  | (applied) s' where "sd_ok d" "db' \<noteq> original"
      "s' = s\<lparr>sr_status := status_value (the (sd_new_status d)),
            sr_status_reason := (case reason of None \<Rightarrow> sr_status_reason s | Some x \<Rightarrow> Some x)\<rparr>"
      "sd_sellers db' = sd_sellers (save_seller now old s' db)" "sd_documents db' = sd_documents db"
      "sd_outbox db' = sd_outbox db @ (case sd_event d of None \<Rightarrow> [] | Some e \<Rightarrow> drop (length (sd_outbox db)) (sd_outbox (emit_seller_event now s' e db)))"
proof (cases "sd_ok d \<and> db' \<noteq> original")
  case True
  show ?thesis
    by (rule applied) (use True assms in \<open>auto simp: apply_seller_decision_def Let_def commit_def emit_seller_event_def split: option.splits if_splits\<close>)
next
  case False
  with assms show ?thesis by (auto simp: apply_seller_decision_def intro: refused)
qed

lemma replaced_documents:
  "distinct (map (\<lambda>d. (dc_seller_id d, dc_document_type d)) (sd_documents db)) \<Longrightarrow>
     distinct (map (\<lambda>d. (dc_seller_id d, dc_document_type d)) (sd_documents (foldl (replace_document now i) db tms)))"
  "set (document_types (foldl (replace_document now i) db tms) j) =
     set (document_types db j) \<union> (if j = i then fst ` set tms else {})"
  "sd_sellers (foldl (replace_document now i) db tms) = sd_sellers db"
proof (induction tms arbitrary: db)
  case (Cons tm tms)
  case 1
  then have "distinct (map (\<lambda>d. (dc_seller_id d, dc_document_type d)) (sd_documents (replace_document now i db tm)))"
    by (auto simp: replace_document_def distinct_map_filter)
  with Cons(1) show ?case by simp
next
  case (Cons tm tms)
  case 2
  have "set (document_types (replace_document now i db tm) j) = set (document_types db j) \<union> (if j = i then {fst tm} else {})"
    by (auto simp: replace_document_def document_types_def)
  with Cons(2) show ?case by auto
qed simp_all

text \<open>A row that is still as it was loaded is simply replaced.\<close>

definition rewrite_seller :: "int \<Rightarrow> seller \<Rightarrow> seller_db \<Rightarrow> seller_db" where
  "rewrite_seller now s db =
     db\<lparr>sd_sellers := map (\<lambda>x. if sr_id x = sr_id s then (if x = s then x else s\<lparr>sr_updated_at := now\<rparr>) else x)
          (sd_sellers db)\<rparr>"

definition kept_columns :: "seller \<Rightarrow> string \<times> string \<times> string \<times> string \<times> string option \<times> string \<times> int \<times> int" where
  "kept_columns s = (sr_id s, sr_legal_name s, sr_display_name s, sr_contact_email s, sr_contact_phone s, sr_country s,
     sr_created_at s, sr_updated_at s)"

lemma dirty_seller_same: "kept_columns new = kept_columns old \<Longrightarrow> dirty_seller old new old = new"
  by (cases old; cases new) (simp add: dirty_seller_def kept_columns_def)

lemma save_as_rewrite:
  assumes "distinct (map sr_id (sd_sellers db))" and "s \<in> set (sd_sellers db)" and "kept_columns s' = kept_columns s"
  shows "save_seller now s s' db = rewrite_seller now s' db"
proof -
  have "(if sr_id x = sr_id s' then (if s' = s then x else (dirty_seller s s' x)\<lparr>sr_updated_at := now\<rparr>) else x) =
      (if sr_id x = sr_id s' then (if x = s' then x else s'\<lparr>sr_updated_at := now\<rparr>) else x)" if "x \<in> set (sd_sellers db)" for x
  proof (cases "sr_id x = sr_id s'")
    case True
    with that assms have "x = s" by (auto simp: kept_columns_def distinct_map inj_on_def)
    then show ?thesis by (simp only: dirty_seller_same [OF assms(3)] eq_commute [of s s'] if_cancel)
  qed simp
  then show ?thesis unfolding save_seller_def rewrite_seller_def by (simp cong: map_cong)
qed

text \<open>Writing one row that satisfies its part of the invariant, possibly after documents were added.\<close>

lemma save_inv:
  assumes "seller_inv db" and "sd_sellers db1 = sd_sellers db"
    and "distinct (map (\<lambda>d. (dc_seller_id d, dc_document_type d)) (sd_documents db1))"
    and "\<And>j. set (document_types db j) \<subseteq> set (document_types db1 j)"
    and "seller_ok (set (document_types db1 (sr_id s))) s"
    and "sd_sellers db' = sd_sellers (rewrite_seller now s db1)" and "sd_documents db' = sd_documents db1"
  shows "seller_inv db'"
proof -
  have types: "document_types db' = document_types db1" by (rule document_types_cong [OF assms(7)])
  have ids: "map sr_id (sd_sellers db') = map sr_id (sd_sellers db)" by (simp add: assms(2,6) rewrite_seller_def)
  have "seller_ok (set (document_types db' (sr_id x))) x" if x: "x \<in> set (sd_sellers db')" for x
  proof -
    from x assms(2,6) obtain y where y: "y \<in> set (sd_sellers db)"
      "x = (if sr_id y = sr_id s then (if y = s then y else s\<lparr>sr_updated_at := now\<rparr>) else y)"
      by (auto simp: rewrite_seller_def)
    have "seller_ok (set (document_types db1 (sr_id y))) y"
      using assms(1,4) y(1) by (auto simp: seller_inv_def intro: seller_ok_mono)
    with y(2) assms(5) show ?thesis by (auto simp: types split: if_splits)
  qed
  with assms ids show ?thesis by (simp add: seller_inv_def)
qed

lemma find_map_key: "(\<And>x. k (f x) = k x) \<Longrightarrow> find (\<lambda>x. k x = i) (map f xs) = map_option f (find (\<lambda>x. k x = i) xs)"
  by (induction xs) auto

lemma load_saved:
  assumes "load_seller db i = Inr s" and "sr_id s' = i" and "sd_sellers db1 = sd_sellers db"
    and "sd_sellers db' = sd_sellers (rewrite_seller now s' db1)"
  shows "load_seller db' j = (if j = i then Inr (if s = s' then s else s'\<lparr>sr_updated_at := now\<rparr>) else load_seller db j)"
proof -
  let ?f = "\<lambda>x. if sr_id x = sr_id s' then (if x = s' then x else s'\<lparr>sr_updated_at := now\<rparr>) else x"
  have f: "find (\<lambda>x. sr_id x = j) (sd_sellers db') = map_option ?f (find (\<lambda>x. sr_id x = j) (sd_sellers db))"
    unfolding assms(3,4) rewrite_seller_def by (simp add: assms(3) find_map_key [where k = sr_id])
  show ?thesis
  proof (cases "find (\<lambda>x. sr_id x = j) (sd_sellers db)")
    case None
    with f assms(1) show ?thesis by (cases "j = i") (simp_all add: load_seller_def)
  next
    case (Some x)
    from find_SomeD [OF Some] have "sr_id x = j" by blast
    with f Some assms(1,2) show ?thesis by (cases "j = i") (simp_all add: load_seller_def)
  qed
qed

text \<open>One row's status stays or takes a step of the transition table.\<close>

definition status_follows :: "seller_db \<Rightarrow> seller_db \<Rightarrow> bool" where
  "status_follows db db' \<longleftrightarrow>
     (\<forall>i s. load_seller db i = Inr s \<longrightarrow>
        (\<exists>s'. load_seller db' i = Inr s' \<and>
           (sr_status s' = sr_status s \<or> (\<exists>t \<in> set (reachable_seller_statuses (sr_status s)). sr_status s' = status_value t))))"

lemma status_follows_refl [simp]: "status_follows db db"
  by (auto simp: status_follows_def)

lemma apply_step:
  assumes "seller_inv db" and "load_seller db i = Inr s" and "apply_seller_decision io now s s1 d reason db db1 = (r, db')"
    and "sd_sellers db1 = sd_sellers db"
    and "distinct (map (\<lambda>d. (dc_seller_id d, dc_document_type d)) (sd_documents db1))"
    and "\<And>j. set (document_types db j) \<subseteq> set (document_types db1 j)"
    and "kept_columns s1 = kept_columns s"
    and "sd_ok d \<Longrightarrow> \<exists>t. sd_new_status d = Some t \<and> t \<in> set (reachable_seller_statuses (sr_status s)) \<and>
          seller_ok (set (document_types db1 i)) (s1\<lparr>sr_status := status_value t,
            sr_status_reason := (case reason of None \<Rightarrow> sr_status_reason s1 | Some x \<Rightarrow> Some x)\<rparr>)"
  shows "seller_inv db' \<and> status_follows db db'"
  using assms(3)
proof (cases rule: apply_seller_decision_cases)
  case refused
  with assms(1) show ?thesis by simp
next
  case (applied s')
  from load_seller_Inr [OF assms(2)] assms(7) have id: "sr_id s' = i" "sr_id s1 = i"
    by (simp_all add: applied(3) kept_columns_def)
  have "kept_columns s' = kept_columns s" using assms(7) by (simp add: applied(3) kept_columns_def)
  from save_as_rewrite [OF _ _ this, of db1 now] load_seller_Inr [OF assms(2)] assms(1,4) applied(4)
  have saved: "sd_sellers db' = sd_sellers (rewrite_seller now s' db1)" by (simp add: seller_inv_def)
  from assms(8) [OF applied(1)] obtain t where t: "sd_new_status d = Some t" "t \<in> set (reachable_seller_statuses (sr_status s))"
    "seller_ok (set (document_types db1 (sr_id s'))) s'" by (auto simp: applied(3) id)
  have "seller_inv db'" by (rule save_inv [OF assms(1,4,5,6) t(3) saved applied(5)])
  moreover have "sr_status s' = status_value t" by (simp add: applied(3) t(1))
  then have "status_follows db db'"
    using assms(2) t(2) unfolding status_follows_def load_saved [OF assms(2) id(1) assms(4) saved] by auto
  ultimately show ?thesis ..
qed

lemma inv_unique_documents:
  "seller_inv db \<Longrightarrow> distinct (map (\<lambda>d. (dc_seller_id d, dc_document_type d)) (sd_documents db))"
  by (simp add: seller_inv_def)

lemma inv_row: "seller_inv db \<Longrightarrow> load_seller db i = Inr s \<Longrightarrow> seller_ok (set (document_types db i)) s"
  using load_seller_Inr by (auto simp: seller_inv_def)

lemmas apply_here = apply_step [OF _ _ _ refl inv_unique_documents subset_refl]

text \<open>What a handler that loads the seller does is what it does on the loaded row.\<close>

lemma on_seller:
  assumes "(case load_seller db i of Inl e \<Rightarrow> (Inl e, db) | Inr s \<Rightarrow> body s) = (r, db')" and "seller_inv db"
    and "\<And>s. load_seller db i = Inr s \<Longrightarrow> seller_ok (set (document_types db i)) s \<Longrightarrow> body s = (r, db') \<Longrightarrow>
      seller_inv db' \<and> status_follows db db'"
  shows "seller_inv db' \<and> status_follows db db'"
  using assms by (cases "load_seller db i") (auto intro: inv_row)

lemma start_review_step:
  assumes "seller_inv db" and "start_review io now i db = (r, db')"
  shows "seller_inv db' \<and> status_follows db db'"
  using assms(2,1) unfolding start_review_def start_review_loaded_def
proof (rule on_seller)
  fix s :: seller
  assume l: "load_seller db i = Inr s" and ok: "seller_ok (set (document_types db i)) s"
    and run: "apply_seller_decision io now s s (plan_review_start (sr_status s)) None db db = (r, db')"
  show "seller_inv db' \<and> status_follows db db'"
    by (rule apply_here [OF assms(1) l run assms(1) refl])
      (use ok in \<open>auto simp: plan_ok plan_status reachable_seller_statuses_def seller_ok_def kept_columns_def\<close>)
qed

lemma record_review_result_step:
  assumes "seller_inv db" and "record_review_result io now i approved reason db = (r, db')"
  shows "seller_inv db' \<and> status_follows db db'"
  using assms(2,1) unfolding record_review_result_def review_result_loaded_def Let_def
proof (rule on_seller)
  fix s :: seller
  let ?d = "plan_review_result (sr_status s) approved (case reason of None \<Rightarrow> [] | Some r \<Rightarrow> r)"
  assume l: "load_seller db i = Inr s" and ok: "seller_ok (set (document_types db i)) s"
    and run: "apply_seller_decision io now s s ?d (if \<not> approved then Some (sd_detail ?d) else None) db db = (r, db')"
  show "seller_inv db' \<and> status_follows db db'"
    by (rule apply_here [OF assms(1) l run assms(1) refl])
      (use ok in \<open>auto simp: plan_ok plan_status reachable_seller_statuses_def seller_ok_def kept_columns_def\<close>)
qed

lemma suspend_seller_step:
  assumes "seller_inv db" and "suspend_seller io now i reason db = (r, db')"
  shows "seller_inv db' \<and> status_follows db db'"
  using assms(2,1) unfolding suspend_seller_def suspend_loaded_def Let_def
proof (rule on_seller)
  fix s :: seller
  let ?d = "plan_suspension (sr_status s) reason"
  assume l: "load_seller db i = Inr s" and ok: "seller_ok (set (document_types db i)) s"
    and run: "apply_seller_decision io now s s ?d (Some (sd_detail ?d)) db db = (r, db')"
  show "seller_inv db' \<and> status_follows db db'"
    by (rule apply_here [OF assms(1) l run assms(1) refl])
      (use ok in \<open>auto simp: plan_ok plan_status reachable_seller_statuses_def seller_ok_def kept_columns_def\<close>)
qed

lemma reinstate_seller_step:
  assumes "seller_inv db" and "reinstate_seller io now i db = (r, db')"
  shows "seller_inv db' \<and> status_follows db db'"
  using assms(2,1) unfolding reinstate_seller_def reinstate_loaded_def
proof (rule on_seller)
  fix s :: seller
  assume l: "load_seller db i = Inr s" and ok: "seller_ok (set (document_types db i)) s"
    and run: "apply_seller_decision io now s s (plan_reinstatement (sr_status s)) (Some []) db db = (r, db')"
  show "seller_inv db' \<and> status_follows db db'"
    by (rule apply_here [OF assms(1) l run assms(1) refl])
      (use ok in \<open>auto simp: plan_ok plan_status reachable_seller_statuses_def seller_ok_def kept_columns_def\<close>)
qed

lemma banned_reachable: "as_seller_status v = Some t \<Longrightarrow> t \<noteq> BANNED \<Longrightarrow> BANNED \<in> set (reachable_seller_statuses v)"
  by (cases t) (simp_all add: reachable_seller_statuses_def)

lemma ban_seller_step:
  assumes "seller_inv db" and "ban_seller io now i reason db = (r, db')"
  shows "seller_inv db' \<and> status_follows db db'"
  using assms(2,1) unfolding ban_seller_def ban_loaded_def Let_def
proof (rule on_seller)
  fix s :: seller
  let ?d = "plan_ban (sr_status s) reason"
  assume l: "load_seller db i = Inr s" and ok: "seller_ok (set (document_types db i)) s"
    and run: "apply_seller_decision io now s s ?d (Some (sd_detail ?d)) db db = (r, db')"
  show "seller_inv db' \<and> status_follows db db'"
    by (rule apply_here [OF assms(1) l run assms(1) refl])
      (use ok banned_reachable in \<open>auto simp: plan_ok plan_status seller_ok_def\<close>)
qed

lemma accept_contract_step:
  assumes "seller_inv db" and "accept_contract io now i version db = (r, db')"
  shows "seller_inv db' \<and> status_follows db db'"
  using assms(2,1) unfolding accept_contract_def accept_contract_loaded_def Let_def
proof (rule on_seller)
  fix s :: seller
  let ?d = "plan_contract_acceptance (sr_status s) version CURRENT_CONTRACT_VERSION"
  assume l: "load_seller db i = Inr s" and ok: "seller_ok (set (document_types db i)) s"
    and run: "(if \<not> sd_ok ?d then (Inl (reject_decision ?d), db) else apply_seller_decision io now s
      (s\<lparr>sr_accepted_contract_version := Some version, sr_contract_accepted_at := Some now\<rparr>) ?d None db db) = (r, db')"
  show "seller_inv db' \<and> status_follows db db'"
  proof (cases "sd_ok ?d")
    case True
    with run have "apply_seller_decision io now s
      (s\<lparr>sr_accepted_contract_version := Some version, sr_contract_accepted_at := Some now\<rparr>) ?d None db db = (r, db')" by simp
    from l this show ?thesis
      by (rule apply_here [OF assms(1) _ _ assms(1)])
        (use ok True in \<open>auto simp: plan_ok plan_status reachable_seller_statuses_def seller_ok_def kept_columns_def\<close>)
  qed (use run assms(1) in simp)
qed

lemma incoming_documents_types: "fst ` set (incoming_documents ds) = fst ` set ds"
proof -
  have "fst ` set (foldl (\<lambda>d (t, m). dict_set d t m) acc ds) = fst ` set acc \<union> fst ` set ds" for acc
  proof (induction ds arbitrary: acc)
    case (Cons tm ds)
    obtain t m where tm: "tm = (t, m)" by (rule prod.exhaust)
    have "set (map fst (dict_set acc t m)) = insert t (set (map fst acc))"
      unfolding keys_dict_set by auto
    with Cons tm show ?case by simp
  qed simp
  then show ?thesis by (simp add: incoming_documents_def)
qed

lemma submit_documents_step:
  assumes "seller_inv db" and "submit_documents io now i documents db = (r, db')"
  shows "seller_inv db' \<and> status_follows db db'"
  using assms(2,1) unfolding submit_documents_def submit_documents_loaded_def Let_def
proof (rule on_seller)
  fix s :: seller
  let ?in = "incoming_documents documents"
  let ?d = "plan_document_submission (sr_status s) (sort (remdups (document_types db i @ map fst ?in)))"
  let ?db = "foldl (replace_document now (sr_id s)) db ?in"
  assume l: "load_seller db i = Inr s" and ok: "seller_ok (set (document_types db i)) s"
    and run: "(if \<not> sd_ok ?d then (Inl (reject_decision ?d), db) else apply_seller_decision io now s s ?d (Some []) db ?db) = (r, db')"
  show "seller_inv db' \<and> status_follows db db'"
  proof (cases "sd_ok ?d")
    case True
    have docs: "set (document_types ?db i) = set (document_types db i) \<union> fst ` set ?in"
      using load_seller_Inr [OF l] by (simp add: replaced_documents(2))
    from True run have "apply_seller_decision io now s s ?d (Some []) db ?db = (r, db')" by simp
    from assms(1) l this show ?thesis
    proof (rule apply_step)
      assume "sd_ok ?d"
      with ok show "\<exists>t. sd_new_status ?d = Some t \<and> t \<in> set (reachable_seller_statuses (sr_status s)) \<and>
          seller_ok (set (document_types ?db i)) (s\<lparr>sr_status := status_value t,
            sr_status_reason := (case Some [] of None \<Rightarrow> sr_status_reason s | Some x \<Rightarrow> Some x)\<rparr>)"
        by (auto simp: plan_ok plan_status reachable_seller_statuses_def seller_ok_def docs)
    qed (auto simp: replaced_documents inv_unique_documents [OF assms(1)])
  qed (use run assms(1) in simp)
qed

lemma set_location_step:
  assumes "seller_inv db" and "set_location io now i request db = (r, db')"
  shows "seller_inv db' \<and> status_follows db db'"
proof (cases "load_seller db i")
  case (Inl e)
  with assms show ?thesis by (simp add: set_location_def)
next
  case (Inr s)
  note row = load_seller_Inr [OF Inr]
  let ?s1 = "moved_to request s"
  have s1: "sr_id ?s1 = i" "sr_status ?s1 = sr_status s" "kept_columns ?s1 = kept_columns s"
    "seller_ok docs ?s1 = seller_ok docs s" for docs
    using row by (simp_all add: moved_to_def seller_ok_def kept_columns_def)
  show ?thesis
  proof (cases "db' = db")
    case False
    with Inr assms(2) have "sd_sellers db' = sd_sellers (save_seller now s ?s1 db)" and docs: "sd_documents db' = sd_documents db"
      by (auto simp: set_location_def set_location_loaded_def Let_def split: if_splits sum.splits)
    with save_as_rewrite [OF _ _ s1(3), of db now] row assms(1)
    have saved: "sd_sellers db' = sd_sellers (rewrite_seller now ?s1 db)" by (simp add: seller_inv_def)
    have "seller_inv db'"
      by (rule save_inv [OF assms(1) refl inv_unique_documents [OF assms(1)] subset_refl _ saved docs])
        (use s1 inv_row [OF assms(1) Inr] in simp)
    moreover have "status_follows db db'"
      using Inr s1(2) unfolding status_follows_def load_saved [OF Inr s1(1) refl saved] by auto
    ultimately show ?thesis ..
  qed (use assms(1) in simp)
qed

lemma register_seller_step:
  assumes "seller_inv db" and "register_seller io now fresh request key db = (r, db')"
  shows "seller_inv db' \<and> status_follows db db'"
proof (cases "db' = db")
  case False
  let ?d = "plan_registration (gr_legal_name request) (gr_display_name request) (gr_contact_email request)"
  let ?s = "new_seller now fresh request ?d"
  from False assms(2) have ok: "sd_ok ?d" "fresh \<notin> sr_id ` set (sd_sellers db)"
    and db': "sd_sellers db' = sd_sellers db @ [?s]" "sd_documents db' = sd_documents db"
    by (auto simp: register_seller_def Let_def commit_def split: option.splits sum.splits if_splits)
  have new: "sr_id ?s = fresh" "seller_ok docs ?s" for docs
    using plan_status(1) [OF ok(1)] by (simp_all add: new_seller_def seller_ok_def)
  have "seller_inv db'"
    using assms(1) ok(2) new by (auto simp: seller_inv_def db' document_types_cong [OF db'(2)])
  moreover have "load_seller db' i = load_seller db i" if "load_seller db i = Inr s" for i s
    using that by (auto simp: load_seller_def db' find_append_kept split: option.splits)
  then have "status_follows db db'" by (auto simp: status_follows_def)
  ultimately show ?thesis ..
qed (use assms(1) in simp)

section \<open>The service as a transition system\<close>

text \<open>The requests, one after the other.\<close>

inductive seller_step :: "seller_db \<Rightarrow> seller_db \<Rightarrow> bool" where
  register: "seller_step db (snd (register_endpoint io now fresh request key db))"
| documents: "seller_step db (snd (documents_endpoint io now i documents db))"
| review: "seller_step db (snd (start_review_endpoint io now i db))"
| review_result: "seller_step db (snd (review_result_endpoint io now i approved result_reason db))"
| contract: "seller_step db (snd (contract_endpoint io now i version db))"
| suspend: "seller_step db (snd (suspend_endpoint io now i reason db))"
| reinstate: "seller_step db (snd (reinstate_endpoint io now i db))"
| ban: "seller_step db (snd (ban_endpoint io now i reason db))"
| relocate: "seller_step db (snd (update_location io now i location db))"

lemma seller_step_ok:
  assumes "seller_inv db" and "seller_step db db'"
  shows "seller_inv db' \<and> status_follows db db'"
  using assms(2)
proof cases
  case (register io now fresh request key)
  with assms(1) register_seller_step [OF assms(1) surjective_pairing] show ?thesis by (simp add: register_endpoint_def)
next
  case (documents io now i documents)
  with assms(1) submit_documents_step [OF assms(1) surjective_pairing] show ?thesis by (simp add: documents_endpoint_def)
next
  case (review io now i)
  with start_review_step [OF assms(1) surjective_pairing] show ?thesis by (simp add: start_review_endpoint_def)
next
  case (review_result io now i approved reason)
  with assms(1) record_review_result_step [OF assms(1) surjective_pairing] show ?thesis by (simp add: review_result_endpoint_def)
next
  case (contract io now i version)
  with accept_contract_step [OF assms(1) surjective_pairing] show ?thesis by (simp add: contract_endpoint_def)
next
  case (suspend io now i reason)
  with assms(1) suspend_seller_step [OF assms(1) surjective_pairing] show ?thesis by (simp add: suspend_endpoint_def)
next
  case (reinstate io now i)
  with reinstate_seller_step [OF assms(1) surjective_pairing] show ?thesis by (simp add: reinstate_endpoint_def)
next
  case (ban io now i reason)
  with assms(1) ban_seller_step [OF assms(1) surjective_pairing] show ?thesis by (simp add: ban_endpoint_def)
next
  case (relocate io now i location)
  with assms(1) set_location_step [OF assms(1) surjective_pairing] show ?thesis by (simp add: update_location_def)
qed

interpretation sellers_inv: inductive_invariant migrated seller_step seller_inv
proof unfold_locales
  show "migrated db \<Longrightarrow> seller_inv db" for db by (auto simp: migrated_def seller_inv_def seller_ok_def)
  show "seller_inv db \<Longrightarrow> seller_step db db' \<Longrightarrow> seller_inv db'" for db db' using seller_step_ok by blast
qed

section \<open>Overlapping requests\<close>

text \<open>
  The rows and document types that requests have read are kept beside the database; a request
  continues with any of them, however long ago it was read.
\<close>

record seller_world =
  sw_db :: seller_db
  sw_loaded :: "seller list"
  sw_types :: "(uuid \<times> string list) list"

definition migrated_world :: "seller_world \<Rightarrow> bool" where
  "migrated_world w \<longleftrightarrow> migrated (sw_db w) \<and> sw_loaded w = [] \<and> sw_types w = []"

inductive seller_part :: "seller_world \<Rightarrow> seller_world \<Rightarrow> bool" where
  register: "seller_part w (w\<lparr>sw_db := snd (register_endpoint io now fresh request key (sw_db w))\<rparr>)"
| load: "load_seller (sw_db w) i = Inr s \<Longrightarrow> seller_part w (w\<lparr>sw_loaded := s # sw_loaded w\<rparr>)"
| read_types: "seller_part w (w\<lparr>sw_types := (i, document_types (sw_db w) i) # sw_types w\<rparr>)"
| documents: "s \<in> set (sw_loaded w) \<Longrightarrow> (sr_id s, existing) \<in> set (sw_types w) \<Longrightarrow>
    seller_part w (w\<lparr>sw_db := snd (submit_documents_loaded io now s existing documents (sw_db w))\<rparr>)"
| review: "s \<in> set (sw_loaded w) \<Longrightarrow> seller_part w (w\<lparr>sw_db := snd (start_review_loaded io now s (sw_db w))\<rparr>)"
| review_result: "s \<in> set (sw_loaded w) \<Longrightarrow>
    seller_part w (w\<lparr>sw_db := snd (review_result_loaded io now s approved result_reason (sw_db w))\<rparr>)"
| contract: "s \<in> set (sw_loaded w) \<Longrightarrow> seller_part w (w\<lparr>sw_db := snd (accept_contract_loaded io now s version (sw_db w))\<rparr>)"
| suspend: "s \<in> set (sw_loaded w) \<Longrightarrow> seller_part w (w\<lparr>sw_db := snd (suspend_loaded io now s reason (sw_db w))\<rparr>)"
| reinstate: "s \<in> set (sw_loaded w) \<Longrightarrow> seller_part w (w\<lparr>sw_db := snd (reinstate_loaded io now s (sw_db w))\<rparr>)"
| ban: "s \<in> set (sw_loaded w) \<Longrightarrow> seller_part w (w\<lparr>sw_db := snd (ban_loaded io now s reason (sw_db w))\<rparr>)"
| relocate: "s \<in> set (sw_loaded w) \<Longrightarrow> seller_part w (w\<lparr>sw_db := snd (set_location_loaded io now s location (sw_db w))\<rparr>)"

text \<open>
  What the status of a row stands for, by facts that no later request can undo: the types of documents
  on file only grow, events are only added (\<open>sd_outbox\<close> holds every event ever written, those the outbox
  has since pruned included), and an accepted contract stays accepted.
\<close>

definition emitted :: "seller_db \<Rightarrow> uuid \<Rightarrow> string \<Rightarrow> bool" where
  "emitted db i event \<longleftrightarrow> (\<exists>(t, m) \<in> set (sd_outbox db). om_type m = event \<and> om_aggregate_id m = i)"

definition vetted :: "seller_db \<Rightarrow> seller \<Rightarrow> bool" where
  "vetted db s \<longleftrightarrow> sr_id s \<noteq> PLATFORM_SELLER_ID \<longrightarrow>
     (\<exists>t. as_seller_status (sr_status s) = Some t \<and>
        (t \<notin> {REGISTERED, BANNED} \<longrightarrow> kyc_documents \<subseteq> set (document_types db (sr_id s))) \<and>
        (t \<in> {APPROVED, ACTIVE, SUSPENDED} \<longrightarrow> emitted db (sr_id s) ''SellerApproved'') \<and>
        (t \<in> {ACTIVE, SUSPENDED} \<longrightarrow> sr_accepted_contract_version s = Some CURRENT_CONTRACT_VERSION \<and>
           emitted db (sr_id s) ''SellerActivated''))"

definition grows :: "seller_db \<Rightarrow> seller_db \<Rightarrow> bool" where
  "grows db db' \<longleftrightarrow> (\<forall>i. set (document_types db i) \<subseteq> set (document_types db' i)) \<and> set (sd_outbox db) \<subseteq> set (sd_outbox db')"

lemma grows_refl [simp]: "grows db db" by (simp add: grows_def)

lemma vetted_grows: "vetted db s \<Longrightarrow> grows db db' \<Longrightarrow> vetted db' s"
  unfolding vetted_def grows_def emitted_def by (meson subsetD subset_trans)

lemma vetted_like:
  assumes "vetted db a" and "sr_id b = sr_id a" and "sr_status b = sr_status a"
    and "sr_accepted_contract_version a = Some CURRENT_CONTRACT_VERSION \<Longrightarrow> sr_accepted_contract_version b = Some CURRENT_CONTRACT_VERSION"
  shows "vetted db b"
  using assms unfolding vetted_def by metis

definition keeps_contract :: "seller \<Rightarrow> seller \<Rightarrow> bool" where
  "keeps_contract s x \<longleftrightarrow> (sr_id x = sr_id s \<longrightarrow> sr_accepted_contract_version s = Some CURRENT_CONTRACT_VERSION \<longrightarrow>
     sr_accepted_contract_version x = Some CURRENT_CONTRACT_VERSION)"

definition seller_world_ok :: "seller_world \<Rightarrow> bool" where
  "seller_world_ok w \<longleftrightarrow> distinct (map sr_id (sd_sellers (sw_db w))) \<and>
     (\<forall>x \<in> set (sd_sellers (sw_db w)). vetted (sw_db w) x) \<and>
     (\<forall>s \<in> set (sw_loaded w). vetted (sw_db w) s \<and> sr_id s \<in> sr_id ` set (sd_sellers (sw_db w)) \<and>
        (\<forall>x \<in> set (sd_sellers (sw_db w)). keeps_contract s x)) \<and>
     (\<forall>(i, ts) \<in> set (sw_types w). set ts \<subseteq> set (document_types (sw_db w) i))"

text \<open>A change of the database that grows it and writes acceptable rows.\<close>

lemma seller_world_change:
  assumes "seller_world_ok w" and "grows (sw_db w) db'" and "map sr_id (sd_sellers db') = map sr_id (sd_sellers (sw_db w))"
    and "\<And>x'. x' \<in> set (sd_sellers db') \<Longrightarrow> \<exists>x \<in> set (sd_sellers (sw_db w)). sr_id x = sr_id x' \<and> keeps_contract x x' \<and> vetted db' x'"
  shows "seller_world_ok (w\<lparr>sw_db := db'\<rparr>)"
proof -
  have ids: "sr_id ` set (sd_sellers db') = sr_id ` set (sd_sellers (sw_db w))" using assms(3) by (metis list.set_map)
  have "keeps_contract s x'" if s: "s \<in> set (sw_loaded w)" and x': "x' \<in> set (sd_sellers db')" for s x'
  proof -
    from assms(4) [OF x'] obtain x where x: "x \<in> set (sd_sellers (sw_db w))" "sr_id x = sr_id x'" "keeps_contract x x'" by blast
    with assms(1) s have "keeps_contract s x" by (simp add: seller_world_ok_def)
    with x show ?thesis by (simp add: keeps_contract_def)
  qed
  moreover have "\<forall>(i, ts) \<in> set (sw_types w). set ts \<subseteq> set (document_types db' i)"
    using assms(1,2) by (fastforce simp: seller_world_ok_def grows_def)
  moreover have "\<forall>x' \<in> set (sd_sellers db'). vetted db' x'" using assms(4) by blast
  ultimately show ?thesis using assms(1,3) vetted_grows [OF _ assms(2)] by (simp add: seller_world_ok_def ids)
qed

text \<open>The rows that the flush of a loaded row leaves.\<close>

lemma saved_rows:
  assumes "seller_world_ok w" and "s \<in> set (sw_loaded w)" and "sr_id s' = sr_id s" and "grows (sw_db w) db'"
    and "sd_sellers db1 = sd_sellers (sw_db w)" and "sd_sellers db' = sd_sellers (save_seller now s s' db1)"
    and "vetted db' s'"
    and "sr_accepted_contract_version s' \<in> {sr_accepted_contract_version s, Some CURRENT_CONTRACT_VERSION}"
  shows "seller_world_ok (w\<lparr>sw_db := db'\<rparr>)"
proof (rule seller_world_change [OF assms(1,4)])
  show "map sr_id (sd_sellers db') = map sr_id (sd_sellers (sw_db w))" by (simp add: assms(5,6))
  let ?f = "\<lambda>x. if sr_id x = sr_id s' then (if s' = s then x else (dirty_seller s s' x)\<lparr>sr_updated_at := now\<rparr>) else x"
  fix x' assume "x' \<in> set (sd_sellers db')"
  moreover have "sd_sellers db' = map ?f (sd_sellers (sw_db w))" by (simp add: assms(5,6) save_seller_def)
  ultimately have "x' \<in> ?f ` set (sd_sellers (sw_db w))" by (simp only: list.set_map)
  then obtain x where x: "x \<in> set (sd_sellers (sw_db w))" "x' = ?f x" by (rule imageE)
  from assms(1,2) x(1) have k: "keeps_contract s x" and v: "vetted db' x"
    using vetted_grows [OF _ assms(4)] by (auto simp: seller_world_ok_def)
  have id: "sr_id x' = sr_id x" by (simp add: x(2) dirty_seller_def)
  show "\<exists>x \<in> set (sd_sellers (sw_db w)). sr_id x = sr_id x' \<and> keeps_contract x x' \<and> vetted db' x'"
  proof (cases "sr_id x = sr_id s' \<and> s' \<noteq> s")
    case False
    then have "x' = x" using x(2) by presburger
    with x(1) v show ?thesis by (auto simp: keeps_contract_def)
  next
    case True
    then have x': "x' = (dirty_seller s s' x)\<lparr>sr_updated_at := now\<rparr>" using x(2) by simp
    have acc: "sr_accepted_contract_version x' =
        (if sr_accepted_contract_version s' = sr_accepted_contract_version s then sr_accepted_contract_version x
         else sr_accepted_contract_version s')"
      and st: "sr_status x' = (if sr_status s' = sr_status s then sr_status x else sr_status s')"
      by (simp_all add: x' dirty_seller_def)
    have keep: "keeps_contract x x'" using assms(8) by (auto simp: keeps_contract_def acc)
    have "vetted db' x'"
    proof (cases "sr_status s' = sr_status s")
      case same: True
      show ?thesis by (rule vetted_like [OF v id]) (use keep id in \<open>simp_all add: st same keeps_contract_def\<close>)
    next
      case False
      show ?thesis
        by (rule vetted_like [OF assms(7)]) (use True False k id assms(3,8) in \<open>auto simp: st acc keeps_contract_def\<close>)
    qed
    with x(1) id keep show ?thesis by auto
  qed
qed

lemma emitted_emit: "emitted (emit_seller_event now s e db) i event \<longleftrightarrow> emitted db i event \<or> e = event \<and> sr_id s = i"
  by (auto simp: emitted_def emit_seller_event_def)

text \<open>A decision applied to a loaded row, possibly after documents were added.\<close>

lemma apply_part:
  assumes "seller_world_ok w" and "s \<in> set (sw_loaded w)" and "sr_id s1 = sr_id s" and "sd_sellers db1 = sd_sellers (sw_db w)"
    and "sd_outbox db1 = sd_outbox (sw_db w)" and "\<And>i. set (document_types (sw_db w) i) \<subseteq> set (document_types db1 i)"
    and "sr_accepted_contract_version s1 \<in> {sr_accepted_contract_version s, Some CURRENT_CONTRACT_VERSION}"
    and "\<And>db'. sd_ok d \<Longrightarrow> vetted db' s \<Longrightarrow> grows db1 db' \<Longrightarrow> (\<And>e. sd_event d = Some e \<Longrightarrow> emitted db' (sr_id s) e) \<Longrightarrow>
      vetted db' (s1\<lparr>sr_status := status_value (the (sd_new_status d))\<rparr>)"
  shows "seller_world_ok (w\<lparr>sw_db := snd (apply_seller_decision io now s s1 d reason (sw_db w) db1)\<rparr>)"
proof -
  obtain r db' where run: "apply_seller_decision io now s s1 d reason (sw_db w) db1 = (r, db')" by (rule prod.exhaust)
  from run have "seller_world_ok (w\<lparr>sw_db := db'\<rparr>)"
  proof (cases rule: apply_seller_decision_cases)
    case refused
    with assms(1) show ?thesis by simp
  next
    case (applied s')
    have docs: "document_types db' = document_types db1" by (rule document_types_cong [OF applied(5)])
    have grow: "grows (sw_db w) db'" "grows db1 db'" using assms(5,6) by (auto simp: grows_def docs applied(6))
    have "emitted db' (sr_id s) e" if "sd_event d = Some e" for e
      using emitted_emit [of now s' e db1 "sr_id s" e] assms(3) that
      by (simp add: emitted_def applied(3,6) emit_seller_event_def)
    moreover have "vetted db' s" using assms(1,2) vetted_grows [OF _ grow(1)] by (simp add: seller_world_ok_def)
    ultimately have "vetted db' (s1\<lparr>sr_status := status_value (the (sd_new_status d))\<rparr>)"
      using assms(8) [OF applied(1) _ grow(2)] by blast
    then have v: "vetted db' s'" by (rule vetted_like) (simp_all add: applied(3))
    show ?thesis
      by (rule saved_rows [OF assms(1,2) _ grow(1) assms(4) applied(4) v]) (use assms(3,7) in \<open>simp_all add: applied(3)\<close>)
  qed
  then show ?thesis by (simp add: run)
qed

lemmas apply_part_here = apply_part [OF _ _ refl refl refl subset_refl insertI1]

lemma plan_event:
  "sd_ok (plan_review_result v True r) \<Longrightarrow> sd_event (plan_review_result v True r) = Some ''SellerApproved''"
  "sd_ok (plan_contract_acceptance v k c) \<Longrightarrow> sd_event (plan_contract_acceptance v k c) = Some ''SellerActivated''"
  by (auto simp: plan_review_result_def plan_contract_acceptance_def split: if_splits)

lemma documents_part:
  assumes "seller_world_ok w" and "s \<in> set (sw_loaded w)" and "(sr_id s, existing) \<in> set (sw_types w)"
  shows "seller_world_ok (w\<lparr>sw_db := snd (submit_documents_loaded io now s existing documents (sw_db w))\<rparr>)"
proof -
  let ?in = "incoming_documents documents"
  let ?d = "plan_document_submission (sr_status s) (sort (remdups (existing @ map fst ?in)))"
  let ?db = "foldl (replace_document now (sr_id s)) (sw_db w) ?in"
  have out: "sd_outbox (foldl (replace_document now i) db tms) = sd_outbox db" for i db tms
    by (induction tms arbitrary: db) simp_all
  have docs: "set (document_types ?db (sr_id s)) = set (document_types (sw_db w) (sr_id s)) \<union> fst ` set ?in"
    by (simp add: replaced_documents(2))
  have have_types: "set existing \<subseteq> set (document_types (sw_db w) (sr_id s))" using assms(1,3) by (auto simp: seller_world_ok_def)
  have "seller_world_ok (w\<lparr>sw_db := snd (apply_seller_decision io now s s ?d (Some []) (sw_db w) ?db)\<rparr>)"
  proof (rule apply_part [OF assms(1,2) refl])
    fix db' assume ok: "sd_ok ?d" and "grows ?db db'"
    then have "set (document_types ?db (sr_id s)) \<subseteq> set (document_types db' (sr_id s))" by (simp add: grows_def)
    moreover have "kyc_documents \<subseteq> set existing \<union> fst ` set ?in" using ok by (simp add: plan_ok)
    ultimately have "kyc_documents \<subseteq> set (document_types db' (sr_id s))" using have_types docs by blast
    with plan_status(2) [OF ok] show "vetted db' (s\<lparr>sr_status := status_value (the (sd_new_status ?d))\<rparr>)" by (simp add: vetted_def)
  qed (auto simp: replaced_documents out)
  with assms(1) show ?thesis by (simp add: submit_documents_loaded_def Let_def)
qed

lemma vetted_status: "vetted db s \<Longrightarrow> sr_id s \<noteq> PLATFORM_SELLER_ID \<Longrightarrow> as_seller_status (sr_status s) = Some t \<Longrightarrow>
    (t \<notin> {REGISTERED, BANNED} \<longrightarrow> kyc_documents \<subseteq> set (document_types db (sr_id s))) \<and>
    (t \<in> {APPROVED, ACTIVE, SUSPENDED} \<longrightarrow> emitted db (sr_id s) ''SellerApproved'') \<and>
    (t \<in> {ACTIVE, SUSPENDED} \<longrightarrow> sr_accepted_contract_version s = Some CURRENT_CONTRACT_VERSION \<and> emitted db (sr_id s) ''SellerActivated'')"
  by (auto simp: vetted_def)

lemma contract_part:
  assumes "seller_world_ok w" and "s \<in> set (sw_loaded w)"
  shows "seller_world_ok (w\<lparr>sw_db := snd (accept_contract_loaded io now s version (sw_db w))\<rparr>)"
proof (cases "sd_ok (plan_contract_acceptance (sr_status s) version CURRENT_CONTRACT_VERSION)")
  case True
  let ?d = "plan_contract_acceptance (sr_status s) version CURRENT_CONTRACT_VERSION"
  let ?s = "s\<lparr>sr_accepted_contract_version := Some version, sr_contract_accepted_at := Some now\<rparr>"
  have "seller_world_ok (w\<lparr>sw_db := snd (apply_seller_decision io now s ?s ?d None (sw_db w) (sw_db w))\<rparr>)"
  proof (rule apply_part [OF assms])
    fix db' assume v: "vetted db' s" and e: "\<And>e. sd_event ?d = Some e \<Longrightarrow> emitted db' (sr_id s) e"
    have "emitted db' (sr_id s) ''SellerActivated''" using e plan_event(2) [OF True] by simp
    with True plan_status(5) [OF True] vetted_status [OF v] show "vetted db' (?s\<lparr>sr_status := status_value (the (sd_new_status ?d))\<rparr>)"
      by (auto simp: plan_ok vetted_def)
  qed (use True in \<open>auto simp: plan_ok\<close>)
  with True show ?thesis by (simp add: accept_contract_loaded_def)
qed (use assms in \<open>simp add: accept_contract_loaded_def\<close>)

lemma review_result_part:
  assumes "seller_world_ok w" and "s \<in> set (sw_loaded w)"
  shows "seller_world_ok (w\<lparr>sw_db := snd (review_result_loaded io now s approved reason (sw_db w))\<rparr>)"
  unfolding review_result_loaded_def Let_def
proof (rule apply_part_here [OF assms])
  let ?d = "plan_review_result (sr_status s) approved (case reason of None \<Rightarrow> [] | Some r \<Rightarrow> r)"
  fix db' assume ok: "sd_ok ?d" and v: "vetted db' s" and e: "\<And>e. sd_event ?d = Some e \<Longrightarrow> emitted db' (sr_id s) e"
  have "approved \<Longrightarrow> emitted db' (sr_id s) ''SellerApproved''" using e plan_event(1) ok by (cases approved) auto
  with ok plan_status(4) [OF ok] vetted_status [OF v] show "vetted db' (s\<lparr>sr_status := status_value (the (sd_new_status ?d))\<rparr>)"
    by (auto simp: plan_ok vetted_def)
qed

lemma plain_parts:
  assumes "seller_world_ok w" and "s \<in> set (sw_loaded w)"
  shows "seller_world_ok (w\<lparr>sw_db := snd (start_review_loaded io now s (sw_db w))\<rparr>)"
    and "seller_world_ok (w\<lparr>sw_db := snd (suspend_loaded io now s reason (sw_db w))\<rparr>)"
    and "seller_world_ok (w\<lparr>sw_db := snd (reinstate_loaded io now s (sw_db w))\<rparr>)"
    and "seller_world_ok (w\<lparr>sw_db := snd (ban_loaded io now s reason (sw_db w))\<rparr>)"
  unfolding start_review_loaded_def suspend_loaded_def reinstate_loaded_def ban_loaded_def Let_def
  by (rule apply_part_here [OF assms]; auto simp: plan_ok plan_status vetted_def)+

lemma location_part:
  assumes "seller_world_ok w" and "s \<in> set (sw_loaded w)"
  shows "seller_world_ok (w\<lparr>sw_db := snd (set_location_loaded io now s location (sw_db w))\<rparr>)"
proof (cases io)
  case True
  let ?s = "moved_to location s"
  let ?db = "emit_seller_event now ?s ''SellerLocationUpdated'' (save_seller now s ?s (sw_db w))"
  have s': "sr_id ?s = sr_id s" "sr_status ?s = sr_status s" "sr_accepted_contract_version ?s = sr_accepted_contract_version s"
    by (simp_all add: moved_to_def)
  have grow: "grows (sw_db w) ?db"
    by (auto simp: grows_def document_types_def emit_seller_event_def)
  have "vetted ?db s" using assms vetted_grows [OF _ grow] by (simp add: seller_world_ok_def)
  then have "vetted ?db ?s" by (rule vetted_like) (simp_all add: s')
  then have "seller_world_ok (w\<lparr>sw_db := ?db\<rparr>)"
    by (rule saved_rows [OF assms s'(1) grow refl, rotated]) (simp_all add: s')
  with True show ?thesis by (simp add: set_location_loaded_def Let_def split: sum.split)
qed (use assms in \<open>simp add: set_location_loaded_def\<close>)

lemma register_part:
  assumes "seller_world_ok w"
  shows "seller_world_ok (w\<lparr>sw_db := snd (register_seller io now fresh request key (sw_db w))\<rparr>)"
proof -
  let ?db = "sw_db w" and ?db' = "snd (register_seller io now fresh request key (sw_db w))"
  let ?d = "plan_registration (gr_legal_name request) (gr_display_name request) (gr_contact_email request)"
  let ?s = "new_seller now fresh request ?d"
  show ?thesis
  proof (cases "?db' = ?db")
    case False
    then have ok: "sd_ok ?d" "fresh \<notin> sr_id ` set (sd_sellers ?db)"
      and db': "sd_sellers ?db' = sd_sellers ?db @ [?s]" "sd_documents ?db' = sd_documents ?db"
        "set (sd_outbox ?db) \<subseteq> set (sd_outbox ?db')"
      by (auto simp: register_seller_def Let_def commit_def emit_seller_event_def split: option.splits sum.splits if_splits)
    have docs: "document_types ?db' = document_types ?db" by (rule document_types_cong [OF db'(2)])
    have grow: "grows ?db ?db'" using db'(3) by (simp add: grows_def docs)
    have new: "sr_id ?s = fresh" "vetted ?db' ?s"
      using plan_status(1) [OF ok(1)] by (simp_all add: new_seller_def vetted_def)
    have "keeps_contract s ?s" if "s \<in> set (sw_loaded w)" for s
      using assms that ok(2) new(1) by (auto simp: seller_world_ok_def keeps_contract_def)
    then show ?thesis using assms ok(2) new vetted_grows [OF _ grow] by (auto simp: seller_world_ok_def db'(1) docs)
  qed (use assms in simp)
qed

interpretation seller_parts: inductive_invariant migrated_world seller_part seller_world_ok
proof unfold_locales
  show "migrated_world w \<Longrightarrow> seller_world_ok w" for w
    by (auto simp: migrated_world_def migrated_def seller_world_ok_def vetted_def)
next
  fix w w'
  assume inv: "seller_world_ok w" and "seller_part w w'"
  from this(2) show "seller_world_ok w'"
  proof cases
    case (register io now fresh request key)
    with inv register_part [OF inv] show ?thesis by (simp add: register_endpoint_def)
  next
    case (load i s)
    from load_seller_Inr [OF load(2)] inv have "x \<in> set (sd_sellers (sw_db w)) \<Longrightarrow> keeps_contract s x" for x
      by (auto simp: seller_world_ok_def keeps_contract_def distinct_map inj_on_def)
    with load inv load_seller_Inr [OF load(2)] show ?thesis by (auto simp: seller_world_ok_def)
  next
    case (read_types i)
    with inv show ?thesis by (auto simp: seller_world_ok_def)
  qed (use inv documents_part contract_part review_result_part plain_parts location_part in auto)
qed

section \<open>Properties\<close>

text \<open>The life of one shop: registered, reviewed, approved and live.\<close>

definition demo_registration :: SellerRegisterRequest where
  "demo_registration = \<lparr>gr_legal_name = ''Rahim Traders'', gr_display_name = ''Rahim'', gr_contact_email = ''r@x'',
     gr_contact_phone = None, gr_address_line = None, gr_city = None, gr_district = None, gr_country = ''bd'',
     gr_latitude = None, gr_longitude = None\<rparr>"

definition empty_sellers :: seller_db where
  "empty_sellers = \<lparr>sd_sellers = [], sd_documents = [], sd_outbox = [], sd_keys = []\<rparr>"

definition shop1 :: seller_db where
  "shop1 = snd (register_endpoint True 1 ''s1'' demo_registration ''k1'' empty_sellers)"

definition shop2 :: seller_db where
  "shop2 = snd (documents_endpoint True 2 ''s1'' [(''national_id'', ''m1''), (''trade_licence'', ''m2'')] shop1)"

definition shop3 :: seller_db where
  "shop3 = snd (start_review_endpoint True 3 ''s1'' shop2)"

definition shop4 :: seller_db where
  "shop4 = snd (review_result_endpoint True 4 ''s1'' True None shop3)"

definition live_shop :: seller_db where
  "live_shop = snd (contract_endpoint True 5 ''s1'' 1 shop4)"

lemma live_shop_reachable: "reachable migrated seller_step live_shop"
proof -
  have "reachable migrated seller_step empty_sellers" by (rule reach_init) (simp add: migrated_def empty_sellers_def)
  then have "reachable migrated seller_step shop1" unfolding shop1_def by (rule reach_step) (rule seller_step.register)
  then have "reachable migrated seller_step shop2" unfolding shop2_def by (rule reach_step) (rule seller_step.documents)
  then have "reachable migrated seller_step shop3" unfolding shop3_def by (rule reach_step) (rule seller_step.review)
  then have "reachable migrated seller_step shop4" unfolding shop4_def by (rule reach_step) (rule seller_step.review_result)
  then show ?thesis unfolding live_shop_def by (rule reach_step) (rule seller_step.contract)
qed

text \<open>Requests that do not overlap are one of the orders in which parts can run.\<close>

lemma reach_loaded:
  assumes "reachable migrated_world seller_part w" and "load_seller (sw_db w) i = Inr s"
  shows "reachable migrated_world seller_part (w\<lparr>sw_loaded := s # sw_loaded w\<rparr>)"
  by (rule reach_step [OF assms(1)]) (rule seller_part.load [OF assms(2)])

lemma request_parts:
  assumes "reachable migrated_world seller_part w" and "seller_step (sw_db w) db'"
  shows "\<exists>w'. reachable migrated_world seller_part w' \<and> sw_db w' = db'"
proof -
  let ?R = "reachable migrated_world seller_part"
  have split: "\<exists>w'. ?R w' \<and> sw_db w' = snd (case load_seller (sw_db w) i of Inl e \<Rightarrow> (Inl e, sw_db w) | Inr s \<Rightarrow> part s (sw_db w))"
    if "\<And>s w. s \<in> set (sw_loaded w) \<Longrightarrow> seller_part w (w\<lparr>sw_db := snd (part s (sw_db w))\<rparr>)"
    for i and part :: "seller \<Rightarrow> seller_db \<Rightarrow> SellerResponse result \<times> seller_db"
  proof (cases "load_seller (sw_db w) i")
    case (Inr s)
    let ?w = "w\<lparr>sw_loaded := s # sw_loaded w\<rparr>"
    have "?R (?w\<lparr>sw_db := snd (part s (sw_db ?w))\<rparr>)"
      by (rule reach_step [OF reach_loaded [OF assms(1) Inr]], rule that) simp
    then show ?thesis by (intro exI conjI) (auto simp: Inr)
  qed (use assms(1) in auto)
  have stay: "\<exists>w'. ?R w' \<and> sw_db w' = sw_db w" using assms(1) by blast
  from assms(2) show ?thesis
  proof cases
    case (register io now fresh request key)
    have "?R (w\<lparr>sw_db := db'\<rparr>)" unfolding register by (rule reach_step [OF assms(1)]) (rule seller_part.register)
    then show ?thesis by (intro exI conjI) auto
  next
    case (documents io now i ds)
    let ?t = "w\<lparr>sw_types := (i, document_types (sw_db w) i) # sw_types w\<rparr>"
    have t: "?R ?t" by (rule reach_step [OF assms(1)]) (rule seller_part.read_types)
    show ?thesis
    proof (cases "load_seller (sw_db w) i")
      case (Inr s)
      let ?w = "?t\<lparr>sw_loaded := s # sw_loaded ?t\<rparr>"
      have "?R ?w" by (rule reach_loaded [OF t, of i]) (simp add: Inr)
      then have "?R (?w\<lparr>sw_db := snd (submit_documents_loaded io now s (document_types (sw_db w) i) ds (sw_db ?w))\<rparr>)"
        by (rule reach_step, intro seller_part.documents) (use load_seller_Inr [OF Inr] in simp_all)
      then have "\<exists>w'. ?R w' \<and> sw_db w' = snd (submit_documents io now i ds (sw_db w))"
        by (intro exI conjI) (auto simp: submit_documents_def Inr)
      with stay show ?thesis by (auto simp: documents documents_endpoint_def)
    qed (use stay in \<open>auto simp: documents documents_endpoint_def submit_documents_def\<close>)
  next
    case (review io now i)
    then show ?thesis using split [of "\<lambda>s. start_review_loaded io now s" i, OF seller_part.review] by (simp add: start_review_endpoint_def start_review_def)
  next
    case (review_result io now i approved reason)
    then show ?thesis
      using stay split [of "\<lambda>s. review_result_loaded io now s approved reason" i, OF seller_part.review_result] by (simp add: review_result_endpoint_def record_review_result_def)
  next
    case (contract io now i version)
    then show ?thesis using split [of "\<lambda>s. accept_contract_loaded io now s version" i, OF seller_part.contract] by (simp add: contract_endpoint_def accept_contract_def)
  next
    case (suspend io now i reason)
    then show ?thesis using stay split [of "\<lambda>s. suspend_loaded io now s reason" i, OF seller_part.suspend] by (simp add: suspend_endpoint_def suspend_seller_def)
  next
    case (reinstate io now i)
    then show ?thesis using split [of "\<lambda>s. reinstate_loaded io now s" i, OF seller_part.reinstate] by (simp add: reinstate_endpoint_def reinstate_seller_def)
  next
    case (ban io now i reason)
    then show ?thesis using stay split [of "\<lambda>s. ban_loaded io now s reason" i, OF seller_part.ban] by (simp add: ban_endpoint_def ban_seller_def)
  next
    case (relocate io now i location)
    then show ?thesis using stay split [of "\<lambda>s. set_location_loaded io now s location" i, OF seller_part.relocate] by (simp add: update_location_def set_location_def)
  qed
qed

lemma requests_are_parts: "reachable migrated seller_step db \<Longrightarrow> \<exists>w. reachable migrated_world seller_part w \<and> sw_db w = db"
proof (induction rule: reachable.induct)
  case (reach_init db)
  then have "migrated_world \<lparr>sw_db = db, sw_loaded = [], sw_types = []\<rparr>" by (simp add: migrated_world_def)
  from reachable.reach_init [of migrated_world, OF this] show ?case by (metis seller_world.select_convs(1))
next
  case (reach_step db db')
  then show ?case using request_parts by blast
qed

text \<open>
  Property C39 (nobody lists before review and contract). However the requests about sellers
  overlap, each one working on a row and on document types read earlier, a seller who may list products
  has the national id and the trade licence on file, was approved by a review and activated (both
  events are in the outbox), has accepted the current contract, and has a commission rate between 0 and
  100 per cent. The one exception is the platform's own shop, which migration 015 puts into the table
  as active. What the theorem does not say: overlapping reviews can leave the reason of a refusal on
  the row (\<open>overlapping_reviews_keep_reason\<close>), and a reinstatement can overtake a ban (\<open>overtaken_ban\<close>).
\<close>

theorem listing_requires_onboarding:
  assumes "reachable migrated_world seller_part w" and "load_seller (sw_db w) i = Inr s" and "i \<noteq> PLATFORM_SELLER_ID"
    and "may_list_products (sr_status s) (sr_accepted_contract_version s) CURRENT_CONTRACT_VERSION"
  shows "{''national_id'', ''trade_licence''} \<subseteq> set (document_types (sw_db w) i) \<and>
     emitted (sw_db w) i ''SellerApproved'' \<and> emitted (sw_db w) i ''SellerActivated'' \<and>
     sr_accepted_contract_version s = Some CURRENT_CONTRACT_VERSION \<and>
     (\<exists>c. get_commission i (sw_db w) = Inr c \<and> 0 \<le> cm_commission_bps c \<and> cm_commission_bps c \<le> 10000)"
proof -
  from load_seller_Inr [OF assms(2)] have s: "s \<in> set (sd_sellers (sw_db w))" "sr_id s = i" by auto
  with seller_parts.reachable_inv [OF assms(1)] have v: "vetted (sw_db w) s" by (simp add: seller_world_ok_def)
  from assms(4) have "as_seller_status (sr_status s) = Some ACTIVE" "sr_accepted_contract_version s = Some CURRENT_CONTRACT_VERSION"
    by (auto simp: may_list_products_def split: if_splits)
  with vetted_status [OF v, of ACTIVE] assms(2,3) s(2) show ?thesis
    by (simp add: kyc_documents_def get_commission_def commission_bps_def COMMISSION_BPS_BY_VERSION_def CURRENT_CONTRACT_VERSION_def)
qed

text \<open>The rows of the demonstration, step by step.\<close>

lemma shop1_row:
  "\<exists>s. sd_sellers shop1 = [s] \<and> sr_id s = ''s1'' \<and> sr_status s = status_value REGISTERED \<and>
     sr_accepted_contract_version s = None"
  by (simp add: shop1_def register_endpoint_def empty_sellers_def demo_registration_def register_request_valid_def
      length_within_def optional_within_def register_seller_def plan_registration_def is_blank_def py_strip_def
      strip_by_def py_isspace_def new_seller_def Let_def)

lemma status_value_inject: "status_value a = status_value b \<longleftrightarrow> a = b"
  by (metis as_seller_status_value option.inject)

lemma applied_row:
  assumes "sd_sellers db = [x]" and "sd_ok d" and "sd_new_status d = Some t" and "sr_id s = sr_id x"
  shows "\<exists>x'. sd_sellers (snd (apply_seller_decision True now old s d reason original db)) = [x'] \<and> sr_id x' = sr_id x \<and>
     sr_status x' = (if status_value t = sr_status old then sr_status x else status_value t) \<and>
     sr_accepted_contract_version x' = (if sr_accepted_contract_version s = sr_accepted_contract_version old
       then sr_accepted_contract_version x else sr_accepted_contract_version s) \<and>
     sr_status_reason x' = (let r = case reason of None \<Rightarrow> sr_status_reason s | Some r \<Rightarrow> Some r in
       if r = sr_status_reason old then sr_status_reason x else r)"
proof -
  define s2 where "s2 = (case reason of None \<Rightarrow> s\<lparr>sr_status := status_value t\<rparr>
    | Some r \<Rightarrow> s\<lparr>sr_status := status_value t, sr_status_reason := Some r\<rparr>)"
  have s2: "sr_id s2 = sr_id x" "sr_status s2 = status_value t" "sr_accepted_contract_version s2 = sr_accepted_contract_version s"
    "sr_status_reason s2 = (case reason of None \<Rightarrow> sr_status_reason s | Some r \<Rightarrow> Some r)"
    using assms(4) by (simp_all add: s2_def split: option.split)
  have "sd_sellers (snd (apply_seller_decision True now old s d reason original db)) = sd_sellers (save_seller now old s2 db)"
    using assms(2,3) by (simp add: apply_seller_decision_def Let_def s2_def split: option.split)
  also have "\<dots> = [if s2 = old then x else (dirty_seller old s2 x)\<lparr>sr_updated_at := now\<rparr>]" by (simp add: save_seller_def assms(1) s2(1))
  finally show ?thesis using s2 by (cases "s2 = old") (auto simp: dirty_seller_def Let_def simp del: seller.equality)
qed

lemma demo_load: "sd_sellers db = [s] \<Longrightarrow> load_seller db (sr_id s) = Inr s"
  by (simp add: load_seller_def)

lemma shop2_row: "\<exists>s. sd_sellers shop2 = [s] \<and> sr_id s = ''s1'' \<and> sr_status s = status_value DOCUMENTS_SUBMITTED"
proof -
  from shop1_row obtain s where s: "sd_sellers shop1 = [s]" "sr_id s = ''s1''" "sr_status s = status_value REGISTERED" by blast
  let ?ds = "[(''national_id'', ''m1''), (''trade_licence'', ''m2'')]"
  let ?d = "plan_document_submission (sr_status s) (sort (remdups (document_types shop1 ''s1'' @ map fst (incoming_documents ?ds))))"
  have ok: "sd_ok ?d" by (simp add: plan_ok s(3) kyc_documents_def incoming_documents_def)
  let ?db = "foldl (replace_document 2 ''s1'') shop1 (incoming_documents ?ds)"
  have run: "shop2 = snd (apply_seller_decision True 2 s s ?d (Some []) shop1 ?db)"
    using demo_load [OF s(1)] ok unfolding s(2) shop2_def documents_endpoint_def submit_documents_def submit_documents_loaded_def Let_def by (simp add: s(2))
  have "sd_sellers ?db = [s]" by (simp add: replaced_documents(3) s(1))
  from applied_row [OF this ok plan_status(2) [OF ok] refl, of 2 s "Some []" shop1] show ?thesis
    unfolding run s(2) by (auto simp: s(3))
qed

lemma shop3_row: "\<exists>s. sd_sellers shop3 = [s] \<and> sr_id s = ''s1'' \<and> sr_status s = status_value UNDER_REVIEW"
proof -
  from shop2_row obtain s where s: "sd_sellers shop2 = [s]" "sr_id s = ''s1''" "sr_status s = status_value DOCUMENTS_SUBMITTED" by blast
  have ok: "sd_ok (plan_review_start (sr_status s))" by (simp add: plan_ok s(3))
  from applied_row [OF s(1) ok plan_status(3) [OF ok] refl, of 3 s None shop2] demo_load [OF s(1)] show ?thesis
    by (auto simp: shop3_def start_review_endpoint_def start_review_def start_review_loaded_def s(2,3))
qed

lemma shop4_row: "\<exists>s. sd_sellers shop4 = [s] \<and> sr_id s = ''s1'' \<and> sr_status s = status_value APPROVED"
proof -
  from shop3_row obtain s where s: "sd_sellers shop3 = [s]" "sr_id s = ''s1''" "sr_status s = status_value UNDER_REVIEW" by blast
  have ok: "sd_ok (plan_review_result (sr_status s) True [])" by (simp add: plan_ok s(3))
  from applied_row [OF s(1) ok plan_status(4) [OF ok] refl, of 4 s None shop3] demo_load [OF s(1)] show ?thesis
    by (auto simp: shop4_def review_result_endpoint_def optional_within_def record_review_result_def review_result_loaded_def s(2,3))
qed

lemma live_shop_row:
  "\<exists>s. sd_sellers live_shop = [s] \<and> sr_id s = ''s1'' \<and> sr_status s = status_value ACTIVE \<and> sr_accepted_contract_version s = Some 1"
proof -
  from shop4_row obtain s where s: "sd_sellers shop4 = [s]" "sr_id s = ''s1''" "sr_status s = status_value APPROVED" by blast
  have ok: "sd_ok (plan_contract_acceptance (sr_status s) 1 CURRENT_CONTRACT_VERSION)"
    by (simp add: plan_ok s(3) CURRENT_CONTRACT_VERSION_def)
  from applied_row [OF s(1) ok plan_status(5) [OF ok], of "s\<lparr>sr_accepted_contract_version := Some 1, sr_contract_accepted_at := Some 5\<rparr>" 5 s None shop4]
    demo_load [OF s(1)] ok show ?thesis
    by (auto simp: live_shop_def contract_endpoint_def accept_contract_def accept_contract_loaded_def s(2,3))
qed

theorem listing_requires_onboarding_witness:
  "\<exists>w s. reachable migrated_world seller_part w \<and> sw_db w = live_shop \<and> load_seller live_shop ''s1'' = Inr s \<and>
     {''national_id'', ''trade_licence''} \<subseteq> set (document_types live_shop ''s1'') \<and> emitted live_shop ''s1'' ''SellerApproved'' \<and>
     (\<exists>c. get_commission ''s1'' live_shop = Inr c \<and> 0 \<le> cm_commission_bps c \<and> cm_commission_bps c \<le> 10000)"
proof -
  from live_shop_row obtain s where s: "sd_sellers live_shop = [s]" "sr_id s = ''s1''" "sr_status s = status_value ACTIVE"
    "sr_accepted_contract_version s = Some 1" by blast
  from requests_are_parts [OF live_shop_reachable] obtain w where w: "reachable migrated_world seller_part w" "sw_db w = live_shop" by blast
  have l: "load_seller (sw_db w) ''s1'' = Inr s" using demo_load [OF s(1)] by (simp add: s(2) w(2))
  have "may_list_products (sr_status s) (sr_accepted_contract_version s) CURRENT_CONTRACT_VERSION"
    by (simp add: may_list_products_def s(3,4) CURRENT_CONTRACT_VERSION_def)
  from listing_requires_onboarding [OF w(1) l _ this] l w show ?thesis
    by (intro exI [of _ w] exI [of _ s]) (simp add: PLATFORM_SELLER_ID_def)
qed

text \<open>
  When requests do not overlap, a seller who may list is shown no reason for a refusal.
\<close>

lemma listing_shows_no_reason:
  assumes "reachable migrated seller_step db" and "load_seller db i = Inr s" and "i \<noteq> PLATFORM_SELLER_ID"
    and "may_list_products (sr_status s) (sr_accepted_contract_version s) CURRENT_CONTRACT_VERSION"
  shows "sr_status_reason s \<in> {None, Some []}"
proof -
  have "seller_ok (set (document_types db i)) s" by (rule inv_row [OF sellers_inv.reachable_inv [OF assms(1)] assms(2)])
  moreover from assms(4) have "as_seller_status (sr_status s) = Some ACTIVE"
    by (auto simp: may_list_products_def split: if_splits)
  ultimately show ?thesis using load_seller_Inr [OF assms(2)] assms(3) by (auto simp: seller_ok_def)
qed

text \<open>
  Two reviewers load the same application. The first refuses it, the second approves it: the approval
  writes only the status, so the approved seller keeps the reason of the refusal.
\<close>

lemma overlapping_reviews_keep_reason:
  assumes "sd_sellers db = [s]" and "sr_status s = status_value UNDER_REVIEW" and "\<not> is_blank reason"
    and "sr_status_reason s \<noteq> Some (sd_detail (plan_review_result (sr_status s) False reason))"
  shows "\<exists>s'. sd_sellers (snd (review_result_loaded True t2 s True None (snd (review_result_loaded True t1 s False (Some reason) db)))) = [s'] \<and>
     sr_status s' = status_value APPROVED \<and> sr_status_reason s' = Some (sd_detail (plan_review_result (sr_status s) False reason))"
proof -
  let ?no = "plan_review_result (sr_status s) False reason" and ?yes = "plan_review_result (sr_status s) True []"
  have ok: "sd_ok ?no" "sd_ok ?yes" using assms(2,3) by (simp_all add: plan_ok)
  let ?db = "snd (apply_seller_decision True t1 s s ?no (Some (sd_detail ?no)) db db)"
  from applied_row [OF assms(1) ok(1) plan_status(4) [OF ok(1)] refl, of t1 s "Some (sd_detail ?no)" db] assms(4) obtain x
    where x: "sd_sellers ?db = [x]" "sr_id s = sr_id x" "sr_status_reason x = Some (sd_detail ?no)" by (auto simp: Let_def)
  from applied_row [OF x(1) ok(2) plan_status(4) [OF ok(2)] x(2), of t2 s None ?db] x(3) assms(2)
  show ?thesis by (auto simp: review_result_loaded_def Let_def status_value_inject)
qed

text \<open>
  A reinstatement that has loaded the suspended seller before the ban is committed makes the banned
  seller active again.
\<close>

lemma overtaken_ban:
  assumes "sd_sellers db = [s]" and "sr_status s = status_value SUSPENDED" and "\<not> is_blank reason"
  shows "(\<exists>x. sd_sellers (snd (ban_loaded True t1 s reason db)) = [x] \<and> sr_status x = status_value BANNED) \<and>
     (\<exists>x. sd_sellers (snd (reinstate_loaded True t2 s (snd (ban_loaded True t1 s reason db)))) = [x] \<and> sr_status x = status_value ACTIVE)"
proof -
  let ?ban = "plan_ban (sr_status s) reason" and ?again = "plan_reinstatement (sr_status s)"
  have ok: "sd_ok ?ban" "sd_ok ?again" using assms(2,3) by (simp_all add: plan_ok)
  let ?db = "snd (apply_seller_decision True t1 s s ?ban (Some (sd_detail ?ban)) db db)"
  from applied_row [OF assms(1) ok(1) plan_status(8) [OF ok(1)] refl, of t1 s "Some (sd_detail ?ban)" db] obtain x
    where x: "sd_sellers ?db = [x]" "sr_id s = sr_id x" "sr_status x = status_value BANNED" by (auto simp: assms(2) status_value_inject)
  from applied_row [OF x(1) ok(2) plan_status(7) [OF ok(2)] x(2), of t2 s "Some []" ?db] x
  show ?thesis by (auto simp: assms(2) ban_loaded_def reinstate_loaded_def Let_def status_value_inject)
qed

text \<open>The platform's own shop may list from the start, without documents and with a reason on its row.\<close>

lemma platform_lists_unvetted:
  "may_list_products (sr_status (platform_seller now)) (sr_accepted_contract_version (platform_seller now)) CURRENT_CONTRACT_VERSION \<and>
   migrated \<lparr>sd_sellers = [platform_seller now], sd_documents = [], sd_outbox = [], sd_keys = []\<rparr>"
  by (auto simp: may_list_products_def migrated_def)

text \<open>The moves the rules allow from a status, read off the rules themselves.\<close>

lemma table_rules:
  assumes "as_seller_status v = Some a"
  shows "t \<in> set (reachable_seller_statuses v) \<longleftrightarrow>
    (\<exists>d \<in> {plan_document_submission v [''national_id'', ''trade_licence''], plan_review_start v,
          plan_review_result v True ''r'', plan_review_result v False ''r'',
          plan_contract_acceptance v CURRENT_CONTRACT_VERSION CURRENT_CONTRACT_VERSION,
          plan_suspension v ''r'', plan_reinstatement v, plan_ban v ''r''}.
       sd_ok d \<and> sd_new_status d = Some t)"
proof -
  have b: "\<not> is_blank ''r''" by (simp add: is_blank_def py_strip_def strip_by_def py_isspace_def)
  have m: "missing_documents [''national_id'', ''trade_licence''] = []" by (simp add: missing_documents_none kyc_documents_def)
  show ?thesis
    using assms b m
    by (cases a) (auto simp: reachable_seller_statuses_def plan_document_submission_def plan_review_start_def plan_review_result_def
        plan_contract_acceptance_def plan_suspension_def plan_reinstatement_def plan_ban_def)
qed

text \<open>
  The transition table is the machine. The table kept as documentation of the
  onboarding workflow is exactly what the rules allow, and every request leaves every seller's
  status as it was or moves it along the table; a banned seller stays banned.
\<close>

theorem seller_machine:
  assumes "reachable migrated seller_step db" and "seller_step db db'" and "load_seller db i = Inr s"
  shows "(\<exists>s'. load_seller db' i = Inr s' \<and>
       (sr_status s' = sr_status s \<or> (\<exists>t \<in> set (reachable_seller_statuses (sr_status s)). sr_status s' = status_value t)) \<and>
       (sr_status s = status_value BANNED \<longrightarrow> sr_status s' = status_value BANNED)) \<and>
     (\<forall>t. t \<in> set (reachable_seller_statuses (sr_status s)) \<longleftrightarrow>
        (\<exists>d \<in> {plan_document_submission (sr_status s) [''national_id'', ''trade_licence''], plan_review_start (sr_status s),
              plan_review_result (sr_status s) True ''r'', plan_review_result (sr_status s) False ''r'',
              plan_contract_acceptance (sr_status s) CURRENT_CONTRACT_VERSION CURRENT_CONTRACT_VERSION,
              plan_suspension (sr_status s) ''r'', plan_reinstatement (sr_status s), plan_ban (sr_status s) ''r''}.
           sd_ok d \<and> sd_new_status d = Some t))"
proof
  have inv: "seller_inv db" by (rule sellers_inv.reachable_inv [OF assms(1)])
  from seller_step_ok [OF inv assms(2)] assms(3) obtain s' where s': "load_seller db' i = Inr s'"
    "sr_status s' = sr_status s \<or> (\<exists>t \<in> set (reachable_seller_statuses (sr_status s)). sr_status s' = status_value t)"
    unfolding status_follows_def by blast
  then have "sr_status s = status_value BANNED \<longrightarrow> sr_status s' = status_value BANNED" by (auto simp: reachable_seller_statuses_def)
  with s' show "\<exists>s'. load_seller db' i = Inr s' \<and>
       (sr_status s' = sr_status s \<or> (\<exists>t \<in> set (reachable_seller_statuses (sr_status s)). sr_status s' = status_value t)) \<and>
       (sr_status s = status_value BANNED \<longrightarrow> sr_status s' = status_value BANNED)" by blast
  from inv_row [OF inv assms(3)] obtain a where a: "as_seller_status (sr_status s) = Some a" by (auto simp: seller_ok_def)
  show "\<forall>t. t \<in> set (reachable_seller_statuses (sr_status s)) \<longleftrightarrow>
        (\<exists>d \<in> {plan_document_submission (sr_status s) [''national_id'', ''trade_licence''], plan_review_start (sr_status s),
              plan_review_result (sr_status s) True ''r'', plan_review_result (sr_status s) False ''r'',
              plan_contract_acceptance (sr_status s) CURRENT_CONTRACT_VERSION CURRENT_CONTRACT_VERSION,
              plan_suspension (sr_status s) ''r'', plan_reinstatement (sr_status s), plan_ban (sr_status s) ''r''}.
           sd_ok d \<and> sd_new_status d = Some t)"
    by (rule allI, rule table_rules [OF a])
qed

theorem seller_machine_witness:
  "\<exists>s s'. load_seller live_shop ''s1'' = Inr s \<and> sr_status s = status_value ACTIVE \<and>
     load_seller (snd (ban_endpoint True 9 ''s1'' ''fraud'' live_shop)) ''s1'' = Inr s' \<and>
     (sr_status s' = sr_status s \<or> (\<exists>t \<in> set (reachable_seller_statuses (sr_status s)). sr_status s' = status_value t))"
proof -
  from live_shop_row obtain s where s: "sd_sellers live_shop = [s]" "sr_id s = ''s1''" "sr_status s = status_value ACTIVE" by blast
  have l: "load_seller live_shop ''s1'' = Inr s" using demo_load [OF s(1)] by (simp add: s(2))
  from seller_machine [OF live_shop_reachable seller_step.ban l] l s(3) show ?thesis by blast
qed

end
