(* ===== verification/Escrow.thy ===== *)
theory Escrow
  imports Sellers
begin

text \<open>
  The escrow ledger (\<open>src/services/payment-service\<close>): the double-entry rules of
  \<open>services/ledger_rules.py\<close> and the bookings of \<open>services/escrow_service.py\<close> with the routes of
  \<open>routes/escrow.py\<close>, over the table \<open>ledger_entries\<close> of \<open>models.py\<close>.

  The commission rate comes from the seller service over HTTP; what comes back is a parameter,
  and \<open>seller_service_reply\<close> is what the model of that service answers. A UUID is its canonical
  text, so \<open>str\<close> and \<open>uuid.UUID\<close> leave it as it is.
\<close>

section \<open>Rules\<close>

datatype Account = COURIER_RECEIVABLE | CASH | SELLER_PAYABLE | COMMISSION_REVENUE

datatype EntryReason = DELIVERY | SETTLEMENT | PAYOUT

record Entry =
  en_account :: Account
  en_amount :: int
  en_reason :: EntryReason
  en_seller_id :: "string option"
  en_seller_order_id :: "string option"
  en_detail :: string

definition is_debit :: "Entry \<Rightarrow> bool" where
  "is_debit e \<longleftrightarrow> 0 < en_amount e"

text \<open>A raised \<open>LedgerError\<close> is \<open>None\<close>; its message goes into the answer of the handler only.\<close>

definition split_commission :: "int \<Rightarrow> int \<Rightarrow> (int \<times> int) option" where
  "split_commission amount_cents rate_bps =
     (if amount_cents < 0 then None
      else if \<not> (0 \<le> rate_bps \<and> rate_bps \<le> 10000) then None
      else (let commission = amount_cents * rate_bps div 10000 in Some (commission, amount_cents - commission)))"

definition assert_balanced :: "Entry list \<Rightarrow> unit option" where
  "assert_balanced entries =
     (if entries = [] then None else if sum_list (map en_amount entries) \<noteq> 0 then None else Some ())"

definition plan_delivery :: "string \<Rightarrow> string \<Rightarrow> int \<Rightarrow> int \<Rightarrow> Entry list option" where
  "plan_delivery seller_id seller_order_id collected_cents commission_rate_bps =
     (if collected_cents \<le> 0 then None
      else case split_commission collected_cents commission_rate_bps of
        None \<Rightarrow> None
      | Some (commission, seller_share) \<Rightarrow>
          (let entries =
             [\<lparr>en_account = COURIER_RECEIVABLE, en_amount = collected_cents, en_reason = DELIVERY,
               en_seller_id = Some seller_id, en_seller_order_id = Some seller_order_id,
               en_detail = ''courier collected '' @ show_int collected_cents\<rparr>,
              \<lparr>en_account = SELLER_PAYABLE, en_amount = - seller_share, en_reason = DELIVERY,
               en_seller_id = Some seller_id, en_seller_order_id = Some seller_order_id,
               en_detail = ''owed to seller after '' @ show_int commission_rate_bps @ ''bps commission''\<rparr>]
             @ (if commission \<noteq> 0 then
                  [\<lparr>en_account = COMMISSION_REVENUE, en_amount = - commission, en_reason = DELIVERY,
                    en_seller_id = Some seller_id, en_seller_order_id = Some seller_order_id,
                    en_detail = ''commission at '' @ show_int commission_rate_bps @ ''bps''\<rparr>]
                else []) in
           map_option (\<lambda>_. entries) (assert_balanced entries)))"

definition plan_settlement :: "string \<Rightarrow> string \<Rightarrow> int \<Rightarrow> Entry list option" where
  "plan_settlement seller_id seller_order_id remitted_cents =
     (if remitted_cents \<le> 0 then None
      else
        (let entries =
           [\<lparr>en_account = CASH, en_amount = remitted_cents, en_reason = SETTLEMENT,
             en_seller_id = Some seller_id, en_seller_order_id = Some seller_order_id,
             en_detail = ''courier remitted '' @ show_int remitted_cents\<rparr>,
            \<lparr>en_account = COURIER_RECEIVABLE, en_amount = - remitted_cents, en_reason = SETTLEMENT,
             en_seller_id = Some seller_id, en_seller_order_id = Some seller_order_id,
             en_detail = ''clearing the courier receivable''\<rparr>] in
         map_option (\<lambda>_. entries) (assert_balanced entries)))"

definition plan_payout :: "string \<Rightarrow> int \<Rightarrow> Entry list option" where
  "plan_payout seller_id amount_cents =
     (if amount_cents \<le> 0 then None
      else
        (let entries =
           [\<lparr>en_account = SELLER_PAYABLE, en_amount = amount_cents, en_reason = PAYOUT,
             en_seller_id = Some seller_id, en_seller_order_id = None,
             en_detail = ''paid out '' @ show_int amount_cents\<rparr>,
            \<lparr>en_account = CASH, en_amount = - amount_cents, en_reason = PAYOUT,
             en_seller_id = Some seller_id, en_seller_order_id = None,
             en_detail = ''cash leaving the platform''\<rparr>] in
         map_option (\<lambda>_. entries) (assert_balanced entries)))"

definition balance_of :: "Entry list \<Rightarrow> Account \<Rightarrow> int" where
  "balance_of entries account = sum_list (map en_amount (filter (\<lambda>e. en_account e = account) entries))"

definition seller_owed :: "Entry list \<Rightarrow> string option \<Rightarrow> int" where
  "seller_owed entries seller_id =
     - sum_list (map en_amount (filter (\<lambda>e. en_account e = SELLER_PAYABLE \<and>
         (seller_id = None \<or> en_seller_id e = seller_id)) entries))"

definition is_ledger_consistent :: "Entry list \<Rightarrow> bool" where
  "is_ledger_consistent entries \<longleftrightarrow> sum_list (map en_amount entries) = 0"

section \<open>Table\<close>

record ledger_row =
  le_transaction_id :: uuid
  le_account :: Account
  le_amount :: int
  le_currency :: string
  le_reason :: EntryReason
  le_seller_id :: "uuid option"
  le_seller_order_id :: "uuid option"
  le_commission_bps :: "int option"
  le_contract_version :: "int option"
  le_detail :: string
  le_created_at :: int

record escrow_db =
  es_ledger :: "ledger_row list"
  es_outbox :: "(int \<times> outbox_message) list"

definition int8 :: "int \<Rightarrow> bool" where
  "int8 n \<longleftrightarrow> - 9223372036854775808 \<le> n \<and> n \<le> 9223372036854775807"

text \<open>
  What the table takes: the column types, and the unique index on seller order, reason and
  account over the rows that have a seller order.
\<close>

definition booking_key :: "ledger_row \<Rightarrow> (uuid \<times> EntryReason \<times> Account) option" where
  "booking_key r = map_option (\<lambda>x. (x, le_reason r, le_account r)) (le_seller_order_id r)"

definition ledger_rows_accepted :: "ledger_row list \<Rightarrow> ledger_row list \<Rightarrow> bool" where
  "ledger_rows_accepted old new \<longleftrightarrow>
     distinct (List.map_filter booking_key (old @ new)) \<and>
     (\<forall>r \<in> set new. int8 (le_amount r) \<and> length (le_currency r) \<le> 3 \<and>
        (\<forall>b. le_commission_bps r = Some b \<longrightarrow> int4 b) \<and> (\<forall>v. le_contract_version r = Some v \<longrightarrow> int4 v))"

section \<open>Handlers\<close>

datatype commission_reply =
    Breaker_Refused
  | Transport_Error
  | Answered int "commission_response option"

definition commission_for :: "commission_reply \<Rightarrow> commission_response result" where
  "commission_for reply =
     (case reply of
        Breaker_Refused \<Rightarrow> Inl (HTTPException 503)
      | Transport_Error \<Rightarrow> Inl (HTTPException 503)
      | Answered status body \<Rightarrow>
          if status = 404 then Inl (HTTPException 409)
          else if status \<noteq> 200 then Inl (HTTPException 503)
          else (case body of None \<Rightarrow> Inl (Uncaught ''JSONDecodeError'') | Some c \<Rightarrow> Inr c))"

definition already_booked :: "escrow_db \<Rightarrow> uuid \<Rightarrow> EntryReason \<Rightarrow> bool" where
  "already_booked db seller_order_id reason \<longleftrightarrow>
     0 < length (filter (\<lambda>r. le_seller_order_id r = Some seller_order_id \<and> le_reason r = reason) (es_ledger db))"

definition non_empty :: "string option \<Rightarrow> string option" where
  "non_empty x = (case x of Some (c # cs) \<Rightarrow> Some (c # cs) | _ \<Rightarrow> None)"

definition write_entries ::
  "int \<Rightarrow> uuid \<Rightarrow> Entry list \<Rightarrow> string \<Rightarrow> int option \<Rightarrow> int option \<Rightarrow> ledger_row list result" where
  "write_entries now transaction_id entries currency bps version =
     (case assert_balanced entries of
        None \<Rightarrow> Inl (HTTPException 422)
      | Some _ \<Rightarrow> Inr (map (\<lambda>e.
          \<lparr>le_transaction_id = transaction_id, le_account = en_account e, le_amount = en_amount e,
           le_currency = py_upper currency, le_reason = en_reason e, le_seller_id = non_empty (en_seller_id e),
           le_seller_order_id = non_empty (en_seller_order_id e), le_commission_bps = bps,
           le_contract_version = version, le_detail = take 512 (en_detail e), le_created_at = now\<rparr>) entries))"

record LedgerTransactionResponse =
  lt_transaction_id :: uuid
  lt_reason :: EntryReason
  lt_entries :: nat
  lt_seller_owed_delta :: int
  lt_detail :: string

definition already_booked_response :: "EntryReason \<Rightarrow> LedgerTransactionResponse" where
  "already_booked_response reason =
     \<lparr>lt_transaction_id = uuid_text 0, lt_reason = reason, lt_entries = 0, lt_seller_owed_delta = 0,
      lt_detail = ''already booked; ignoring''\<rparr>"

definition booked_payload :: "uuid \<Rightarrow> uuid \<Rightarrow> uuid \<Rightarrow> int \<Rightarrow> int \<Rightarrow> int \<Rightarrow> json" where
  "booked_payload transaction_id seller_id seller_order_id collected_cents rate_bps owed =
     JObj [(''transaction_id'', JStr transaction_id), (''seller_id'', JStr seller_id),
           (''seller_order_id'', JStr seller_order_id), (''collected_cents'', JInt collected_cents),
           (''commission_bps'', JInt rate_bps), (''seller_owed_cents'', JInt owed)]"

text \<open>A delivery or a settlement request; the amount is \<open>collected_cents\<close> or \<open>remitted_cents\<close>.\<close>

record EscrowRequest =
  eq_seller_id :: uuid
  eq_seller_order_id :: uuid
  eq_amount_cents :: int
  eq_currency :: string

definition book_delivery ::
  "bool \<Rightarrow> int \<Rightarrow> uuid \<Rightarrow> commission_reply \<Rightarrow> EscrowRequest \<Rightarrow> escrow_db \<Rightarrow> LedgerTransactionResponse result \<times> escrow_db" where
  "book_delivery io now fresh reply request db =
     (if already_booked db (eq_seller_order_id request) DELIVERY then (Inr (already_booked_response DELIVERY), db)
      else case commission_for reply of
        Inl e \<Rightarrow> (Inl e, db)
      | Inr commission \<Rightarrow>
          (let rate_bps = cm_commission_bps commission in
           case plan_delivery (eq_seller_id request) (eq_seller_order_id request) (eq_amount_cents request) rate_bps of
             None \<Rightarrow> (Inl (HTTPException 422), db)
           | Some entries \<Rightarrow>
               (case write_entries now fresh entries (eq_currency request) (Some rate_bps)
                       (cm_accepted_contract_version commission) of
                  Inl e \<Rightarrow> (Inl e, db)
                | Inr rows \<Rightarrow>
                    (let owed = - sum_list (map en_amount (filter (\<lambda>e. en_account e = SELLER_PAYABLE) entries)) in
                     if io \<and> ledger_rows_accepted (es_ledger db) rows then
                       (Inr \<lparr>lt_transaction_id = fresh, lt_reason = DELIVERY, lt_entries = length entries,
                             lt_seller_owed_delta = owed, lt_detail = ''commission '' @ show_int rate_bps @ ''bps''\<rparr>,
                        db\<lparr>es_ledger := es_ledger db @ rows,
                           es_outbox := es_outbox db @ [(now, outbox ''Ledger'' fresh ''EscrowBooked''
                             (booked_payload fresh (eq_seller_id request) (eq_seller_order_id request)
                               (eq_amount_cents request) rate_bps owed))]\<rparr>)
                     else (Inr (already_booked_response DELIVERY), db)))))"

definition book_settlement ::
  "bool \<Rightarrow> int \<Rightarrow> uuid \<Rightarrow> EscrowRequest \<Rightarrow> escrow_db \<Rightarrow> LedgerTransactionResponse result \<times> escrow_db" where
  "book_settlement io now fresh request db =
     (if already_booked db (eq_seller_order_id request) SETTLEMENT then (Inr (already_booked_response SETTLEMENT), db)
      else case plan_settlement (eq_seller_id request) (eq_seller_order_id request) (eq_amount_cents request) of
        None \<Rightarrow> (Inl (HTTPException 422), db)
      | Some entries \<Rightarrow>
          (case write_entries now fresh entries (eq_currency request) None None of
             Inl e \<Rightarrow> (Inl e, db)
           | Inr rows \<Rightarrow>
               if io \<and> ledger_rows_accepted (es_ledger db) rows then
                 (Inr \<lparr>lt_transaction_id = fresh, lt_reason = SETTLEMENT, lt_entries = length entries,
                       lt_seller_owed_delta = 0, lt_detail = ''remitted '' @ show_int (eq_amount_cents request)\<rparr>,
                  db\<lparr>es_ledger := es_ledger db @ rows\<rparr>)
               else (Inr (already_booked_response SETTLEMENT), db)))"

record PayoutRequest =
  oq_seller_id :: uuid
  oq_amount_cents :: int
  oq_currency :: string

definition book_payout ::
  "bool \<Rightarrow> int \<Rightarrow> uuid \<Rightarrow> PayoutRequest \<Rightarrow> escrow_db \<Rightarrow> LedgerTransactionResponse result \<times> escrow_db" where
  "book_payout io now fresh request db =
     (case plan_payout (oq_seller_id request) (oq_amount_cents request) of
        None \<Rightarrow> (Inl (HTTPException 422), db)
      | Some entries \<Rightarrow>
          (case write_entries now fresh entries (oq_currency request) None None of
             Inl e \<Rightarrow> (Inl e, db)
           | Inr rows \<Rightarrow>
               commit io (ledger_rows_accepted (es_ledger db) rows) db (db\<lparr>es_ledger := es_ledger db @ rows\<rparr>)
                 \<lparr>lt_transaction_id = fresh, lt_reason = PAYOUT, lt_entries = length entries,
                  lt_seller_owed_delta = - oq_amount_cents request,
                  lt_detail = ''paid out '' @ show_int (oq_amount_cents request)\<rparr>))"

record SellerBalanceResponse =
  sb_seller_id :: uuid
  sb_owed_cents :: int
  sb_currency :: string
  sb_entries :: nat

definition payable_rows :: "escrow_db \<Rightarrow> uuid \<Rightarrow> ledger_row list" where
  "payable_rows db seller_id =
     filter (\<lambda>r. le_seller_id r = Some seller_id \<and> le_account r = SELLER_PAYABLE) (es_ledger db)"

definition seller_balance :: "uuid \<Rightarrow> escrow_db \<Rightarrow> SellerBalanceResponse" where
  "seller_balance seller_id db =
     \<lparr>sb_seller_id = seller_id, sb_owed_cents = - sum_list (map le_amount (payable_rows db seller_id)),
      sb_currency = ''BDT'', sb_entries = length (payable_rows db seller_id)\<rparr>"

record ledger_health_response =
  lh_balanced :: bool
  lh_imbalance_cents :: int
  lh_unbalanced_transactions :: "uuid list"
  lh_accounts :: "(Account \<times> int) list"

definition transaction_sum :: "ledger_row list \<Rightarrow> uuid \<Rightarrow> int" where
  "transaction_sum rows t = sum_list (map le_amount (filter (\<lambda>r. le_transaction_id r = t) rows))"

definition ledger_health :: "escrow_db \<Rightarrow> ledger_health_response" where
  "ledger_health db =
     (let imbalance = sum_list (map le_amount (es_ledger db));
          offenders = filter (\<lambda>t. transaction_sum (es_ledger db) t \<noteq> 0) (remdups (map le_transaction_id (es_ledger db))) in
      \<lparr>lh_balanced = (imbalance = 0 \<and> offenders = []), lh_imbalance_cents = imbalance,
       lh_unbalanced_transactions = take 20 offenders,
       lh_accounts = map (\<lambda>a. (a, sum_list (map le_amount (filter (\<lambda>r. le_account r = a) (es_ledger db)))))
         (remdups (map le_account (es_ledger db)))\<rparr>)"

text \<open>The answer of the seller service, as the HTTP client sees it.\<close>

definition seller_service_reply :: "uuid \<Rightarrow> seller_db \<Rightarrow> commission_reply" where
  "seller_service_reply seller_id db =
     (let r = commission_endpoint seller_id db in
      Answered (http_status 200 r) (case r of Inl _ \<Rightarrow> None | Inr c \<Rightarrow> Some c))"

section \<open>Double entry\<close>

text \<open>
  A book to which every step appends one transaction whose entries sum to zero. The whole book
  and each of its transactions then sum to zero at any time, and nothing is ever changed.
\<close>

locale balanced_book =
  fixes rows :: "'db \<Rightarrow> 'r list" and amount :: "'r \<Rightarrow> int" and transaction :: "'r \<Rightarrow> 't"
    and start :: "'db \<Rightarrow> bool" and step :: "'db \<Rightarrow> 'db \<Rightarrow> bool"
  assumes start_empty: "start db \<Longrightarrow> rows db = []"
    and step_appends: "step db db' \<Longrightarrow>
      \<exists>t new. rows db' = rows db @ new \<and> sum_list (map amount new) = 0 \<and> (\<forall>r \<in> set new. transaction r = t)"
begin

lemma balanced:
  assumes "reachable start step db"
  shows "sum_list (map amount (rows db)) = 0 \<and> sum_list (map amount (filter (\<lambda>r. transaction r = t) (rows db))) = 0"
  using assms
proof (induction rule: reachable.induct)
  case (reach_init db)
  then show ?case by (simp add: start_empty)
next
  case (reach_step db db')
  from step_appends [OF reach_step.hyps(2)] obtain u new where
    new: "rows db' = rows db @ new" "sum_list (map amount new) = 0" "\<forall>r \<in> set new. transaction r = u" by blast
  have "filter (\<lambda>r. transaction r = t) new = (if t = u then new else [])"
    using new(3) by (auto simp: filter_empty_conv filter_id_conv)
  with new reach_step.IH show ?case by simp
qed

lemma append_only: "step\<^sup>*\<^sup>* db db' \<Longrightarrow> \<exists>new. rows db' = rows db @ new"
proof (induction rule: rtranclp_induct)
  case (step y z)
  from step_appends [OF step.hyps(2)] step.IH show ?case by auto
qed simp

end

lemma assert_balanced_Some: "assert_balanced es = Some u \<longleftrightarrow> es \<noteq> [] \<and> sum_list (map en_amount es) = 0"
  by (auto simp: assert_balanced_def)

text \<open>The entries each plan makes, and what they add up to for one account.\<close>

lemma plan_delivery_Some:
  "plan_delivery i x n rate = Some es \<Longrightarrow>
     0 < n \<and> 0 \<le> rate \<and> rate \<le> 10000 \<and> es \<noteq> [] \<and> sum_list (map en_amount es) = 0 \<and>
     (\<forall>e \<in> set es. en_reason e = DELIVERY \<and> en_seller_id e = Some i \<and> en_seller_order_id e = Some x) \<and>
     distinct (map en_account es) \<and> balance_of es SELLER_PAYABLE = - (n - n * rate div 10000)"
  by (auto simp: plan_delivery_def split_commission_def Let_def assert_balanced_def balance_of_def split: if_splits)

lemma plan_delivery_total:
  assumes "0 < n" and "0 \<le> rate" and "rate \<le> 10000"
  shows "\<exists>es. plan_delivery i x n rate = Some es"
  using assms by (simp add: plan_delivery_def split_commission_def Let_def assert_balanced_def)

lemma plan_settlement_Some:
  "plan_settlement i x n = Some es \<Longrightarrow>
     0 < n \<and> es \<noteq> [] \<and> sum_list (map en_amount es) = 0 \<and>
     (\<forall>e \<in> set es. en_reason e = SETTLEMENT \<and> en_seller_id e = Some i \<and> en_seller_order_id e = Some x) \<and>
     balance_of es SELLER_PAYABLE = 0"
  by (auto simp: plan_settlement_def Let_def assert_balanced_def balance_of_def split: if_splits)

lemma plan_payout_Some:
  "plan_payout i n = Some es \<Longrightarrow>
     0 < n \<and> es \<noteq> [] \<and> sum_list (map en_amount es) = 0 \<and>
     (\<forall>e \<in> set es. en_reason e = PAYOUT \<and> en_seller_id e = Some i \<and> en_seller_order_id e = None) \<and>
     balance_of es SELLER_PAYABLE = n"
  by (auto simp: plan_payout_def Let_def assert_balanced_def balance_of_def split: if_splits)

section \<open>Writing a transaction\<close>

lemma write_entries_Inr:
  assumes "write_entries now t es currency bps version = Inr rows"
  shows "map le_amount rows = map en_amount es" and "map le_account rows = map en_account es"
    and "\<forall>r \<in> set rows. le_transaction_id r = t" and "sum_list (map le_amount rows) = 0"
    and "\<forall>e \<in> set es. en_seller_id e = Some i \<Longrightarrow> i \<noteq> [] \<Longrightarrow> \<forall>r \<in> set rows. le_seller_id r = Some i"
  using assms by (auto simp: write_entries_def assert_balanced_def non_empty_def comp_def
      split: option.splits if_splits list.splits)

definition written :: "escrow_db \<Rightarrow> ledger_row list \<Rightarrow> escrow_db \<Rightarrow> bool" where
  "written db rows db' \<longleftrightarrow> es_ledger db' = es_ledger db @ rows \<and> ledger_rows_accepted (es_ledger db) rows"

lemma book_delivery_cases:
  assumes "book_delivery io now fresh reply request db = (r, db')"
  obtains (kept) "db' = db" "\<forall>x. r = Inr x \<longrightarrow> x = already_booked_response DELIVERY"
  | (booked) c es rows x where "commission_for reply = Inr c" "r = Inr x"
      "plan_delivery (eq_seller_id request) (eq_seller_order_id request) (eq_amount_cents request) (cm_commission_bps c) = Some es"
      "write_entries now fresh es (eq_currency request) (Some (cm_commission_bps c)) (cm_accepted_contract_version c) = Inr rows"
      "written db rows db'" "lt_seller_owed_delta x = - balance_of es SELLER_PAYABLE" "lt_entries x = length es"
proof (cases "db' = db \<and> (\<forall>x. r = Inr x \<longrightarrow> x = already_booked_response DELIVERY)")
  case True
  then show ?thesis by (intro kept) auto
next
  case False
  with assms obtain c es rows where
    "commission_for reply = Inr c"
    "plan_delivery (eq_seller_id request) (eq_seller_order_id request) (eq_amount_cents request) (cm_commission_bps c) = Some es"
    "write_entries now fresh es (eq_currency request) (Some (cm_commission_bps c)) (cm_accepted_contract_version c) = Inr rows"
    "io" "ledger_rows_accepted (es_ledger db) rows" "\<not> already_booked db (eq_seller_order_id request) DELIVERY"
    by (auto simp: book_delivery_def Let_def split: if_splits sum.splits option.splits)
  with assms show ?thesis
    by (intro booked) (auto simp: book_delivery_def Let_def written_def balance_of_def)
qed

lemma book_settlement_cases:
  assumes "book_settlement io now fresh request db = (r, db')"
  obtains (kept) "db' = db" "\<forall>x. r = Inr x \<longrightarrow> x = already_booked_response SETTLEMENT"
  | (booked) es rows x where "r = Inr x"
      "plan_settlement (eq_seller_id request) (eq_seller_order_id request) (eq_amount_cents request) = Some es"
      "write_entries now fresh es (eq_currency request) None None = Inr rows"
      "written db rows db'" "lt_seller_owed_delta x = 0"
proof (cases "db' = db \<and> (\<forall>x. r = Inr x \<longrightarrow> x = already_booked_response SETTLEMENT)")
  case True
  then show ?thesis by (intro kept) auto
next
  case False
  with assms obtain es rows where
    "plan_settlement (eq_seller_id request) (eq_seller_order_id request) (eq_amount_cents request) = Some es"
    "write_entries now fresh es (eq_currency request) None None = Inr rows"
    "io" "ledger_rows_accepted (es_ledger db) rows" "\<not> already_booked db (eq_seller_order_id request) SETTLEMENT"
    by (auto simp: book_settlement_def Let_def split: if_splits sum.splits option.splits)
  with assms show ?thesis
    by (intro booked) (auto simp: book_settlement_def Let_def written_def)
qed

lemma book_payout_cases:
  assumes "book_payout io now fresh request db = (r, db')"
  obtains (kept) e where "db' = db" "r = Inl e"
  | (booked) es rows x where "r = Inr x" "plan_payout (oq_seller_id request) (oq_amount_cents request) = Some es"
      "write_entries now fresh es (oq_currency request) None None = Inr rows"
      "written db rows db'" "lt_seller_owed_delta x = - oq_amount_cents request"
proof (cases r)
  case (Inl e)
  with assms show ?thesis
    by (intro kept) (auto simp: book_payout_def split: sum.splits option.splits)
next
  case (Inr x)
  with assms obtain es rows where "plan_payout (oq_seller_id request) (oq_amount_cents request) = Some es"
    "write_entries now fresh es (oq_currency request) None None = Inr rows" "ledger_rows_accepted (es_ledger db) rows" "io"
    by (auto simp: book_payout_def split: sum.splits option.splits)
  with assms Inr show ?thesis by (intro booked) (auto simp: book_payout_def written_def)
qed

section \<open>The book as a transition system\<close>

inductive escrow_step :: "escrow_db \<Rightarrow> escrow_db \<Rightarrow> bool" where
  delivery: "escrow_step db (snd (book_delivery io now fresh reply request db))"
| settlement: "escrow_step db (snd (book_settlement io now fresh request db))"
| payout: "escrow_step db (snd (book_payout io now fresh payout_request db))"

definition empty_book :: "escrow_db \<Rightarrow> bool" where
  "empty_book db \<longleftrightarrow> es_ledger db = []"

lemma escrow_step_writes:
  assumes "escrow_step db db'"
  obtains "db' = db"
  | t rows where "written db rows db'" "sum_list (map le_amount rows) = 0" "\<forall>r \<in> set rows. le_transaction_id r = t"
  using assms
proof cases
  case (delivery io now fresh reply request)
  then show ?thesis
    by (cases "book_delivery io now fresh reply request db" rule: prod.exhaust)
      (auto elim!: book_delivery_cases dest: write_entries_Inr(3,4) intro: that)
next
  case (settlement io now fresh request)
  then show ?thesis
    by (cases "book_settlement io now fresh request db" rule: prod.exhaust)
      (auto elim!: book_settlement_cases dest: write_entries_Inr(3,4) intro: that)
next
  case (payout io now fresh request)
  then show ?thesis
    by (cases "book_payout io now fresh request db" rule: prod.exhaust)
      (auto elim!: book_payout_cases dest: write_entries_Inr(3,4) intro: that)
qed

interpretation escrow_book: balanced_book es_ledger le_amount le_transaction_id empty_book escrow_step
proof unfold_locales
  show "empty_book db \<Longrightarrow> es_ledger db = []" for db by (simp add: empty_book_def)
next
  fix db db'
  assume "escrow_step db db'"
  then show "\<exists>t new. es_ledger db' = es_ledger db @ new \<and> sum_list (map le_amount new) = 0 \<and>
      (\<forall>r \<in> set new. le_transaction_id r = t)"
    by (rule escrow_step_writes) (auto simp: written_def)
qed

interpretation escrow_keys: inductive_invariant empty_book escrow_step
  "\<lambda>db. distinct (List.map_filter booking_key (es_ledger db))"
proof unfold_locales
  show "empty_book db \<Longrightarrow> distinct (List.map_filter booking_key (es_ledger db))" for db
    by (simp add: empty_book_def map_filter_def)
next
  fix db db'
  assume "distinct (List.map_filter booking_key (es_ledger db))" and "escrow_step db db'"
  then show "distinct (List.map_filter booking_key (es_ledger db'))"
    by (auto elim: escrow_step_writes simp: written_def ledger_rows_accepted_def)
qed

lemma map_filter_unique:
  assumes "distinct (List.map_filter f xs)"
  shows "length (filter (\<lambda>x. f x = Some k) xs) \<le> 1"
  using assms
proof (induction xs)
  case (Cons x xs)
  show ?case
  proof (cases "f x = Some k")
    case True
    with Cons.prems have "k \<notin> set (List.map_filter f xs)" by (simp add: map_filter_simps)
    then have "filter (\<lambda>x. f x = Some k) xs = []" by (force simp: filter_empty_conv map_filter_def)
    with True show ?thesis by simp
  next
    case False
    with Cons show ?thesis by (auto simp: map_filter_simps split: option.splits)
  qed
qed simp

section \<open>Properties\<close>

definition empty_escrow :: escrow_db where
  "empty_escrow = \<lparr>es_ledger = [], es_outbox = []\<rparr>"

definition demo_commission :: commission_response where
  "demo_commission = \<lparr>cm_seller_id = ''s1'', cm_accepted_contract_version = Some 1, cm_current_contract_version = 1, cm_commission_bps = 1200\<rparr>"

definition demo_delivery :: EscrowRequest where
  "demo_delivery = \<lparr>eq_seller_id = ''s1'', eq_seller_order_id = ''x1'', eq_amount_cents = 999, eq_currency = ''bdt''\<rparr>"

definition demo_booked :: escrow_db where
  "demo_booked = snd (book_delivery True 1 ''t1'' (Answered 200 (Some demo_commission)) demo_delivery empty_escrow)"

lemmas escrow_run = demo_booked_def empty_escrow_def demo_commission_def demo_delivery_def book_delivery_def already_booked_def
  commission_for_def plan_delivery_def split_commission_def assert_balanced_def write_entries_def non_empty_def
  ledger_rows_accepted_def booking_key_def map_filter_def int8_def int4_def py_upper_def Let_def

lemma demo_booked_reachable: "reachable empty_book escrow_step demo_booked"
proof -
  have "reachable empty_book escrow_step empty_escrow" by (rule reach_init) (simp add: empty_book_def empty_escrow_def)
  then show ?thesis unfolding demo_booked_def by (rule reach_step) (rule escrow_step.delivery)
qed

text \<open>
  Property C4 (the books balance). Whatever deliveries, settlements and payouts are booked, in
  whatever order and with whatever failures, the ledger's own health check reports a balanced
  book, and a seller order has at most one line per reason and account.
\<close>

theorem books_balance:
  assumes "reachable empty_book escrow_step db"
  shows "lh_balanced (ledger_health db) \<and> lh_imbalance_cents (ledger_health db) = 0 \<and>
     length (filter (\<lambda>r. le_seller_order_id r = Some x \<and> le_reason r = reason \<and> le_account r = account) (es_ledger db)) \<le> 1"
proof -
  have "(\<lambda>r. le_seller_order_id r = Some x \<and> le_reason r = reason \<and> le_account r = account) =
      (\<lambda>r. booking_key r = Some (x, reason, account))"
    by (auto simp: booking_key_def fun_eq_iff)
  with escrow_book.balanced [OF assms] map_filter_unique [OF escrow_keys.reachable_inv [OF assms]] show ?thesis
    by (simp add: ledger_health_def transaction_sum_def Let_def filter_empty_conv)
qed

theorem books_balance_witness:
  "length (es_ledger demo_booked) = 3 \<and> lh_balanced (ledger_health demo_booked) \<and> lh_imbalance_cents (ledger_health demo_booked) = 0"
proof -
  have "length (es_ledger demo_booked) = 3" by (simp add: escrow_run)
  with books_balance [OF demo_booked_reachable] show ?thesis by simp
qed

text \<open>
  Commission is exact. For an amount that is not negative and a rate between 0 and
  10000 basis points, and for no other input, the split is defined: both shares are
  non-negative, they add up to the amount, and the commission is the exact share rounded down.
\<close>

theorem commission_exact:
  "(split_commission n rate = None \<longleftrightarrow> n < 0 \<or> rate < 0 \<or> 10000 < rate) \<and>
   (\<forall>c s. split_commission n rate = Some (c, s) \<longrightarrow>
      c + s = n \<and> 0 \<le> c \<and> 0 \<le> s \<and> 10000 * c \<le> n * rate \<and> n * rate < 10000 * (c + 1))"
proof -
  have split: "10000 * (m div 10000) \<le> m \<and> m < 10000 * (m div 10000 + 1)" for m :: int by presburger
  have "n * rate div 10000 \<le> n" if "0 \<le> n" "rate \<le> 10000"
  proof -
    have "n * rate \<le> n * 10000" using that by (rule mult_left_mono [rotated])
    then have "n * rate div 10000 \<le> n * 10000 div 10000" by (rule zdiv_mono1) simp
    then show ?thesis by simp
  qed
  moreover have "0 \<le> n * rate div 10000" if "0 \<le> n" "0 \<le> rate" using that by (simp add: pos_imp_zdiv_nonneg_iff)
  ultimately show ?thesis using split [of "n * rate"] by (auto simp: split_commission_def Let_def)
qed

lemma balance_written:
  assumes "written db rows db'" and "write_entries now t es currency bps version = Inr rows"
    and "\<forall>e \<in> set es. en_seller_id e = Some i" and "i \<noteq> []"
  shows "sb_owed_cents (seller_balance s db') = sb_owed_cents (seller_balance s db) - (if s = i then balance_of es SELLER_PAYABLE else 0)"
proof -
  note w = write_entries_Inr [OF assms(2)]
  have ids: "\<forall>r \<in> set rows. le_seller_id r = Some i" by (rule w(5) [OF assms(3,4)])
  have "sum_list (map le_amount (filter (\<lambda>r. le_account r = a) rows)) = balance_of es a" for a
    using w(1,2) unfolding balance_of_def
  proof (induction rows arbitrary: es)
    case (Cons r rows)
    then obtain e es' where "es = e # es'" by (cases es) auto
    with Cons show ?case by auto
  qed simp
  moreover have "filter (\<lambda>r. le_seller_id r = Some s \<and> le_account r = SELLER_PAYABLE) rows =
      (if s = i then filter (\<lambda>r. le_account r = SELLER_PAYABLE) rows else [])"
    using ids by (auto simp: filter_empty_conv intro: filter_cong)
  ultimately show ?thesis
    using assms(1) by (simp add: seller_balance_def payable_rows_def written_def)
qed

text \<open>A delivery that was not booked before and fits the columns is accepted.\<close>

lemma plan_delivery_amounts:
  assumes "plan_delivery i x n rate = Some es" and "e \<in> set es"
  shows "- n \<le> en_amount e \<and> en_amount e \<le> n"
proof -
  from plan_delivery_Some [OF assms(1)] have n: "0 < n" "0 \<le> rate" "rate \<le> 10000" by auto
  have "0 \<le> n * rate div 10000" using n by (simp add: pos_imp_zdiv_nonneg_iff)
  moreover have "n * rate \<le> n * 10000" using n by (intro mult_left_mono) auto
  then have "n * rate div 10000 \<le> n * 10000 div 10000" by (rule zdiv_mono1) simp
  ultimately show ?thesis
    using assms n by (auto simp: plan_delivery_def split_commission_def Let_def assert_balanced_def split: if_splits)
qed

lemma delivery_rows_accepted:
  assumes "distinct (List.map_filter booking_key (es_ledger db))" and "\<not> already_booked db x DELIVERY"
    and "plan_delivery i x n rate = Some es" and "write_entries now t es currency (Some rate) version = Inr rows"
    and "int8 n" and "length currency \<le> 3" and "\<And>v. version = Some v \<Longrightarrow> int4 v" and "x \<noteq> []"
  shows "ledger_rows_accepted (es_ledger db) rows"
proof -
  note plan = plan_delivery_Some [OF assms(3)]
  have rows: "rows = map (\<lambda>e. \<lparr>le_transaction_id = t, le_account = en_account e, le_amount = en_amount e,
      le_currency = py_upper currency, le_reason = en_reason e, le_seller_id = non_empty (en_seller_id e),
      le_seller_order_id = non_empty (en_seller_order_id e), le_commission_bps = Some rate,
      le_contract_version = version, le_detail = take 512 (en_detail e), le_created_at = now\<rparr>) es"
    using assms(4) by (simp add: write_entries_def split: option.splits)
  have x: "non_empty (Some x) = Some x" using assms(8) by (cases x) (simp_all add: non_empty_def)
  have "\<forall>e \<in> set es. en_reason e = DELIVERY \<and> en_seller_order_id e = Some x" using plan by blast
  then have keys: "List.map_filter booking_key rows = map (\<lambda>e. (x, DELIVERY, en_account e)) es"
    unfolding rows by (induction es) (simp_all add: map_filter_simps booking_key_def x)
  have "(x, DELIVERY, a) \<notin> set (List.map_filter booking_key (es_ledger db))" for a
    using assms(2) by (force simp: map_filter_def booking_key_def already_booked_def filter_empty_conv)
  moreover have "distinct (map (\<lambda>e. (x, DELIVERY, en_account e)) es)"
    using plan by (simp add: distinct_map inj_on_def)
  moreover have "List.map_filter booking_key (es_ledger db @ rows)
      = List.map_filter booking_key (es_ledger db) @ List.map_filter booking_key rows"
    by (simp add: map_filter_def)
  ultimately have "distinct (List.map_filter booking_key (es_ledger db @ rows))" using assms(1) keys by auto
  moreover have "int8 (en_amount e)" if "e \<in> set es" for e
    using plan_delivery_amounts [OF assms(3) that] assms(5) by (simp add: int8_def)
  moreover have "int4 rate" using plan by (simp add: int4_def)
  ultimately show ?thesis using assms(6,7) unfolding ledger_rows_accepted_def by (auto simp: rows py_upper_def)
qed

lemma booking_balances:
  assumes "eq_seller_id request \<noteq> []" and "oq_seller_id payout_request \<noteq> []"
  shows "book_delivery io now fresh reply request db = (Inr r, db') \<Longrightarrow>
      sb_owed_cents (seller_balance s db') =
        sb_owed_cents (seller_balance s db) + (if s = eq_seller_id request then lt_seller_owed_delta r else 0)"
    and "book_settlement io now fresh request db = (Inr r, db') \<Longrightarrow>
      sb_owed_cents (seller_balance s db') = sb_owed_cents (seller_balance s db) \<and> lt_seller_owed_delta r = 0"
    and "book_payout io now fresh payout_request db = (Inr r, db') \<Longrightarrow>
      sb_owed_cents (seller_balance s db') =
        sb_owed_cents (seller_balance s db) + (if s = oq_seller_id payout_request then lt_seller_owed_delta r else 0)"
proof -
  assume "book_delivery io now fresh reply request db = (Inr r, db')"
  then show "sb_owed_cents (seller_balance s db') =
      sb_owed_cents (seller_balance s db) + (if s = eq_seller_id request then lt_seller_owed_delta r else 0)"
  proof (cases rule: book_delivery_cases)
    case (booked c es rows x)
    have "\<forall>e \<in> set es. en_seller_id e = Some (eq_seller_id request)" using plan_delivery_Some [OF booked(3)] by blast
    from balance_written [OF booked(5,4) this assms(1), of s] booked(2,6) show ?thesis by simp
  qed (simp add: already_booked_response_def)
next
  assume "book_settlement io now fresh request db = (Inr r, db')"
  then show "sb_owed_cents (seller_balance s db') = sb_owed_cents (seller_balance s db) \<and> lt_seller_owed_delta r = 0"
  proof (cases rule: book_settlement_cases)
    case (booked es rows x)
    have "\<forall>e \<in> set es. en_seller_id e = Some (eq_seller_id request)" "balance_of es SELLER_PAYABLE = 0"
      using plan_settlement_Some [OF booked(2)] by blast+
    with balance_written [OF booked(4,3) this(1) assms(1), of s] booked(1,5) show ?thesis by simp
  qed (simp add: already_booked_response_def)
next
  assume "book_payout io now fresh payout_request db = (Inr r, db')"
  then show "sb_owed_cents (seller_balance s db') =
      sb_owed_cents (seller_balance s db) + (if s = oq_seller_id payout_request then lt_seller_owed_delta r else 0)"
  proof (cases rule: book_payout_cases)
    case (booked es rows x)
    have "\<forall>e \<in> set es. en_seller_id e = Some (oq_seller_id payout_request)" "balance_of es SELLER_PAYABLE = oq_amount_cents payout_request"
      using plan_payout_Some [OF booked(2)] by blast+
    with balance_written [OF booked(4,3) this(1) assms(2), of s] booked(1,5) show ?thesis by simp
  qed simp
qed

definition demo_payout :: PayoutRequest where
  "demo_payout = \<lparr>oq_seller_id = ''s1'', oq_amount_cents = 500, oq_currency = ''bdt''\<rparr>"

text \<open>
  Property C31 (reported deltas are the truth). Whatever a booking answers, the balance the
  seller is shown changes by the amount in the answer and nobody else's changes: a delivery
  adds the seller's share, a settlement nothing, a payout takes off what was paid.
\<close>

theorem balance_follows_answers:
  assumes "eq_seller_id request \<noteq> []" and "oq_seller_id payout_request \<noteq> []"
  shows "(book_delivery io now fresh reply request db = (Inr r, db') \<longrightarrow>
      sb_owed_cents (seller_balance s db') =
        sb_owed_cents (seller_balance s db) + (if s = eq_seller_id request then lt_seller_owed_delta r else 0)) \<and>
    (book_settlement io now fresh request db = (Inr r, db') \<longrightarrow>
      sb_owed_cents (seller_balance s db') = sb_owed_cents (seller_balance s db) \<and> lt_seller_owed_delta r = 0) \<and>
    (book_payout io now fresh payout_request db = (Inr r, db') \<longrightarrow>
      sb_owed_cents (seller_balance s db') =
        sb_owed_cents (seller_balance s db) + (if s = oq_seller_id payout_request then lt_seller_owed_delta r else 0))"
  by (intro conjI impI booking_balances [OF assms])

theorem balance_follows_answers_witness:
  "sb_owed_cents (seller_balance ''s1'' demo_booked) = 880 \<and>
   (\<exists>r db'. book_payout True 2 ''t2'' demo_payout demo_booked = (Inr r, db') \<and> sb_owed_cents (seller_balance ''s1'' db') = 380)"
proof -
  have owed: "sb_owed_cents (seller_balance ''s1'' demo_booked) = 880"
    by (simp add: seller_balance_def payable_rows_def escrow_run)
  have "eq_seller_id demo_delivery \<noteq> []" "oq_seller_id demo_payout \<noteq> []" by (simp_all add: demo_delivery_def demo_payout_def)
  note payout = conjunct2 [OF conjunct2 [OF balance_follows_answers [OF this]]]
  obtain r db' where run: "book_payout True 2 ''t2'' demo_payout demo_booked = (Inr r, db')" and "lt_seller_owed_delta r = - 500"
    by (simp add: book_payout_def plan_payout_def demo_payout_def escrow_run)
  with payout [of True 2 "''t2''" demo_booked r db' "''s1''"] owed show ?thesis by (auto simp: demo_payout_def)
qed

text \<open>
  A lost booking is reported as done. When the commit of a delivery fails, for
  whatever reason, the answer is the success answer for a delivery that was booked before, and
  the ledger holds nothing for the seller order.
\<close>

theorem failed_booking_reported_as_done:
  assumes "\<not> already_booked db (eq_seller_order_id request) DELIVERY" and "commission_for reply = Inr c"
    and "0 < eq_amount_cents request" and "0 \<le> cm_commission_bps c" and "cm_commission_bps c \<le> 10000"
  shows "book_delivery False now fresh reply request db = (Inr (already_booked_response DELIVERY), db) \<and>
     book_delivery True now fresh reply (request\<lparr>eq_currency := ''TAKA''\<rparr>) db = (Inr (already_booked_response DELIVERY), db)"
proof -
  from plan_delivery_total [OF assms(3-5)] obtain es where
    plan: "plan_delivery (eq_seller_id request) (eq_seller_order_id request) (eq_amount_cents request) (cm_commission_bps c) = Some es"
    by blast
  then have "assert_balanced es = Some ()" using plan_delivery_Some [OF plan] by (simp add: assert_balanced_Some)
  moreover have "es \<noteq> []" using plan_delivery_Some [OF plan] by blast
  then have "\<not> ledger_rows_accepted (es_ledger db) rows" if "rows = map f es" "\<And>e. le_currency (f e) = py_upper ''TAKA''" for rows f
    using that by (cases es) (auto simp: ledger_rows_accepted_def py_upper_def)
  ultimately show ?thesis
    using assms(1,2) plan by (simp add: book_delivery_def write_entries_def)
qed

theorem failed_booking_reported_as_done_witness:
  "book_delivery False 1 ''t1'' (Answered 200 (Some demo_commission)) demo_delivery empty_escrow
     = (Inr (already_booked_response DELIVERY), empty_escrow) \<and> \<not> already_booked empty_escrow ''x1'' DELIVERY"
proof -
  have "\<not> already_booked empty_escrow (eq_seller_order_id demo_delivery) DELIVERY" by (simp add: already_booked_def empty_escrow_def)
  moreover have "commission_for (Answered 200 (Some demo_commission)) = Inr demo_commission" by (simp add: commission_for_def)
  moreover have "0 < eq_amount_cents demo_delivery" "0 \<le> cm_commission_bps demo_commission" "cm_commission_bps demo_commission \<le> 10000"
    "eq_seller_order_id demo_delivery = ''x1''" by (simp_all add: demo_delivery_def demo_commission_def)
  ultimately show ?thesis using failed_booking_reported_as_done by simp
qed

end
