(* ===== verification/Dispatch.thy ===== *)
theory Dispatch
  imports Prelude
begin

text \<open>
  The saga dispatcher (\<open>src/workers/saga-dispatcher\<close>): the decision rules of
  \<open>dispatch_rules.py\<close>, and from \<open>main.py\<close> the claim and settle statements, the command handler,
  the processing of one claimed row and the drain loop.

  The services behind the HTTP client are a parameter \<open>send\<close>: what it does with a call and the
  state \<open>'w\<close> of the world behind it. An open circuit or a full bulkhead, and any other exception
  of the client, are outcomes of \<open>send\<close>. Times are rational numbers of seconds, so the
  arithmetic of the delays is exact. A payload is a JSON object. Counters and logs are left out.
\<close>

section \<open>Rules\<close>

datatype SagaAck = APPLIED | DEFERRED | DEAD_LETTERED | ACK_ERROR

fun settles :: "SagaAck \<Rightarrow> bool" where
  "settles APPLIED = True"
| "settles DEFERRED = False"
| "settles DEAD_LETTERED = True"
| "settles ACK_ERROR = False"

definition classify_saga_response :: "int \<Rightarrow> SagaAck" where
  "classify_saga_response status_code =
     (if status_code < 300 then APPLIED
      else if status_code = 409 then DEFERRED
      else if status_code = 422 then DEAD_LETTERED
      else ACK_ERROR)"

record Route =
  rt_target :: "string option"
  rt_success_status :: "int option"
  rt_on_success :: "string option"
  rt_on_failure :: "string option"
  rt_settle_on_failure :: bool

record ItemReservation =
  ir_product_id :: string
  ir_quantity :: int

text \<open>A plan is the list of reservations or the error.\<close>

definition dict_default :: "json \<Rightarrow> string \<Rightarrow> json \<Rightarrow> json" where
  "dict_default d k v = (case dict_get d k of None \<Rightarrow> v | Some x \<Rightarrow> x)"

definition reservation_lines :: "json \<Rightarrow> json" where
  "reservation_lines items_payload =
     (let items = (if is_dict items_payload then dict_default items_payload ''items'' items_payload else items_payload) in
      case items of
        JObj kvs \<Rightarrow> JArr (map (\<lambda>(k, v). JObj [(''product_id'', JStr k), (''quantity'', v)]) kvs)
      | _ \<Rightarrow> items)"

fun total_quantities :: "json list \<Rightarrow> (string \<times> int) list \<Rightarrow> string + (string \<times> int) list" where
  "total_quantities [] totals = Inr totals"
| "total_quantities (entry # items) totals =
     (if \<not> is_dict entry then Inl (''MalformedItem: '' @ py_repr entry)
      else
        (let product_id = dict_get_null entry ''product_id'' in
         if \<not> truthy product_id then Inl ''ItemMissingProductId''
         else
           (case dict_default entry ''quantity'' (JInt 1) of
              JInt quantity \<Rightarrow>
                if quantity \<le> 0 then Inl (''NonPositiveQuantity: '' @ show_int quantity)
                else
                  (let p = py_str product_id in
                   total_quantities items
                     (dict_set totals p ((case map_of totals p of None \<Rightarrow> 0 | Some n \<Rightarrow> n) + quantity)))
            | quantity \<Rightarrow> Inl (''NonIntegerQuantity: '' @ py_repr quantity))))"

definition plan_item_reservations :: "json \<Rightarrow> string + ItemReservation list" where
  "plan_item_reservations items_payload =
     (case reservation_lines items_payload of
        JArr (entry # items) \<Rightarrow>
          (case total_quantities (entry # items) [] of
             Inl e \<Rightarrow> Inl e
           | Inr totals \<Rightarrow>
               Inr (map (\<lambda>(p, q). \<lparr>ir_product_id = p, ir_quantity = q\<rparr>) (sort_key fst totals)))
      | _ \<Rightarrow> Inl ''EmptyItemsPayload'')"

definition reservation_idempotency_key :: "string \<Rightarrow> string \<Rightarrow> string" where
  "reservation_idempotency_key message_id product_id = message_id @ '':'' @ product_id"

definition ROUTES :: "(string \<times> Route) list" where
  "ROUTES =
     [(''ReserveInventoryCommand'',
        \<lparr>rt_target = Some ''inventory-service'', rt_success_status = Some 200, rt_on_success = Some ''InventoryReserved'',
         rt_on_failure = Some ''InventoryReservationFailed'', rt_settle_on_failure = True\<rparr>),
      (''ChargePaymentCommand'',
        \<lparr>rt_target = Some ''payment-service'', rt_success_status = Some 201, rt_on_success = Some ''PaymentCharged'',
         rt_on_failure = Some ''PaymentFailed'', rt_settle_on_failure = True\<rparr>),
      (''RefundPaymentCommand'',
        \<lparr>rt_target = Some ''payment-service'', rt_success_status = Some 200, rt_on_success = Some ''PaymentRefunded'',
         rt_on_failure = None, rt_settle_on_failure = False\<rparr>),
      (''ReleaseInventoryCommand'',
        \<lparr>rt_target = Some ''inventory-service'', rt_success_status = Some 200, rt_on_success = Some ''InventoryReleased'',
         rt_on_failure = None, rt_settle_on_failure = False\<rparr>),
      (''CompensateInventoryCommand'',
        \<lparr>rt_target = Some ''inventory-service'', rt_success_status = Some 200, rt_on_success = Some ''InventoryReleased'',
         rt_on_failure = None, rt_settle_on_failure = False\<rparr>),
      (''ConfirmOrderCommand'',
        \<lparr>rt_target = None, rt_success_status = None, rt_on_success = Some ''OrderCompleted'',
         rt_on_failure = None, rt_settle_on_failure = True\<rparr>),
      (''SagaTimedOut'',
        \<lparr>rt_target = None, rt_success_status = None, rt_on_success = None,
         rt_on_failure = None, rt_settle_on_failure = True\<rparr>)]"

definition route_for :: "string \<Rightarrow> Route option" where
  "route_for command = map_of ROUTES command"

definition events_emitted :: "string list" where
  "events_emitted =
     remdups (concat (map (\<lambda>(_, r). List.map_filter (\<lambda>e. e) [rt_on_success r, rt_on_failure r]) ROUTES))"

definition commands_handled :: "string list" where
  "commands_handled = map fst ROUTES"

datatype Disposition = SETTLE | RETRY | PARK

record Outcome =
  oc_disposition :: Disposition
  oc_error :: "string option"

definition oc_settled :: "Outcome \<Rightarrow> bool" where
  "oc_settled x \<longleftrightarrow> oc_disposition x = SETTLE"

definition SETTLED :: Outcome where
  "SETTLED = \<lparr>oc_disposition = SETTLE, oc_error = None\<rparr>"

definition retry :: "string \<Rightarrow> Outcome" where
  "retry error = \<lparr>oc_disposition = RETRY, oc_error = Some error\<rparr>"

definition park :: "string \<Rightarrow> Outcome" where
  "park error = \<lparr>oc_disposition = PARK, oc_error = Some error\<rparr>"

definition TERMINAL_COMMAND_STATUSES :: "int list" where
  "TERMINAL_COMMAND_STATUSES = [400, 404, 409, 410, 422]"

definition RETRYABLE_COMMAND_STATUSES :: "int list" where
  "RETRYABLE_COMMAND_STATUSES = [408, 425, 429]"

definition classify_command_failure :: "int option \<Rightarrow> Disposition" where
  "classify_command_failure status_code =
     (case status_code of
        None \<Rightarrow> RETRY
      | Some s \<Rightarrow>
          if 200 \<le> s \<and> s < 300 then SETTLE
          else if s \<in> set RETRYABLE_COMMAND_STATUSES then RETRY
          else if 500 \<le> s then RETRY
          else if s \<in> set TERMINAL_COMMAND_STATUSES then PARK
          else RETRY)"

definition MAX_ATTEMPTS :: nat where
  "MAX_ATTEMPTS = 15"

text \<open>A raised \<open>ValueError\<close> is \<open>None\<close>.\<close>

definition backoff_seconds :: "nat \<Rightarrow> rat \<Rightarrow> rat \<Rightarrow> rat \<Rightarrow> rat option" where
  "backoff_seconds attempts base cap jitter =
     (if attempts < 1 then None
      else if \<not> (0 \<le> jitter \<and> jitter < 1) then None
      else Some (min cap (base * 2 ^ (attempts - 1)) * (1 - jitter / 2)))"

definition disposition_after :: "Disposition \<Rightarrow> nat \<Rightarrow> nat \<Rightarrow> Disposition" where
  "disposition_after disposition attempts max_attempts =
     (if disposition = RETRY \<and> max_attempts \<le> attempts then PARK else disposition)"

section \<open>The outbox as a queue\<close>

record command =
  cm_id :: string
  cm_aggregate_type :: string
  cm_type :: string
  cm_payload :: json
  cm_created_at :: rat
  cm_processed_at :: "rat option"
  cm_parked_at :: "rat option"
  cm_next_attempt_at :: "rat option"
  cm_claimed_at :: "rat option"
  cm_claimed_by :: "string option"
  cm_attempts :: nat
  cm_last_error :: "string option"

record queue =
  qu_commands :: "command list"
  qu_events :: "string list"

definition update_command :: "string \<Rightarrow> (command \<Rightarrow> command) \<Rightarrow> queue \<Rightarrow> queue" where
  "update_command i f q = q\<lparr>qu_commands := map (\<lambda>c. if cm_id c = i then f c else c) (qu_commands q)\<rparr>"

definition claimable :: "rat \<Rightarrow> rat \<Rightarrow> command \<Rightarrow> bool" where
  "claimable now lease c \<longleftrightarrow>
     cm_aggregate_type c \<in> {''OrderSaga'', ''SellerOrder''} \<and> cm_processed_at c = None \<and> cm_parked_at c = None \<and>
     (case cm_next_attempt_at c of None \<Rightarrow> True | Some t \<Rightarrow> t \<le> now) \<and>
     (ends_with (cm_type c) ''Command'' \<or> cm_type c = ''SagaTimedOut'') \<and>
     (case cm_claimed_at c of None \<Rightarrow> True | Some t \<Rightarrow> t < now - lease)"

text \<open>
  \<open>claim_batch\<close> answers the claimed rows as they stand after the update, with the flag
  \<open>was_stale\<close>; \<open>locked\<close> are the rows another transaction has locked, which the query skips.
\<close>

definition claim_batch ::
  "nat \<Rightarrow> rat \<Rightarrow> string \<Rightarrow> (string \<Rightarrow> bool) \<Rightarrow> rat \<Rightarrow> queue \<Rightarrow> (command \<times> bool) list \<times> queue" where
  "claim_batch batch_size lease inst locked now q =
     (let ids = map cm_id (take batch_size
            (filter (\<lambda>c. \<not> locked (cm_id c)) (sort_key cm_created_at (filter (claimable now lease) (qu_commands q)))));
          claim = (\<lambda>c. if cm_id c \<in> set ids then c\<lparr>cm_claimed_at := Some now, cm_claimed_by := Some inst\<rparr> else c);
          q' = q\<lparr>qu_commands := map claim (qu_commands q)\<rparr> in
      (map (\<lambda>c. (c, cm_claimed_by c \<noteq> Some inst)) (filter (\<lambda>c. cm_id c \<in> set ids) (qu_commands q')), q'))"

definition mark_processed :: "rat \<Rightarrow> string \<Rightarrow> queue \<Rightarrow> queue" where
  "mark_processed now i q = update_command i (\<lambda>c. c\<lparr>cm_processed_at := Some now\<rparr>) q"

definition stored_error :: "string option \<Rightarrow> string" where
  "stored_error error = take 500 (case error of None \<Rightarrow> [] | Some e \<Rightarrow> e)"

definition defer_claim :: "rat \<Rightarrow> string \<Rightarrow> rat \<Rightarrow> string option \<Rightarrow> bool \<Rightarrow> queue \<Rightarrow> queue" where
  "defer_claim now i delay error count_attempt q =
     update_command i (\<lambda>c. c\<lparr>cm_claimed_at := None, cm_claimed_by := None,
       cm_attempts := cm_attempts c + (if count_attempt then 1 else 0),
       cm_next_attempt_at := Some (now + delay), cm_last_error := Some (stored_error error)\<rparr>) q"

definition park_claim :: "rat \<Rightarrow> string \<Rightarrow> string option \<Rightarrow> queue \<Rightarrow> queue" where
  "park_claim now i error q =
     update_command i (\<lambda>c. c\<lparr>cm_claimed_at := None, cm_claimed_by := None, cm_attempts := cm_attempts c + 1,
       cm_parked_at := Some now, cm_last_error := Some (stored_error error)\<rparr>) q"

definition record_processed_event :: "string \<Rightarrow> queue \<Rightarrow> bool \<times> queue" where
  "record_processed_event i q =
     (if i \<in> set (qu_events q) then (False, q) else (True, q\<lparr>qu_events := qu_events q @ [i]\<rparr>))"

definition forget_processed_event :: "string \<Rightarrow> queue \<Rightarrow> queue" where
  "forget_processed_event i q = q\<lparr>qu_events := filter (\<lambda>j. j \<noteq> i) (qu_events q)\<rparr>"

section \<open>Calling the services\<close>

record call =
  ca_target :: string
  ca_path :: string
  ca_body :: json
  ca_key :: string

datatype sent = Call_Shed string | Call_Raised string | Call_Answered int string

datatype call_error = Shed_Load string | Failed_Call string

definition post :: "(call \<Rightarrow> 'w \<Rightarrow> sent \<times> 'w) \<Rightarrow> call \<Rightarrow> 'w \<Rightarrow> (call_error + (int \<times> string)) \<times> 'w" where
  "post send c w =
     (case send c w of
        (Call_Shed e, w') \<Rightarrow> (Inl (Shed_Load e), w')
      | (Call_Raised e, w') \<Rightarrow> (Inl (Failed_Call e), w')
      | (Call_Answered status text, w') \<Rightarrow>
          if 500 \<le> status then (Inl (Failed_Call ''HTTPStatusError''), w') else (Inr (status, text), w'))"

definition from_status :: "int \<Rightarrow> string \<Rightarrow> Outcome" where
  "from_status status_code error =
     (case classify_command_failure (Some status_code) of
        SETTLE \<Rightarrow> SETTLED
      | PARK \<Rightarrow> park error
      | RETRY \<Rightarrow> retry error)"

definition saga_call :: "json \<Rightarrow> string \<Rightarrow> string \<Rightarrow> json \<Rightarrow> call" where
  "saga_call order_id event_type key payload =
     \<lparr>ca_target = ''order-saga'', ca_path = ''/orders/'' @ py_str order_id @ ''/events'',
      ca_body = JObj [(''event_type'', JStr event_type), (''payload'', payload)], ca_key = key\<rparr>"

definition advance_order ::
  "(call \<Rightarrow> 'w \<Rightarrow> sent \<times> 'w) \<Rightarrow> json \<Rightarrow> string \<Rightarrow> string \<Rightarrow> json \<Rightarrow> 'w \<Rightarrow> (call_error + Outcome) \<times> 'w" where
  "advance_order send order_id event_type key payload w =
     (case post send (saga_call order_id event_type key payload) w of
        (Inl e, w') \<Rightarrow> (Inl e, w')
      | (Inr (status, _), w') \<Rightarrow>
          if settles (classify_saga_response status) then (Inr SETTLED, w')
          else (Inr (retry (''saga answered '' @ show_int status @ '' to '' @ event_type)), w'))"

definition inventory_call :: "string \<Rightarrow> json \<Rightarrow> string \<Rightarrow> call" where
  "inventory_call path body key = \<lparr>ca_target = ''inventory-service'', ca_path = ''/inventory/'' @ path, ca_body = body, ca_key = key\<rparr>"

definition payment_call :: "string \<Rightarrow> json \<Rightarrow> string \<Rightarrow> call" where
  "payment_call path body key = \<lparr>ca_target = ''payment-service'', ca_path = path, ca_body = body, ca_key = key\<rparr>"

definition reserve_body :: "json \<Rightarrow> ItemReservation \<Rightarrow> json" where
  "reserve_body order_id r =
     JObj [(''product_id'', JStr (ir_product_id r)), (''quantity'', JInt (ir_quantity r)), (''order_id'', order_id)]"

text \<open>The loop over the lines: the first line that is not answered 200, if any.\<close>

fun reserve_lines ::
  "(call \<Rightarrow> 'w \<Rightarrow> sent \<times> 'w) \<Rightarrow> string \<Rightarrow> json \<Rightarrow> ItemReservation list \<Rightarrow> 'w \<Rightarrow>
     (call_error + (ItemReservation \<times> int) option) \<times> 'w" where
  "reserve_lines send msg_id order_id [] w = (Inr None, w)"
| "reserve_lines send msg_id order_id (r # rs) w =
     (case post send (inventory_call ''reserve'' (reserve_body order_id r)
              (reservation_idempotency_key msg_id (ir_product_id r))) w of
        (Inl e, w') \<Rightarrow> (Inl e, w')
      | (Inr (status, _), w') \<Rightarrow>
          if status = 200 then reserve_lines send msg_id order_id rs w' else (Inr (Some (r, status)), w'))"

definition handle_reserve ::
  "(call \<Rightarrow> 'w \<Rightarrow> sent \<times> 'w) \<Rightarrow> string \<Rightarrow> json \<Rightarrow> json \<Rightarrow> 'w \<Rightarrow> (call_error + Outcome) \<times> 'w" where
  "handle_reserve send msg_id order_id items_payload w =
     (case plan_item_reservations items_payload of
        Inl error \<Rightarrow>
          advance_order send order_id ''InventoryReservationFailed'' (''inv-fail-'' @ msg_id)
            (JObj [(''reason'', JStr error)]) w
      | Inr lines \<Rightarrow>
          (case reserve_lines send msg_id order_id lines w of
             (Inl e, w1) \<Rightarrow> (Inl e, w1)
           | (Inr None, w1) \<Rightarrow> advance_order send order_id ''InventoryReserved'' (''inv-res-'' @ msg_id) (JObj []) w1
           | (Inr (Some (r, status)), w1) \<Rightarrow>
               (case post send (inventory_call ''release'' (JObj [(''order_id'', order_id)]) (''inv-rb-'' @ msg_id)) w1 of
                  (Inl e, w2) \<Rightarrow> (Inl e, w2)
                | (Inr (rollback, _), w2) \<Rightarrow>
                    if rollback \<noteq> 200 then
                      (Inr (retry (''partial reservation release returned '' @ show_int rollback)), w2)
                    else
                      advance_order send order_id ''InventoryReservationFailed'' (''inv-fail-'' @ msg_id)
                        (JObj [(''reason'', JStr ''InsufficientStock''), (''product_id'', JStr (ir_product_id r)),
                               (''status_code'', JInt status)]) w2)))"

definition handle_charge ::
  "(call \<Rightarrow> 'w \<Rightarrow> sent \<times> 'w) \<Rightarrow> string \<Rightarrow> json \<Rightarrow> json \<Rightarrow> 'w \<Rightarrow> (call_error + Outcome) \<times> 'w" where
  "handle_charge send msg_id order_id payload w =
     (case post send (payment_call ''/payments/charge''
              (JObj [(''order_id'', order_id), (''user_id'', dict_get_null payload ''user_id''),
                     (''amount_cents'', dict_get_null payload ''amount_cents'')]) msg_id) w of
        (Inl e, w1) \<Rightarrow> (Inl e, w1)
      | (Inr (status, _), w1) \<Rightarrow>
          if status = 201 then advance_order send order_id ''PaymentCharged'' (''pay-chg-'' @ msg_id) (JObj []) w1
          else advance_order send order_id ''PaymentFailed'' (''pay-fail-'' @ msg_id)
            (JObj [(''reason'', JStr (''HTTP '' @ show_int status))]) w1)"

definition handle_refund ::
  "(call \<Rightarrow> 'w \<Rightarrow> sent \<times> 'w) \<Rightarrow> string \<Rightarrow> json \<Rightarrow> json \<Rightarrow> 'w \<Rightarrow> (call_error + Outcome) \<times> 'w" where
  "handle_refund send msg_id order_id payload w =
     (case post send (payment_call ''/payments/refund''
              (JObj [(''order_id'', order_id), (''user_id'', dict_get_null payload ''user_id''),
                     (''reason'', dict_default payload ''reason'' (JStr ''SagaCompensation''))]) msg_id) w of
        (Inl e, w1) \<Rightarrow> (Inl e, w1)
      | (Inr (status, _), w1) \<Rightarrow>
          if status = 200 then advance_order send order_id ''PaymentRefunded'' (''pay-ref-'' @ msg_id) (JObj []) w1
          else (Inr (from_status status (''refund returned '' @ show_int status)), w1))"

definition handle_release ::
  "(call \<Rightarrow> 'w \<Rightarrow> sent \<times> 'w) \<Rightarrow> string \<Rightarrow> json \<Rightarrow> 'w \<Rightarrow> (call_error + Outcome) \<times> 'w" where
  "handle_release send msg_id order_id w =
     (case post send (inventory_call ''release'' (JObj [(''order_id'', order_id)]) msg_id) w of
        (Inl e, w1) \<Rightarrow> (Inl e, w1)
      | (Inr (status, _), w1) \<Rightarrow>
          if status = 200 then advance_order send order_id ''InventoryReleased'' (''inv-rel-'' @ msg_id) (JObj []) w1
          else (Inr (from_status status (''release returned '' @ show_int status)), w1))"

definition handle_seller_stock ::
  "(call \<Rightarrow> 'w \<Rightarrow> sent \<times> 'w) \<Rightarrow> string \<Rightarrow> string \<Rightarrow> json \<Rightarrow> json \<Rightarrow> 'w \<Rightarrow> (call_error + Outcome) \<times> 'w" where
  "handle_seller_stock send endpoint msg_id order_id payload w =
     (let product_ids = dict_get_null payload ''product_ids'' in
      case post send (inventory_call endpoint
             (JObj [(''order_id'', order_id), (''product_ids'', if truthy product_ids then product_ids else JNull)]) msg_id) w of
        (Inl e, w1) \<Rightarrow> (Inl e, w1)
      | (Inr (status, _), w1) \<Rightarrow>
          if status = 200 then (Inr SETTLED, w1)
          else (Inr (from_status status (''seller order inventory '' @ endpoint @ '' returned '' @ show_int status)), w1))"

definition handle_escrow ::
  "(call \<Rightarrow> 'w \<Rightarrow> sent \<times> 'w) \<Rightarrow> string \<Rightarrow> json \<Rightarrow> 'w \<Rightarrow> (call_error + Outcome) \<times> 'w" where
  "handle_escrow send msg_id payload w =
     (case post send (payment_call ''/escrow/delivery''
              (JObj [(''seller_id'', dict_get_null payload ''seller_id''),
                     (''seller_order_id'', dict_get_null payload ''seller_order_id''),
                     (''collected_cents'', dict_get_null payload ''collected_cents''),
                     (''currency'', dict_default payload ''currency'' (JStr ''BDT''))]) msg_id) w of
        (Inl e, w1) \<Rightarrow> (Inl e, w1)
      | (Inr (status, text), w1) \<Rightarrow>
          if status = 200 then (Inr SETTLED, w1)
          else (Inr (from_status status (''escrow booking returned '' @ show_int status @ '': '' @ take 160 text)), w1))"

definition handle ::
  "(call \<Rightarrow> 'w \<Rightarrow> sent \<times> 'w) \<Rightarrow> string \<Rightarrow> string \<Rightarrow> json \<Rightarrow> 'w \<Rightarrow> (call_error + Outcome) \<times> 'w" where
  "handle send msg_id msg_type payload w =
     (let order_id = dict_get_null payload ''order_id'' in
      if \<not> truthy order_id then (Inr SETTLED, w)
      else if msg_type = ''ReserveInventoryCommand'' then
        handle_reserve send msg_id order_id (dict_default payload ''items_payload'' (JArr [])) w
      else if msg_type = ''ChargePaymentCommand'' then handle_charge send msg_id order_id payload w
      else if msg_type = ''RefundPaymentCommand'' then handle_refund send msg_id order_id payload w
      else if msg_type \<in> {''ReleaseInventoryCommand'', ''CompensateInventoryCommand''} then
        handle_release send msg_id order_id w
      else if msg_type = ''ReleaseSellerOrderInventoryCommand'' then
        handle_seller_stock send ''release'' msg_id order_id payload w
      else if msg_type = ''ConsumeSellerOrderInventoryCommand'' then
        handle_seller_stock send ''consume'' msg_id order_id payload w
      else if msg_type = ''BookEscrowDeliveryCommand'' then handle_escrow send msg_id payload w
      else if msg_type = ''ConfirmOrderCommand'' then
        advance_order send order_id ''OrderCompleted'' (''ord-cmp-'' @ msg_id) (JObj []) w
      else (Inr SETTLED, w))"

section \<open>Processing\<close>

text \<open>The outcome of a handled row, and whether the attempt was shed.\<close>

definition attempt_outcome :: "call_error + Outcome \<Rightarrow> Outcome \<times> bool" where
  "attempt_outcome r =
     (case r of
        Inr x \<Rightarrow> (x, False)
      | Inl (Shed_Load e) \<Rightarrow> (retry (''shed: '' @ e), True)
      | Inl (Failed_Call e) \<Rightarrow> (retry e, False))"

definition settle_row :: "rat \<Rightarrow> rat \<Rightarrow> command \<Rightarrow> Outcome \<Rightarrow> bool \<Rightarrow> queue \<Rightarrow> bool \<times> queue" where
  "settle_row now jitter row outcome shed q =
     (if oc_settled outcome then (True, mark_processed now (cm_id row) q)
      else
        (let q1 = forget_processed_event (cm_id row) q;
             attempts = cm_attempts row + (if shed then 0 else 1) in
         if disposition_after (oc_disposition outcome) attempts MAX_ATTEMPTS = PARK then
           (True, park_claim now (cm_id row) (oc_error outcome) q1)
         else
           (False, defer_claim now (cm_id row) (the (backoff_seconds (max 1 attempts) 2 300 jitter))
              (oc_error outcome) (\<not> shed) q1)))"

definition process_one ::
  "(call \<Rightarrow> 'w \<Rightarrow> sent \<times> 'w) \<Rightarrow> rat \<Rightarrow> rat \<Rightarrow> command \<Rightarrow> queue \<times> 'w \<Rightarrow> bool \<times> (queue \<times> 'w)" where
  "process_one send now jitter row s =
     (let (first_time, q1) = record_processed_event (cm_id row) (fst s) in
      if \<not> first_time then (True, (mark_processed now (cm_id row) q1, snd s))
      else
        (let (r, w') = handle send (cm_id row) (cm_type row) (cm_payload row) (snd s);
             (outcome, shed) = attempt_outcome r;
             (done, q2) = settle_row now jitter row outcome shed q1 in
         (done, (q2, w'))))"

text \<open>One batch. The rows are worked on one after the other, one of the schedules of the tasks.\<close>

fun process_rows ::
  "(call \<Rightarrow> 'w \<Rightarrow> sent \<times> 'w) \<Rightarrow> rat \<Rightarrow> rat \<Rightarrow> command list \<Rightarrow> queue \<times> 'w \<Rightarrow> bool list \<times> (queue \<times> 'w)" where
  "process_rows send now jitter [] s = ([], s)"
| "process_rows send now jitter (row # rows) s =
     (let (b, s1) = process_one send now jitter row s;
          (bs, s2) = process_rows send now jitter rows s1 in (b # bs, s2))"

text \<open>
  One pass of the loop body of \<open>dispatch_loop\<close>: claim and process batches until none is left or
  none of a batch made progress. \<open>None\<close> stands for a pass that is still draining when the fuel
  is used up. \<open>others k\<close> is what other transactions have done to the outbox when the \<open>k\<close>-th batch is
  claimed: the services that the handlers call write new commands into it, and so do other requests;
  other dispatchers settle rows. \<open>locked k\<close>, \<open>now k\<close> and \<open>jitter k\<close> are the locks, the clock and the random
  number of the \<open>k\<close>-th batch.
\<close>

fun drain ::
  "nat \<Rightarrow> nat \<Rightarrow> nat \<Rightarrow> rat \<Rightarrow> string \<Rightarrow> (nat \<Rightarrow> queue \<times> 'w \<Rightarrow> queue \<times> 'w) \<Rightarrow> (nat \<Rightarrow> string \<Rightarrow> bool) \<Rightarrow>
     (call \<Rightarrow> 'w \<Rightarrow> sent \<times> 'w) \<Rightarrow> (nat \<Rightarrow> rat) \<Rightarrow> (nat \<Rightarrow> rat) \<Rightarrow> queue \<times> 'w \<Rightarrow> (queue \<times> 'w) option" where
  "drain 0 k batch_size lease inst others locked send now jitter s = None"
| "drain (Suc fuel) k batch_size lease inst others locked send now jitter s =
     (case others k s of (q0, w0) \<Rightarrow>
        case claim_batch batch_size lease inst (locked k) (now k) q0 of
          (claimed, q) \<Rightarrow>
            if claimed = [] then Some (q, w0)
            else case process_rows send (now k) (jitter k) (map fst claimed) (q, w0) of
              (results, s') \<Rightarrow>
                if True \<notin> set results then Some s'
                else drain fuel (Suc k) batch_size lease inst others locked send now jitter s')"

definition parked_commands :: "nat \<Rightarrow> queue \<Rightarrow> command list" where
  "parked_commands limit q =
     take limit (sort_key (\<lambda>c. - the (cm_parked_at c)) (filter (\<lambda>c. cm_parked_at c \<noteq> None) (qu_commands q)))"

definition claimable_backlog :: "queue \<Rightarrow> nat" where
  "claimable_backlog q =
     length (filter (\<lambda>c. cm_processed_at c = None \<and> cm_parked_at c = None \<and>
       (ends_with (cm_type c) ''Command'' \<or> cm_type c = ''SagaTimedOut'')) (qu_commands q))"

section \<open>Reservation plans\<close>

text \<open>What an order asks of a product: the sum over its lines.\<close>

definition line_quantity :: "json \<Rightarrow> int" where
  "line_quantity entry = (case dict_default entry ''quantity'' (JInt 1) of JInt q \<Rightarrow> q | _ \<Rightarrow> 0)"

definition line_product :: "json \<Rightarrow> string" where
  "line_product entry = py_str (dict_get_null entry ''product_id'')"

definition asked :: "json list \<Rightarrow> string \<Rightarrow> int" where
  "asked items p = sum_list (map line_quantity (filter (\<lambda>e. line_product e = p) items))"

definition total_of :: "(string \<times> int) list \<Rightarrow> string \<Rightarrow> int" where
  "total_of totals p = (case map_of totals p of None \<Rightarrow> 0 | Some n \<Rightarrow> n)"

definition usable_line :: "json \<Rightarrow> bool" where
  "usable_line entry \<longleftrightarrow> is_dict entry \<and> truthy (dict_get_null entry ''product_id'') \<and>
     (\<exists>q > 0. dict_default entry ''quantity'' (JInt 1) = JInt q)"

lemma total_of_dict_set: "total_of (dict_set d k v) p = (if p = k then v else total_of d p)"
  by (simp add: total_of_def lookup_dict_set)

lemma total_quantities_Inr:
  "total_quantities items totals = Inr totals' \<Longrightarrow>
     (\<forall>e \<in> set items. usable_line e) \<and> (\<forall>p. total_of totals' p = total_of totals p + asked items p) \<and>
     fst ` set totals' = fst ` set totals \<union> line_product ` set items \<and> distinct (map fst totals') = distinct (map fst totals)"
proof (induction items totals rule: total_quantities.induct)
  case (1 totals)
  then show ?case by (simp add: asked_def)
next
  case (2 entry items totals)
  from 2(2) obtain q where q: "is_dict entry" "truthy (dict_get_null entry ''product_id'')"
      "dict_default entry ''quantity'' (JInt 1) = JInt q" "0 < q"
    by (auto simp: Let_def split: if_splits json.splits)
  let ?p = "line_product entry"
  let ?t = "dict_set totals ?p (total_of totals ?p + q)"
  from q 2(2) have run: "total_quantities items ?t = Inr totals'"
    by (simp add: Let_def line_product_def total_of_def)
  have IH: "(\<forall>e \<in> set items. usable_line e) \<and> (\<forall>p. total_of totals' p = total_of ?t p + asked items p) \<and>
      fst ` set totals' = fst ` set ?t \<union> line_product ` set items \<and> distinct (map fst totals') = distinct (map fst ?t)"
    using 2(1) [OF _ refl _ q(3) _ refl] q run by (simp add: line_product_def total_of_def)
  have "set (map fst ?t) = insert ?p (set (map fst totals))" unfolding keys_dict_set by auto
  moreover have "asked (entry # items) p = (if p = ?p then q else 0) + asked items p" for p
    by (simp add: asked_def line_quantity_def q(3))
  moreover have "usable_line entry" using q by (auto simp: usable_line_def)
  ultimately show ?case using IH by (auto simp: total_of_dict_set)
qed

lemma total_quantities_usable:
  "\<forall>e \<in> set items. usable_line e \<Longrightarrow> \<exists>totals'. total_quantities items totals = Inr totals'"
  by (induction items totals rule: total_quantities.induct) (auto simp: usable_line_def Let_def)

lemma plan_Inr:
  assumes "plan_item_reservations payload = Inr lines"
  obtains items where "reservation_lines payload = JArr items" "items \<noteq> []" "\<forall>e \<in> set items. usable_line e"
    "sorted (map ir_product_id lines)" "distinct (map ir_product_id lines)"
    "set (map ir_product_id lines) = line_product ` set items"
    "\<forall>r \<in> set lines. ir_quantity r = asked items (ir_product_id r)"
proof -
  from assms obtain items totals where items: "reservation_lines payload = JArr items" "items \<noteq> []"
      "total_quantities items [] = Inr totals"
    and lines: "lines = map (\<lambda>(p, q). \<lparr>ir_product_id = p, ir_quantity = q\<rparr>) (sort_key fst totals)"
    by (auto simp: plan_item_reservations_def split: json.splits list.splits sum.splits)
  note t = total_quantities_Inr [OF items(3)]
  have ids: "map ir_product_id lines = map fst (sort_key fst totals)" by (simp add: lines comp_def case_prod_unfold)
  have d: "distinct (map fst totals)" using t by simp
  have sets: "set (map fst (sort_key fst totals)) = set (map fst totals)" by (simp only: set_map set_sort)
  have "mset (map fst (sort_key fst totals)) = mset (map fst totals)" by (simp only: mset_map mset_sort)
  then have d': "distinct (map fst (sort_key fst totals))" using d mset_eq_imp_distinct_iff by blast
  have "ir_quantity r = asked items (ir_product_id r)" if "r \<in> set lines" for r
  proof -
    from that obtain p q where r: "r = \<lparr>ir_product_id = p, ir_quantity = q\<rparr>" "(p, q) \<in> set totals" by (auto simp: lines)
    then have "map_of totals p = Some q" using d by simp
    moreover have "total_of totals p = asked items p" using t by (simp add: total_of_def)
    ultimately show ?thesis by (simp add: r(1) total_of_def)
  qed
  moreover have "set (map ir_product_id lines) = line_product ` set items" unfolding ids sets using t by simp
  moreover have "sorted (map ir_product_id lines)" unfolding ids by (rule sorted_sort_key)
  moreover have "distinct (map ir_product_id lines)" unfolding ids by (rule d')
  ultimately show ?thesis using items t by (intro that) auto
qed

section \<open>The queue under the dispatcher\<close>

definition pending :: "command \<Rightarrow> bool" where
  "pending c \<longleftrightarrow> cm_processed_at c = None \<and> cm_parked_at c = None"

definition pending_count :: "queue \<Rightarrow> nat" where
  "pending_count q = length (filter pending (qu_commands q))"

definition has_pending :: "queue \<Rightarrow> string \<Rightarrow> bool" where
  "has_pending q i \<longleftrightarrow> (\<exists>c \<in> set (qu_commands q). cm_id c = i \<and> pending c)"

text \<open>Every statement of the dispatcher rewrites the rows of one id; it closes them or keeps them pending.\<close>

lemma closing_count:
  assumes "\<And>c. \<not> pending (f c)"
  shows "pending_count (update_command i f q) \<le> pending_count q"
    and "has_pending q i \<Longrightarrow> pending_count (update_command i f q) < pending_count q"
proof -
  have le: "length (filter pending (map (\<lambda>c. if cm_id c = i then f c else c) cs)) \<le> length (filter pending cs)" for cs
    using assms by (induction cs) auto
  then show "pending_count (update_command i f q) \<le> pending_count q" by (simp add: pending_count_def update_command_def)
  have "length (filter pending (map (\<lambda>c. if cm_id c = i then f c else c) cs)) < length (filter pending cs)"
    if "c \<in> set cs" "cm_id c = i" "pending c" for c cs
    using that
  proof (induction cs)
    case (Cons a cs)
    show ?case
    proof (cases "a = c")
      case True
      with Cons.prems assms le [of cs] show ?thesis by (simp add: le_imp_less_Suc)
    next
      case False
      with Cons assms show ?thesis by auto
    qed
  qed simp
  then show "has_pending q i \<Longrightarrow> pending_count (update_command i f q) < pending_count q"
    by (auto simp: pending_count_def update_command_def has_pending_def)
qed

lemma keeping_count:
  assumes "\<And>c. pending (f c) = pending c"
  shows "pending_count (update_command i f q) = pending_count q"
proof -
  have "length (filter pending (map (\<lambda>c. if cm_id c = i then f c else c) cs)) = length (filter pending cs)" for cs
    using assms by (induction cs) auto
  then show ?thesis by (simp add: pending_count_def update_command_def)
qed

lemma update_other: "i \<noteq> j \<Longrightarrow> has_pending q j \<Longrightarrow> has_pending (update_command i f q) j"
  by (force simp: has_pending_def update_command_def)

lemma queue_sel [simp]:
  "qu_commands (forget_processed_event i q) = qu_commands q"
  "qu_commands (snd (record_processed_event i q)) = qu_commands q"
  "update_command i f (forget_processed_event j q) = forget_processed_event j (update_command i f q)"
  by (simp_all add: forget_processed_event_def record_processed_event_def update_command_def)

lemma queue_cong: "qu_commands q' = qu_commands q \<Longrightarrow> pending_count q' = pending_count q \<and> has_pending q' = has_pending q"
  by (simp add: pending_count_def has_pending_def fun_eq_iff)

text \<open>One processed row: progress closes the row, anything else leaves the queue as long as it was.\<close>

lemma settle_row_cases:
  assumes "settle_row now jitter row outcome shed q = (b, q')"
  obtains f where "b" "\<And>c. \<not> pending (f c)" "qu_commands q' = qu_commands (update_command (cm_id row) f q)"
  | f where "\<not> b" "\<And>c. pending (f c) = pending c" "\<And>c. cm_id (f c) = cm_id c"
      "qu_commands q' = qu_commands (update_command (cm_id row) f q)"
proof (cases b)
  case True
  show ?thesis
  proof (cases "oc_settled outcome")
    case settled: True
    with assms have "q' = mark_processed now (cm_id row) q" by (simp add: settle_row_def)
    with True show ?thesis
      by (intro that(1) [of "\<lambda>c. c\<lparr>cm_processed_at := Some now\<rparr>"]) (simp_all add: mark_processed_def pending_def)
  next
    case False
    with assms True have "qu_commands q' = qu_commands (park_claim now (cm_id row) (oc_error outcome) q)"
      by (auto simp: settle_row_def Let_def park_claim_def split: if_splits)
    with True show ?thesis
      by (intro that(1) [of "\<lambda>c. c\<lparr>cm_claimed_at := None, cm_claimed_by := None, cm_attempts := cm_attempts c + 1,
            cm_parked_at := Some now, cm_last_error := Some (stored_error (oc_error outcome))\<rparr>"])
        (simp_all add: park_claim_def pending_def)
  qed
next
  case False
  with assms obtain delay where "qu_commands q' = qu_commands (defer_claim now (cm_id row) delay (oc_error outcome) (\<not> shed) q)"
    by (auto simp: settle_row_def Let_def defer_claim_def split: if_splits)
  with False show ?thesis
    by (intro that(2) [of "\<lambda>c. c\<lparr>cm_claimed_at := None, cm_claimed_by := None,
       cm_attempts := cm_attempts c + (if \<not> shed then 1 else 0),
       cm_next_attempt_at := Some (now + delay), cm_last_error := Some (stored_error (oc_error outcome))\<rparr>"])
      (simp_all add: defer_claim_def pending_def)
qed

lemma process_one_cases:
  assumes "process_one send now jitter row (q, w) = (b, (q', w'))"
  obtains (closed) f where "b" "\<And>c. \<not> pending (f c)" "qu_commands q' = qu_commands (update_command (cm_id row) f q)"
  | (kept) f where "\<not> b" "\<And>c. pending (f c) = pending c" "\<And>c. cm_id (f c) = cm_id c"
      "qu_commands q' = qu_commands (update_command (cm_id row) f q)"
proof (cases "fst (record_processed_event (cm_id row) q)")
  case False
  with assms have "b" "q' = mark_processed now (cm_id row) q"
    by (auto simp: process_one_def record_processed_event_def split: if_splits)
  then show ?thesis
    by (intro closed [of "\<lambda>c. c\<lparr>cm_processed_at := Some now\<rparr>"]) (simp_all add: mark_processed_def pending_def)
next
  case True
  let ?q = "snd (record_processed_event (cm_id row) q)"
  obtain r w1 where h: "handle send (cm_id row) (cm_type row) (cm_payload row) w = (r, w1)" by (rule prod.exhaust)
  obtain outcome shed where o: "attempt_outcome r = (outcome, shed)" by (rule prod.exhaust)
  from True assms h o have "settle_row now jitter row outcome shed ?q = (b, q')"
    by (auto simp: process_one_def record_processed_event_def split: if_splits prod.splits)
  moreover have eq: "qu_commands (update_command (cm_id row) f ?q) = qu_commands (update_command (cm_id row) f q)" for f
    by (simp add: update_command_def)
  ultimately show ?thesis
  proof (cases rule: settle_row_cases)
    case (1 f)
    then show ?thesis by (intro closed [of f]) (simp_all add: eq)
  next
    case (2 f)
    then show ?thesis by (intro kept [of f]) (simp_all add: eq)
  qed
qed

lemma keeping_pending:
  assumes "\<And>c. pending (f c) = pending c" and "\<And>c. cm_id (f c) = cm_id c"
  shows "has_pending (update_command i f q) = has_pending q"
proof
  fix j
  have "(\<exists>c \<in> set (map (\<lambda>c. if cm_id c = i then f c else c) cs). cm_id c = j \<and> pending c) = (\<exists>c \<in> set cs. cm_id c = j \<and> pending c)" for cs
    by (induction cs) (simp_all add: assms)
  then show "has_pending (update_command i f q) j = has_pending q j"
    by (simp add: has_pending_def update_command_def del: set_map)
qed

lemma process_one_count:
  assumes "process_one send now jitter row (q, w) = (b, (q', w'))" and "has_pending q (cm_id row)"
  shows "b \<and> pending_count q' < pending_count q \<or>
     \<not> b \<and> pending_count q' = pending_count q \<and> has_pending q' = has_pending q"
  using assms(1)
proof (cases rule: process_one_cases)
  case (closed f)
  with closing_count(2) [of f q "cm_id row"] assms(2) queue_cong [OF closed(3)] show ?thesis by simp
next
  case (kept f)
  with keeping_count [of f "cm_id row" q] keeping_pending [of f "cm_id row" q] queue_cong [OF kept(4)] show ?thesis by simp
qed

lemma process_one_le:
  assumes "process_one send now jitter row (q, w) = (b, (q', w'))"
  shows "pending_count q' \<le> pending_count q"
  using assms
proof (cases rule: process_one_cases)
  case (closed f)
  with closing_count(1) [of f "cm_id row" q] queue_cong [OF closed(3)] show ?thesis by simp
next
  case (kept f)
  with keeping_count [of f "cm_id row" q] queue_cong [OF kept(4)] show ?thesis by simp
qed

lemma process_rows_le: "process_rows send now jitter rows (q, w) = (bs, (q', w')) \<Longrightarrow> pending_count q' \<le> pending_count q"
proof (induction rows arbitrary: q w bs)
  case (Cons row rows)
  obtain b q1 w1 where one: "process_one send now jitter row (q, w) = (b, (q1, w1))" by (metis prod.exhaust)
  obtain bs' where "process_rows send now jitter rows (q1, w1) = (bs', (q', w'))"
    using Cons.prems one by (auto split: prod.splits)
  with Cons.IH process_one_le [OF one] show ?case by force
qed simp

lemma process_rows_progress:
  "process_rows send now jitter rows (q, w) = (bs, (q', w')) \<Longrightarrow> \<forall>row \<in> set rows. has_pending q (cm_id row) \<Longrightarrow>
     True \<in> set bs \<Longrightarrow> pending_count q' < pending_count q"
proof (induction rows arbitrary: q w bs)
  case (Cons row rows)
  obtain b q1 w1 where one: "process_one send now jitter row (q, w) = (b, (q1, w1))" by (metis prod.exhaust)
  then obtain bs' where rest: "process_rows send now jitter rows (q1, w1) = (bs', (q', w'))" and bs: "bs = b # bs'"
    using Cons.prems(1) by (auto split: prod.splits)
  have "has_pending q (cm_id row)" using Cons.prems(2) by simp
  from process_one_count [OF one this] show ?case
  proof (elim disjE conjE)
    assume "pending_count q1 < pending_count q"
    with process_rows_le [OF rest] show ?thesis by simp
  next
    assume "\<not> b" "pending_count q1 = pending_count q" "has_pending q1 = has_pending q"
    with Cons.IH [OF rest] Cons.prems(2,3) bs show ?thesis by simp
  qed
qed simp

lemma claim_batch_ok:
  assumes "claim_batch n lease inst locked now q = (claimed, q')"
  shows "pending_count q' = pending_count q" and "\<forall>row \<in> set (map fst claimed). has_pending q' (cm_id row)"
    and "\<forall>(row, stale) \<in> set claimed. \<not> stale"
proof -
  define ids where "ids = map cm_id (take n (filter (\<lambda>c. \<not> locked (cm_id c))
    (sort_key cm_created_at (filter (claimable now lease) (qu_commands q)))))"
  define claim :: "command \<Rightarrow> command" where "claim = (\<lambda>c. if cm_id c \<in> set ids then c\<lparr>cm_claimed_at := Some now, cm_claimed_by := Some inst\<rparr> else c)"
  from assms have q': "q' = q\<lparr>qu_commands := map claim (qu_commands q)\<rparr>"
    and claimed: "claimed = map (\<lambda>c. (c, cm_claimed_by c \<noteq> Some inst)) (filter (\<lambda>c. cm_id c \<in> set ids) (qu_commands q'))"
    by (auto simp: claim_batch_def Let_def ids_def claim_def)
  have claim_sel: "pending (claim c) = pending c" "cm_id (claim c) = cm_id c" for c by (simp_all add: claim_def pending_def)
  have "length (filter pending (map claim cs)) = length (filter pending cs)" for cs
    by (induction cs) (simp_all add: claim_sel)
  then show "pending_count q' = pending_count q" by (simp add: pending_count_def q')
  show "\<forall>(row, stale) \<in> set claimed. \<not> stale" by (auto simp: claimed q' claim_def)
  show "\<forall>row \<in> set (map fst claimed). has_pending q' (cm_id row)"
  proof
    fix row
    assume "row \<in> set (map fst claimed)"
    then have "cm_id row \<in> set ids" by (auto simp: claimed)
    then obtain c where "c \<in> set (qu_commands q)" "claimable now lease c" "cm_id c = cm_id row"
      unfolding ids_def by (auto dest!: in_set_takeD)
    moreover from this(2) have "pending c" by (simp add: claimable_def pending_def)
    ultimately have "claim c \<in> set (qu_commands q')" "pending (claim c)" "cm_id (claim c) = cm_id row"
      by (simp_all add: q' claim_sel)
    then show "has_pending q' (cm_id row)" unfolding has_pending_def by blast
  qed
qed

section \<open>Properties\<close>

lemma drain_rounds:
  assumes "\<And>k s. pending_count (fst (others k s)) \<le> pending_count (fst s) + arrivals k"
    and "pending_count (fst s) + (\<Sum>i<fuel. arrivals (k + i)) < fuel"
  shows "\<exists>s'. drain fuel k batch_size lease inst others locked send now jitter s = Some s'"
  using assms(2)
proof (induction fuel arbitrary: k s)
  case (Suc fuel)
  obtain q w where o: "others k s = (q, w)" by (rule prod.exhaust)
  obtain claimed q1 where c: "claim_batch batch_size lease inst (locked k) (now k) q = (claimed, q1)" by (rule prod.exhaust)
  obtain bs q2 w2 where p: "process_rows send (now k) (jitter k) (map fst claimed) (q1, w) = (bs, (q2, w2))" by (metis prod.exhaust)
  show ?case
  proof (cases "claimed \<noteq> [] \<and> True \<in> set bs")
    case True
    then have "pending_count q2 < pending_count q"
      using process_rows_progress [OF p claim_batch_ok(2) [OF c]] claim_batch_ok(1) [OF c] by simp
    moreover have "pending_count q \<le> pending_count (fst s) + arrivals k" using assms(1) [of k s] by (simp add: o)
    moreover have "(\<Sum>i<Suc fuel. arrivals (k + i)) = arrivals k + (\<Sum>i<fuel. arrivals (Suc k + i))"
      by (subst sum.lessThan_Suc_shift) simp
    ultimately have "pending_count (fst (q2, w2)) + (\<Sum>i<fuel. arrivals (Suc k + i)) < fuel" using Suc.prems by simp
    with Suc.IH o c p True show ?thesis by simp
  next
    case False
    with o c p show ?thesis by auto
  qed
qed simp

text \<open>
  Property C33 (a drain ends). One pass of the dispatch loop terminates, whatever the services answer,
  whichever rows are locked and whatever other transactions do to the outbox between two claims, as
  long as they add a bounded number of commands during the pass: a batch that lets the pass go on has
  closed a command, so there is at most one batch more than there are commands neither processed nor
  parked at the start and commands that arrive. A pass into which commands arrive without end, as fast
  as it settles them, is not claimed to end.
\<close>

theorem drain_terminates:
  assumes "\<And>k s. pending_count (fst (others k s)) \<le> pending_count (fst s) + arrivals k"
    and "\<And>n. (\<Sum>i<n. arrivals i) \<le> most" and "pending_count (fst s) + most < fuel"
  shows "\<exists>s'. drain fuel 0 batch_size lease inst others locked send now jitter s = Some s'"
proof (rule drain_rounds [OF assms(1)])
  show "pending_count (fst s) + (\<Sum>i<fuel. arrivals (0 + i)) < fuel" using assms(2) [of fuel] assms(3) by simp
qed

definition demo_command :: command where
  "demo_command = \<lparr>cm_id = ''m1'', cm_aggregate_type = ''OrderSaga'', cm_type = ''RefundPaymentCommand'',
     cm_payload = JObj [(''order_id'', JStr ''o1''), (''user_id'', JStr ''u1'')], cm_created_at = 0, cm_processed_at = None,
     cm_parked_at = None, cm_next_attempt_at = None, cm_claimed_at = None, cm_claimed_by = None, cm_attempts = 0,
     cm_last_error = None\<rparr>"

definition demo_queue :: queue where
  "demo_queue = \<lparr>qu_commands = [demo_command], qu_events = []\<rparr>"

text \<open>A world in which every call is answered with one status.\<close>

definition always :: "int \<Rightarrow> call \<Rightarrow> unit \<Rightarrow> sent \<times> unit" where
  "always status c w = (Call_Answered status [], w)"

text \<open>The order service writes a second command while the first one is handled.\<close>

definition demo_arrival :: "nat \<Rightarrow> queue \<times> unit \<Rightarrow> queue \<times> unit" where
  "demo_arrival k s =
     (if k = 1 then ((fst s)\<lparr>qu_commands := qu_commands (fst s) @ [demo_command\<lparr>cm_id := ''m2''\<rparr>]\<rparr>, ()) else s)"

theorem drain_terminates_witness:
  "\<exists>s'. drain 3 0 20 120 ''d1'' demo_arrival (\<lambda>_ _. False) (always 200) (\<lambda>k. 5) (\<lambda>k. 0) (demo_queue, ()) = Some s'"
proof (rule drain_terminates [where arrivals = "\<lambda>k. if k = 1 then 1 else 0" and most = 1])
  show "pending_count (fst (demo_arrival k s)) \<le> pending_count (fst s) + (if k = 1 then 1 else 0)" for k s
    by (simp add: demo_arrival_def pending_count_def)
  show "(\<Sum>i<n. if i = 1 then 1 else 0) \<le> (1 :: nat)" for n :: nat by (simp add: sum.delta)
  show "pending_count (fst (demo_queue, ())) + 1 < 3" by (simp add: demo_queue_def pending_count_def demo_command_def pending_def)
qed

text \<open>
  The queue under any number of dispatchers that do not overlap on a row, which the lease on a claim
  gives to those that finish within it: commands are added, claimed, and processed against an arbitrary
  world. \<open>random.random()\<close> lies between 0 and 1.
\<close>

inductive queue_step :: "queue \<times> 'w \<Rightarrow> queue \<times> 'w \<Rightarrow> bool" where
  enqueue: "cm_attempts c = 0 \<Longrightarrow> pending c \<Longrightarrow> cm_id c \<notin> cm_id ` set (qu_commands q) \<Longrightarrow>
    queue_step (q, w) (q\<lparr>qu_commands := qu_commands q @ [c]\<rparr>, w')"
| claim: "queue_step (q, w) (snd (claim_batch n lease inst locked now q), w)"
| process: "row \<in> set (qu_commands q) \<Longrightarrow> pending row \<Longrightarrow> 0 \<le> jitter \<Longrightarrow> jitter < 1 \<Longrightarrow>
    queue_step (q, w) (snd (process_one send now jitter row (q, w)))"

definition empty_queue :: "queue \<times> 'w \<Rightarrow> bool" where
  "empty_queue s \<longleftrightarrow> qu_commands (fst s) = []"

definition attempts_ok :: "command \<Rightarrow> bool" where
  "attempts_ok c \<longleftrightarrow> cm_attempts c \<le> MAX_ATTEMPTS \<and> (pending c \<longrightarrow> cm_attempts c < MAX_ATTEMPTS)"

definition queue_inv :: "queue \<Rightarrow> bool" where
  "queue_inv q \<longleftrightarrow> distinct (map cm_id (qu_commands q)) \<and> (\<forall>c \<in> set (qu_commands q). attempts_ok c)"

lemma queue_inv_update:
  assumes "queue_inv q" and "row \<in> set (qu_commands q)" and "cm_id (f row) = cm_id row" and "attempts_ok (f row)"
    and "qu_commands q' = qu_commands (update_command (cm_id row) f q)"
  shows "queue_inv q'"
proof -
  have only: "c = row" if "c \<in> set (qu_commands q)" "cm_id c = cm_id row" for c
    using assms(1,2) that by (auto simp: queue_inv_def distinct_map inj_on_def)
  have "map cm_id (qu_commands q') = map cm_id (qu_commands q)"
    using only assms(3,5) by (auto simp: update_command_def)
  moreover have "attempts_ok c" if "c \<in> set (qu_commands q')" for c
    using that assms(1,4,5) only by (auto simp: queue_inv_def update_command_def)
  ultimately show ?thesis using assms(1) unfolding queue_inv_def by simp
qed

definition shed_attempt :: "(call \<Rightarrow> 'w \<Rightarrow> sent \<times> 'w) \<Rightarrow> command \<Rightarrow> 'w \<Rightarrow> bool" where
  "shed_attempt send row w \<longleftrightarrow> snd (attempt_outcome (fst (handle send (cm_id row) (cm_type row) (cm_payload row) w)))"

text \<open>What an attempt leaves of the row.\<close>

definition attempted :: "rat \<Rightarrow> rat \<Rightarrow> bool \<Rightarrow> bool \<Rightarrow> command \<Rightarrow> command \<Rightarrow> bool" where
  "attempted now jitter shed done row c \<longleftrightarrow>
     (if done then \<not> pending c
      else pending c \<and> cm_attempts c = cm_attempts row + (if shed then 0 else 1) \<and>
        cm_next_attempt_at c = Some (now + the (backoff_seconds (max 1 (cm_attempts c)) 2 300 jitter)))"

lemma process_one_row:
  assumes "queue_inv q" and "row \<in> set (qu_commands q)" and "pending row"
    and "process_one send now jitter row (q, w) = (b, (q', w'))"
  shows "\<exists>f. cm_id (f row) = cm_id row \<and> attempts_ok (f row) \<and> qu_commands q' = qu_commands (update_command (cm_id row) f q) \<and>
     attempted now jitter (shed_attempt send row w) b row (f row)"
proof -
  have ok: "attempts_ok row" using assms(1,2) by (simp add: queue_inv_def)
  then have few: "cm_attempts row < MAX_ATTEMPTS" using assms(3) by (simp add: attempts_ok_def)
  let ?q = "snd (record_processed_event (cm_id row) q)"
  show ?thesis
  proof (cases "fst (record_processed_event (cm_id row) q)")
    case False
    with assms(4) have "q' = mark_processed now (cm_id row) q" "b"
      by (auto simp: process_one_def record_processed_event_def split: if_splits)
    with few show ?thesis
      by (intro exI [of _ "\<lambda>c. c\<lparr>cm_processed_at := Some now\<rparr>"]) (simp add: mark_processed_def attempts_ok_def pending_def attempted_def)
  next
    case True
    obtain r w1 where h: "handle send (cm_id row) (cm_type row) (cm_payload row) w = (r, w1)" by (rule prod.exhaust)
    obtain outcome shed where o: "attempt_outcome r = (outcome, shed)" by (rule prod.exhaust)
    from True assms(4) h o have run: "settle_row now jitter row outcome shed ?q = (b, q')"
      by (auto simp: process_one_def record_processed_event_def split: if_splits prod.splits)
    have cmds: "qu_commands (update_command (cm_id row) f ?q) = qu_commands (update_command (cm_id row) f q)" for f
      by (simp add: update_command_def)
    have shed: "shed \<Longrightarrow> oc_disposition outcome = RETRY"
      using o by (auto simp: attempt_outcome_def retry_def split: sum.splits call_error.splits)
    have s: "shed_attempt send row w = shed" by (simp add: shed_attempt_def h o)
    consider (settled) "b" "q' = mark_processed now (cm_id row) ?q"
      | (parked) "b" "qu_commands q' = qu_commands (park_claim now (cm_id row) (oc_error outcome) ?q)"
      | (deferred) "\<not> b" "cm_attempts row + (if shed then 0 else 1) < MAX_ATTEMPTS"
          "qu_commands q' = qu_commands (defer_claim now (cm_id row)
             (the (backoff_seconds (max 1 (cm_attempts row + (if shed then 0 else 1))) 2 300 jitter)) (oc_error outcome) (\<not> shed) ?q)"
      using run
      by (cases "oc_disposition outcome")
        (auto simp: settle_row_def Let_def oc_settled_def disposition_after_def park_claim_def defer_claim_def not_le split: if_splits)
    then show ?thesis
    proof cases
      case settled
      with few show ?thesis
        by (intro exI [of _ "\<lambda>c. c\<lparr>cm_processed_at := Some now\<rparr>"]) (simp add: mark_processed_def cmds attempts_ok_def pending_def attempted_def)
    next
      case parked
      with few show ?thesis
        by (intro exI [of _ "\<lambda>c. c\<lparr>cm_claimed_at := None, cm_claimed_by := None, cm_attempts := cm_attempts c + 1,
            cm_parked_at := Some now, cm_last_error := Some (stored_error (oc_error outcome))\<rparr>"])
          (simp add: park_claim_def cmds attempts_ok_def pending_def attempted_def)
    next
      case deferred
      with assms(3) show ?thesis
        by (intro exI [of _ "\<lambda>c. c\<lparr>cm_claimed_at := None, cm_claimed_by := None,
            cm_attempts := cm_attempts c + (if \<not> shed then 1 else 0),
            cm_next_attempt_at := Some (now + the (backoff_seconds (max 1 (cm_attempts row + (if shed then 0 else 1))) 2 300 jitter)),
            cm_last_error := Some (stored_error (oc_error outcome))\<rparr>"])
          (auto simp: defer_claim_def cmds attempts_ok_def attempted_def s pending_def)
    qed
  qed
qed

lemma process_one_inv:
  assumes "queue_inv q" and "row \<in> set (qu_commands q)" and "pending row"
    and "process_one send now jitter row (q, w) = (b, (q', w'))"
  shows "queue_inv q'"
  using process_one_row [OF assms] queue_inv_update [OF assms(1,2)] by blast

lemma claim_batch_inv: "queue_inv q \<Longrightarrow> queue_inv (snd (claim_batch n lease inst locked now q))"
proof -
  assume "queue_inv q"
  moreover have "map cm_id (map (\<lambda>c. if P c then c\<lparr>cm_claimed_at := a, cm_claimed_by := b\<rparr> else c) cs) = map cm_id cs"
    for P a b and cs :: "command list" by simp
  ultimately show ?thesis
    by (auto simp: queue_inv_def claim_batch_def Let_def attempts_ok_def pending_def simp del: map_map split: if_splits)
qed

interpretation dispatcher: inductive_invariant empty_queue queue_step "\<lambda>s. queue_inv (fst s)"
proof unfold_locales
  show "empty_queue s \<Longrightarrow> queue_inv (fst s)" for s :: "queue \<times> 'w" by (simp add: empty_queue_def queue_inv_def)
next
  fix s s' :: "queue \<times> 'w"
  assume inv: "queue_inv (fst s)" and "queue_step s s'"
  from this(2) show "queue_inv (fst s')"
  proof cases
    case (enqueue c q w w')
    with inv show ?thesis by (auto simp: queue_inv_def attempts_ok_def MAX_ATTEMPTS_def)
  next
    case (claim q w n lease inst locked now)
    with inv claim_batch_inv show ?thesis by simp
  next
    case (process row q jitter w send now)
    obtain b q' w' where run: "process_one send now jitter row (q, w) = (b, (q', w'))" by (metis prod.exhaust)
    with process_one_inv [OF _ process(3,4) run] inv process show ?thesis by simp
  qed
qed

lemma backoff_bounds:
  assumes "backoff_seconds n 2 300 jitter = Some d"
  shows "1 \<le> d" and "d \<le> min 300 (2 * 2 ^ (n - 1))"
proof -
  let ?D = "min 300 (2 * 2 ^ (n - 1)) :: rat"
  from assms have j: "0 \<le> jitter" "jitter < 1" and d: "d = ?D * (1 - jitter / 2)"
    by (auto simp: backoff_seconds_def split: if_splits)
  have D: "2 \<le> ?D" using one_le_power [of "2 :: rat" "n - 1"] by simp
  have "2 * (1 / 2) \<le> ?D * (1 - jitter / 2)" by (rule mult_mono) (use D j in auto)
  then show "1 \<le> d" by (simp add: d)
  have "?D * (1 - jitter / 2) \<le> ?D * 1" by (rule mult_left_mono) (use D j in auto)
  then show "d \<le> ?D" unfolding d by simp
qed

lemma backoff_total:
  assumes "list_all2 (\<lambda>n d. \<exists>jitter. backoff_seconds n 2 300 jitter = Some d) ns ds"
  shows "sum_list ds \<le> sum_list (map (\<lambda>n. min 300 (2 * 2 ^ (n - 1))) ns)"
  using assms by (induction rule: list_all2_induct) (auto dest!: backoff_bounds(2) intro: add_mono)

text \<open>
  Property C34 (no command is retried for ever). While dispatchers do not overlap on a row, and however
  the services answer: no command has more than 15 counted attempts, and one that is neither processed
  nor parked has fewer. An attempt either closes its row, which no later claim takes, or hands it back
  with a stored time before which no claim takes it, at least one second and at most two to the power of
  the attempts, and never more than five minutes, from now. A failed attempt that is handed back is
  counted, so the fifteenth parks the command, unless the load was shed: an attempt that the breaker or
  the bulkhead refused is not counted, and how many of those there are is not bounded.
\<close>

theorem retries_bounded:
  assumes "reachable empty_queue queue_step (q, w)" and "row \<in> set (qu_commands q)" and "pending row"
    and "0 \<le> jitter" and "jitter < 1" and "process_one send now jitter row (q, w) = (b, (q', w'))"
  shows "(\<forall>c \<in> set (qu_commands q'). cm_attempts c \<le> 15 \<and> (cm_processed_at c = None \<and> cm_parked_at c = None \<longrightarrow> cm_attempts c < 15)) \<and>
     (\<exists>c \<in> set (qu_commands q'). cm_id c = cm_id row \<and>
        (if b then \<forall>t lease. \<not> claimable t lease c
         else cm_processed_at c = None \<and> cm_parked_at c = None \<and>
           cm_attempts c = cm_attempts row + (if shed_attempt send row w then 0 else 1) \<and>
           (\<exists>t. cm_next_attempt_at c = Some t \<and> now + 1 \<le> t \<and> t \<le> now + min 300 (2 ^ max 1 (cm_attempts c)) \<and>
              (\<forall>now' lease. now' < t \<longrightarrow> \<not> claimable now' lease c))))"
proof -
  have inv: "queue_inv q" using dispatcher.reachable_inv [OF assms(1)] by simp
  from process_one_row [OF inv assms(2,3,6)] obtain f where f: "cm_id (f row) = cm_id row"
    "qu_commands q' = qu_commands (update_command (cm_id row) f q)" "attempted now jitter (shed_attempt send row w) b row (f row)"
    by blast
  have "f row \<in> set (qu_commands q')" using assms(2) by (auto simp: f(2) update_command_def)
  moreover have "\<not> claimable t lease (f row)" if b for t lease
    using f(3) that by (auto simp: attempted_def pending_def claimable_def)
  moreover have "now + 1 \<le> now + the (backoff_seconds (max 1 n) 2 300 jitter) \<and>
      now + the (backoff_seconds (max 1 n) 2 300 jitter) \<le> now + min 300 (2 ^ max 1 n)" for n
  proof -
    obtain d where d: "backoff_seconds (max 1 n) 2 300 jitter = Some d" using assms(4,5) by (simp add: backoff_seconds_def)
    have "2 * 2 ^ (max 1 n - 1) = (2 ^ max 1 n :: rat)" by (cases n) simp_all
    with backoff_bounds [OF d] d show ?thesis by simp
  qed
  moreover have "\<not> claimable now' lease (f row)" if "cm_next_attempt_at (f row) = Some t" "now' < t" for now' lease t
    using that by (simp add: claimable_def)
  moreover have "cm_attempts c \<le> 15 \<and> (cm_processed_at c = None \<and> cm_parked_at c = None \<longrightarrow> cm_attempts c < 15)"
    if "c \<in> set (qu_commands q')" for c
    using process_one_inv [OF inv assms(2,3,6)] that by (auto simp: queue_inv_def attempts_ok_def pending_def MAX_ATTEMPTS_def)
  ultimately show ?thesis
    using f(1,3) by (intro conjI ballI bexI [of _ "f row"]) (auto simp: attempted_def pending_def)
qed

lemma demo_queue_reachable: "reachable empty_queue queue_step (demo_queue, ())"
proof -
  have "reachable empty_queue queue_step (\<lparr>qu_commands = [], qu_events = []\<rparr>, ())" by (rule reach_init) (simp add: empty_queue_def)
  then show ?thesis
    by (rule reach_step)
      (use queue_step.enqueue [of demo_command "\<lparr>qu_commands = [], qu_events = []\<rparr>" "()" "()"]
        in \<open>simp add: demo_queue_def demo_command_def pending_def\<close>)
qed

theorem retries_bounded_witness:
  "\<exists>q' c t. process_one (always 503) 5 0 demo_command (demo_queue, ()) = (False, (q', ())) \<and> c \<in> set (qu_commands q') \<and>
     cm_id c = ''m1'' \<and> cm_attempts c = 1 \<and> cm_next_attempt_at c = Some t \<and> 6 \<le> t \<and> t \<le> 7"
proof -
  have b: "\<not> fst (process_one (always 503) 5 0 demo_command (demo_queue, ()))" "\<not> shed_attempt (always 503) demo_command ()"
    by code_simp+
  obtain q' where run: "process_one (always 503) 5 0 demo_command (demo_queue, ()) = (False, (q', ()))"
    using b(1) by (cases "process_one (always 503) 5 0 demo_command (demo_queue, ())") auto
  have row: "demo_command \<in> set (qu_commands demo_queue)" "pending demo_command" "cm_attempts demo_command = 0" "cm_id demo_command = ''m1''"
    by (simp_all add: demo_queue_def demo_command_def pending_def)
  from retries_bounded [OF demo_queue_reachable row(1,2) _ _ run] b(2) row(3,4) run show ?thesis by fastforce
qed

text \<open>The waits of a command that fails until it is parked add up to at most 2310 seconds.\<close>

lemma backoffs_sum:
  assumes "list_all2 (\<lambda>n d. \<exists>jitter. backoff_seconds n 2 300 jitter = Some d) [1..<15] ds"
  shows "sum_list ds \<le> 2310"
proof -
  have "[1..<15] = [1, 2, 3, 4, 5, 6, 7, 8, 9, 10, 11, 12, 13, 14 :: nat]" by code_simp
  with backoff_total [OF assms] show ?thesis by simp
qed

text \<open>
  A dispatcher that dies after it has recorded the event and before it has settled the command
  loses the command: the next holder of the row finds the record and marks it processed without
  calling anybody.
\<close>

lemma crash_loses_command:
  "process_one send now jitter row (snd (record_processed_event (cm_id row) q), w) =
     (True, (mark_processed now (cm_id row) (snd (record_processed_event (cm_id row) q)), w))"
  by (simp add: process_one_def record_processed_event_def)

text \<open>\<open>was_stale\<close> compares the new holder with itself.\<close>

lemma never_stale: "claim_batch n lease inst locked now q = (claimed, q') \<Longrightarrow> (row, stale) \<in> set claimed \<Longrightarrow> \<not> stale"
  using claim_batch_ok(3) by blast

end
