(* ===== verification/Inventory.thy ===== *)
theory Inventory
  imports Prelude
begin

text \<open>
  The inventory service, \<open>services/inventory-service/app\<close>: the stock arithmetic of
  \<open>services/reservation_rules.py\<close>, the tables of \<open>models.py\<close>, and the three handlers of
  \<open>services/inventory_service.py\<close> that reserve stock for an order, return it, or retire it.

  \<open>contended\<close> says for which products the row lock times out during the call; \<open>io\<close>, \<open>now\<close>
  and \<open>fresh\<close> are as in the order service. Time stamps inside event payloads are the clock value.
\<close>

section \<open>Stock arithmetic\<close>

record StockLevel =
  sl_available :: int
  sl_reserved :: int

definition sl_total :: "StockLevel \<Rightarrow> int" where
  "sl_total l = sl_available l + sl_reserved l"

datatype ReservationOutcome = R_RESERVED | R_INSUFFICIENT | R_NOT_FOUND | R_INVALID

record ReservationPlan =
  rp_outcome :: ReservationOutcome
  rp_new_level :: "StockLevel option"
  rp_event :: "string option"
  rp_detail :: string

definition rp_reserved :: "ReservationPlan \<Rightarrow> bool" where
  "rp_reserved p \<longleftrightarrow> rp_outcome p = R_RESERVED"

definition plan_reservation :: "StockLevel option \<Rightarrow> int \<Rightarrow> ReservationPlan" where
  "plan_reservation level requested =
     (if requested \<le> 0 then
        \<lparr>rp_outcome = R_INVALID, rp_new_level = None, rp_event = None,
         rp_detail = ''quantity must be positive, got '' @ show_int requested\<rparr>
      else case level of
        None \<Rightarrow>
          \<lparr>rp_outcome = R_NOT_FOUND, rp_new_level = None, rp_event = None,
           rp_detail = ''no inventory record for this product''\<rparr>
      | Some l \<Rightarrow>
          if sl_available l < requested then
            \<lparr>rp_outcome = R_INSUFFICIENT, rp_new_level = None, rp_event = Some ''InventoryReservationFailed'',
             rp_detail = ''insufficient stock: '' @ show_int (sl_available l) @ '' available, ''
               @ show_int requested @ '' requested''\<rparr>
          else
            \<lparr>rp_outcome = R_RESERVED,
             rp_new_level = Some \<lparr>sl_available = sl_available l - requested, sl_reserved = sl_reserved l + requested\<rparr>,
             rp_event = Some ''InventoryReserved'', rp_detail = ''reserved '' @ show_int requested\<rparr>)"

datatype ReleaseOutcome = RELEASED | RELEASE_NOTHING_HELD | RELEASE_INVALID

record ReleasePlan =
  rl_outcome :: ReleaseOutcome
  rl_new_level :: "StockLevel option"
  rl_event :: "string option"
  rl_detail :: string

definition rl_released :: "ReleasePlan \<Rightarrow> bool" where
  "rl_released p \<longleftrightarrow> rl_outcome p = RELEASED"

definition plan_release :: "StockLevel option \<Rightarrow> int \<Rightarrow> ReleasePlan" where
  "plan_release level held =
     (if held = 0 then
        \<lparr>rl_outcome = RELEASE_NOTHING_HELD, rl_new_level = None, rl_event = Some ''InventoryReleased'',
         rl_detail = ''no live reservation; nothing to return''\<rparr>
      else if held < 0 then
        \<lparr>rl_outcome = RELEASE_INVALID, rl_new_level = None, rl_event = None,
         rl_detail = ''held quantity must not be negative, got '' @ show_int held\<rparr>
      else case level of
        None \<Rightarrow>
          \<lparr>rl_outcome = RELEASE_NOTHING_HELD, rl_new_level = None, rl_event = Some ''InventoryReleased'',
           rl_detail = ''no inventory record for this product''\<rparr>
      | Some l \<Rightarrow>
          (let releasable = min held (sl_reserved l) in
           \<lparr>rl_outcome = RELEASED,
            rl_new_level = Some \<lparr>sl_available = sl_available l + releasable, sl_reserved = sl_reserved l - releasable\<rparr>,
            rl_event = Some ''InventoryReleased'',
            rl_detail = ''released '' @ show_int releasable
              @ (if releasable < held
                 then '' (ledger claimed '' @ show_int held @ '' but only '' @ show_int (sl_reserved l) @ '' was reserved)''
                 else [])\<rparr>))"

datatype ConsumeOutcome = CONSUMED | CONSUME_NOTHING_HELD | CONSUME_INVALID

record ConsumePlan =
  cp_outcome :: ConsumeOutcome
  cp_new_level :: "StockLevel option"
  cp_event :: "string option"
  cp_detail :: string

definition cp_consumed :: "ConsumePlan \<Rightarrow> bool" where
  "cp_consumed p \<longleftrightarrow> cp_outcome p = CONSUMED"

definition plan_consume :: "StockLevel option \<Rightarrow> int \<Rightarrow> ConsumePlan" where
  "plan_consume level held =
     (if held = 0 then
        \<lparr>cp_outcome = CONSUME_NOTHING_HELD, cp_new_level = None, cp_event = Some ''InventoryConsumed'',
         cp_detail = ''no live reservation; nothing to consume''\<rparr>
      else if held < 0 then
        \<lparr>cp_outcome = CONSUME_INVALID, cp_new_level = None, cp_event = None,
         cp_detail = ''held quantity must not be negative, got '' @ show_int held\<rparr>
      else case level of
        None \<Rightarrow>
          \<lparr>cp_outcome = CONSUME_INVALID, cp_new_level = None, cp_event = None,
           cp_detail = ''no inventory record for this product''\<rparr>
      | Some l \<Rightarrow>
          if sl_reserved l < held then
            \<lparr>cp_outcome = CONSUME_INVALID, cp_new_level = None, cp_event = None,
             cp_detail = ''ledger says '' @ show_int held @ '' held but the item shows only ''
               @ show_int (sl_reserved l) @ '' reserved''\<rparr>
          else
            \<lparr>cp_outcome = CONSUMED,
             cp_new_level = Some \<lparr>sl_available = sl_available l, sl_reserved = sl_reserved l - held\<rparr>,
             cp_event = Some ''InventoryConsumed'', cp_detail = ''consumed '' @ show_int held\<rparr>)"

text \<open>
  An exception as \<open>is_lock_contention\<close> looks at it: \<open>sqlstate\<close>, \<open>pgcode\<close>, the name of its type,
  the driver's exception (\<open>orig\<close>) and its cause.
\<close>

datatype py_exception = PyException "string option" "string option" string "py_exception option" "py_exception option"

fun is_lock_contention :: "py_exception \<Rightarrow> bool" where
  "is_lock_contention (PyException sqlstate pgcode name orig cause) \<longleftrightarrow>
     (case sqlstate of Some (c # cs) \<Rightarrow> Some (c # cs) | _ \<Rightarrow> pgcode) = Some ''55P03'' \<or>
     name = ''LockNotAvailableError'' \<or>
     (case orig of
        Some e \<Rightarrow> is_lock_contention e
      | None \<Rightarrow> (case cause of Some e \<Rightarrow> is_lock_contention e | None \<Rightarrow> False))"

section \<open>Tables\<close>

record inventory_item =
  ii_id :: uuid
  ii_product_id :: uuid
  ii_available :: int
  ii_reserved :: int
  ii_updated_at :: int

record reservation =
  rv_id :: uuid
  rv_order_id :: string
  rv_product_id :: uuid
  rv_quantity :: int
  rv_status :: string
  rv_created_at :: int
  rv_released_at :: "int option"

record inventory_db =
  iv_items :: "inventory_item list"
  iv_reservations :: "reservation list"
  iv_outbox :: "(int \<times> outbox_message) list"
  iv_keys :: "(string \<times> uuid option) list"

definition item_of :: "inventory_db \<Rightarrow> uuid \<Rightarrow> inventory_item option" where
  "item_of db p = find (\<lambda>i. ii_product_id i = p) (iv_items db)"

definition item_level :: "inventory_item \<Rightarrow> StockLevel" where
  "item_level i = \<lparr>sl_available = ii_available i, sl_reserved = ii_reserved i\<rparr>"

definition set_level :: "int \<Rightarrow> StockLevel \<Rightarrow> inventory_item \<Rightarrow> inventory_item" where
  "set_level now l i =
     i\<lparr>ii_available := sl_available l, ii_reserved := sl_reserved l,
       ii_updated_at := (if item_level i = l then ii_updated_at i else now)\<rparr>"

definition update_item :: "inventory_item \<Rightarrow> inventory_db \<Rightarrow> inventory_db" where
  "update_item i db = db\<lparr>iv_items := map (\<lambda>x. if ii_product_id x = ii_product_id i then i else x) (iv_items db)\<rparr>"

definition inventory_message :: "int \<Rightarrow> uuid \<Rightarrow> string \<Rightarrow> json \<Rightarrow> inventory_db \<Rightarrow> inventory_db" where
  "inventory_message now product typ payload db =
     db\<lparr>iv_outbox := iv_outbox db @ [(now, outbox ''Inventory'' product typ payload)]\<rparr>"

definition bind_key :: "string \<Rightarrow> uuid \<Rightarrow> inventory_db \<Rightarrow> inventory_db" where
  "bind_key key i db = db\<lparr>iv_keys := iv_keys db @ [(key, Some i)]\<rparr>"

section \<open>Reserving\<close>

record ReserveRequest =
  rq_product_id :: uuid
  rq_quantity :: int
  rq_order_id :: "string option"

definition held_rows :: "inventory_db \<Rightarrow> reservation list" where
  "held_rows db = filter (\<lambda>r. rv_status r = ''held'') (iv_reservations db)"

text \<open>
  The hold an order gets; an absent or empty order id gets none. The table takes one held row
  per order and product.
\<close>

definition new_hold :: "int \<Rightarrow> uuid \<Rightarrow> ReserveRequest \<Rightarrow> uuid \<Rightarrow> reservation list" where
  "new_hold now fresh request product =
     (case rq_order_id request of
        Some (c # cs) \<Rightarrow>
          [\<lparr>rv_id = fresh, rv_order_id = c # cs, rv_product_id = product, rv_quantity = rq_quantity request,
            rv_status = ''held'', rv_created_at = now, rv_released_at = None\<rparr>]
      | _ \<Rightarrow> [])"

definition holds_accepted :: "inventory_db \<Rightarrow> reservation list \<Rightarrow> bool" where
  "holds_accepted db new \<longleftrightarrow>
     distinct (map rv_id (iv_reservations db @ new)) \<and>
     distinct (map (\<lambda>r. (rv_order_id r, rv_product_id r)) (held_rows db @ new)) \<and>
     (\<forall>r \<in> set new. int4 (rv_quantity r))"

definition level_accepted :: "inventory_item \<Rightarrow> bool" where
  "level_accepted i \<longleftrightarrow> int4 (ii_available i) \<and> int4 (ii_reserved i)"

definition insufficient_payload :: "int \<Rightarrow> ReserveRequest \<Rightarrow> inventory_item \<Rightarrow> json" where
  "insufficient_payload now request i =
     JObj [(''id'', JStr (ii_id i)), (''product_id'', JStr (ii_product_id i)),
           (''quantity_requested'', JInt (rq_quantity request)), (''quantity_available'', JInt (ii_available i)),
           (''reason'', JStr ''InsufficientStock''), (''occurred_at'', JInt now)]"

definition reserved_payload :: "int \<Rightarrow> ReserveRequest \<Rightarrow> inventory_item \<Rightarrow> json" where
  "reserved_payload now request i =
     JObj [(''id'', JStr (ii_id i)), (''product_id'', JStr (ii_product_id i)),
           (''quantity_reserved'', JInt (rq_quantity request)),
           (''total_quantity_available'', JInt (ii_available i)),
           (''total_quantity_reserved'', JInt (ii_reserved i)), (''updated_at'', JInt now)]"

definition reserve_inventory ::
  "bool \<Rightarrow> (uuid \<Rightarrow> bool) \<Rightarrow> int \<Rightarrow> uuid \<Rightarrow> ReserveRequest \<Rightarrow> string \<Rightarrow> inventory_db \<Rightarrow>
     inventory_item result \<times> inventory_db" where
  "reserve_inventory io contended now fresh request idempotency_key db =
     (case map_of (iv_keys db) idempotency_key of
        Some result_id \<Rightarrow>
          (case Option.bind result_id (\<lambda>i. find (\<lambda>x. ii_id x = i) (iv_items db)) of
             Some cached \<Rightarrow> (Inr cached, db)
           | None \<Rightarrow> (Inl (HTTPException 409), db))
      | None \<Rightarrow>
          if contended (rq_product_id request) then (Inl (HTTPException 409), db)
          else
            (let found = item_of db (rq_product_id request);
                 plan = plan_reservation (map_option item_level found) (rq_quantity request) in
             case rp_outcome plan of
               R_NOT_FOUND \<Rightarrow> (Inl (HTTPException 404), db)
             | R_INVALID \<Rightarrow> (Inl (HTTPException 400), db)
             | R_INSUFFICIENT \<Rightarrow>
                 (let i = the found in
                  if io then
                    (Inl (HTTPException 409),
                     bind_key idempotency_key (ii_id i)
                       (inventory_message now (ii_product_id i) (the (rp_event plan))
                         (insufficient_payload now request i) db))
                  else (Inl (HTTPException 500), db))
             | R_RESERVED \<Rightarrow>
                 (let i = set_level now (the (rp_new_level plan)) (the found);
                      new = new_hold now fresh request (ii_product_id i) in
                  if \<not> (holds_accepted db new \<and> level_accepted i) then (Inl (Uncaught ''DBAPIError''), db)
                  else
                    commit io True db
                      (bind_key idempotency_key (ii_id i)
                        (inventory_message now (ii_product_id i) ''InventoryReserved'' (reserved_payload now request i)
                          (update_item i (db\<lparr>iv_reservations := iv_reservations db @ new\<rparr>))))
                      i)))"

definition reserve_inventory_endpoint ::
  "bool \<Rightarrow> (uuid \<Rightarrow> bool) \<Rightarrow> int \<Rightarrow> uuid \<Rightarrow> ReserveRequest \<Rightarrow> string \<Rightarrow> inventory_db \<Rightarrow>
     inventory_item result \<times> inventory_db" where
  "reserve_inventory_endpoint io contended now fresh request idempotency_key db =
     (if rq_quantity request \<le> 0 then (Inl (HTTPException 422), db)
      else if idempotency_key = [] then (Inl (HTTPException 400), db)
      else reserve_inventory io contended now fresh request idempotency_key db)"

section \<open>Releasing and consuming\<close>

record HoldRequest =
  hq_order_id :: string
  hq_product_ids :: "string list option"

record hold_response =
  hr_units :: int
  hr_reservations :: nat
  hr_detail :: string

text \<open>
  The held rows a request is about: all of the order's, or those of the named products. A
  product id that is not a UUID makes the query fail.
\<close>

definition select_holds :: "HoldRequest \<Rightarrow> inventory_db \<Rightarrow> reservation list option" where
  "select_holds request db =
     (let mine = filter (\<lambda>r. rv_order_id r = hq_order_id request) (held_rows db) in
      case hq_product_ids request of
        None \<Rightarrow> Some mine
      | Some [] \<Rightarrow> Some mine
      | Some ps \<Rightarrow> map_option (\<lambda>us. filter (\<lambda>r. rv_product_id r \<in> set us) mine) (those (map py_uuid ps)))"

definition settle_hold :: "string \<Rightarrow> int \<Rightarrow> reservation \<Rightarrow> inventory_db \<Rightarrow> inventory_db" where
  "settle_hold status now h db =
     db\<lparr>iv_reservations := map (\<lambda>r. if rv_id r = rv_id h
          then r\<lparr>rv_status := status, rv_released_at := Some now\<rparr> else r) (iv_reservations db)\<rparr>"

definition movement_payload :: "string \<Rightarrow> int \<Rightarrow> reservation \<Rightarrow> inventory_item \<Rightarrow> json" where
  "movement_payload quantity_name now h i =
     JObj [(''id'', JStr (ii_id i)), (''order_id'', JStr (rv_order_id h)), (''product_id'', JStr (rv_product_id h)),
           (quantity_name, JInt (rv_quantity h)), (''total_quantity_available'', JInt (ii_available i)),
           (''total_quantity_reserved'', JInt (ii_reserved i)), (''updated_at'', JInt now)]"

fun release_holds :: "(uuid \<Rightarrow> bool) \<Rightarrow> int \<Rightarrow> reservation list \<Rightarrow> int \<Rightarrow> string list \<Rightarrow> inventory_db \<Rightarrow>
    failure + (int \<times> string list \<times> inventory_db)" where
  "release_holds contended now [] units details db = Inr (units, details, db)"
| "release_holds contended now (h # hs) units details db =
     (if contended (rv_product_id h) then Inl (HTTPException 409)
      else
        (let found = item_of db (rv_product_id h);
             plan = plan_release (map_option item_level found) (rv_quantity h) in
         if rl_outcome plan = RELEASE_INVALID then Inl (HTTPException 400)
         else if rl_released plan then
           (let i = set_level now (the (rl_new_level plan)) (the found) in
            release_holds contended now hs (units + rv_quantity h) (details @ [rl_detail plan])
              (settle_hold ''released'' now h
                (inventory_message now (rv_product_id h) (the (rl_event plan))
                  (movement_payload ''quantity_released'' now h i) (update_item i db))))
         else
           release_holds contended now hs units (details @ [rl_detail plan]) (settle_hold ''released'' now h db)))"

text \<open>
  The part of \<open>release_inventory\<close> after its first query. The query takes no lock, so another
  transaction may commit between the two.
\<close>

definition release_selected ::
  "bool \<Rightarrow> (uuid \<Rightarrow> bool) \<Rightarrow> int \<Rightarrow> reservation list \<Rightarrow> inventory_db \<Rightarrow> hold_response result \<times> inventory_db" where
  "release_selected io contended now holds db =
     (if holds = [] then
        (Inr \<lparr>hr_units = 0, hr_reservations = 0, hr_detail = ''no live reservation; nothing to return''\<rparr>, db)
      else case release_holds contended now holds 0 [] db of
        Inl e \<Rightarrow> (Inl e, db)
      | Inr (units, details, db') \<Rightarrow>
          commit io (\<forall>i \<in> set (iv_items db'). level_accepted i) db db'
            \<lparr>hr_units = units, hr_reservations = length holds, hr_detail = join_with ''; '' details\<rparr>)"

definition release_inventory ::
  "bool \<Rightarrow> (uuid \<Rightarrow> bool) \<Rightarrow> int \<Rightarrow> HoldRequest \<Rightarrow> inventory_db \<Rightarrow> hold_response result \<times> inventory_db" where
  "release_inventory io contended now request db =
     (case select_holds request db of
        None \<Rightarrow> (Inl (Uncaught ''DBAPIError''), db)
      | Some holds \<Rightarrow> release_selected io contended now holds db)"

fun consume_holds :: "(uuid \<Rightarrow> bool) \<Rightarrow> int \<Rightarrow> reservation list \<Rightarrow> int \<Rightarrow> string list \<Rightarrow> inventory_db \<Rightarrow>
    failure + (int \<times> string list \<times> inventory_db)" where
  "consume_holds contended now [] units details db = Inr (units, details, db)"
| "consume_holds contended now (h # hs) units details db =
     (if contended (rv_product_id h) then Inl (HTTPException 409)
      else
        (let found = item_of db (rv_product_id h);
             plan = plan_consume (map_option item_level found) (rv_quantity h) in
         if cp_outcome plan = CONSUME_INVALID then Inl (HTTPException 400)
         else if cp_consumed plan then
           (let i = set_level now (the (cp_new_level plan)) (the found) in
            consume_holds contended now hs (units + rv_quantity h) (details @ [cp_detail plan])
              (settle_hold ''consumed'' now h
                (inventory_message now (rv_product_id h) (the (cp_event plan))
                  (movement_payload ''quantity_consumed'' now h i) (update_item i db))))
         else
           consume_holds contended now hs units (details @ [cp_detail plan]) (settle_hold ''consumed'' now h db)))"

definition consume_inventory ::
  "bool \<Rightarrow> (uuid \<Rightarrow> bool) \<Rightarrow> int \<Rightarrow> HoldRequest \<Rightarrow> inventory_db \<Rightarrow> hold_response result \<times> inventory_db" where
  "consume_inventory io contended now request db =
     (case select_holds request db of
        None \<Rightarrow> (Inl (Uncaught ''DBAPIError''), db)
      | Some holds \<Rightarrow>
          if holds = [] then
            (Inr \<lparr>hr_units = 0, hr_reservations = 0, hr_detail = ''no live reservation; nothing to consume''\<rparr>, db)
          else case consume_holds contended now holds 0 [] db of
            Inl e \<Rightarrow> (Inl e, db)
          | Inr (units, details, db') \<Rightarrow>
              commit io (\<forall>i \<in> set (iv_items db'). level_accepted i) db db'
                \<lparr>hr_units = units, hr_reservations = length holds, hr_detail = join_with ''; '' details\<rparr>)"

definition release_endpoint ::
  "bool \<Rightarrow> (uuid \<Rightarrow> bool) \<Rightarrow> int \<Rightarrow> HoldRequest \<Rightarrow> string \<Rightarrow> inventory_db \<Rightarrow> hold_response result \<times> inventory_db" where
  "release_endpoint io contended now request idempotency_key db =
     (if hq_order_id request = [] then (Inl (HTTPException 422), db)
      else if idempotency_key = [] then (Inl (HTTPException 400), db)
      else release_inventory io contended now request db)"

definition consume_endpoint ::
  "bool \<Rightarrow> (uuid \<Rightarrow> bool) \<Rightarrow> int \<Rightarrow> HoldRequest \<Rightarrow> string \<Rightarrow> inventory_db \<Rightarrow> hold_response result \<times> inventory_db" where
  "consume_endpoint io contended now request idempotency_key db =
     (if hq_order_id request = [] then (Inl (HTTPException 422), db)
      else consume_inventory io contended now request db)"

section \<open>Stock as a client sees it\<close>

text \<open>
  The abstract state of the service: the units of a product on the shelf, the units set aside,
  and the units an order holds.
\<close>

definition available :: "inventory_db \<Rightarrow> uuid \<Rightarrow> int" where
  "available db p = (case item_of db p of None \<Rightarrow> 0 | Some i \<Rightarrow> ii_available i)"

definition reserved_units :: "inventory_db \<Rightarrow> uuid \<Rightarrow> int" where
  "reserved_units db p = (case item_of db p of None \<Rightarrow> 0 | Some i \<Rightarrow> ii_reserved i)"

definition units_of :: "(reservation \<Rightarrow> bool) \<Rightarrow> uuid \<Rightarrow> reservation list \<Rightarrow> int" where
  "units_of P p rs = sum_list (map rv_quantity (filter (\<lambda>r. rv_product_id r = p \<and> P r) rs))"

definition held :: "inventory_db \<Rightarrow> string \<Rightarrow> uuid \<Rightarrow> int" where
  "held db order_id p = units_of (\<lambda>r. rv_order_id r = order_id) p (held_rows db)"

definition stock_inv :: "inventory_db \<Rightarrow> bool" where
  "stock_inv db \<longleftrightarrow>
     distinct (map ii_product_id (iv_items db)) \<and> distinct (map rv_id (iv_reservations db)) \<and>
     distinct (map (\<lambda>r. (rv_order_id r, rv_product_id r)) (held_rows db)) \<and>
     (\<forall>r \<in> set (held_rows db). 0 < rv_quantity r \<and> item_of db (rv_product_id r) \<noteq> None) \<and>
     (\<forall>i \<in> set (iv_items db). 0 \<le> ii_available i \<and>
        units_of (\<lambda>_. True) (ii_product_id i) (held_rows db) \<le> ii_reserved i)"

lemma item_of_SomeD: "item_of db p = Some i \<Longrightarrow> i \<in> set (iv_items db) \<and> ii_product_id i = p"
  unfolding item_of_def by (rule find_SomeD)

lemma item_of_mem:
  assumes "distinct (map ii_product_id (iv_items db))" and "i \<in> set (iv_items db)"
  shows "item_of db (ii_product_id i) = Some i"
proof -
  obtain j where j: "item_of db (ii_product_id i) = Some j"
    using assms(2) by (cases "item_of db (ii_product_id i)") (auto simp: item_of_def find_None_iff)
  with item_of_SomeD [OF j] assms show ?thesis by (auto simp: distinct_map inj_on_def)
qed

lemma find_update_other:
  "ii_product_id i = q \<Longrightarrow> p \<noteq> q \<Longrightarrow>
     find (\<lambda>x. ii_product_id x = p) (map (\<lambda>x. if ii_product_id x = q then i else x) xs)
   = find (\<lambda>x. ii_product_id x = p) xs"
  by (induction xs) auto

lemma find_update_same:
  "ii_product_id i = q \<Longrightarrow> find (\<lambda>x. ii_product_id x = q) xs \<noteq> None \<Longrightarrow>
     find (\<lambda>x. ii_product_id x = q) (map (\<lambda>x. if ii_product_id x = q then i else x) xs) = Some i"
  by (induction xs) auto

lemma item_of_update:
  assumes "item_of db (ii_product_id i) \<noteq> None"
  shows "item_of (update_item i db) p = (if p = ii_product_id i then Some i else item_of db p)"
  using assms find_update_other [OF refl, of p i "iv_items db"] find_update_same [OF refl, of i "iv_items db"]
  by (simp add: item_of_def update_item_def)

lemma inventory_sel [simp]:
  "iv_items (inventory_message now p t pl db) = iv_items db"
  "iv_reservations (inventory_message now p t pl db) = iv_reservations db"
  "iv_keys (inventory_message now p t pl db) = iv_keys db"
  "iv_items (bind_key k x db) = iv_items db"
  "iv_reservations (bind_key k x db) = iv_reservations db"
  "iv_items (settle_hold st now h db) = iv_items db"
  "iv_keys (settle_hold st now h db) = iv_keys db"
  "iv_reservations (update_item i db) = iv_reservations db"
  "iv_keys (update_item i db) = iv_keys db"
  "map ii_product_id (iv_items (update_item i db)) = map ii_product_id (iv_items db)"
  "map rv_id (iv_reservations (settle_hold st now h db)) = map rv_id (iv_reservations db)"
  by (simp_all add: inventory_message_def bind_key_def settle_hold_def update_item_def)

lemma item_of_cong: "iv_items db = iv_items db' \<Longrightarrow> item_of db = item_of db'"
  by (simp add: item_of_def fun_eq_iff)

lemma item_of_sel [simp]:
  "item_of (inventory_message now p t pl db) = item_of db" "item_of (bind_key k x db) = item_of db"
  "item_of (settle_hold st now h db) = item_of db" "item_of (db\<lparr>iv_reservations := rs\<rparr>) = item_of db"
  by (auto intro: item_of_cong)

lemma held_rows_sel [simp]:
  "held_rows (inventory_message now p t pl db) = held_rows db" "held_rows (bind_key k x db) = held_rows db"
  "held_rows (update_item i db) = held_rows db"
  by (simp_all add: held_rows_def)

lemma set_level_sel [simp]:
  "ii_product_id (set_level now l i) = ii_product_id i" "ii_id (set_level now l i) = ii_id i"
  "ii_available (set_level now l i) = sl_available l" "ii_reserved (set_level now l i) = sl_reserved l"
  by (simp_all add: set_level_def)

lemma item_level_sel [simp]: "sl_available (item_level i) = ii_available i" "sl_reserved (item_level i) = ii_reserved i"
  by (simp_all add: item_level_def)

lemma units_of_append [simp]: "units_of P p (xs @ ys) = units_of P p xs + units_of P p ys"
  by (simp add: units_of_def)

lemma units_of_remove:
  assumes "distinct rs" and "h \<in> set rs"
  shows "units_of P p (filter (\<lambda>r. r \<noteq> h) rs) = units_of P p rs - (if rv_product_id h = p \<and> P h then rv_quantity h else 0)"
  using assms
proof (induction rs)
  case (Cons r rs)
  show ?case
  proof (cases "r = h")
    case True
    with Cons.prems have "filter (\<lambda>r. r \<noteq> h) rs = rs" by (auto simp: filter_id_conv)
    with True show ?thesis by (simp add: units_of_def)
  next
    case False
    with Cons show ?thesis by (simp add: units_of_def)
  qed
qed simp

lemma units_of_le:
  assumes "\<And>r. r \<in> set rs \<Longrightarrow> 0 < rv_quantity r" and "h \<in> set rs" and "rv_product_id h = p" "P h"
  shows "rv_quantity h \<le> units_of P p rs"
proof -
  have "rv_quantity h \<in> set (map rv_quantity (filter (\<lambda>r. rv_product_id r = p \<and> P r) rs))"
    using assms by auto
  moreover have "\<And>x. x \<in> set (map rv_quantity (filter (\<lambda>r. rv_product_id r = p \<and> P r) rs)) \<Longrightarrow> 0 \<le> x"
    using assms(1) by fastforce
  ultimately show ?thesis unfolding units_of_def by (rule member_le_sum_list)
qed

lemma held_rows_settle:
  assumes "distinct (map rv_id (iv_reservations db))" and "h \<in> set (held_rows db)" and "st \<noteq> ''held''"
  shows "held_rows (settle_hold st now h db) = filter (\<lambda>r. r \<noteq> h) (held_rows db)"
proof -
  have "rv_id r = rv_id h \<longleftrightarrow> r = h" if "r \<in> set (iv_reservations db)" for r
    using assms(1,2) that by (auto simp: held_rows_def distinct_map inj_on_def)
  then have "filter (\<lambda>r. rv_status r = ''held'') (map (\<lambda>r. if rv_id r = rv_id h
        then r\<lparr>rv_status := st, rv_released_at := Some now\<rparr> else r) rs)
      = filter (\<lambda>r. r \<noteq> h) (filter (\<lambda>r. rv_status r = ''held'') rs)"
    if "set rs \<subseteq> set (iv_reservations db)" for rs
    using that assms(3) by (induction rs) auto
  from this [OF subset_refl] show ?thesis by (simp add: held_rows_def settle_hold_def)
qed

section \<open>Settling one hold\<close>

text \<open>
  Both loops take the same step on a live hold: its units leave \<open>reserved\<close>, go back to the shelf
  or not (\<open>back\<close>), and the hold is closed.
\<close>

definition settled :: "bool \<Rightarrow> inventory_db \<Rightarrow> reservation list \<Rightarrow> inventory_db \<Rightarrow> bool" where
  "settled back db hs db' \<longleftrightarrow>
     map ii_product_id (iv_items db') = map ii_product_id (iv_items db) \<and>
     map rv_id (iv_reservations db') = map rv_id (iv_reservations db) \<and>
     held_rows db' = filter (\<lambda>r. r \<notin> set hs) (held_rows db) \<and>
     (\<forall>p. (item_of db' p = None \<longleftrightarrow> item_of db p = None)) \<and>
     (\<forall>p. available db' p = available db p + (if back then units_of (\<lambda>_. True) p hs else 0)) \<and>
     (\<forall>p. reserved_units db' p = reserved_units db p - units_of (\<lambda>_. True) p hs) \<and>
     iv_keys db' = iv_keys db"

lemma settled_Nil: "settled back db [] db"
  by (simp add: settled_def units_of_def)

lemma settled_Cons:
  assumes "settled back db [h] db1" and "settled back db1 hs db2"
  shows "settled back db (h # hs) db2"
proof -
  have u: "units_of (\<lambda>_. True) p (h # hs) = units_of (\<lambda>_. True) p [h] + units_of (\<lambda>_. True) p hs" for p
    by (simp add: units_of_def)
  have "held_rows db2 = filter (\<lambda>r. r \<notin> set hs) (filter (\<lambda>r. r \<notin> set [h]) (held_rows db))"
    using assms by (simp add: settled_def)
  then have "held_rows db2 = filter (\<lambda>r. r \<notin> set (h # hs)) (held_rows db)" by (simp add: conj_commute)
  with assms show ?thesis unfolding settled_def u by simp
qed

lemma settled_inv:
  assumes "stock_inv db" and "settled back db hs db'" and "set hs \<subseteq> set (held_rows db)" and "distinct hs"
  shows "stock_inv db'"
proof -
  note S = assms(2) [unfolded settled_def]
  have d: "distinct (map ii_product_id (iv_items db))" "distinct (held_rows db)"
    using assms(1) by (auto simp: stock_inv_def distinct_map)
  have pos: "0 < rv_quantity r" if "r \<in> set (held_rows db)" for r using assms(1) that by (simp add: stock_inv_def)
  have left: "units_of P p (filter (\<lambda>r. r \<notin> set hs) (held_rows db)) = units_of P p (held_rows db) - units_of P p hs" for P p
    using assms(3,4)
  proof (induction hs)
    case (Cons h hs)
    have "filter (\<lambda>r. r \<notin> set (h # hs)) (held_rows db) = filter (\<lambda>r. r \<noteq> h) (filter (\<lambda>r. r \<notin> set hs) (held_rows db))"
      by (auto intro: filter_cong)
    then have "units_of P p (filter (\<lambda>r. r \<notin> set (h # hs)) (held_rows db))
        = units_of P p (filter (\<lambda>r. r \<notin> set hs) (held_rows db)) - (if rv_product_id h = p \<and> P h then rv_quantity h else 0)"
      using units_of_remove [of "filter (\<lambda>r. r \<notin> set hs) (held_rows db)" h P p] Cons.prems d(2) by simp
    with Cons show ?case by (simp add: units_of_def)
  qed (simp add: units_of_def)
  have nonneg: "0 \<le> units_of (\<lambda>_. True) p hs" for p
    unfolding units_of_def using assms(3) pos by (intro sum_list_nonneg) fastforce
  have "0 \<le> ii_available i \<and> units_of (\<lambda>_. True) (ii_product_id i) (held_rows db') \<le> ii_reserved i"
    if i: "i \<in> set (iv_items db')" for i
  proof -
    have d': "distinct (map ii_product_id (iv_items db'))" using S d(1) by simp
    have at: "item_of db' (ii_product_id i) = Some i" by (rule item_of_mem [OF d' i])
    have "item_of db' (ii_product_id i) = None \<longleftrightarrow> item_of db (ii_product_id i) = None" using S by blast
    with at obtain j where j: "item_of db (ii_product_id i) = Some j" by auto
    from item_of_SomeD [OF j] assms(1) have "0 \<le> ii_available j"
      "units_of (\<lambda>_. True) (ii_product_id i) (held_rows db) \<le> ii_reserved j"
      by (auto simp: stock_inv_def)
    moreover have "available db' (ii_product_id i) = available db (ii_product_id i) + (if back then units_of (\<lambda>_. True) (ii_product_id i) hs else 0)"
      "reserved_units db' (ii_product_id i) = reserved_units db (ii_product_id i) - units_of (\<lambda>_. True) (ii_product_id i) hs"
      using S by blast+
    ultimately show ?thesis
      using at j nonneg [of "ii_product_id i"] left [of "\<lambda>_. True" "ii_product_id i"] S
      by (auto simp: available_def reserved_units_def split: if_splits)
  qed
  with assms(1) S show ?thesis by (auto simp: stock_inv_def intro: distinct_map_filter)
qed

lemma settle_step:
  assumes inv: "stock_inv db" and h: "h \<in> set (held_rows db)" and i: "item_of db (rv_product_id h) = Some i"
    and st: "st \<noteq> ''held''"
    and l: "sl_reserved l = ii_reserved i - rv_quantity h"
      "sl_available l = ii_available i + (if back then rv_quantity h else 0)"
  shows "settled back db [h] (settle_hold st now h (inventory_message now p e pl (update_item (set_level now l i) db)))"
proof -
  from item_of_SomeD [OF i] have ip: "ii_product_id i = rv_product_id h" by blast
  have d: "distinct (map rv_id (iv_reservations db))" using inv by (simp add: stock_inv_def)
  let ?db = "inventory_message now p e pl (update_item (set_level now l i) db)"
  have up: "item_of ?db q = (if q = rv_product_id h then Some (set_level now l i) else item_of db q)" for q
    using item_of_update [of db "set_level now l i" q] i ip by simp
  note up [simplified, simp]
  have "held_rows (settle_hold st now h ?db) = filter (\<lambda>r. r \<noteq> h) (held_rows ?db)"
    by (rule held_rows_settle) (simp_all add: d h st)
  then show ?thesis
    using i l by (auto simp: settled_def available_def reserved_units_def units_of_def)
qed

lemma live_hold_item:
  assumes "stock_inv db" and "h \<in> set (held_rows db)"
  shows "\<exists>i. item_of db (rv_product_id h) = Some i \<and> 0 < rv_quantity h \<and> rv_quantity h \<le> ii_reserved i"
proof -
  from assms obtain i where i: "item_of db (rv_product_id h) = Some i" and q: "0 < rv_quantity h"
    by (auto simp: stock_inv_def)
  have "rv_quantity h \<le> units_of (\<lambda>_. True) (rv_product_id h) (held_rows db)"
    by (rule units_of_le) (use assms in \<open>auto simp: stock_inv_def\<close>)
  also have "\<dots> \<le> ii_reserved i" using assms(1) item_of_SomeD [OF i] by (auto simp: stock_inv_def)
  finally show ?thesis using i q by blast
qed

lemma settled_live_rest:
  assumes "settled back db [h] db1" and "set (h # hs) \<subseteq> set (held_rows db)" and "distinct (h # hs)"
  shows "set hs \<subseteq> set (held_rows db1)"
  using assms by (auto simp: settled_def)

text \<open>A loop that settles one live hold after the other, whatever each step does beyond that.\<close>

lemma settling_loop:
  fixes run :: "reservation list \<Rightarrow> int \<Rightarrow> string list \<Rightarrow> inventory_db \<Rightarrow> failure + (int \<times> string list \<times> inventory_db)"
  assumes run_Nil: "\<And>u d db. run [] u d db = Inr (u, d, db)"
    and run_contended: "\<And>h hs u d db. contended (rv_product_id h) \<Longrightarrow> run (h # hs) u d db = Inl (HTTPException 409)"
    and run_live: "\<And>h db. stock_inv db \<Longrightarrow> h \<in> set (held_rows db) \<Longrightarrow> \<not> contended (rv_product_id h) \<Longrightarrow>
        \<exists>db1 det. settled back db [h] db1 \<and> (\<forall>hs u d. run (h # hs) u d db = run hs (u + rv_quantity h) (d @ [det]) db1)"
    and "stock_inv db" and "set hs \<subseteq> set (held_rows db)" and "distinct hs"
  shows "(\<exists>h \<in> set hs. contended (rv_product_id h)) \<and> run hs u d db = Inl (HTTPException 409) \<or>
     (\<forall>h \<in> set hs. \<not> contended (rv_product_id h)) \<and>
     (\<exists>d' db'. run hs u d db = Inr (u + sum_list (map rv_quantity hs), d', db') \<and> settled back db hs db')"
  using assms(4-6)
proof (induction hs arbitrary: db u d)
  case Nil
  then show ?case by (simp add: settled_Nil run_Nil)
next
  case (Cons h hs)
  show ?case
  proof (cases "contended (rv_product_id h)")
    case True
    then show ?thesis by (simp add: run_contended)
  next
    case False
    have h: "h \<in> set (held_rows db)" using Cons.prems(2) by simp
    from run_live [OF Cons.prems(1) h False] obtain db1 det where
      st: "settled back db [h] db1" and step: "\<And>hs u d. run (h # hs) u d db = run hs (u + rv_quantity h) (d @ [det]) db1"
      by blast
    have "stock_inv db1" by (rule settled_inv [OF Cons.prems(1) st]) (use h in auto)
    moreover have "set hs \<subseteq> set (held_rows db1)" by (rule settled_live_rest [OF st Cons.prems(2,3)])
    ultimately show ?thesis
      using Cons.IH [of db1 "u + rv_quantity h" "d @ [det]"] Cons.prems(3) settled_Cons [OF st] False
      by (auto simp: step add.assoc)
  qed
qed

lemma release_step_live:
  assumes "stock_inv db" and h: "h \<in> set (held_rows db)" and "\<not> contended (rv_product_id h)"
  shows "\<exists>db1 det. settled True db [h] db1 \<and>
     (\<forall>hs u d. release_holds contended now (h # hs) u d db = release_holds contended now hs (u + rv_quantity h) (d @ [det]) db1)"
proof -
  from live_hold_item [OF assms(1,2)] obtain i where
    i: "item_of db (rv_product_id h) = Some i" and q: "0 < rv_quantity h" "rv_quantity h \<le> ii_reserved i" by auto
  let ?l = "\<lparr>sl_available = ii_available i + rv_quantity h, sl_reserved = ii_reserved i - rv_quantity h\<rparr>"
  have "plan_release (Some (item_level i)) (rv_quantity h) = \<lparr>rl_outcome = RELEASED, rl_new_level = Some ?l,
      rl_event = Some ''InventoryReleased'', rl_detail = ''released '' @ show_int (rv_quantity h)\<rparr>"
    using q by (simp add: plan_release_def Let_def)
  then show ?thesis
    using settle_step [OF assms(1) h i, of "''released''" ?l True now] assms(3) i
    by (intro exI conjI) (auto simp: rl_released_def Let_def)
qed

lemma consume_step_live:
  assumes "stock_inv db" and h: "h \<in> set (held_rows db)" and "\<not> contended (rv_product_id h)"
  shows "\<exists>db1 det. settled False db [h] db1 \<and>
     (\<forall>hs u d. consume_holds contended now (h # hs) u d db = consume_holds contended now hs (u + rv_quantity h) (d @ [det]) db1)"
proof -
  from live_hold_item [OF assms(1,2)] obtain i where
    i: "item_of db (rv_product_id h) = Some i" and q: "0 < rv_quantity h" "rv_quantity h \<le> ii_reserved i" by auto
  let ?l = "\<lparr>sl_available = ii_available i, sl_reserved = ii_reserved i - rv_quantity h\<rparr>"
  have "plan_consume (Some (item_level i)) (rv_quantity h) = \<lparr>cp_outcome = CONSUMED, cp_new_level = Some ?l,
      cp_event = Some ''InventoryConsumed'', cp_detail = ''consumed '' @ show_int (rv_quantity h)\<rparr>"
    using q by (simp add: plan_consume_def Let_def)
  then show ?thesis
    using settle_step [OF assms(1) h i, of "''consumed''" ?l False now] assms(3) i
    by (intro exI conjI) (auto simp: cp_consumed_def Let_def)
qed

lemma release_holds_live:
  assumes "stock_inv db" and "set hs \<subseteq> set (held_rows db)" and "distinct hs"
  shows "(\<exists>h \<in> set hs. contended (rv_product_id h)) \<and> release_holds contended now hs u d db = Inl (HTTPException 409) \<or>
     (\<forall>h \<in> set hs. \<not> contended (rv_product_id h)) \<and>
     (\<exists>d' db'. release_holds contended now hs u d db = Inr (u + sum_list (map rv_quantity hs), d', db') \<and> settled True db hs db')"
  by (rule settling_loop [OF _ _ release_step_live assms]) simp_all

lemma consume_holds_live:
  assumes "stock_inv db" and "set hs \<subseteq> set (held_rows db)" and "distinct hs"
  shows "(\<exists>h \<in> set hs. contended (rv_product_id h)) \<and> consume_holds contended now hs u d db = Inl (HTTPException 409) \<or>
     (\<forall>h \<in> set hs. \<not> contended (rv_product_id h)) \<and>
     (\<exists>d' db'. consume_holds contended now hs u d db = Inr (u + sum_list (map rv_quantity hs), d', db') \<and> settled False db hs db')"
  by (rule settling_loop [OF _ _ consume_step_live assms]) simp_all

lemma select_holds_live:
  assumes "stock_inv db" and "select_holds request db = Some hs"
  shows "set hs \<subseteq> set (held_rows db)" and "distinct hs" and "\<forall>h \<in> set hs. rv_order_id h = hq_order_id request"
proof -
  have "distinct (held_rows db)" using assms(1) by (auto simp: stock_inv_def distinct_map)
  with assms(2) show "set hs \<subseteq> set (held_rows db)" "distinct hs" "\<forall>h \<in> set hs. rv_order_id h = hq_order_id request"
    by (auto simp: select_holds_def Let_def split: option.splits list.splits)
qed

text \<open>
  The handlers on a consistent database: they change nothing unless they answer with success,
  and then exactly the selected holds are settled.
\<close>

lemma release_inventory_cases:
  assumes "stock_inv db" and "release_inventory io contended now request db = (r, db')"
  obtains (failed) e where "r = Inl e" "db' = db"
  | (finished) hs d where "select_holds request db = Some hs"
      "r = Inr \<lparr>hr_units = sum_list (map rv_quantity hs), hr_reservations = length hs, hr_detail = d\<rparr>"
      "settled True db hs db'"
proof (cases "select_holds request db")
  case None
  with assms(2) show ?thesis by (auto simp: release_inventory_def intro: failed)
next
  case (Some hs)
  note live = select_holds_live [OF assms(1) Some]
  show ?thesis
  proof (cases "hs = []")
    case True
    with assms(2) Some show ?thesis
      by (auto simp: release_inventory_def release_selected_def settled_Nil intro: finished)
  next
    case False
    from release_holds_live [OF assms(1) live(1,2), of contended now 0 "[]"] show ?thesis
    proof (elim disjE conjE exE)
      assume "release_holds contended now hs 0 [] db = Inl (HTTPException 409)"
      with assms(2) Some False show ?thesis
        by (auto simp: release_inventory_def release_selected_def intro: failed)
    next
      fix d db1
      assume run: "release_holds contended now hs 0 [] db = Inr (0 + sum_list (map rv_quantity hs), d, db1)"
        and st: "settled True db hs db1"
      show ?thesis
      proof (cases "io \<and> (\<forall>i \<in> set (iv_items db1). level_accepted i)")
        case True
        with assms(2) Some False run st show ?thesis
          by (auto simp: release_inventory_def release_selected_def commit_def intro: finished)
      next
        case no: False
        with assms(2) Some False run show ?thesis
          by (auto simp: release_inventory_def release_selected_def commit_def intro: failed)
      qed
    qed
  qed
qed

lemma consume_inventory_cases:
  assumes "stock_inv db" and "consume_inventory io contended now request db = (r, db')"
  obtains (failed) e where "r = Inl e" "db' = db"
  | (finished) hs d where "select_holds request db = Some hs"
      "r = Inr \<lparr>hr_units = sum_list (map rv_quantity hs), hr_reservations = length hs, hr_detail = d\<rparr>"
      "settled False db hs db'"
proof (cases "select_holds request db")
  case None
  with assms(2) show ?thesis by (auto simp: consume_inventory_def intro: failed)
next
  case (Some hs)
  note live = select_holds_live [OF assms(1) Some]
  show ?thesis
  proof (cases "hs = []")
    case True
    with assms(2) Some show ?thesis
      by (auto simp: consume_inventory_def settled_Nil intro: finished)
  next
    case False
    from consume_holds_live [OF assms(1) live(1,2), of contended now 0 "[]"] show ?thesis
    proof (elim disjE conjE exE)
      assume "consume_holds contended now hs 0 [] db = Inl (HTTPException 409)"
      with assms(2) Some False show ?thesis by (auto simp: consume_inventory_def intro: failed)
    next
      fix d db1
      assume run: "consume_holds contended now hs 0 [] db = Inr (0 + sum_list (map rv_quantity hs), d, db1)"
        and st: "settled False db hs db1"
      show ?thesis
      proof (cases "io \<and> (\<forall>i \<in> set (iv_items db1). level_accepted i)")
        case True
        with assms(2) Some False run st show ?thesis
          by (auto simp: consume_inventory_def commit_def intro: finished)
      next
        case no: False
        with assms(2) Some False run show ?thesis
          by (auto simp: consume_inventory_def commit_def intro: failed)
      qed
    qed
  qed
qed

section \<open>Reserving on a consistent database\<close>

lemma new_hold_cases:
  "new_hold now fresh request p = [] \<or>
   (\<exists>h. new_hold now fresh request p = [h] \<and> rv_product_id h = p \<and> rv_quantity h = rq_quantity request \<and>
      rv_status h = ''held'' \<and> rv_order_id h \<noteq> [] \<and> rq_order_id request = Some (rv_order_id h))"
  by (cases "rq_order_id request"; cases "the (rq_order_id request)") (simp_all add: new_hold_def)

definition reserved_db :: "int \<Rightarrow> uuid \<Rightarrow> ReserveRequest \<Rightarrow> string \<Rightarrow> inventory_item \<Rightarrow> inventory_db \<Rightarrow> inventory_db" where
  "reserved_db now fresh request key i db =
     bind_key key (ii_id i)
       (inventory_message now (ii_product_id i) ''InventoryReserved'' (reserved_payload now request i)
         (update_item i (db\<lparr>iv_reservations := iv_reservations db @ new_hold now fresh request (ii_product_id i)\<rparr>)))"

lemma plan_reservation_reserved:
  "rp_outcome (plan_reservation (map_option item_level f) q) = R_RESERVED \<longleftrightarrow>
     (\<exists>i. f = Some i \<and> 0 < q \<and> q \<le> ii_available i)"
  by (auto simp: plan_reservation_def split: option.splits)

lemma reserve_inventory_cases:
  assumes "reserve_inventory io contended now fresh request key db = (r, db')"
  obtains (kept) "iv_items db' = iv_items db" "iv_reservations db' = iv_reservations db"
      "\<forall>i. r = Inr i \<longrightarrow> map_of (iv_keys db) key \<noteq> None \<and> i \<in> set (iv_items db) \<and> db' = db"
  | (reserved) i i' where "map_of (iv_keys db) key = None" "io" "\<not> contended (rq_product_id request)"
      "item_of db (rq_product_id request) = Some i"
      "0 < rq_quantity request" "rq_quantity request \<le> ii_available i"
      "i' = set_level now \<lparr>sl_available = ii_available i - rq_quantity request,
              sl_reserved = ii_reserved i + rq_quantity request\<rparr> i"
      "holds_accepted db (new_hold now fresh request (ii_product_id i))" "level_accepted i'"
      "r = Inr i'" "db' = reserved_db now fresh request key i' db"
proof (cases "map_of (iv_keys db) key")
  case (Some rid)
  with assms show ?thesis
    by (intro kept) (auto simp: reserve_inventory_def bind_eq_Some_conv split: option.splits dest: find_SomeD)
next
  case new: None
  show ?thesis
  proof (cases "contended (rq_product_id request)")
    case True
    with assms new show ?thesis by (intro kept) (auto simp: reserve_inventory_def)
  next
    case free: False
    let ?plan = "plan_reservation (map_option item_level (item_of db (rq_product_id request))) (rq_quantity request)"
    show ?thesis
    proof (cases "rp_outcome ?plan")
      case R_RESERVED
      then obtain i where i: "item_of db (rq_product_id request) = Some i" "0 < rq_quantity request"
          "rq_quantity request \<le> ii_available i"
        unfolding plan_reservation_reserved by blast
      then have plan: "rp_new_level ?plan = Some \<lparr>sl_available = ii_available i - rq_quantity request,
              sl_reserved = ii_reserved i + rq_quantity request\<rparr>"
        by (simp add: plan_reservation_def)
      let ?i = "set_level now (the (rp_new_level ?plan)) i"
      show ?thesis
      proof (cases "io \<and> holds_accepted db (new_hold now fresh request (ii_product_id i)) \<and> level_accepted ?i")
        case True
        with assms new free i R_RESERVED plan show ?thesis
          by (intro reserved [OF new _ free i, of ?i]) (simp_all add: reserve_inventory_def Let_def reserved_db_def)
      next
        case False
        with assms new free i R_RESERVED show ?thesis
          by (intro kept) (auto simp: reserve_inventory_def Let_def commit_def split: if_splits)
      qed
    qed (use assms new free in \<open>auto simp: reserve_inventory_def Let_def intro!: kept split: if_splits\<close>)
  qed
qed

lemma reserved_db_item_of:
  assumes "item_of db (ii_product_id i') \<noteq> None"
  shows "item_of (reserved_db now fresh request key i' db) p = (if p = ii_product_id i' then Some i' else item_of db p)"
  using item_of_update [of "db\<lparr>iv_reservations := iv_reservations db @ new_hold now fresh request (ii_product_id i')\<rparr>" i' p] assms
  by (simp add: reserved_db_def)

lemma reserved_db_held_rows:
  "held_rows (reserved_db now fresh request key i db) = held_rows db @ new_hold now fresh request (ii_product_id i)"
  using new_hold_cases [of now fresh request "ii_product_id i"]
  by (auto simp: reserved_db_def held_rows_def)

lemma item_of_None_iff: "item_of db p = None \<longleftrightarrow> p \<notin> set (map ii_product_id (iv_items db))"
  by (auto simp: item_of_def find_None_iff)

lemma stock_inv_cong:
  "iv_items db' = iv_items db \<Longrightarrow> iv_reservations db' = iv_reservations db \<Longrightarrow> stock_inv db' = stock_inv db"
  using item_of_cong [of db' db] by (simp add: stock_inv_def held_rows_def)

lemma reserve_inv:
  assumes inv: "stock_inv db" and run: "reserve_inventory io contended now fresh request key db = (r, db')"
  shows "stock_inv db'"
  using run
proof (cases rule: reserve_inventory_cases)
  case kept
  with inv stock_inv_cong show ?thesis by blast
next
  case (reserved i i')
  let ?p = "rq_product_id request" and ?q = "rq_quantity request"
  from item_of_SomeD [OF reserved(4)] have i: "i \<in> set (iv_items db)" "ii_product_id i = ?p" by auto
  have i': "ii_product_id i' = ?p" "ii_available i' = ii_available i - ?q" "ii_reserved i' = ii_reserved i + ?q"
    by (simp_all add: reserved(7) i(2))
  let ?new = "new_hold now fresh request ?p"
  have items: "map ii_product_id (iv_items db') = map ii_product_id (iv_items db)"
    and rvs: "iv_reservations db' = iv_reservations db @ ?new"
    by (simp_all add: reserved(11) reserved_db_def i' update_item_def)
  have rows: "held_rows db' = held_rows db @ ?new" by (simp add: reserved(11) reserved_db_held_rows i')
  have at: "item_of db' p = (if p = ?p then Some i' else item_of db p)" for p
    using reserved_db_item_of [of db i'] reserved(4) i' by (simp add: reserved(11))
  have acc: "holds_accepted db ?new" using reserved(8) i(2) by simp
  have units: "units_of (\<lambda>_. True) p (held_rows db') \<le> units_of (\<lambda>_. True) p (held_rows db) + (if p = ?p then ?q else 0)" for p
    using new_hold_cases [of now fresh request ?p] reserved(5) unfolding rows by (auto simp: units_of_def)
  have "0 \<le> ii_available x \<and> units_of (\<lambda>_. True) (ii_product_id x) (held_rows db') \<le> ii_reserved x"
    if x: "x \<in> set (iv_items db')" for x
  proof -
    have "distinct (map ii_product_id (iv_items db'))" using inv items by (simp add: stock_inv_def)
    from item_of_mem [OF this x] at have "ii_product_id x = ?p \<and> x = i' \<or> ii_product_id x \<noteq> ?p \<and> x \<in> set (iv_items db)"
      using item_of_SomeD by (metis option.inject)
    then show ?thesis
      using units [of "ii_product_id x"] inv i reserved(6) i' by (fastforce simp: stock_inv_def)
  qed
  moreover have "0 < rv_quantity h \<and> item_of db' (rv_product_id h) \<noteq> None" if "h \<in> set (held_rows db')" for h
    using that inv new_hold_cases [of now fresh request ?p] reserved(5) unfolding rows at by (auto simp: stock_inv_def)
  ultimately show ?thesis
    using inv acc items rvs rows by (simp add: stock_inv_def holds_accepted_def)
qed

section \<open>The service as a transition system\<close>

inductive stock_step :: "inventory_db \<Rightarrow> inventory_db \<Rightarrow> bool" where
  reserve: "stock_step db (snd (reserve_inventory_endpoint io contended now fresh request key db))"
| release: "stock_step db (snd (release_endpoint io contended now hold_request key db))"
| consume: "stock_step db (snd (consume_endpoint io contended now hold_request key db))"

text \<open>A warehouse nobody has ordered from.\<close>

definition fresh_stock :: "inventory_db \<Rightarrow> bool" where
  "fresh_stock db \<longleftrightarrow> iv_reservations db = [] \<and> iv_keys db = [] \<and> distinct (map ii_product_id (iv_items db)) \<and>
     (\<forall>i \<in> set (iv_items db). 0 \<le> ii_available i \<and> 0 \<le> ii_reserved i)"

definition stock_total :: "inventory_db \<Rightarrow> uuid \<Rightarrow> int" where
  "stock_total db p = available db p + reserved_units db p"

lemma release_inv:
  assumes "stock_inv db" and "release_inventory io contended now request db = (r, db')"
  shows "stock_inv db' \<and> (\<forall>p. stock_total db' p = stock_total db p)"
  using assms
proof (cases rule: release_inventory_cases)
  case failed
  then show ?thesis using assms(1) by simp
next
  case (finished hs d)
  from settled_inv [OF assms(1) finished(3) select_holds_live(1,2) [OF assms(1) finished(1)]] finished(3) show ?thesis
    by (simp add: settled_def stock_total_def)
qed

lemma units_of_nonneg: "(\<And>r. r \<in> set rs \<Longrightarrow> 0 < rv_quantity r) \<Longrightarrow> 0 \<le> units_of P p rs"
  unfolding units_of_def by (intro sum_list_nonneg) fastforce

lemma consume_inv:
  assumes "stock_inv db" and "consume_inventory io contended now request db = (r, db')"
  shows "stock_inv db' \<and> (\<forall>p. stock_total db' p \<le> stock_total db p)"
  using assms
proof (cases rule: consume_inventory_cases)
  case failed
  then show ?thesis using assms(1) by simp
next
  case (finished hs d)
  note live = select_holds_live(1,2) [OF assms(1) finished(1)]
  have "0 \<le> units_of (\<lambda>_. True) p hs" for p
    using live(1) assms(1) by (intro units_of_nonneg) (auto simp: stock_inv_def)
  with settled_inv [OF assms(1) finished(3) live] finished(3) show ?thesis
    by (simp add: settled_def stock_total_def)
qed

lemma available_cong: "iv_items db' = iv_items db \<Longrightarrow> available db' = available db \<and> reserved_units db' = reserved_units db"
  by (simp add: available_def reserved_units_def fun_eq_iff item_of_def)

lemma reserve_total:
  assumes "reserve_inventory io contended now fresh request key db = (r, db')"
  shows "stock_total db' p = stock_total db p"
  using assms
proof (cases rule: reserve_inventory_cases)
  case kept
  then show ?thesis by (simp add: stock_total_def available_cong [of db' db])
next
  case (reserved i i')
  from item_of_SomeD [OF reserved(4)] have i': "ii_product_id i' = rq_product_id request" by (simp add: reserved(7))
  have "item_of db' p = (if p = rq_product_id request then Some i' else item_of db p)" for p
    using reserved_db_item_of [of db i'] reserved(4) i' by (simp add: reserved(11))
  then show ?thesis by (simp add: stock_total_def available_def reserved_units_def reserved(4,7))
qed

interpretation stock: inductive_invariant fresh_stock stock_step stock_inv
proof unfold_locales
  show "fresh_stock db \<Longrightarrow> stock_inv db" for db
    by (simp add: fresh_stock_def stock_inv_def held_rows_def units_of_def)
next
  fix db db'
  assume "stock_inv db" and "stock_step db db'"
  then show "stock_inv db'"
    by (auto elim!: stock_step.cases simp: reserve_inventory_endpoint_def release_endpoint_def consume_endpoint_def
        intro: reserve_inv [OF _ surjective_pairing] release_inv [OF _ surjective_pairing, THEN conjunct1]
          consume_inv [OF _ surjective_pairing, THEN conjunct1])
qed

section \<open>The contract the order saga relies on\<close>

text \<open>
  What a client that holds stock for an order may assume: returning or retiring the order's
  stock changes the shelf by what the order holds or not at all, leaves the order with nothing
  and every other order as it was.
\<close>

locale stock_service =
  fixes inv :: "'db \<Rightarrow> bool" and on_shelf :: "'db \<Rightarrow> 'p \<Rightarrow> int" and holds :: "'db \<Rightarrow> 'o \<Rightarrow> 'p \<Rightarrow> int"
    and give_back :: "'o \<Rightarrow> 'db \<Rightarrow> 'db \<Rightarrow> bool" and retire :: "'o \<Rightarrow> 'db \<Rightarrow> 'db \<Rightarrow> bool"
  assumes inv_give_back: "inv db \<Longrightarrow> give_back x db db' \<Longrightarrow> inv db'"
    and inv_retire: "inv db \<Longrightarrow> retire x db db' \<Longrightarrow> inv db'"
    and shelf_give_back: "inv db \<Longrightarrow> give_back x db db' \<Longrightarrow> on_shelf db' p = on_shelf db p + holds db x p"
    and shelf_retire: "inv db \<Longrightarrow> retire x db db' \<Longrightarrow> on_shelf db' p = on_shelf db p"
    and holds_give_back: "inv db \<Longrightarrow> give_back x db db' \<Longrightarrow> holds db' y p = (if y = x then 0 else holds db y p)"
    and holds_retire: "inv db \<Longrightarrow> retire x db db' \<Longrightarrow> holds db' y p = (if y = x then 0 else holds db y p)"
begin

lemma give_back_twice:
  assumes "inv db" and "give_back x db db1" and "give_back x db1 db2"
  shows "on_shelf db2 = on_shelf db1 \<and> holds db2 = holds db1"
  using assms by (simp add: fun_eq_iff shelf_give_back [of db1] holds_give_back [of db1] holds_give_back [of db] inv_give_back [of db x])

lemma retire_then_give_back:
  assumes "inv db" and "retire x db db1" and "give_back x db1 db2"
  shows "on_shelf db2 = on_shelf db1 \<and> holds db2 = holds db1"
  using assms by (simp add: fun_eq_iff shelf_give_back [of db1] holds_give_back [of db1] holds_retire [of db] inv_retire [of db x])

lemma give_back_commutes:
  assumes "inv db" and "x \<noteq> y" and "give_back x db db1" and "give_back y db1 db2"
    and "give_back y db db3" and "give_back x db3 db4"
  shows "on_shelf db2 = on_shelf db4 \<and> holds db2 = holds db4"
  using assms inv_give_back [OF assms(1,3)] inv_give_back [OF assms(1,5)]
  by (simp add: fun_eq_iff shelf_give_back [of db1] shelf_give_back [of db3] shelf_give_back [of db]
      holds_give_back [of db1] holds_give_back [of db3] holds_give_back [of db])

end

definition whole_order :: "string \<Rightarrow> HoldRequest" where
  "whole_order order_id = \<lparr>hq_order_id = order_id, hq_product_ids = None\<rparr>"

definition released_order :: "string \<Rightarrow> inventory_db \<Rightarrow> inventory_db \<Rightarrow> bool" where
  "released_order order_id db db' \<longleftrightarrow>
     (\<exists>io contended now r. release_inventory io contended now (whole_order order_id) db = (Inr r, db'))"

definition consumed_order :: "string \<Rightarrow> inventory_db \<Rightarrow> inventory_db \<Rightarrow> bool" where
  "consumed_order order_id db db' \<longleftrightarrow>
     (\<exists>io contended now r. consume_inventory io contended now (whole_order order_id) db = (Inr r, db'))"

lemma select_whole_order:
  "select_holds (whole_order order_id) db = Some (filter (\<lambda>r. rv_order_id r = order_id) (held_rows db))"
  by (simp add: select_holds_def whole_order_def)

lemma settled_whole_order:
  assumes "settled back db (filter (\<lambda>r. rv_order_id r = order_id) (held_rows db)) db'"
  shows "available db' p = available db p + (if back then held db order_id p else 0)"
    and "held db' x p = (if x = order_id then 0 else held db x p)"
proof -
  let ?hs = "filter (\<lambda>r. rv_order_id r = order_id) (held_rows db)"
  have u: "units_of (\<lambda>_. True) p ?hs = held db order_id p" for p
    by (simp add: held_def units_of_def conj_commute)
  from assms show "available db' p = available db p + (if back then held db order_id p else 0)"
    by (simp add: settled_def u)
  have "held_rows db' = filter (\<lambda>r. r \<notin> set ?hs) (held_rows db)" using assms by (simp add: settled_def)
  then have "held_rows db' = filter (\<lambda>r. rv_order_id r \<noteq> order_id) (held_rows db)"
    by (auto intro: filter_cong)
  then show "held db' x p = (if x = order_id then 0 else held db x p)"
    by (auto simp: held_def units_of_def intro!: arg_cong [where f = sum_list] arg_cong [where f = "map rv_quantity"] filter_cong)
qed

lemma released_orderD:
  assumes "stock_inv db" and "released_order order_id db db'"
  shows "stock_inv db'" and "settled True db (filter (\<lambda>r. rv_order_id r = order_id) (held_rows db)) db'"
proof -
  from assms(2) obtain io contended now r where
    run: "release_inventory io contended now (whole_order order_id) db = (Inr r, db')" by (auto simp: released_order_def)
  from release_inv [OF assms(1) run] show "stock_inv db'" by blast
  from assms(1) run show "settled True db (filter (\<lambda>r. rv_order_id r = order_id) (held_rows db)) db'"
    by (cases rule: release_inventory_cases) (simp_all add: select_whole_order)
qed

lemma consumed_orderD:
  assumes "stock_inv db" and "consumed_order order_id db db'"
  shows "stock_inv db'" and "settled False db (filter (\<lambda>r. rv_order_id r = order_id) (held_rows db)) db'"
proof -
  from assms(2) obtain io contended now r where
    run: "consume_inventory io contended now (whole_order order_id) db = (Inr r, db')" by (auto simp: consumed_order_def)
  from consume_inv [OF assms(1) run] show "stock_inv db'" by blast
  from assms(1) run show "settled False db (filter (\<lambda>r. rv_order_id r = order_id) (held_rows db)) db'"
    by (cases rule: consume_inventory_cases) (simp_all add: select_whole_order)
qed

interpretation inventory: stock_service stock_inv available held released_order consumed_order
proof unfold_locales
  fix db db' x
  assume "stock_inv db" and "released_order x db db'"
  note D = released_orderD [OF this]
  show "stock_inv db'" by (rule D(1))
  show "available db' p = available db p + held db x p" for p using settled_whole_order(1) [OF D(2)] by simp
  show "held db' y p = (if y = x then 0 else held db y p)" for y p by (rule settled_whole_order(2) [OF D(2)])
next
  fix db db' x
  assume "stock_inv db" and "consumed_order x db db'"
  note D = consumed_orderD [OF this]
  show "stock_inv db'" by (rule D(1))
  show "available db' p = available db p" for p using settled_whole_order(1) [OF D(2)] by simp
  show "held db' y p = (if y = x then 0 else held db y p)" for y p by (rule settled_whole_order(2) [OF D(2)])
qed

section \<open>Properties\<close>

text \<open>A warehouse with two products, and the same after one order has reserved from it.\<close>

definition demo_stock :: inventory_db where
  "demo_stock = \<lparr>iv_items =
       [\<lparr>ii_id = ''i1'', ii_product_id = ''p1'', ii_available = 10, ii_reserved = 0, ii_updated_at = 0\<rparr>,
        \<lparr>ii_id = ''i2'', ii_product_id = ''p2'', ii_available = 4, ii_reserved = 1, ii_updated_at = 0\<rparr>],
     iv_reservations = [], iv_outbox = [], iv_keys = []\<rparr>"

definition demo_reserve :: "string \<Rightarrow> int \<Rightarrow> ReserveRequest" where
  "demo_reserve x q = \<lparr>rq_product_id = ''p1'', rq_quantity = q, rq_order_id = Some x\<rparr>"

definition demo_reserved :: inventory_db where
  "demo_reserved = snd (reserve_inventory_endpoint True (\<lambda>_. False) 5 ''r1'' (demo_reserve ''o1'' 3) ''k1'' demo_stock)"

lemmas demo_stock_defs = demo_stock_def demo_reserve_def demo_reserved_def reserve_inventory_endpoint_def
  reserve_inventory_def Let_def item_of_def item_level_def plan_reservation_def set_level_def new_hold_def
  holds_accepted_def level_accepted_def held_rows_def int4_def commit_def bind_key_def inventory_message_def
  update_item_def

lemma demo_fresh_stock: "fresh_stock demo_stock"
  by (simp add: fresh_stock_def demo_stock_def)

lemma demo_stock_reachable: "reachable fresh_stock stock_step demo_reserved"
  unfolding demo_reserved_def
  by (rule reach_step, rule reach_init, rule demo_fresh_stock, rule stock_step.reserve)

lemma demo_reserved_inv: "stock_inv demo_reserved"
  by (rule stock.reachable_inv [OF demo_stock_reachable])

text \<open>
  Property C2 (stock is never oversold). However reserve, release and consume requests follow
  each other on a warehouse nobody had ordered from, the shelf never goes below zero, and the
  units orders hold of a product never exceed the units set aside for it.
\<close>

theorem stock_never_oversold:
  assumes "reachable fresh_stock stock_step db" and "item_of db p = Some i"
  shows "0 \<le> ii_available i \<and> units_of (\<lambda>_. True) p (held_rows db) \<le> ii_reserved i"
  using stock.reachable_inv [OF assms(1)] item_of_SomeD [OF assms(2)] by (auto simp: stock_inv_def)

theorem stock_never_oversold_witness:
  "\<exists>i. item_of demo_reserved ''p1'' = Some i \<and> units_of (\<lambda>_. True) ''p1'' (held_rows demo_reserved) = 3 \<and>
     0 \<le> ii_available i \<and> units_of (\<lambda>_. True) ''p1'' (held_rows demo_reserved) \<le> ii_reserved i"
proof -
  obtain i where i: "item_of demo_reserved ''p1'' = Some i" by (simp add: demo_stock_defs)
  moreover have "units_of (\<lambda>_. True) ''p1'' (held_rows demo_reserved) = 3" by (simp add: demo_stock_defs units_of_def)
  ultimately show ?thesis using stock_never_oversold [OF demo_stock_reachable i] by blast
qed

text \<open>
  Units are moved, never made. Reserving and releasing keep the sum of available
  and reserved units of every product, whatever they answer; consuming never raises it.
\<close>

theorem stock_conserved:
  assumes "stock_inv db"
  shows "stock_total (snd (reserve_inventory_endpoint io contended now fresh request key db)) p = stock_total db p \<and>
     stock_total (snd (release_endpoint io contended now hold_request key db)) p = stock_total db p \<and>
     stock_total (snd (consume_endpoint io contended now hold_request key db)) p \<le> stock_total db p"
  using reserve_total [OF surjective_pairing] release_inv [OF assms surjective_pairing]
    consume_inv [OF assms surjective_pairing]
  by (simp add: reserve_inventory_endpoint_def release_endpoint_def consume_endpoint_def)

theorem stock_conserved_witness:
  "stock_total demo_reserved ''p1'' = 10 \<and>
   stock_total (snd (release_endpoint True (\<lambda>_. False) 9 (whole_order ''o1'') ''k2'' demo_reserved)) ''p1'' = 10"
proof -
  have "stock_total demo_reserved ''p1'' = 10"
    by (simp add: demo_stock_defs stock_total_def available_def reserved_units_def)
  with stock_conserved [OF demo_reserved_inv] show ?thesis by simp
qed

text \<open>
  Property C25 (release and consume against their contract). A release that answers with success
  puts exactly what the order held back on the shelf and a consume puts back nothing; both leave
  the order holding nothing and every other order's holds as they were, and report the units
  they moved.
\<close>

theorem release_consume_refine:
  assumes "stock_inv db"
  shows "(release_inventory io contended now (whole_order x) db = (Inr r, db') \<longrightarrow>
      available db' p = available db p + held db x p \<and> held db' y p = (if y = x then 0 else held db y p) \<and>
      hr_units r = sum_list (map rv_quantity (filter (\<lambda>h. rv_order_id h = x) (held_rows db)))) \<and>
    (consume_inventory io contended now (whole_order x) db = (Inr r, db') \<longrightarrow>
      available db' p = available db p \<and> held db' y p = (if y = x then 0 else held db y p) \<and>
      hr_units r = sum_list (map rv_quantity (filter (\<lambda>h. rv_order_id h = x) (held_rows db))))"
proof -
  have returned: "available db' p = available db p + held db x p \<and> held db' y p = (if y = x then 0 else held db y p) \<and>
      hr_units r = sum_list (map rv_quantity (filter (\<lambda>h. rv_order_id h = x) (held_rows db)))"
    if run: "release_inventory io contended now (whole_order x) db = (Inr r, db')"
  proof -
    from run have "released_order x db db'" by (auto simp: released_order_def)
    note inventory.shelf_give_back [OF assms this, of p] inventory.holds_give_back [OF assms this, of y p]
    with assms run show ?thesis by (cases rule: release_inventory_cases) (simp_all add: select_whole_order)
  qed
  have gone: "available db' p = available db p \<and> held db' y p = (if y = x then 0 else held db y p) \<and>
      hr_units r = sum_list (map rv_quantity (filter (\<lambda>h. rv_order_id h = x) (held_rows db)))"
    if run: "consume_inventory io contended now (whole_order x) db = (Inr r, db')"
  proof -
    from run have "consumed_order x db db'" by (auto simp: consumed_order_def)
    note inventory.shelf_retire [OF assms this, of p] inventory.holds_retire [OF assms this, of y p]
    with assms run show ?thesis by (cases rule: consume_inventory_cases) (simp_all add: select_whole_order)
  qed
  show ?thesis by (intro conjI impI returned gone)
qed

lemma demo_release:
  "\<exists>r db'. release_inventory True (\<lambda>_. False) 9 (whole_order ''o1'') demo_reserved = (Inr r, db')"
  by (simp add: release_inventory_def release_selected_def select_whole_order demo_stock_defs plan_release_def
      rl_released_def settle_hold_def)

theorem release_consume_refine_witness:
  "\<exists>r db'. release_inventory True (\<lambda>_. False) 9 (whole_order ''o1'') demo_reserved = (Inr r, db') \<and>
     available db' ''p1'' = 10 \<and> held db' ''o1'' ''p1'' = 0"
proof -
  from demo_release obtain r db' where
    run: "release_inventory True (\<lambda>_. False) 9 (whole_order ''o1'') demo_reserved = (Inr r, db')" by blast
  have "available demo_reserved ''p1'' = 7" "held demo_reserved ''o1'' ''p1'' = 3"
    by (simp_all add: demo_stock_defs available_def held_def units_of_def)
  with release_consume_refine [OF demo_reserved_inv, of True "\<lambda>_. False" 9 "''o1''" r db' "''p1''" "''o1''"] run show ?thesis by auto
qed

lemma settled_levels_accepted:
  assumes "stock_inv db" and "settled back db hs db'" and "set hs \<subseteq> set (held_rows db)" and "distinct hs"
    and "\<forall>p. stock_total db p \<le> 2147483647"
  shows "\<forall>i \<in> set (iv_items db'). level_accepted i"
proof
  fix i
  assume i: "i \<in> set (iv_items db')"
  let ?p = "ii_product_id i"
  have inv: "stock_inv db'" by (rule settled_inv [OF assms(1-4)])
  then have at: "item_of db' ?p = Some i" using i by (auto intro: item_of_mem simp: stock_inv_def)
  have "0 \<le> units_of (\<lambda>_. True) ?p (held_rows db')" "0 \<le> units_of (\<lambda>_. True) ?p hs"
    using inv assms(1,3) by (auto intro!: units_of_nonneg simp: stock_inv_def)
  moreover have "0 \<le> ii_available i" "units_of (\<lambda>_. True) ?p (held_rows db') \<le> ii_reserved i"
    using inv i by (auto simp: stock_inv_def)
  moreover have "stock_total db' ?p \<le> stock_total db ?p"
    using assms(2) \<open>0 \<le> units_of (\<lambda>_. True) ?p hs\<close> by (simp add: settled_def stock_total_def)
  then have "ii_available i + ii_reserved i \<le> stock_total db ?p"
    using at by (simp add: stock_total_def available_def reserved_units_def)
  ultimately show "level_accepted i" using assms(5) [rule_format, of ?p] by (simp add: level_accepted_def int4_def)
qed

lemma free_holds_settle:
  assumes "stock_inv db" and "\<forall>p. stock_total db p \<le> 2147483647" and "select_holds request db = Some hs"
    and "\<forall>h \<in> set hs. \<not> contended (rv_product_id h)"
  shows "(\<exists>r db'. release_inventory True contended now request db = (Inr r, db')) \<and>
     (\<exists>r db'. consume_inventory True contended now request db = (Inr r, db'))"
proof -
  note live = select_holds_live(1,2) [OF assms(1,3)]
  show ?thesis
    using release_holds_live [OF assms(1) live, of contended now 0 "[]"] consume_holds_live [OF assms(1) live, of contended now 0 "[]"]
      assms(3,4) settled_levels_accepted [OF assms(1) _ live assms(2)]
    by (fastforce simp: release_inventory_def release_selected_def consume_inventory_def commit_def)
qed

text \<open>
  Property C26 (compensation cannot get stuck). A release or consume of an order whose rows are
  free and whose database accepts the commit answers with success, so long as the totals fit the
  columns; an order that holds nothing is one such case.
\<close>

theorem compensation_succeeds:
  assumes "stock_inv db" and "\<forall>p. stock_total db p \<le> 2147483647"
    and "\<forall>h \<in> set (held_rows db). rv_order_id h = x \<longrightarrow> \<not> contended (rv_product_id h)"
  shows "(\<exists>r db'. release_inventory True contended now (whole_order x) db = (Inr r, db')) \<and>
     (\<exists>r db'. consume_inventory True contended now (whole_order x) db = (Inr r, db'))"
  by (rule free_holds_settle [OF assms(1,2) select_whole_order]) (use assms(3) in simp)

lemma demo_total: "stock_total demo_reserved p \<le> 2147483647"
  by (simp add: demo_stock_defs stock_total_def available_def reserved_units_def)

theorem compensation_succeeds_witness:
  "held demo_reserved ''o1'' ''p1'' = 3 \<and>
   (\<exists>r db'. consume_inventory True (\<lambda>_. False) 9 (whole_order ''o1'') demo_reserved = (Inr r, db'))"
proof -
  have "held demo_reserved ''o1'' ''p1'' = 3" by (simp add: demo_stock_defs held_def units_of_def)
  then show ?thesis
    using compensation_succeeds [OF demo_reserved_inv, of "''o1''" "\<lambda>_. False" 9] demo_total by blast
qed

text \<open>
  An order's stock is settled once. After a release or a consume of the order,
  whichever came first, a further release leaves shelf and holds as they are; releases of two
  orders give the same stock in either order.
\<close>

theorem settled_once:
  assumes "stock_inv db"
  shows "((released_order x db db1 \<or> consumed_order x db db1) \<and> released_order x db1 db2 \<longrightarrow>
      available db2 = available db1 \<and> held db2 = held db1) \<and>
    (x \<noteq> y \<and> released_order x db db1 \<and> released_order y db1 db2 \<and> released_order y db db3 \<and> released_order x db3 db4 \<longrightarrow>
      available db2 = available db4 \<and> held db2 = held db4)"
  using inventory.give_back_twice [OF assms] inventory.retire_then_give_back [OF assms]
    inventory.give_back_commutes [OF assms] by blast

theorem settled_once_witness:
  "\<exists>db1 db2. released_order ''o1'' demo_reserved db1 \<and> released_order ''o1'' db1 db2 \<and>
     available db2 = available db1 \<and> held db2 = held db1"
proof -
  from demo_release obtain r db1 where
    run: "release_inventory True (\<lambda>_. False) 9 (whole_order ''o1'') demo_reserved = (Inr r, db1)" by blast
  then have one: "released_order ''o1'' demo_reserved db1" by (auto simp: released_order_def)
  have "stock_inv db1" by (rule released_orderD(1) [OF demo_reserved_inv one])
  then have "filter (\<lambda>h. rv_order_id h = ''o1'') (held_rows db1) = []"
    using released_orderD(2) [OF demo_reserved_inv one] by (simp add: settled_def filter_empty_conv)
  then have "release_inventory True (\<lambda>_. False) 9 (whole_order ''o1'') db1 =
      (Inr \<lparr>hr_units = 0, hr_reservations = 0, hr_detail = ''no live reservation; nothing to return''\<rparr>, db1)"
    by (simp add: release_inventory_def release_selected_def select_whole_order)
  then have two: "released_order ''o1'' db1 db1" unfolding released_order_def by blast
  from settled_once [OF demo_reserved_inv] one two show ?thesis by blast
qed

lemma no_live_hold:
  assumes "stock_inv db" and "held db x p = 0" and "h \<in> set (held_rows db)"
  shows "(rv_order_id h, rv_product_id h) \<noteq> (x, p)"
proof
  assume h: "(rv_order_id h, rv_product_id h) = (x, p)"
  have "rv_quantity h \<le> held db x p" unfolding held_def
    by (rule units_of_le) (use assms h in \<open>auto simp: stock_inv_def\<close>)
  with assms show False by (auto simp: stock_inv_def)
qed

lemma first_hold_accepted:
  assumes "stock_inv db" and "held db x p = 0" and "\<forall>r \<in> set (iv_reservations db). rv_id r \<noteq> fresh"
    and "rq_order_id request = Some x" and "int4 (rq_quantity request)"
  shows "holds_accepted db (new_hold now fresh request p)"
proof -
  have "(x, p) \<notin> (\<lambda>r. (rv_order_id r, rv_product_id r)) ` set (held_rows db)" using no_live_hold [OF assms(1,2)] by force
  moreover have "fresh \<notin> rv_id ` set (iv_reservations db)" using assms(3) by auto
  ultimately show ?thesis
    using assms(1,4,5) by (cases x) (simp_all add: holds_accepted_def new_hold_def stock_inv_def)
qed

lemma stock_bounds:
  assumes "stock_inv db" and "item_of db p = Some i"
  shows "0 \<le> ii_available i" and "0 \<le> ii_reserved i" and "stock_total db p = ii_available i + ii_reserved i"
proof -
  have "0 \<le> units_of (\<lambda>_. True) p (held_rows db)" using assms(1) by (intro units_of_nonneg) (auto simp: stock_inv_def)
  with assms item_of_SomeD [OF assms(2)] show "0 \<le> ii_available i" "0 \<le> ii_reserved i"
    by (auto simp: stock_inv_def)
  show "stock_total db p = ii_available i + ii_reserved i"
    using assms(2) by (simp add: stock_total_def available_def reserved_units_def)
qed

lemma reserve_in_stock:
  assumes "map_of (iv_keys db) key = None" and "\<not> contended (rq_product_id request)"
    and "item_of db (rq_product_id request) = Some i" and "0 < rq_quantity request" and "rq_quantity request \<le> ii_available i"
    and "holds_accepted db (new_hold now fresh request (rq_product_id request))"
    and "i' = set_level now \<lparr>sl_available = ii_available i - rq_quantity request,
        sl_reserved = ii_reserved i + rq_quantity request\<rparr> i" and "level_accepted i'"
  shows "reserve_inventory True contended now fresh request key db = (Inr i', reserved_db now fresh request key i' db)"
proof -
  have "ii_product_id i = rq_product_id request" using item_of_SomeD [OF assms(3)] by blast
  with assms show ?thesis
    by (simp add: reserve_inventory_def plan_reservation_def Let_def reserved_db_def commit_def)
qed

lemma held_after_reserve:
  assumes "rq_order_id request = Some x" and "x \<noteq> []" and "held db x p = 0" and "ii_product_id i = p"
  shows "held (reserved_db now fresh request key i db) x p = rq_quantity request"
  using assms by (cases x) (simp_all add: held_def reserved_db_held_rows new_hold_def units_of_def)

text \<open>What a first reserve request of an order for a product does, in full.\<close>

lemma first_reserve:
  assumes "map_of (iv_keys db) key = None" and "key \<noteq> []" and "0 < rq_quantity request"
    and "\<not> contended (rq_product_id request)"
    and "\<forall>r \<in> set (iv_reservations db). rv_id r \<noteq> fresh"
    and "stock_inv db" and "held db x (rq_product_id request) = 0" and "rq_order_id request = Some x"
    and "stock_total db (rq_product_id request) \<le> 2147483647"
    and "reserve_inventory_endpoint True contended now fresh request key db = (r, db')"
  obtains (unknown) "item_of db (rq_product_id request) = None" "r = Inl (HTTPException 404)" "db' = db"
  | (short) i where "item_of db (rq_product_id request) = Some i" "ii_available i < rq_quantity request"
      "r = Inl (HTTPException 409)"
      "db' = bind_key key (ii_id i) (inventory_message now (ii_product_id i) ''InventoryReservationFailed''
        (insufficient_payload now request i) db)"
  | (granted) i i' where "item_of db (rq_product_id request) = Some i" "rq_quantity request \<le> ii_available i"
      "i' = set_level now \<lparr>sl_available = ii_available i - rq_quantity request,
        sl_reserved = ii_reserved i + rq_quantity request\<rparr> i"
      "r = Inr i'" "db' = reserved_db now fresh request key i' db"
proof (cases "item_of db (rq_product_id request)")
  case None
  with assms show ?thesis
    by (intro unknown) (simp_all add: reserve_inventory_endpoint_def reserve_inventory_def plan_reservation_def)
next
  case (Some i)
  note bounds = stock_bounds [OF assms(6) Some]
  show ?thesis
  proof (cases "rq_quantity request \<le> ii_available i")
    case True
    let ?i = "set_level now \<lparr>sl_available = ii_available i - rq_quantity request,
        sl_reserved = ii_reserved i + rq_quantity request\<rparr> i"
    have fits: "int4 (rq_quantity request)" "level_accepted ?i"
      using True bounds assms(3,9) by (simp_all add: int4_def level_accepted_def)
    have "reserve_inventory True contended now fresh request key db = (Inr ?i, reserved_db now fresh request key ?i db)"
      using assms(1,3,4) Some True first_hold_accepted [OF assms(6,7,5,8) fits(1)] fits(2)
      by (intro reserve_in_stock [where i = i]) simp_all
    with assms(2,3,10) show ?thesis
      by (intro granted [OF Some True refl]) (simp_all add: reserve_inventory_endpoint_def)
  next
    case False
    with assms Some show ?thesis
      by (intro short [of i])
        (simp_all add: reserve_inventory_endpoint_def reserve_inventory_def plan_reservation_def)
  qed
qed

text \<open>
  What a first reserve request answers. With a key not seen before, an unlocked
  row and a database that takes the writes, the answer is decided by the stock alone: 404 for an
  unknown product, 409 with an outbox event and unchanged stock when the shelf is short, and
  otherwise the new levels, with the hold recorded for the order that asked.
\<close>

theorem reserve_answer:
  assumes "map_of (iv_keys db) key = None" and "key \<noteq> []" and "0 < rq_quantity request"
    and "\<not> contended (rq_product_id request)"
    and "\<forall>r \<in> set (iv_reservations db). rv_id r \<noteq> fresh"
    and "stock_inv db" and "held db x (rq_product_id request) = 0" and "rq_order_id request = Some x" and "x \<noteq> []"
    and "stock_total db (rq_product_id request) \<le> 2147483647"
    and "reserve_inventory_endpoint True contended now fresh request key db = (r, db')"
  shows "(item_of db (rq_product_id request) = None \<longrightarrow> r = Inl (HTTPException 404) \<and> db' = db) \<and>
     (\<forall>i. item_of db (rq_product_id request) = Some i \<longrightarrow>
        (ii_available i < rq_quantity request \<longrightarrow>
           r = Inl (HTTPException 409) \<and> iv_items db' = iv_items db \<and> iv_reservations db' = iv_reservations db \<and>
           length (iv_outbox db') = Suc (length (iv_outbox db))) \<and>
        (rq_quantity request \<le> ii_available i \<longrightarrow>
           (\<exists>i'. r = Inr i' \<and> ii_available i' = ii_available i - rq_quantity request \<and>
              ii_reserved i' = ii_reserved i + rq_quantity request \<and>
              item_of db' (rq_product_id request) = Some i' \<and>
              held db' x (rq_product_id request) = rq_quantity request)))"
  using assms(1-8,10,11)
proof (cases rule: first_reserve)
  case (granted i i')
  have ip: "ii_product_id i' = rq_product_id request" using item_of_SomeD [OF granted(1)] by (simp add: granted(3))
  have "item_of db' (rq_product_id request) = Some i'"
    using reserved_db_item_of [of db i'] by (simp add: granted(1,5) ip)
  moreover have "held db' x (rq_product_id request) = rq_quantity request"
    unfolding granted(5) by (rule held_after_reserve [OF assms(8,9,7) ip])
  ultimately show ?thesis using granted(2) by (simp add: granted(1,3,4))
qed (simp_all add: inventory_message_def bind_key_def)

theorem reserve_answer_witness:
  "\<exists>i' db'. reserve_inventory_endpoint True (\<lambda>_. False) 7 ''r2'' (demo_reserve ''o2'' 7) ''k2'' demo_reserved = (Inr i', db') \<and>
     ii_available i' = 0 \<and> ii_reserved i' = 10 \<and> held db' ''o2'' ''p1'' = 7"
proof -
  obtain r db' where run:
    "reserve_inventory_endpoint True (\<lambda>_. False) 7 ''r2'' (demo_reserve ''o2'' 7) ''k2'' demo_reserved = (r, db')"
    by (rule prod.exhaust)
  have rq: "rq_product_id (demo_reserve ''o2'' 7) = ''p1''" "rq_quantity (demo_reserve ''o2'' 7) = 7"
    "rq_order_id (demo_reserve ''o2'' 7) = Some ''o2''"
    by (simp_all add: demo_reserve_def)
  obtain i where i: "item_of demo_reserved ''p1'' = Some i" "ii_available i = 7" "ii_reserved i = 3"
    by (simp add: demo_stock_defs)
  have "held demo_reserved ''o2'' ''p1'' = 0" "map_of (iv_keys demo_reserved) ''k2'' = None"
    "\<forall>r \<in> set (iv_reservations demo_reserved). rv_id r \<noteq> ''r2''"
    by (simp_all add: demo_stock_defs held_def units_of_def)
  with reserve_answer [OF _ _ _ _ _ demo_reserved_inv _ _ _ _ run, of "''o2''"] demo_total i run show ?thesis
    unfolding rq by auto
qed

lemma insufficient_cases:
  assumes "reserve_inventory io contended now fresh request key db = (Inl (HTTPException 409), db')"
    and "map_of (iv_keys db) key = None" and "db' \<noteq> db"
  obtains i where "item_of db (rq_product_id request) = Some i" "ii_available i < rq_quantity request"
    "iv_items db' = iv_items db" "iv_keys db' = iv_keys db @ [(key, Some (ii_id i))]"
proof (cases "item_of db (rq_product_id request)")
  case None
  with assms show ?thesis by (auto simp: reserve_inventory_def plan_reservation_def split: if_splits)
next
  case (Some i)
  with assms have "0 < rq_quantity request" "\<not> rq_quantity request \<le> ii_available i" "io" "\<not> contended (rq_product_id request)"
    by (auto simp: reserve_inventory_def plan_reservation_def commit_def Let_def split: if_splits)
  with assms Some show ?thesis
    by (intro that [of i]) (auto simp: reserve_inventory_def plan_reservation_def bind_key_def inventory_message_def)
qed

lemma find_distinct_key: "distinct (map f xs) \<Longrightarrow> x \<in> set xs \<Longrightarrow> find (\<lambda>y. f y = f x) xs = Some x"
  by (induction xs) (auto simp: image_iff)

lemma bound_key_answer:
  assumes "map_of (iv_keys db) key = Some (Some (ii_id i))" and "i \<in> set (iv_items db)" and "distinct (map ii_id (iv_items db))"
    and "0 < rq_quantity request" and "key \<noteq> []"
  shows "reserve_inventory_endpoint io contended now fresh request key db = (Inr i, db)"
  using assms find_distinct_key [OF assms(3,2)] by (simp add: reserve_inventory_endpoint_def reserve_inventory_def)

definition race_stock :: inventory_db where
  "race_stock = snd (reserve_inventory_endpoint True (\<lambda>_. False) 5 ''r2'' (demo_reserve ''o2'' 5) ''k2''
     (snd (reserve_inventory_endpoint True (\<lambda>_. False) 5 ''r1'' (demo_reserve ''o1'' 5) ''k1'' demo_stock)))"

text \<open>
  A rejected reservation is replayed as a success. The key of a request turned
  down for want of stock is bound to the item, so the same request with the same key is answered
  with the item, as a granted one is, while nothing is held for the order.
\<close>

lemma rejection_replayed_as_success:
  assumes "reserve_inventory_endpoint io contended now fresh request key db = (Inl (HTTPException 409), db')"
    and "map_of (iv_keys db) key = None" and "db' \<noteq> db" and "distinct (map ii_id (iv_items db))"
  shows "\<exists>i. item_of db (rq_product_id request) = Some i \<and> ii_available i < rq_quantity request \<and>
     reserve_inventory_endpoint io2 contended2 now2 fresh2 request key db' = (Inr i, db')"
proof -
  from assms(1,3) have guards: "0 < rq_quantity request" "key \<noteq> []"
    and run: "reserve_inventory io contended now fresh request key db = (Inl (HTTPException 409), db')"
    by (auto simp: reserve_inventory_endpoint_def split: if_splits)
  from run assms(2,3) obtain i where i: "item_of db (rq_product_id request) = Some i" "ii_available i < rq_quantity request"
    and db': "iv_items db' = iv_items db" "iv_keys db' = iv_keys db @ [(key, Some (ii_id i))]"
    by (rule insufficient_cases)
  have "reserve_inventory_endpoint io2 contended2 now2 fresh2 request key db' = (Inr i, db')"
    by (rule bound_key_answer) (use assms(2,4) guards item_of_SomeD [OF i(1)] in \<open>simp_all add: db' map_add_def\<close>)
  with i show ?thesis by simp
qed

text \<open>
  Two releases of one order at the same time. \<open>release_inventory\<close> reads the held
  rows without locking them. Two calls that both read before either commits return the order's
  units twice: here order \<open>o1\<close> held 5 of 10 reserved units, the shelf gets 10, and order \<open>o2\<close>
  still holds 5 units that are no longer reserved.
\<close>

theorem concurrent_release_returns_twice:
  "\<exists>holds db1 db2 r1 r2.
     select_holds (whole_order ''o1'') race_stock = Some holds \<and>
     release_selected True (\<lambda>_. False) 1 holds race_stock = (Inr r1, db1) \<and>
     release_selected True (\<lambda>_. False) 2 holds db1 = (Inr r2, db2) \<and>
     stock_inv race_stock \<and> \<not> stock_inv db2 \<and>
     available race_stock ''p1'' = 0 \<and> available db2 ''p1'' = 10 \<and> held db2 ''o2'' ''p1'' = 5"
  by (simp add: race_stock_def demo_stock_defs release_selected_def select_whole_order plan_release_def rl_released_def
      settle_hold_def stock_inv_def available_def held_def units_of_def)

end
