(* ===== verification/Reservation_Flow.thy ===== *)
theory Reservation_Flow
  imports Dispatch Inventory
begin

text \<open>
  The dispatcher in front of the inventory service: the parameter \<open>send\<close> of the dispatcher is
  instantiated with the routes of the inventory service, and the order service is reduced to the
  events it is sent and the status it answers.
\<close>

section \<open>The inventory service behind HTTP\<close>

record world =
  wo_stock :: inventory_db
  wo_events :: "string list"

text \<open>The request bodies as the route's schemas read them; \<open>None\<close> is a 422.\<close>

definition parse_reserve :: "json \<Rightarrow> ReserveRequest option" where
  "parse_reserve body =
     (case (dict_get body ''product_id'', dict_get body ''quantity'') of
        (Some (JStr p), Some (JInt q)) \<Rightarrow>
          (case (py_uuid p, dict_get_null body ''order_id'') of
             (Some u, JStr x) \<Rightarrow>
               if length x \<le> 255 then Some \<lparr>rq_product_id = u, rq_quantity = q, rq_order_id = Some x\<rparr> else None
           | (Some u, JNull) \<Rightarrow> Some \<lparr>rq_product_id = u, rq_quantity = q, rq_order_id = None\<rparr>
           | _ \<Rightarrow> None)
      | _ \<Rightarrow> None)"

fun json_str :: "json \<Rightarrow> string option" where
  "json_str (JStr s) = Some s"
| "json_str _ = None"

definition parse_hold :: "json \<Rightarrow> HoldRequest option" where
  "parse_hold body =
     (case dict_get body ''order_id'' of
        Some (JStr x) \<Rightarrow>
          if length x \<le> 255 then
            (case dict_get_null body ''product_ids'' of
               JNull \<Rightarrow> Some \<lparr>hq_order_id = x, hq_product_ids = None\<rparr>
             | JArr ps \<Rightarrow> map_option (\<lambda>us. \<lparr>hq_order_id = x, hq_product_ids = Some us\<rparr>) (those (map json_str ps))
             | _ \<Rightarrow> None)
          else None
      | _ \<Rightarrow> None)"

definition answer :: "'a result \<Rightarrow> sent" where
  "answer r = Call_Answered (http_status 200 r) []"

text \<open>
  One call. \<open>fresh\<close> gives the id of the row a key creates, \<open>saga\<close> the answer of the order
  service to an event.
\<close>

definition stock_send ::
  "(uuid \<Rightarrow> bool) \<Rightarrow> int \<Rightarrow> (string \<Rightarrow> uuid) \<Rightarrow> (string \<Rightarrow> sent) \<Rightarrow> call \<Rightarrow> world \<Rightarrow> sent \<times> world" where
  "stock_send contended now fresh saga c w =
     (if ca_target c = ''inventory-service'' then
        (if ca_path c = ''/inventory/reserve'' then
           (case parse_reserve (ca_body c) of
              None \<Rightarrow> (Call_Answered 422 [], w)
            | Some request \<Rightarrow>
                (let (r, db) = reserve_inventory_endpoint True contended now (fresh (ca_key c)) request (ca_key c) (wo_stock w) in
                 (answer r, w\<lparr>wo_stock := db\<rparr>)))
         else if ca_path c = ''/inventory/release'' then
           (case parse_hold (ca_body c) of
              None \<Rightarrow> (Call_Answered 422 [], w)
            | Some request \<Rightarrow>
                (let (r, db) = release_endpoint True contended now request (ca_key c) (wo_stock w) in
                 (answer r, w\<lparr>wo_stock := db\<rparr>)))
         else if ca_path c = ''/inventory/consume'' then
           (case parse_hold (ca_body c) of
              None \<Rightarrow> (Call_Answered 422 [], w)
            | Some request \<Rightarrow>
                (let (r, db) = consume_endpoint True contended now request (ca_key c) (wo_stock w) in
                 (answer r, w\<lparr>wo_stock := db\<rparr>)))
         else (Call_Answered 404 [], w))
      else
        (case dict_get_null (ca_body c) ''event_type'' of
           JStr e \<Rightarrow> (saga e, w\<lparr>wo_events := wo_events w @ [e]\<rparr>)
         | _ \<Rightarrow> (Call_Answered 422 [], w)))"

section \<open>Single calls\<close>

lemma saga_event:
  assumes "saga e = Call_Answered 200 t"
  shows "advance_order (stock_send contended now fresh saga) order_id e key payload w = (Inr SETTLED, w\<lparr>wo_events := wo_events w @ [e]\<rparr>)"
  using assms
  by (simp add: advance_order_def post_def saga_call_def stock_send_def dict_get_null_def classify_saga_response_def)

lemma reserve_call:
  assumes "py_uuid (ir_product_id l) = Some (ir_product_id l)" and "length x \<le> 255"
  shows "post (stock_send contended now fresh saga)
      (inventory_call ''reserve'' (reserve_body (JStr x) l) (reservation_idempotency_key m (ir_product_id l))) w =
     (let key = reservation_idempotency_key m (ir_product_id l);
          (r, db) = reserve_inventory_endpoint True contended now (fresh key)
            \<lparr>rq_product_id = ir_product_id l, rq_quantity = ir_quantity l, rq_order_id = Some x\<rparr> key (wo_stock w) in
      if 500 \<le> http_status 200 r then (Inl (Failed_Call ''HTTPStatusError''), w\<lparr>wo_stock := db\<rparr>)
      else (Inr (http_status 200 r, []), w\<lparr>wo_stock := db\<rparr>))"
  using assms
  by (simp add: post_def inventory_call_def stock_send_def parse_reserve_def reserve_body_def dict_get_null_def answer_def
      Let_def split: prod.split)

lemma release_call:
  assumes "length x \<le> 255"
  shows "post (stock_send contended now fresh saga) (inventory_call ''release'' (JObj [(''order_id'', JStr x)]) key) w =
     (let (r, db) = release_endpoint True contended now (whole_order x) key (wo_stock w) in
      if 500 \<le> http_status 200 r then (Inl (Failed_Call ''HTTPStatusError''), w\<lparr>wo_stock := db\<rparr>)
      else (Inr (http_status 200 r, []), w\<lparr>wo_stock := db\<rparr>))"
  using assms
  by (simp add: post_def inventory_call_def stock_send_def parse_hold_def whole_order_def dict_get_null_def answer_def
      Let_def split: prod.split)

section \<open>The loop over the lines\<close>

text \<open>
  A line that is about to be reserved for the first time: its product id is a UUID, its key has
  not been used, the order holds nothing of the product, and the row to be created is new.
\<close>

definition fresh_line :: "(string \<Rightarrow> uuid) \<Rightarrow> string \<Rightarrow> string \<Rightarrow> inventory_db \<Rightarrow> ItemReservation \<Rightarrow> bool" where
  "fresh_line fresh m x db l \<longleftrightarrow>
     (let p = ir_product_id l; key = reservation_idempotency_key m p in
      py_uuid p = Some p \<and> 0 < ir_quantity l \<and> map_of (iv_keys db) key = None \<and> held db x p = 0 \<and>
      (\<forall>r \<in> set (iv_reservations db). rv_id r \<noteq> fresh key))"

definition stock_ready :: "inventory_db \<Rightarrow> bool" where
  "stock_ready db \<longleftrightarrow> stock_inv db \<and> (\<forall>p. stock_total db p \<le> 2147483647)"

text \<open>Units move between the shelf and the order, and no other order is touched.\<close>

definition moved_for :: "string \<Rightarrow> inventory_db \<Rightarrow> inventory_db \<Rightarrow> bool" where
  "moved_for x db db' \<longleftrightarrow>
     (\<forall>p. available db' p + held db' x p = available db p + held db x p) \<and> (\<forall>y. y \<noteq> x \<longrightarrow> held db' y = held db y)"

lemma moved_for_trans: "moved_for x db db1 \<Longrightarrow> moved_for x db1 db2 \<Longrightarrow> moved_for x db db2"
  by (simp add: moved_for_def)

lemma moved_for_same: "moved_for x db db' \<Longrightarrow> held db' x p = held db x p \<Longrightarrow> available db' p = available db p"
  unfolding moved_for_def by (metis add_right_cancel)

lemma held_cong: "iv_reservations db' = iv_reservations db \<Longrightarrow> held db' = held db"
  by (simp add: held_def held_rows_def fun_eq_iff)

lemma key_inj [simp]: "reservation_idempotency_key m p = reservation_idempotency_key m q \<longleftrightarrow> p = q"
  by (simp add: reservation_idempotency_key_def)

lemma key_not_Nil [simp]: "reservation_idempotency_key m p \<noteq> []"
  by (simp add: reservation_idempotency_key_def)

lemma reserved_db_effect:
  assumes "item_of db p = Some i" and "rq_order_id request = Some x" and "x \<noteq> []"
    and "i' = set_level now \<lparr>sl_available = ii_available i - rq_quantity request,
        sl_reserved = ii_reserved i + rq_quantity request\<rparr> i"
    and "db' = reserved_db now fresh request key i' db"
  shows "available db' q = available db q - (if q = p then rq_quantity request else 0)"
    and "held db' y q = held db y q + (if y = x \<and> q = p then rq_quantity request else 0)"
    and "iv_keys db' = iv_keys db @ [(key, Some (ii_id i'))]"
    and "map rv_id (iv_reservations db') = map rv_id (iv_reservations db) @ [fresh]"
proof -
  have ip: "ii_product_id i' = p" using item_of_SomeD [OF assms(1)] by (simp add: assms(4))
  show "available db' q = available db q - (if q = p then rq_quantity request else 0)"
    using reserved_db_item_of [of db i'] assms(1) by (simp add: available_def assms(5) ip) (simp add: assms(4))
  show "held db' y q = held db y q + (if y = x \<and> q = p then rq_quantity request else 0)"
    using assms(2,3) by (cases x) (auto simp: held_def assms(5) reserved_db_held_rows ip new_hold_def units_of_def)
  show "iv_keys db' = iv_keys db @ [(key, Some (ii_id i'))]"
    by (simp add: assms(5) reserved_db_def bind_key_def)
  show "map rv_id (iv_reservations db') = map rv_id (iv_reservations db) @ [fresh]"
    using assms(2,3) by (cases x) (simp_all add: assms(5) reserved_db_def new_hold_def)
qed

lemma reserve_line:
  assumes "stock_ready db" and "fresh_line fresh m x db l" and "x \<noteq> []" and "\<not> contended (ir_product_id l)"
    and "reserve_inventory_endpoint True contended now (fresh (reservation_idempotency_key m (ir_product_id l)))
      \<lparr>rq_product_id = ir_product_id l, rq_quantity = ir_quantity l, rq_order_id = Some x\<rparr>
      (reservation_idempotency_key m (ir_product_id l)) db = (r, db')"
  shows "stock_ready db' \<and> moved_for x db db' \<and>
     ((\<exists>i. r = Inr i \<and> (\<forall>q. held db' x q = held db x q + (if q = ir_product_id l then ir_quantity l else 0)) \<and>
         (\<forall>k. k \<noteq> reservation_idempotency_key m (ir_product_id l) \<longrightarrow> map_of (iv_keys db') k = map_of (iv_keys db) k) \<and>
         rv_id ` set (iv_reservations db') = insert (fresh (reservation_idempotency_key m (ir_product_id l))) (rv_id ` set (iv_reservations db))) \<or>
      (\<exists>c. r = Inl (HTTPException c) \<and> c \<in> {404, 409} \<and> available db (ir_product_id l) < ir_quantity l))"
proof -
  let ?p = "ir_product_id l" and ?k = "reservation_idempotency_key m (ir_product_id l)"
  let ?rq = "\<lparr>rq_product_id = ?p, rq_quantity = ir_quantity l, rq_order_id = Some x\<rparr>"
  from assms(2) have f: "0 < ir_quantity l" "map_of (iv_keys db) ?k = None" "held db x ?p = 0"
    "\<forall>r \<in> set (iv_reservations db). rv_id r \<noteq> fresh ?k" by (auto simp: fresh_line_def Let_def)
  from assms(1) have inv: "stock_inv db" "\<And>p. stock_total db p \<le> 2147483647" by (auto simp: stock_ready_def)
  from assms(5) f(1) have run: "reserve_inventory True contended now (fresh ?k) ?rq ?k db = (r, db')"
    by (simp add: reserve_inventory_endpoint_def)
  have ready: "stock_ready db'"
    using reserve_inv [OF inv(1) run] reserve_total [OF run] inv(2) by (simp add: stock_ready_def)
  from assms(4,5) f inv(1) inv(2) [of ?p]
  have pre: "map_of (iv_keys db) ?k = None" "0 < rq_quantity ?rq" "\<not> contended (rq_product_id ?rq)"
    "held db x (rq_product_id ?rq) = 0" "rq_order_id ?rq = Some x" "stock_total db (rq_product_id ?rq) \<le> 2147483647" by simp_all
  from pre(1) key_not_Nil pre(2,3) f(4) inv(1) pre(4,5,6) assms(5) show ?thesis
  proof (cases rule: first_reserve)
    case unknown
    with ready f(1) show ?thesis by (simp add: moved_for_def available_def)
  next
    case (short i)
    then have same: "iv_items db' = iv_items db" "iv_reservations db' = iv_reservations db" by simp_all
    with ready short available_cong [OF same(1)] held_cong [OF same(2)] show ?thesis
      by (simp add: moved_for_def) (simp add: available_def)
  next
    case (granted i i')
    have i: "item_of db ?p = Some i" using granted(1) by simp
    have i': "i' = set_level now \<lparr>sl_available = ii_available i - rq_quantity ?rq, sl_reserved = ii_reserved i + rq_quantity ?rq\<rparr> i"
      using granted(3) by simp
    note e = reserved_db_effect [OF i _ assms(3) i' granted(5)]
    have "rv_id ` set (iv_reservations db') = insert (fresh ?k) (rv_id ` set (iv_reservations db))"
      using arg_cong [OF e(4), of set] by simp
    with ready e granted(4) show ?thesis by (auto simp: moved_for_def map_add_def split: option.splits)
  qed
qed

lemma fresh_line_kept:
  assumes "fresh_line fresh m x db l'" and "ir_product_id l' \<noteq> ir_product_id l" and "\<forall>k k'. fresh k = fresh k' \<longrightarrow> k = k'"
    and "\<forall>q. held db1 x q = held db x q + (if q = ir_product_id l then ir_quantity l else 0)"
    and "\<forall>k. k \<noteq> reservation_idempotency_key m (ir_product_id l) \<longrightarrow> map_of (iv_keys db1) k = map_of (iv_keys db) k"
    and "rv_id ` set (iv_reservations db1) =
      insert (fresh (reservation_idempotency_key m (ir_product_id l))) (rv_id ` set (iv_reservations db))"
  shows "fresh_line fresh m x db1 l'"
proof -
  let ?k = "\<lambda>l. reservation_idempotency_key m (ir_product_id l)"
  have "fresh (?k l') \<noteq> fresh (?k l)" using assms(2,3) key_inj by blast
  moreover have "fresh (?k l') \<notin> rv_id ` set (iv_reservations db)"
    using assms(1) unfolding fresh_line_def Let_def by (metis imageE)
  ultimately have "fresh (?k l') \<notin> rv_id ` set (iv_reservations db1)" unfolding assms(6) by simp
  then have "\<forall>r \<in> set (iv_reservations db1). rv_id r \<noteq> fresh (?k l')" by (metis imageI)
  with assms(1,2,4,5) show ?thesis by (simp add: fresh_line_def Let_def)
qed

lemma reserve_lines_result:
  assumes "stock_ready (wo_stock w)" and "\<forall>l \<in> set ls. fresh_line fresh m x (wo_stock w) l" and "distinct (map ir_product_id ls)"
    and "x \<noteq> []" and "length x \<le> 255" and "\<forall>l \<in> set ls. \<not> contended (ir_product_id l)"
    and "\<forall>k k'. fresh k = fresh k' \<longrightarrow> k = k'"
    and "reserve_lines (stock_send contended now fresh saga) m (JStr x) ls w = (r, w')"
  shows "stock_ready (wo_stock w') \<and> moved_for x (wo_stock w) (wo_stock w') \<and> wo_events w' = wo_events w \<and>
     (r = Inr None \<and> (\<forall>p. held (wo_stock w') x p = held (wo_stock w) x p + sum_list (map ir_quantity (filter (\<lambda>l. ir_product_id l = p) ls))) \<or>
      (\<exists>l c. r = Inr (Some (l, c))) \<and> (\<exists>l \<in> set ls. available (wo_stock w) (ir_product_id l) < ir_quantity l))"
  using assms(1-3,6,8)
proof (induction ls arbitrary: w)
  case Nil
  then show ?case by (simp add: moved_for_def)
next
  case (Cons l ls)
  let ?k = "reservation_idempotency_key m (ir_product_id l)"
  have uuid: "py_uuid (ir_product_id l) = Some (ir_product_id l)" using Cons.prems(2) by (simp add: fresh_line_def Let_def)
  obtain r1 db1 where run: "reserve_inventory_endpoint True contended now (fresh ?k)
      \<lparr>rq_product_id = ir_product_id l, rq_quantity = ir_quantity l, rq_order_id = Some x\<rparr> ?k (wo_stock w) = (r1, db1)"
    by (rule prod.exhaust)
  have l: "fresh_line fresh m x (wo_stock w) l" "\<not> contended (ir_product_id l)" using Cons.prems(2,4) by simp_all
  from reserve_line [where fresh = fresh and contended = contended, OF Cons.prems(1) l(1) assms(4) l(2) run]
  have step: "stock_ready db1" "moved_for x (wo_stock w) db1" and
    cases: "(\<exists>i. r1 = Inr i \<and> (\<forall>q. held db1 x q = held (wo_stock w) x q + (if q = ir_product_id l then ir_quantity l else 0)) \<and>
         (\<forall>k. k \<noteq> ?k \<longrightarrow> map_of (iv_keys db1) k = map_of (iv_keys (wo_stock w)) k) \<and>
         rv_id ` set (iv_reservations db1) = insert (fresh ?k) (rv_id ` set (iv_reservations (wo_stock w)))) \<or>
      (\<exists>c. r1 = Inl (HTTPException c) \<and> c \<in> {404, 409} \<and> available (wo_stock w) (ir_product_id l) < ir_quantity l)" by blast+
  from cases show ?case
  proof (elim disjE exE conjE)
    fix i
    assume r1: "r1 = Inr i" and h: "\<forall>q. held db1 x q = held (wo_stock w) x q + (if q = ir_product_id l then ir_quantity l else 0)"
      and k: "\<forall>k. k \<noteq> ?k \<longrightarrow> map_of (iv_keys db1) k = map_of (iv_keys (wo_stock w)) k"
      and ids: "rv_id ` set (iv_reservations db1) = insert (fresh ?k) (rv_id ` set (iv_reservations (wo_stock w)))"
    let ?w = "w\<lparr>wo_stock := db1\<rparr>"
    have rest: "reserve_lines (stock_send contended now fresh saga) m (JStr x) ls ?w = (r, w')"
      using Cons.prems(5) run r1 by (simp add: reserve_call [OF uuid assms(5)] http_status_def)
    have ne: "ir_product_id l' \<noteq> ir_product_id l" if "l' \<in> set ls" for l'
      using Cons.prems(3) that by (metis distinct.simps(2) image_eqI list.set_map list.simps(9))
    have "\<forall>l' \<in> set ls. fresh_line fresh m x db1 l'"
      using fresh_line_kept [OF _ ne assms(7) h k ids] Cons.prems(2) by simp
    with Cons.IH [OF _ _ _ _ rest] step(1) Cons.prems(3,4) have "stock_ready (wo_stock w') \<and> moved_for x db1 (wo_stock w') \<and>
        wo_events w' = wo_events w \<and> (r = Inr None \<and> (\<forall>p. held (wo_stock w') x p = held db1 x p
          + sum_list (map ir_quantity (filter (\<lambda>l. ir_product_id l = p) ls))) \<or>
          (\<exists>l c. r = Inr (Some (l, c))) \<and> (\<exists>l \<in> set ls. available db1 (ir_product_id l) < ir_quantity l))"
      by simp
    moreover have "available db1 (ir_product_id l') = available (wo_stock w) (ir_product_id l')" if "l' \<in> set ls" for l'
      using moved_for_same [OF step(2), of "ir_product_id l'"] h ne [OF that] by simp
    ultimately show ?thesis using moved_for_trans [OF step(2)] h by auto
  next
    fix c
    assume r1: "r1 = Inl (HTTPException c)" and c: "c \<in> {404, 409}"
      and few: "available (wo_stock w) (ir_product_id l) < ir_quantity l"
    then have "r = Inr (Some (l, c))" "w' = w\<lparr>wo_stock := db1\<rparr>"
      using Cons.prems(5) run by (auto simp: reserve_call [OF uuid assms(5)] http_status_def)
    with step few show ?thesis by simp
  qed
qed

section \<open>All lines or none\<close>

lemma distinct_key_sum:
  assumes "distinct (map f xs)" and "x \<in> set xs"
  shows "sum_list (map g (filter (\<lambda>y. f y = f x) xs)) = (g x :: int)"
  using assms
proof (induction xs)
  case (Cons a xs)
  have none: "filter (\<lambda>y. f y = f a) xs = []" using Cons.prems(1) by (auto simp: filter_empty_conv image_iff)
  from Cons show ?case
    by (cases "x = a") (auto simp: none)
qed simp

lemma available_nonneg: "stock_inv db \<Longrightarrow> 0 \<le> available db p"
  using stock_bounds(1) [of db p] by (auto simp: available_def split: option.split)

lemma rollback_call:
  assumes "stock_ready (wo_stock w)" and "x \<noteq> []" and "length x \<le> 255" and "\<forall>p. \<not> contended p"
  obtains db where "post (stock_send contended now fresh saga) (inventory_call ''release'' (JObj [(''order_id'', JStr x)]) (''inv-rb-'' @ m)) w =
      (Inr (200, []), w\<lparr>wo_stock := db\<rparr>)"
    and "\<And>p. available db p = available (wo_stock w) p + held (wo_stock w) x p"
    and "\<And>y p. held db y p = (if y = x then 0 else held (wo_stock w) y p)"
proof -
  from assms(1) have inv: "stock_inv (wo_stock w)" and "\<forall>p. stock_total (wo_stock w) p \<le> 2147483647" by (simp_all add: stock_ready_def)
  from free_holds_settle [OF this select_whole_order, of x contended now] assms(4)
  obtain r db where run: "release_inventory True contended now (whole_order x) (wo_stock w) = (Inr r, db)" by blast
  then have "released_order x (wo_stock w) db" unfolding released_order_def by blast
  note returned = inventory.shelf_give_back [OF inv this] inventory.holds_give_back [OF inv this]
  show thesis
    by (rule that [of db]) (use assms(2) run returned in \<open>simp_all add: release_call [OF assms(3)] release_endpoint_def
      whole_order_def http_status_def\<close>)
qed

text \<open>
  Property C3 (an order's stock is reserved whole or not at all). On the first delivery of a
  reservation command, with the inventory rows free and the order service answering, the
  dispatcher settles the command. When the shelf covers every line it reports InventoryReserved,
  and the order holds exactly the planned quantity of each line, taken from the shelf. Otherwise
  it reports InventoryReservationFailed, and shelf and holds are as they were before, although
  earlier lines of the order had already been reserved.
\<close>

theorem reserve_all_or_nothing:
  assumes "plan_item_reservations payload = Inr lines" and "stock_ready (wo_stock w)"
    and "\<forall>l \<in> set lines. fresh_line fresh m x (wo_stock w) l" and "\<forall>p. held (wo_stock w) x p = 0"
    and "x \<noteq> []" and "length x \<le> 255" and "\<forall>p. \<not> contended p" and "\<forall>k k'. fresh k = fresh k' \<longrightarrow> k = k'"
    and "\<forall>e. saga e = Call_Answered 200 []"
    and "handle_reserve (stock_send contended now fresh saga) m (JStr x) payload w = (r, w')"
  shows "r = Inr SETTLED \<and>
     (if \<forall>l \<in> set lines. ir_quantity l \<le> available (wo_stock w) (ir_product_id l)
      then wo_events w' = wo_events w @ [''InventoryReserved''] \<and>
        (\<forall>l \<in> set lines. held (wo_stock w') x (ir_product_id l) = ir_quantity l \<and>
           available (wo_stock w') (ir_product_id l) = available (wo_stock w) (ir_product_id l) - ir_quantity l)
      else wo_events w' = wo_events w @ [''InventoryReservationFailed''] \<and>
        available (wo_stock w') = available (wo_stock w) \<and> held (wo_stock w') = held (wo_stock w))"
proof -
  have d: "distinct (map ir_product_id lines)" using assms(1) by (rule plan_Inr)
  obtain r1 w1 where run: "reserve_lines (stock_send contended now fresh saga) m (JStr x) lines w = (r1, w1)" by (rule prod.exhaust)
  from assms(7) have free: "\<forall>l \<in> set lines. \<not> contended (ir_product_id l)" by simp
  note R = reserve_lines_result [OF assms(2,3) d assms(5,6) free assms(8) run]
  from R have ready: "stock_ready (wo_stock w1)" and moved: "moved_for x (wo_stock w) (wo_stock w1)"
    and ev: "wo_events w1 = wo_events w" by blast+
  from R consider (all_held) "r1 = Inr None" "\<forall>p. held (wo_stock w1) x p = sum_list (map ir_quantity (filter (\<lambda>l. ir_product_id l = p) lines))"
    | (short) l c where "r1 = Inr (Some (l, c))" "\<not> (\<forall>l \<in> set lines. ir_quantity l \<le> available (wo_stock w) (ir_product_id l))"
    using assms(4) by fastforce
  then show ?thesis
  proof cases
    case all_held
    have q: "held (wo_stock w1) x (ir_product_id l) = ir_quantity l" if "l \<in> set lines" for l
      using all_held(2) distinct_key_sum [OF d that, of ir_quantity] by simp
    have a: "available (wo_stock w1) p + held (wo_stock w1) x p = available (wo_stock w) p" for p
      using moved assms(4) by (simp add: moved_for_def)
    have "ir_quantity l \<le> available (wo_stock w) (ir_product_id l)" if "l \<in> set lines" for l
      using a [of "ir_product_id l"] q [OF that] available_nonneg [of "wo_stock w1" "ir_product_id l"] ready
      by (simp add: stock_ready_def)
    moreover have "r = Inr SETTLED" "w' = w1\<lparr>wo_events := wo_events w1 @ [''InventoryReserved'']\<rparr>"
      using assms(1,10) run all_held(1) saga_event [OF spec [OF assms(9)]] by (simp_all add: handle_reserve_def)
    moreover have "available (wo_stock w1) (ir_product_id l) = available (wo_stock w) (ir_product_id l) - ir_quantity l"
      if "l \<in> set lines" for l using a [of "ir_product_id l"] q [OF that] by simp
    ultimately show ?thesis using q ev by simp
  next
    case (short l c)
    from rollback_call [OF ready assms(5,6,7)] obtain db where rb: "post (stock_send contended now fresh saga)
        (inventory_call ''release'' (JObj [(''order_id'', JStr x)]) (''inv-rb-'' @ m)) w1 = (Inr (200, []), w1\<lparr>wo_stock := db\<rparr>)"
      "\<And>p. available db p = available (wo_stock w1) p + held (wo_stock w1) x p"
      "\<And>y p. held db y p = (if y = x then 0 else held (wo_stock w1) y p)" by blast
    have "r = Inr SETTLED" "w' = w1\<lparr>wo_stock := db, wo_events := wo_events w1 @ [''InventoryReservationFailed'']\<rparr>"
      using assms(1,10) run short(1) rb(1) saga_event [OF spec [OF assms(9)]] by (simp_all add: handle_reserve_def)
    moreover have "available db = available (wo_stock w)" "held db = held (wo_stock w)"
      using rb(2,3) moved assms(4) by (auto simp: moved_for_def fun_eq_iff)
    ultimately show ?thesis using short(2) ev by simp
  qed
qed

text \<open>A warehouse with ten units of one product and one of another, and an order for three and two of them.\<close>

definition warehouse :: world where
  "warehouse = \<lparr>wo_stock = \<lparr>iv_items =
       [\<lparr>ii_id = ''i1'', ii_product_id = uuid_text 2, ii_available = 10, ii_reserved = 0, ii_updated_at = 0\<rparr>,
        \<lparr>ii_id = ''i2'', ii_product_id = uuid_text 3, ii_available = 1, ii_reserved = 0, ii_updated_at = 0\<rparr>],
     iv_reservations = [], iv_outbox = [], iv_keys = []\<rparr>, wo_events = []\<rparr>"

definition asked_line :: "nat \<Rightarrow> int \<Rightarrow> json" where
  "asked_line n q = JObj [(''product_id'', JStr (uuid_text n)), (''quantity'', JInt q)]"

lemma uuid_text_23 [simp]: "uuid_text 2 \<noteq> uuid_text 3" "uuid_text 3 \<noteq> uuid_text 2"
  using uuid_text_eq_iff [of 2 3] by auto

lemma warehouse_ready: "stock_ready (wo_stock warehouse)"
  by (simp add: stock_ready_def warehouse_def stock_inv_def held_rows_def units_of_def stock_total_def available_def
      reserved_units_def item_of_def)

lemma warehouse_holds: "held (wo_stock warehouse) x p = 0"
  by (simp add: warehouse_def held_def units_of_def held_rows_def)

lemma warehouse_events: "wo_events warehouse = []"
  by (simp add: warehouse_def)

lemma warehouse_line:
  "fresh_line (\<lambda>k. k) m x (wo_stock warehouse) \<lparr>ir_product_id = uuid_text n, ir_quantity = q\<rparr> \<longleftrightarrow> 0 < q" if "n < 2 ^ 128"
  using py_uuid_text [OF that] warehouse_holds by (simp add: fresh_line_def Let_def) (simp add: warehouse_def)

lemma warehouse_item:
  "available (wo_stock warehouse) (uuid_text 2) = 10" "available (wo_stock warehouse) (uuid_text 3) = 1"
  "item_of (wo_stock warehouse) (uuid_text 3) =
     Some \<lparr>ii_id = ''i2'', ii_product_id = uuid_text 3, ii_available = 1, ii_reserved = 0, ii_updated_at = 0\<rparr>"
  by (simp_all add: warehouse_def available_def item_of_def)

lemma two_line_plan:
  "plan_item_reservations (JArr [asked_line 3 2, asked_line 2 3]) =
     Inr [\<lparr>ir_product_id = uuid_text 2, ir_quantity = 3\<rparr>, \<lparr>ir_product_id = uuid_text 3, ir_quantity = 2\<rparr>]"
  by code_simp

lemma one_line_plan:
  "plan_item_reservations (JArr [asked_line 3 2]) = Inr [\<lparr>ir_product_id = uuid_text 3, ir_quantity = 2\<rparr>]"
  by code_simp

theorem reserve_all_or_nothing_witness:
  "let (r, w') = handle_reserve (stock_send (\<lambda>_. False) 7 (\<lambda>k. k) (\<lambda>_. Call_Answered 200 [])) ''m1'' (JStr ''o1'')
       (JArr [asked_line 3 2, asked_line 2 3]) warehouse in
   r = Inr SETTLED \<and> wo_events w' = [''InventoryReservationFailed''] \<and> available (wo_stock w') (uuid_text 2) = 10"
proof -
  obtain r w' where run: "handle_reserve (stock_send (\<lambda>_. False) 7 (\<lambda>k. k) (\<lambda>_. Call_Answered 200 [])) ''m1'' (JStr ''o1'')
       (JArr [asked_line 3 2, asked_line 2 3]) warehouse = (r, w')" by (rule prod.exhaust)
  show ?thesis
    using reserve_all_or_nothing [OF two_line_plan warehouse_ready _ _ _ _ _ _ _ run] warehouse_item
    by (simp add: warehouse_line warehouse_holds run warehouse_events)
qed

section \<open>Where the two services disagree\<close>

lemma nothing_to_release:
  assumes "stock_inv db" and "\<forall>p. held db x p = 0"
  shows "release_inventory io contended now (whole_order x) db =
     (Inr \<lparr>hr_units = 0, hr_reservations = 0, hr_detail = ''no live reservation; nothing to return''\<rparr>, db)"
proof -
  have "filter (\<lambda>r. rv_order_id r = x) (held_rows db) = []"
    using no_live_hold [OF assms(1)] assms(2) by (fastforce simp: filter_empty_conv)
  then show ?thesis by (simp add: release_inventory_def select_whole_order release_selected_def)
qed

lemma saga_down:
  assumes "saga e = Call_Answered 503 t"
  shows "advance_order (stock_send contended now fresh saga) order_id e key payload w =
     (Inl (Failed_Call ''HTTPStatusError''), w\<lparr>wo_events := wo_events w @ [e]\<rparr>)"
  using assms by (simp add: advance_order_def post_def saga_call_def stock_send_def dict_get_null_def)

text \<open>
  A retried rejection confirms the order. The shelf has too little for the only
  line of an order, and the order service does not take the dispatcher's report of it. The
  command is retried with the same keys; the inventory service answers the line with its stored
  row, and the dispatcher reports InventoryReserved while nothing is held for the order.
\<close>

theorem retried_rejection_confirms_order:
  assumes "plan_item_reservations payload = Inr [l]" and "stock_ready (wo_stock w)" and "fresh_line fresh m x (wo_stock w) l"
    and "\<forall>p. held (wo_stock w) x p = 0" and "x \<noteq> []" and "length x \<le> 255" and "\<forall>p. \<not> contended p"
    and "distinct (map ii_id (iv_items (wo_stock w)))" and "item_of (wo_stock w) (ir_product_id l) = Some i"
    and "ii_available i < ir_quantity l"
    and "\<forall>e. down e = Call_Answered 503 []" and "\<forall>e. up e = Call_Answered 200 []"
    and "handle_reserve (stock_send contended now fresh down) m (JStr x) payload w = (r1, w1)"
    and "handle_reserve (stock_send contended now2 fresh up) m (JStr x) payload w1 = (r2, w2)"
  shows "oc_disposition (fst (attempt_outcome r1)) = RETRY \<and> r2 = Inr SETTLED \<and>
     wo_events w2 = wo_events w @ [''InventoryReservationFailed'', ''InventoryReserved''] \<and>
     (\<forall>p. held (wo_stock w2) x p = 0)"
proof -
  let ?k = "reservation_idempotency_key m (ir_product_id l)"
  let ?rq = "\<lparr>rq_product_id = ir_product_id l, rq_quantity = ir_quantity l, rq_order_id = Some x\<rparr>"
  define db where "db = wo_stock w"
  define db1 where "db1 = bind_key ?k (ii_id i) (inventory_message now (ii_product_id i) ''InventoryReservationFailed''
        (insufficient_payload now ?rq i) db)"
  note ready = assms(2) [folded db_def] and line = assms(3) [folded db_def] and i = assms(9) [folded db_def]
  have l: "py_uuid (ir_product_id l) = Some (ir_product_id l)" "0 < ir_quantity l" "map_of (iv_keys db) ?k = None"
    using line by (simp_all add: fresh_line_def Let_def)
  have run: "reserve_inventory_endpoint True contended now (fresh ?k) ?rq ?k db = (Inl (HTTPException 409), db1)"
    using assms(7,10) l i by (simp add: reserve_inventory_endpoint_def reserve_inventory_def plan_reservation_def commit_def
        db1_def item_level_def Let_def)
  have db1: "iv_items db1 = iv_items db" "iv_reservations db1 = iv_reservations db" "iv_keys db1 = iv_keys db @ [(?k, Some (ii_id i))]"
    by (simp_all add: db1_def bind_key_def inventory_message_def)
  have "stock_inv db1" using reserve_line [where fresh = fresh and contended = contended, OF ready line assms(5) _ run] assms(7)
    by (simp add: stock_ready_def)
  moreover have h1: "held db1 x p = 0" for p using held_cong [OF db1(2)] assms(4) by (simp add: db_def)
  ultimately have back1: "release_inventory True contended now (whole_order x) db1 =
     (Inr \<lparr>hr_units = 0, hr_reservations = 0, hr_detail = ''no live reservation; nothing to return''\<rparr>, db1)"
    by (intro nothing_to_release) simp_all
  have again: "reserve_inventory_endpoint True contended now2 (fresh ?k) ?rq ?k db1 = (Inr i, db1)"
    by (rule bound_key_answer) (use l item_of_SomeD [OF i] assms(8) in \<open>simp_all add: db1 map_add_def db_def\<close>)
  have "r1 = Inl (Failed_Call ''HTTPStatusError'')" "w1 = w\<lparr>wo_stock := db1, wo_events := wo_events w @ [''InventoryReservationFailed'']\<rparr>"
    using assms(1,5,13) run back1 saga_down [OF spec [OF assms(11)]]
    by (simp_all add: handle_reserve_def reserve_call [OF l(1) assms(6)] release_call [OF assms(6)] release_endpoint_def
        http_status_def whole_order_def db_def [symmetric])
  moreover from this(2) have "r2 = Inr SETTLED" "w2 = w1\<lparr>wo_events := wo_events w1 @ [''InventoryReserved'']\<rparr>"
    using assms(1,14) again saga_event [OF spec [OF assms(12)]]
    by (simp_all add: handle_reserve_def reserve_call [OF l(1) assms(6)] http_status_def)
  ultimately show ?thesis using h1 by (simp add: attempt_outcome_def retry_def)
qed

theorem retried_rejection_confirms_order_witness:
  "let (r1, w1) = handle_reserve (stock_send (\<lambda>_. False) 7 (\<lambda>k. k) (\<lambda>_. Call_Answered 503 [])) ''m1'' (JStr ''o1'')
         (JArr [asked_line 3 2]) warehouse;
       (r2, w2) = handle_reserve (stock_send (\<lambda>_. False) 9 (\<lambda>k. k) (\<lambda>_. Call_Answered 200 [])) ''m1'' (JStr ''o1'')
         (JArr [asked_line 3 2]) w1 in
   wo_events w2 = [''InventoryReservationFailed'', ''InventoryReserved''] \<and> held (wo_stock w2) ''o1'' (uuid_text 3) = 0"
proof -
  obtain r1 w1 where run1: "handle_reserve (stock_send (\<lambda>_. False) 7 (\<lambda>k. k) (\<lambda>_. Call_Answered 503 [])) ''m1'' (JStr ''o1'')
      (JArr [asked_line 3 2]) warehouse = (r1, w1)" by (rule prod.exhaust)
  obtain r2 w2 where run2: "handle_reserve (stock_send (\<lambda>_. False) 9 (\<lambda>k. k) (\<lambda>_. Call_Answered 200 [])) ''m1'' (JStr ''o1'')
      (JArr [asked_line 3 2]) w1 = (r2, w2)" by (rule prod.exhaust)
  have "distinct (map ii_id (iv_items (wo_stock warehouse)))" by (simp add: warehouse_def)
  then show ?thesis
    using retried_rejection_confirms_order [OF one_line_plan warehouse_ready _ _ _ _ _ _ _ _ _ _ run1 run2] warehouse_item(3)
    by (simp add: warehouse_line warehouse_holds run1 run2 warehouse_events)
qed

lemma show_409: "show_int 409 = ''409''"
  by code_simp

lemma plan_release_valid: "0 < q \<Longrightarrow> rl_outcome (plan_release level q) \<noteq> RELEASE_INVALID"
  by (simp add: plan_release_def Let_def split: option.split)

lemma release_holds_contended:
  assumes "\<exists>h \<in> set hs. contended (rv_product_id h)" and "\<forall>h \<in> set hs. 0 < rv_quantity h"
  shows "release_holds contended now hs units details db = Inl (HTTPException 409)"
  using assms
proof (induction hs arbitrary: units details db)
  case (Cons h hs)
  show ?case
  proof (cases "contended (rv_product_id h)")
    case False
    with Cons.prems have "release_holds contended now hs u d b = Inl (HTTPException 409)" for u d b
      using Cons.IH [of u d b] by simp
    with False Cons.prems plan_release_valid [of "rv_quantity h"] show ?thesis by (simp add: Let_def)
  qed simp
qed simp

text \<open>
  A row lock parks the compensation. The inventory service answers 409 to a release
  whose rows another transaction has locked, and asks for the call to be repeated. The dispatcher
  parks the command instead: the order's stock stays held until someone replays it by hand.
\<close>

theorem contended_release_parks:
  assumes "stock_inv (wo_stock w)" and "h \<in> set (held_rows (wo_stock w))" and "rv_order_id h = x"
    and "contended (rv_product_id h)" and "x \<noteq> []" and "length x \<le> 255" and "m \<noteq> []"
  shows "handle_release (stock_send contended now fresh saga) m (JStr x) w = (Inr (park ''release returned 409''), w)"
proof -
  let ?hs = "filter (\<lambda>r. rv_order_id r = x) (held_rows (wo_stock w))"
  have "release_holds contended now ?hs 0 [] (wo_stock w) = Inl (HTTPException 409)"
    by (rule release_holds_contended) (use assms(1-4) in \<open>auto simp: stock_inv_def\<close>)
  moreover have "?hs \<noteq> []" using assms(2,3) by (auto simp: filter_empty_conv)
  ultimately have "release_inventory True contended now (whole_order x) (wo_stock w) = (Inl (HTTPException 409), wo_stock w)"
    by (simp add: release_inventory_def select_whole_order release_selected_def)
  then show ?thesis
    using assms(5,7) by (simp add: handle_release_def release_call [OF assms(6)] release_endpoint_def whole_order_def http_status_def
        from_status_def show_409 classify_command_failure_def TERMINAL_COMMAND_STATUSES_def RETRYABLE_COMMAND_STATUSES_def)
qed

theorem contended_release_parks_witness:
  "handle_release (stock_send (\<lambda>p. p = ''p1'') 9 (\<lambda>k. k) (\<lambda>_. Call_Answered 200 [])) ''m2'' (JStr ''o1'')
     \<lparr>wo_stock = demo_reserved, wo_events = []\<rparr> =
   (Inr (park ''release returned 409''), \<lparr>wo_stock = demo_reserved, wo_events = []\<rparr>)"
proof -
  obtain h where "h \<in> set (held_rows demo_reserved)" "rv_order_id h = ''o1''" "rv_product_id h = ''p1''"
    by (simp add: demo_stock_defs)
  then show ?thesis
    by (intro contended_release_parks [of _ h]) (use demo_reserved_inv in simp_all)
qed

end
