(* ===== verification/Cart.thy ===== *)
theory Cart
  imports Prelude "HOL-Library.Product_Lexorder"
begin

text \<open>
  The cart service: the checkout lock in Redis (\<open>checkout_lock.py\<close>), the rules that decide what a
  cart is when Redis and Postgres disagree (\<open>cart_cache_rules.py\<close>), the handlers
  (\<open>cart_service.py\<close>, \<open>routes/cart.py\<close>) and the sweeper (\<open>main.py\<close>). Redis is a list of keys with
  a value and the time the key expires at. A handler takes the outcome of its commit (\<open>io\<close>),
  whether Redis answers its writes (\<open>redis_ok\<close>) and the clock as arguments. Times are in seconds.

  The handlers take no lock on the cart's row, so requests of one user overtake each other between
  two awaits. \<open>add_to_cart\<close> and \<open>checkout_cart\<close> are therefore built from parts, one for each
  stretch that nothing can come between, and a part takes what the parts before it have read as an
  argument. \<open>cd_outbox\<close> lists every message the service has written, also those that the retention
  loop has deleted from the table since.
\<close>

section \<open>Redis\<close>

type_synonym 'v redis = "(string \<times> 'v \<times> rat) list"

definition redis_get :: "rat \<Rightarrow> 'v redis \<Rightarrow> string \<Rightarrow> 'v option" where
  "redis_get now r k = (case map_of r k of None \<Rightarrow> None | Some (v, t) \<Rightarrow> if now < t then Some v else None)"

definition redis_delete :: "'v redis \<Rightarrow> string \<Rightarrow> 'v redis" where
  "redis_delete r k = filter (\<lambda>e. fst e \<noteq> k) r"

definition redis_set :: "rat \<Rightarrow> 'v redis \<Rightarrow> string \<Rightarrow> 'v \<Rightarrow> rat \<Rightarrow> 'v redis" where
  "redis_set now r k v ex = (k, v, now + ex) # redis_delete r k"

section \<open>The checkout lock\<close>

definition DEFAULT_TTL_SECONDS :: rat where
  "DEFAULT_TTL_SECONDS = 10"

definition lock_key_for :: "string \<Rightarrow> string" where
  "lock_key_for user_id = ''lock:checkout:'' @ user_id"

definition acquire :: "rat \<Rightarrow> string redis \<Rightarrow> string \<Rightarrow> string \<Rightarrow> rat \<Rightarrow> bool \<times> string redis" where
  "acquire now r key token ttl =
     (case redis_get now r key of Some _ \<Rightarrow> (False, r) | None \<Rightarrow> (True, redis_set now r key token ttl))"

definition release_lock :: "rat \<Rightarrow> string redis \<Rightarrow> string \<Rightarrow> string \<Rightarrow> int \<times> string redis" where
  "release_lock now r key token = (if redis_get now r key = Some token then (1, redis_delete r key) else (0, r))"

definition current_owner :: "rat \<Rightarrow> string redis \<Rightarrow> string \<Rightarrow> string option" where
  "current_owner now r key = redis_get now r key"

section \<open>What a cart is\<close>

type_synonym cart_items = "(string \<times> int) list"

datatype CartSource = CACHE | REHYDRATED | EMPTY

record DurableCart =
  dc_items :: cart_items
  dc_status :: string
  dc_expires_at :: "rat option"

record CartView =
  cv_items :: cart_items
  cv_source :: CartSource

definition rehydrated :: "CartView \<Rightarrow> bool" where
  "rehydrated v \<longleftrightarrow> cv_source v = REHYDRATED"

definition cart_empty :: "CartView \<Rightarrow> bool" where
  "cart_empty v \<longleftrightarrow> cv_items v = []"

definition resolve_cart :: "cart_items option \<Rightarrow> DurableCart option \<Rightarrow> rat \<Rightarrow> CartView" where
  "resolve_cart cached durable now =
     (case cached of
        Some items \<Rightarrow> \<lparr>cv_items = items, cv_source = CACHE\<rparr>
      | None \<Rightarrow>
          (case durable of
             None \<Rightarrow> \<lparr>cv_items = [], cv_source = EMPTY\<rparr>
           | Some d \<Rightarrow>
               if dc_status d \<noteq> ''active'' then \<lparr>cv_items = [], cv_source = EMPTY\<rparr>
               else if case dc_expires_at d of None \<Rightarrow> False | Some e \<Rightarrow> e \<le> now then \<lparr>cv_items = [], cv_source = EMPTY\<rparr>
               else \<lparr>cv_items = dc_items d, cv_source = REHYDRATED\<rparr>))"

definition merge_item :: "cart_items \<Rightarrow> string \<Rightarrow> int \<Rightarrow> cart_items" where
  "merge_item items product_id quantity =
     dict_set items product_id ((case map_of items product_id of None \<Rightarrow> 0 | Some n \<Rightarrow> n) + quantity)"

section \<open>Tables and handlers\<close>

text \<open>A \<open>jsonb\<close> column keeps an object's keys by length and then by their bytes.\<close>

definition jsonb :: "cart_items \<Rightarrow> cart_items" where
  "jsonb items = sort_key (\<lambda>e. (length (fst e), fst e)) items"

record cart_row =
  ct_id :: uuid
  ct_user_id :: uuid
  ct_items :: cart_items
  ct_status :: string
  ct_expires_at :: rat
  ct_updated_at :: rat

record cart_db =
  cd_carts :: "cart_row list"
  cd_keys :: "string list"
  cd_outbox :: "outbox_message list"

record cart_world =
  cw_db :: cart_db
  cw_cache :: "cart_items redis"
  cw_locks :: "string redis"

record CartResponse =
  cr_user_id :: uuid
  cr_items :: cart_items

definition CART_TTL :: rat where
  "CART_TTL = 3600"

definition cart_key :: "string \<Rightarrow> string" where
  "cart_key user_id = ''cart:'' @ user_id"

definition active_rows :: "cart_db \<Rightarrow> uuid \<Rightarrow> cart_row list" where
  "active_rows db user_id = filter (\<lambda>r. ct_user_id r = user_id \<and> ct_status r = ''active'') (cd_carts db)"

definition load_durable :: "cart_db \<Rightarrow> uuid \<Rightarrow> DurableCart option result" where
  "load_durable db user_id =
     (case active_rows db user_id of
        [] \<Rightarrow> Inr None
      | [r] \<Rightarrow> Inr (Some \<lparr>dc_items = ct_items r, dc_status = ct_status r, dc_expires_at = Some (ct_expires_at r)\<rparr>)
      | _ \<Rightarrow> Inl (Uncaught ''MultipleResultsFound''))"

definition resolve_view :: "rat \<Rightarrow> uuid \<Rightarrow> cart_world \<Rightarrow> (CartView \<times> DurableCart option) result" where
  "resolve_view now user_id w =
     (case load_durable (cw_db w) user_id of
        Inl e \<Rightarrow> Inl e
      | Inr durable \<Rightarrow> Inr (resolve_cart (redis_get now (cw_cache w) (cart_key user_id)) durable now, durable))"

definition rewarm :: "bool \<Rightarrow> rat \<Rightarrow> uuid \<Rightarrow> cart_items \<Rightarrow> DurableCart option \<Rightarrow> cart_items redis \<Rightarrow> cart_items redis" where
  "rewarm redis_ok now user_id items durable cache =
     (let write = (\<lambda>ttl. if redis_ok then redis_set now cache (cart_key user_id) items ttl else cache) in
      case Option.bind durable dc_expires_at of
        None \<Rightarrow> write CART_TTL
      | Some expires_at \<Rightarrow>
          (let remaining = \<lfloor>expires_at - now\<rfloor> in
           if remaining \<le> 0 then cache else write (min CART_TTL (of_int remaining))))"

definition get_cart :: "bool \<Rightarrow> rat \<Rightarrow> uuid \<Rightarrow> cart_world \<Rightarrow> CartResponse result \<times> cart_world" where
  "get_cart redis_ok now user_id w =
     (case resolve_view now user_id w of
        Inl e \<Rightarrow> (Inl e, w)
      | Inr (view, durable) \<Rightarrow>
          (Inr \<lparr>cr_user_id = user_id, cr_items = cv_items view\<rparr>,
           if rehydrated view then w\<lparr>cw_cache := rewarm redis_ok now user_id (cv_items view) durable (cw_cache w)\<rparr> else w))"

text \<open>
  The parts of \<open>add_to_cart\<close> after the first reads: the write to Redis, the search for the active
  row, and the flush with the commit. There is no unique index on active carts. The flush writes the
  columns whose new value differs from the one that the session has loaded (\<open>found\<close>); the row may
  have been changed by others since.
\<close>

definition cache_cart :: "rat \<Rightarrow> uuid \<Rightarrow> cart_items \<Rightarrow> cart_world \<Rightarrow> cart_world" where
  "cache_cart now user_id items w = w\<lparr>cw_cache := redis_set now (cw_cache w) (cart_key user_id) items CART_TTL\<rparr>"

definition find_active :: "cart_db \<Rightarrow> uuid \<Rightarrow> cart_row option result" where
  "find_active db user_id =
     (case active_rows db user_id of
        [] \<Rightarrow> Inr None
      | [r] \<Rightarrow> Inr (Some r)
      | _ \<Rightarrow> Inl (Uncaught ''MultipleResultsFound''))"

definition save_cart :: "rat \<Rightarrow> uuid \<Rightarrow> uuid \<Rightarrow> cart_items \<Rightarrow> cart_row option \<Rightarrow> cart_db \<Rightarrow> cart_db" where
  "save_cart now fresh user_id items found db =
     (case found of
        None \<Rightarrow>
          db\<lparr>cd_carts := cd_carts db @ [\<lparr>ct_id = fresh, ct_user_id = user_id, ct_items = jsonb items, ct_status = ''active'',
            ct_expires_at = now + CART_TTL, ct_updated_at = now\<rparr>]\<rparr>
      | Some r \<Rightarrow>
          (let new_items = jsonb items \<noteq> ct_items r; new_expiry = now + CART_TTL \<noteq> ct_expires_at r in
           db\<lparr>cd_carts := map (\<lambda>x. if ct_id x = ct_id r
             then x\<lparr>ct_items := if new_items then jsonb items else ct_items x,
                    ct_expires_at := if new_expiry then now + CART_TTL else ct_expires_at x,
                    ct_updated_at := if new_items \<or> new_expiry then now else ct_updated_at x\<rparr>
             else x) (cd_carts db)\<rparr>))"

definition add_commit ::
  "bool \<Rightarrow> rat \<Rightarrow> uuid \<Rightarrow> uuid \<Rightarrow> cart_items \<Rightarrow> cart_row option \<Rightarrow> string \<Rightarrow> cart_world \<Rightarrow> CartResponse result \<times> cart_world" where
  "add_commit io now fresh user_id items found idempotency_key w =
     (if io \<and> (found = None \<longrightarrow> fresh \<notin> ct_id ` set (cd_carts (cw_db w))) then
        (Inr \<lparr>cr_user_id = user_id, cr_items = items\<rparr>,
         w\<lparr>cw_db := save_cart now fresh user_id items found (cw_db w)\<lparr>cd_keys := cd_keys (cw_db w) @ [idempotency_key]\<rparr>\<rparr>)
      else (Inl (HTTPException 500), w))"

definition add_to_cart ::
  "bool \<Rightarrow> bool \<Rightarrow> rat \<Rightarrow> uuid \<Rightarrow> uuid \<Rightarrow> uuid \<Rightarrow> int \<Rightarrow> string \<Rightarrow> cart_world \<Rightarrow> CartResponse result \<times> cart_world" where
  "add_to_cart io redis_ok now fresh user_id product_id quantity idempotency_key w =
     (if 255 < length idempotency_key then (Inl (Uncaught ''DBAPIError''), w)
      else if idempotency_key \<in> set (cd_keys (cw_db w)) then get_cart redis_ok now user_id w
      else case resolve_view now user_id w of
        Inl e \<Rightarrow> (Inl e, w)
      | Inr (view, _) \<Rightarrow>
          (let items = merge_item (cv_items view) product_id quantity in
           if \<not> redis_ok then (Inl (HTTPException 500), w)
           else
             (let w1 = cache_cart now user_id items w in
              case find_active (cw_db w1) user_id of
                Inl e \<Rightarrow> (Inl e, w1)
              | Inr found \<Rightarrow> add_commit io now fresh user_id items found idempotency_key w1)))"

definition claim_cart :: "rat \<Rightarrow> uuid \<Rightarrow> cart_db \<Rightarrow> cart_db" where
  "claim_cart now user_id db =
     db\<lparr>cd_carts := map (\<lambda>r. if ct_user_id r = user_id \<and> ct_status r = ''active''
       then r\<lparr>ct_status := ''checkout_in_progress'', ct_updated_at := now\<rparr> else r) (cd_carts db)\<rparr>"

definition items_json :: "cart_items \<Rightarrow> json" where
  "items_json items = JObj (map (\<lambda>(k, n). (k, JInt n)) items)"

text \<open>
  The body of \<open>checkout_cart\<close> between taking and giving back the lock: what follows the reads, and
  the whole. \<open>stamp\<close> renders the time of the event.
\<close>

definition checkout_claim ::
  "bool \<Rightarrow> bool \<Rightarrow> (rat \<Rightarrow> string) \<Rightarrow> rat \<Rightarrow> uuid \<Rightarrow> string \<Rightarrow> CartView \<Rightarrow> cart_world \<Rightarrow> string result \<times> cart_world" where
  "checkout_claim io redis_ok stamp now user_id idempotency_key view w =
     (if cart_empty view then (Inl (HTTPException 404), w)
      else if 255 < length idempotency_key then (Inl (Uncaught ''DBAPIError''), w)
      else if idempotency_key \<in> set (cd_keys (cw_db w)) then (Inr ''Checkout already initiated'', w)
      else if active_rows (cw_db w) user_id = [] then (Inl (HTTPException 409), w)
      else if \<not> io then (Inl (HTTPException 500), w)
      else
        (let db = claim_cart now user_id (cw_db w);
             event = outbox ''Cart'' user_id ''CartCheckoutInitiated''
               (JObj [(''user_id'', JStr user_id), (''items'', items_json (cv_items view)), (''initiated_at'', JStr (stamp now))]) in
         (Inr ''Checkout initiated'',
          w\<lparr>cw_db := db\<lparr>cd_keys := cd_keys db @ [idempotency_key], cd_outbox := cd_outbox db @ [event]\<rparr>,
            cw_cache := if redis_ok then redis_delete (cw_cache w) (cart_key user_id) else cw_cache w\<rparr>)))"

definition checkout_locked ::
  "bool \<Rightarrow> bool \<Rightarrow> (rat \<Rightarrow> string) \<Rightarrow> rat \<Rightarrow> uuid \<Rightarrow> string \<Rightarrow> cart_world \<Rightarrow> string result \<times> cart_world" where
  "checkout_locked io redis_ok stamp now user_id idempotency_key w =
     (case resolve_view now user_id w of
        Inl e \<Rightarrow> (Inl e, w)
      | Inr (view, _) \<Rightarrow> checkout_claim io redis_ok stamp now user_id idempotency_key view w)"

text \<open>
  \<open>finish\<close> is the time at which the lock is given back. A Redis that no longer answers then
  replaces the answer by its own exception.
\<close>

definition checkout_cart ::
  "bool \<Rightarrow> bool \<Rightarrow> (rat \<Rightarrow> string) \<Rightarrow> rat \<Rightarrow> rat \<Rightarrow> string \<Rightarrow> uuid \<Rightarrow> string \<Rightarrow> cart_world \<Rightarrow> string result \<times> cart_world" where
  "checkout_cart io redis_ok stamp now finish token user_id idempotency_key w =
     (case acquire now (cw_locks w) (lock_key_for user_id) token DEFAULT_TTL_SECONDS of
        (False, _) \<Rightarrow> (Inl (HTTPException 409), w)
      | (True, locks) \<Rightarrow>
          (case checkout_locked io redis_ok stamp now user_id idempotency_key (w\<lparr>cw_locks := locks\<rparr>) of
             (r, w1) \<Rightarrow>
               if redis_ok then (r, w1\<lparr>cw_locks := snd (release_lock finish (cw_locks w1) (lock_key_for user_id) token)\<rparr>)
               else (Inl (Uncaught ''ConnectionError''), w1)))"

definition add_item_endpoint ::
  "bool \<Rightarrow> bool \<Rightarrow> rat \<Rightarrow> uuid \<Rightarrow> uuid \<Rightarrow> uuid \<Rightarrow> int \<Rightarrow> string \<Rightarrow> cart_world \<Rightarrow> CartResponse result \<times> cart_world" where
  "add_item_endpoint io redis_ok now fresh user_id product_id quantity idempotency_key w =
     (if quantity \<le> 0 then (Inl (HTTPException 422), w)
      else if idempotency_key = [] then (Inl (HTTPException 400), w)
      else add_to_cart io redis_ok now fresh user_id product_id quantity idempotency_key w)"

definition checkout_endpoint ::
  "bool \<Rightarrow> bool \<Rightarrow> (rat \<Rightarrow> string) \<Rightarrow> rat \<Rightarrow> rat \<Rightarrow> string \<Rightarrow> uuid \<Rightarrow> string \<Rightarrow> cart_world \<Rightarrow> string result \<times> cart_world" where
  "checkout_endpoint io redis_ok stamp now finish token user_id idempotency_key w =
     (if idempotency_key = [] then (Inl (HTTPException 400), w)
      else checkout_cart io redis_ok stamp now finish token user_id idempotency_key w)"

section \<open>The sweeper\<close>

definition expired_event :: "string \<Rightarrow> cart_row \<Rightarrow> outbox_message" where
  "expired_event reason r = outbox ''Cart'' (ct_user_id r) ''CartExpired''
     (JObj [(''cart_id'', JStr (ct_id r)), (''user_id'', JStr (ct_user_id r)), (''items'', items_json (ct_items r)),
       (''reason'', JStr reason)])"

definition sweep :: "bool \<Rightarrow> string \<Rightarrow> (cart_row \<Rightarrow> bool) \<Rightarrow> rat \<Rightarrow> cart_db \<Rightarrow> cart_db" where
  "sweep io reason P now db =
     (if io then
        db\<lparr>cd_carts := map (\<lambda>r. if P r then r\<lparr>ct_status := ''expired'', ct_updated_at := now\<rparr> else r) (cd_carts db),
           cd_outbox := cd_outbox db @ map (expired_event reason) (filter P (cd_carts db))\<rparr>
      else db)"

definition expire_by_ttl :: "bool \<Rightarrow> rat \<Rightarrow> cart_db \<Rightarrow> cart_db" where
  "expire_by_ttl io now = sweep io ''ttl_expired'' (\<lambda>r. ct_expires_at r < now \<and> ct_status r = ''active'') now"

definition reclaim_stale_checkout :: "bool \<Rightarrow> rat \<Rightarrow> cart_db \<Rightarrow> cart_db" where
  "reclaim_stale_checkout io now =
     sweep io ''checkout_abandoned'' (\<lambda>r. ct_status r = ''checkout_in_progress'' \<and> ct_updated_at r < now - 600) now"

section \<open>Every cart leaves the shelf once\<close>

definition count_rows :: "string \<Rightarrow> uuid \<Rightarrow> cart_row list \<Rightarrow> nat" where
  "count_rows status u rows = length (filter (\<lambda>r. ct_user_id r = u \<and> ct_status r = status) rows)"

definition initiated :: "uuid \<Rightarrow> outbox_message \<Rightarrow> bool" where
  "initiated u m \<longleftrightarrow> om_type m = ''CartCheckoutInitiated'' \<and> om_aggregate_id m = u"

definition expired :: "string \<Rightarrow> uuid \<Rightarrow> outbox_message \<Rightarrow> bool" where
  "expired reason u m \<longleftrightarrow> om_type m = ''CartExpired'' \<and> om_aggregate_id m = u \<and> dict_get_null (om_payload m) ''reason'' = JStr reason"

definition count_events :: "(outbox_message \<Rightarrow> bool) \<Rightarrow> cart_db \<Rightarrow> nat" where
  "count_events P db = length (filter P (cd_outbox db))"

text \<open>
  Every expired row has its event, and every checkout has claimed at least one row of its own. When
  no user's first additions overlap (\<open>lone\<close>), a user has at most one active row and a checkout
  claims exactly one.
\<close>

definition cart_inv :: "bool \<Rightarrow> cart_db \<Rightarrow> bool" where
  "cart_inv lone db \<longleftrightarrow>
     (\<forall>r \<in> set (cd_carts db). ct_status r \<in> {''active'', ''checkout_in_progress'', ''expired''}) \<and>
     (\<forall>u. count_events (initiated u) db \<le> count_events (expired ''checkout_abandoned'' u) db + count_rows ''checkout_in_progress'' u (cd_carts db) \<and>
        count_rows ''expired'' u (cd_carts db) =
          count_events (expired ''ttl_expired'' u) db + count_events (expired ''checkout_abandoned'' u) db \<and>
        (lone \<longrightarrow> count_rows ''active'' u (cd_carts db) \<le> 1 \<and>
           count_events (initiated u) db = count_events (expired ''checkout_abandoned'' u) db + count_rows ''checkout_in_progress'' u (cd_carts db)))"

lemma count_change:
  assumes "\<And>r. P r \<Longrightarrow> ct_status r = a" and "\<And>r. ct_status (g r) = b \<and> ct_user_id (g r) = ct_user_id r" and "a \<noteq> b"
  shows "count_rows c u (map (\<lambda>r. if P r then g r else r) rows) + (if c = a then length (filter (\<lambda>r. P r \<and> ct_user_id r = u) rows) else 0) =
     count_rows c u rows + (if c = b then length (filter (\<lambda>r. P r \<and> ct_user_id r = u) rows) else 0)"
  using assms(3) by (induction rows) (auto simp: count_rows_def assms(1,2))

lemma active_rows_count: "length (active_rows db u) = count_rows ''active'' u (cd_carts db)"
  by (simp add: active_rows_def count_rows_def)

lemma initiated_events [simp]:
  "expired reason v (outbox ''Cart'' u ''CartCheckoutInitiated'' p) = False"
  "initiated v (outbox ''Cart'' u ''CartCheckoutInitiated'' p) \<longleftrightarrow> v = u"
  by (auto simp: expired_def initiated_def)

lemma expired_events [simp]:
  "expired reason u (expired_event reason' r) \<longleftrightarrow> ct_user_id r = u \<and> reason = reason'"
  "initiated u (expired_event reason' r) = False"
  by (auto simp: expired_def initiated_def expired_event_def dict_get_null_def)

lemma expired_comp [simp]:
  "expired reason u \<circ> expired_event reason' = (\<lambda>r. ct_user_id r = u \<and> reason = reason')"
  "initiated u \<circ> expired_event reason' = (\<lambda>r. False)"
  by (simp_all add: fun_eq_iff)

lemma save_cart_inv:
  assumes "cart_inv lone db" and "lone \<Longrightarrow> found = None \<Longrightarrow> active_rows db user_id = []"
  shows "cart_inv lone (save_cart now fresh user_id items found db\<lparr>cd_keys := ks\<rparr>)"
proof (cases found)
  case None
  then have "lone \<Longrightarrow> count_rows ''active'' user_id (cd_carts db) = 0" using assms(2) active_rows_count [of db user_id] by simp
  with assms(1) None show ?thesis
    by (auto simp: cart_inv_def save_cart_def count_events_def count_rows_def)
next
  case (Some r)
  have "count_rows st u (map (\<lambda>x. if P x then g x else x) rows) = count_rows st u rows"
    if "\<And>x. ct_user_id (g x) = ct_user_id x \<and> ct_status (g x) = ct_status x" for st u rows P g
    using that by (induction rows) (simp_all add: count_rows_def)
  with assms(1) Some show ?thesis by (auto simp: cart_inv_def save_cart_def Let_def count_events_def)
qed

lemma claim_cart_inv:
  assumes "cart_inv lone db" and "active_rows db user_id \<noteq> []"
  shows "cart_inv lone (claim_cart now user_id db\<lparr>cd_keys := ks,
     cd_outbox := cd_outbox db @ [outbox ''Cart'' user_id ''CartCheckoutInitiated'' p]\<rparr>)"
proof -
  let ?P = "\<lambda>r. ct_user_id r = user_id \<and> ct_status r = ''active''"
  let ?g = "\<lambda>r. r\<lparr>ct_status := ''checkout_in_progress'', ct_updated_at := now\<rparr>"
  let ?rows = "map (\<lambda>r. if ?P r then ?g r else r) (cd_carts db)"
  let ?n = "count_rows ''active'' user_id (cd_carts db)"
  have hits: "length (filter (\<lambda>r. ?P r \<and> ct_user_id r = u) (cd_carts db)) = (if u = user_id then ?n else 0)" for u
    by (auto simp: count_rows_def intro: arg_cong [where f = length] filter_cong)
  have "count_rows c u ?rows + (if c = ''active'' then length (filter (\<lambda>r. ?P r \<and> ct_user_id r = u) (cd_carts db)) else 0) =
      count_rows c u (cd_carts db) + (if c = ''checkout_in_progress'' then length (filter (\<lambda>r. ?P r \<and> ct_user_id r = u) (cd_carts db)) else 0)" for c u
    by (rule count_change) simp_all
  then have c: "count_rows c u ?rows + (if c = ''active'' then if u = user_id then ?n else 0 else 0) =
      count_rows c u (cd_carts db) + (if c = ''checkout_in_progress'' then if u = user_id then ?n else 0 else 0)" for c u
    unfolding hits .
  have one: "lone \<Longrightarrow> count_rows ''active'' u (cd_carts db) \<le> 1" for u using assms(1) by (simp add: cart_inv_def)
  have "?n \<noteq> 0" using assms(2) active_rows_count [of db user_id, symmetric] by simp
  then have n: "1 \<le> ?n" "lone \<Longrightarrow> ?n = 1" using one [of user_id] by auto
  have "lone \<Longrightarrow> count_rows ''active'' u ?rows \<le> 1" for u using c [of "''active''" u] one [of u] by simp
  moreover have "count_rows ''checkout_in_progress'' u ?rows = count_rows ''checkout_in_progress'' u (cd_carts db) + (if u = user_id then ?n else 0)"
    "count_rows ''expired'' u ?rows = count_rows ''expired'' u (cd_carts db)" for u
    using c [of "''checkout_in_progress''" u] c [of "''expired''" u] by simp_all
  moreover have "count_events (initiated user_id) db \<le> count_events (expired ''checkout_abandoned'' user_id) db
      + count_rows ''checkout_in_progress'' user_id (cd_carts db)" using assms(1) by (simp add: cart_inv_def)
  with n(1) have "Suc (count_events (initiated user_id) db) \<le> count_events (expired ''checkout_abandoned'' user_id) db
      + (count_rows ''checkout_in_progress'' user_id (cd_carts db) + ?n)" by linarith
  ultimately show ?thesis using assms(1) n by (auto simp: cart_inv_def claim_cart_def count_events_def)
qed

lemma sweep_inv:
  assumes "cart_inv lone db" and "\<And>r. P r \<Longrightarrow> ct_status r = a"
    and "a = ''active'' \<and> reason = ''ttl_expired'' \<or> a = ''checkout_in_progress'' \<and> reason = ''checkout_abandoned''"
  shows "cart_inv lone (sweep io reason P now db)"
proof (cases io)
  case True
  let ?g = "\<lambda>r. r\<lparr>ct_status := ''expired'', ct_updated_at := now\<rparr>"
  let ?rows = "map (\<lambda>r. if P r then ?g r else r) (cd_carts db)"
  let ?k = "\<lambda>u. length (filter (\<lambda>r. P r \<and> ct_user_id r = u) (cd_carts db))"
  let ?ev = "\<lambda>reason u. count_events (expired reason u) db"
  have c: "count_rows c u ?rows + (if c = a then ?k u else 0) = count_rows c u (cd_carts db) + (if c = ''expired'' then ?k u else 0)" for c u
    by (rule count_change) (use assms(2,3) in auto)
  have k: "length (filter (\<lambda>r. ct_user_id r = u) (filter P (cd_carts db))) = ?k u" for u
    by (simp add: conj_commute)
  from assms(1) have st: "\<forall>r \<in> set ?rows. ct_status r \<in> {''active'', ''checkout_in_progress'', ''expired''}"
    by (auto simp: cart_inv_def)
  have "count_events (initiated u) db \<le> ?ev ''checkout_abandoned'' u + (if reason = ''checkout_abandoned'' then ?k u else 0)
        + count_rows ''checkout_in_progress'' u ?rows \<and>
      count_rows ''expired'' u ?rows = ?ev ''ttl_expired'' u + (if reason = ''ttl_expired'' then ?k u else 0)
        + (?ev ''checkout_abandoned'' u + (if reason = ''checkout_abandoned'' then ?k u else 0)) \<and>
      (lone \<longrightarrow> count_rows ''active'' u ?rows \<le> 1 \<and>
         count_events (initiated u) db = ?ev ''checkout_abandoned'' u + (if reason = ''checkout_abandoned'' then ?k u else 0)
           + count_rows ''checkout_in_progress'' u ?rows)" for u
  proof -
    from assms(1) have i: "count_events (initiated u) db \<le> ?ev ''checkout_abandoned'' u + count_rows ''checkout_in_progress'' u (cd_carts db)"
      "count_rows ''expired'' u (cd_carts db) = ?ev ''ttl_expired'' u + ?ev ''checkout_abandoned'' u"
      "lone \<Longrightarrow> count_rows ''active'' u (cd_carts db) \<le> 1 \<and>
         count_events (initiated u) db = ?ev ''checkout_abandoned'' u + count_rows ''checkout_in_progress'' u (cd_carts db)"
      by (simp_all add: cart_inv_def)
    from assms(3) show ?thesis
      using c [of "''active''" u] c [of "''checkout_in_progress''" u] c [of "''expired''" u] i by (elim disjE conjE) auto
  qed
  with st True assms(3) show ?thesis by (elim disjE conjE) (simp_all add: cart_inv_def sweep_def count_events_def k)
qed (use assms(1) in \<open>simp add: sweep_def\<close>)

lemmas ttl_inv = sweep_inv [where a = "''active''" and reason = "''ttl_expired''"]
lemmas reclaim_inv = sweep_inv [where a = "''checkout_in_progress''" and reason = "''checkout_abandoned''"]

text \<open>
  The histories of the service. A step is one part of a request or one sweep, so requests overlap
  freely: what an addition saves and which row it has found, and which view a checkout has read, may
  come from any earlier state. Redis keys and locks change in any way. With \<open>lone\<close>, an addition that
  has found no active row still finds none when it commits: no two first additions of a user overlap.
\<close>

inductive cart_step :: "bool \<Rightarrow> cart_world \<Rightarrow> cart_world \<Rightarrow> bool" for lone where
  add: "(lone \<longrightarrow> found = None \<longrightarrow> active_rows (cw_db w) user_id = []) \<Longrightarrow>
    cart_step lone w (snd (add_commit io now fresh user_id items found key w))"
| checkout: "cart_step lone w (snd (checkout_claim io redis_ok stamp now user_id key view w))"
| cache_change: "cart_step lone w (w\<lparr>cw_cache := cache\<rparr>)"
| lock_change: "cart_step lone w (w\<lparr>cw_locks := locks\<rparr>)"
| ttl_sweep: "cart_step lone w (w\<lparr>cw_db := expire_by_ttl io now (cw_db w)\<rparr>)"
| reclaim_sweep: "cart_step lone w (w\<lparr>cw_db := reclaim_stale_checkout io now (cw_db w)\<rparr>)"

definition no_carts :: "cart_world \<Rightarrow> bool" where
  "no_carts w \<longleftrightarrow> cw_db w = \<lparr>cd_carts = [], cd_keys = [], cd_outbox = []\<rparr> \<and> cw_cache w = []"

lemma get_cart_db: "cw_db (snd (get_cart redis_ok now user_id w)) = cw_db w"
  by (simp add: get_cart_def split: sum.split prod.split)

lemma checkout_claim_cases:
  obtains (kept) "snd (checkout_claim io redis_ok stamp now user_id key view w) = w"
      "fst (checkout_claim io redis_ok stamp now user_id key view w) \<noteq> Inr ''Checkout initiated''"
  | (claimed) p where "\<not> cart_empty view" "key \<notin> set (cd_keys (cw_db w))" "active_rows (cw_db w) user_id \<noteq> []"
      "p = JObj [(''user_id'', JStr user_id), (''items'', items_json (cv_items view)), (''initiated_at'', JStr (stamp now))]"
      "checkout_claim io redis_ok stamp now user_id key view w = (Inr ''Checkout initiated'',
         w\<lparr>cw_db := claim_cart now user_id (cw_db w)\<lparr>cd_keys := cd_keys (cw_db w) @ [key],
             cd_outbox := cd_outbox (cw_db w) @ [outbox ''Cart'' user_id ''CartCheckoutInitiated'' p]\<rparr>,
           cw_cache := if redis_ok then redis_delete (cw_cache w) (cart_key user_id) else cw_cache w\<rparr>)"
proof (cases "cart_empty view \<or> 255 < length key \<or> key \<in> set (cd_keys (cw_db w)) \<or> active_rows (cw_db w) user_id = [] \<or> \<not> io")
  case True
  then show ?thesis by (intro kept) (auto simp: checkout_claim_def)
next
  case False
  then show ?thesis by (intro claimed) (simp_all add: checkout_claim_def claim_cart_def Let_def)
qed

interpretation carts: inductive_invariant no_carts "cart_step lone" "\<lambda>w. cart_inv lone (cw_db w)" for lone
proof unfold_locales
  show "no_carts w \<Longrightarrow> cart_inv lone (cw_db w)" for w
    by (simp add: no_carts_def cart_inv_def count_rows_def count_events_def)
next
  fix w w'
  assume inv: "cart_inv lone (cw_db w)" and "cart_step lone w w'"
  from this(2) show "cart_inv lone (cw_db w')"
  proof cases
    case (add found user_id io now fresh items key)
    then show ?thesis using inv save_cart_inv [OF inv] by (simp add: add_commit_def)
  next
    case (checkout io redis_ok stamp now user_id key view)
    show ?thesis
    proof (cases rule: checkout_claim_cases [of io redis_ok stamp now user_id key view w])
      case kept
      with checkout inv show ?thesis by simp
    next
      case (claimed p)
      with checkout claim_cart_inv [OF inv claimed(3)] show ?thesis by simp
    qed
  next
    case (ttl_sweep io now)
    then show ?thesis unfolding expire_by_ttl_def by (auto intro!: ttl_inv [OF inv])
  next
    case (reclaim_sweep io now)
    then show ?thesis unfolding reclaim_stale_checkout_def by (auto intro!: reclaim_inv [OF inv])
  qed (use inv in simp_all)
qed

text \<open>The whole requests are such histories, also with \<open>lone\<close>.\<close>

lemma cache_history: "reachable no_carts (cart_step lone) w \<Longrightarrow> reachable no_carts (cart_step lone) (w\<lparr>cw_cache := cache\<rparr>)"
  by (erule reach_step) (rule cart_step.cache_change)

lemma get_cart_history:
  assumes "reachable no_carts (cart_step lone) w"
  shows "reachable no_carts (cart_step lone) (snd (get_cart redis_ok now user_id w))"
  using assms cache_history by (simp add: get_cart_def split: sum.split prod.split)

lemma add_item_history:
  assumes "reachable no_carts (cart_step lone) w"
  shows "reachable no_carts (cart_step lone) (snd (add_item_endpoint io redis_ok now fresh user_id product_id quantity key w))"
proof -
  have "reachable no_carts (cart_step lone) (snd (add_commit io now fresh user_id items found key w1))"
    if "find_active (cw_db w1) user_id = Inr found" "reachable no_carts (cart_step lone) w1" for items found w1
    using that(2) by (rule reach_step) (rule cart_step.add, use that(1) in \<open>auto simp: find_active_def split: list.splits\<close>)
  then show ?thesis
    using assms get_cart_history [OF assms] cache_history [OF assms]
    by (simp add: add_item_endpoint_def add_to_cart_def Let_def cache_cart_def split: sum.split prod.split)
qed

lemma checkout_history:
  assumes "reachable no_carts (cart_step lone) w"
  shows "reachable no_carts (cart_step lone) (snd (checkout_endpoint io redis_ok stamp now finish token user_id key w))"
proof -
  have locks: "reachable no_carts (cart_step lone) (w1\<lparr>cw_locks := locks\<rparr>)" if "reachable no_carts (cart_step lone) w1" for w1 locks
    using that by (rule reach_step) (rule cart_step.lock_change)
  have body: "reachable no_carts (cart_step lone) (snd (checkout_locked io redis_ok stamp now user_id key w1))"
    if "reachable no_carts (cart_step lone) w1" for w1
  proof (cases "resolve_view now user_id w1")
    case (Inr vd)
    from that have "reachable no_carts (cart_step lone) (snd (checkout_claim io redis_ok stamp now user_id key (fst vd) w1))"
      by (rule reach_step) (rule cart_step.checkout)
    with Inr show ?thesis by (cases vd) (simp add: checkout_locked_def)
  qed (use that in \<open>simp add: checkout_locked_def\<close>)
  have "reachable no_carts (cart_step lone) w1" if "checkout_locked io redis_ok stamp now user_id key (w\<lparr>cw_locks := l\<rparr>) = (r, w1)" for l r w1
    using body [OF locks [OF assms, of l]] that by simp
  then show ?thesis using assms locks by (simp add: checkout_endpoint_def checkout_cart_def split: prod.split bool.split)
qed

lemma checkout_locked_cases:
  obtains (kept) "snd (checkout_locked io redis_ok stamp now user_id key w) = w"
      "fst (checkout_locked io redis_ok stamp now user_id key w) \<noteq> Inr ''Checkout initiated''"
  | (claimed) view durable p where "resolve_view now user_id w = Inr (view, durable)" "active_rows (cw_db w) user_id \<noteq> []"
      "checkout_locked io redis_ok stamp now user_id key w = (Inr ''Checkout initiated'',
         w\<lparr>cw_db := claim_cart now user_id (cw_db w)\<lparr>cd_keys := cd_keys (cw_db w) @ [key],
             cd_outbox := cd_outbox (cw_db w) @ [outbox ''Cart'' user_id ''CartCheckoutInitiated'' p]\<rparr>,
           cw_cache := if redis_ok then redis_delete (cw_cache w) (cart_key user_id) else cw_cache w\<rparr>)"
proof (cases "resolve_view now user_id w")
  case (Inl e)
  then show ?thesis using kept by (simp add: checkout_locked_def)
next
  case (Inr vd)
  then have run: "checkout_locked io redis_ok stamp now user_id key w = checkout_claim io redis_ok stamp now user_id key (fst vd) w"
    by (cases vd) (simp add: checkout_locked_def)
  show ?thesis
  proof (cases rule: checkout_claim_cases [of io redis_ok stamp now user_id key "fst vd" w])
    case kept
    with that(1) run show ?thesis by simp
  next
    case (claimed p)
    with that(2) [of "fst vd" "snd vd" p] run Inr show ?thesis by simp
  qed
qed

lemma checkout_cart_cases:
  obtains (busy) "checkout_cart io redis_ok stamp now finish token user_id key w = (Inl (HTTPException 409), w)"
  | (held) locks r w1 where "acquire now (cw_locks w) (lock_key_for user_id) token DEFAULT_TTL_SECONDS = (True, locks)"
      "checkout_locked io redis_ok stamp now user_id key (w\<lparr>cw_locks := locks\<rparr>) = (r, w1)"
      "checkout_cart io redis_ok stamp now finish token user_id key w =
         (if redis_ok then (r, w1\<lparr>cw_locks := snd (release_lock finish (cw_locks w1) (lock_key_for user_id) token)\<rparr>)
          else (Inl (Uncaught ''ConnectionError''), w1))"
proof (cases "acquire now (cw_locks w) (lock_key_for user_id) token DEFAULT_TTL_SECONDS")
  case (Pair got locks)
  obtain r w1 where run: "checkout_locked io redis_ok stamp now user_id key (w\<lparr>cw_locks := locks\<rparr>) = (r, w1)" by (rule prod.exhaust)
  show ?thesis
  proof (cases got)
    case True
    then show ?thesis using Pair run by (intro held [of locks r w1]) (simp_all add: checkout_cart_def)
  next
    case False
    then show ?thesis using Pair by (intro busy) (simp add: checkout_cart_def)
  qed
qed

lemma rows_by_status:
  "\<forall>r \<in> set rows. ct_status r \<in> {''active'', ''checkout_in_progress'', ''expired''} \<Longrightarrow>
   length (filter (\<lambda>r. ct_user_id r = u) rows) =
     count_rows ''active'' u rows + count_rows ''checkout_in_progress'' u rows + count_rows ''expired'' u rows"
  by (induction rows) (auto simp: count_rows_def)

section \<open>Cache and table agree\<close>

lemma map_of_jsonb:
  assumes "distinct (map fst items)"
  shows "map_of (jsonb items) = map_of items" and "distinct (map fst (jsonb items))"
proof -
  have "mset (map fst (jsonb items)) = mset (map fst items)" by (simp add: jsonb_def)
  then show d: "distinct (map fst (jsonb items))" using assms mset_eq_imp_distinct_iff by blast
  show "map_of (jsonb items) = map_of items"
    by (subst map_of_inject_set [OF d assms]) (simp add: jsonb_def)
qed

lemma map_of_merge_item:
  "map_of (merge_item items p q) = (map_of items)(p \<mapsto> (case map_of items p of None \<Rightarrow> 0 | Some n \<Rightarrow> n) + q)"
  by (simp add: merge_item_def lookup_dict_set)

lemma distinct_merge_item [simp]: "distinct (map fst (merge_item items p q)) = distinct (map fst items)"
  by (simp add: merge_item_def)

lemma cart_key_inj [simp]: "cart_key u = cart_key v \<longleftrightarrow> u = v"
  by (simp add: cart_key_def)

lemma map_of_delete: "map_of (redis_delete r k) k' = (if k' = k then None else map_of r k')"
  by (induction r) (auto simp: redis_delete_def)

lemma map_of_set: "map_of (redis_set now r k v ex) k' = (if k' = k then Some (v, now + ex) else map_of r k')"
  by (simp add: redis_set_def map_of_delete)

text \<open>A live key of the cache stands for the user's active row, and expires no later than it.\<close>

definition backed :: "rat \<Rightarrow> cart_db \<Rightarrow> uuid \<Rightarrow> cart_items \<times> rat \<Rightarrow> bool" where
  "backed now db u e \<longleftrightarrow> now < snd e \<longrightarrow>
     (\<exists>r. active_rows db u = [r] \<and> map_of (ct_items r) = map_of (fst e) \<and> snd e \<le> ct_expires_at r)"

definition dicts_ok :: "cart_world \<Rightarrow> bool" where
  "dicts_ok w \<longleftrightarrow> distinct (map ct_id (cd_carts (cw_db w))) \<and>
     (\<forall>r \<in> set (cd_carts (cw_db w)). distinct (map fst (ct_items r))) \<and>
     (\<forall>u v e. map_of (cw_cache w) (cart_key u) = Some (v, e) \<longrightarrow> distinct (map fst v))"

definition coherent :: "rat \<times> cart_world \<Rightarrow> bool" where
  "coherent s \<longleftrightarrow> cart_inv True (cw_db (snd s)) \<and> dicts_ok (snd s) \<and>
     (\<forall>u e. map_of (cw_cache (snd s)) (cart_key u) = Some e \<longrightarrow> backed (fst s) (cw_db (snd s)) u e)"

text \<open>
  Histories in which requests are handled one after the other and commits and Redis writes succeed;
  the first component is the clock. The identifier of a new row is one that no row has.
\<close>

inductive healthy_step :: "rat \<times> cart_world \<Rightarrow> rat \<times> cart_world \<Rightarrow> bool" where
  add: "t \<le> now \<Longrightarrow> fresh \<notin> ct_id ` set (cd_carts (cw_db w)) \<Longrightarrow> healthy_step (t, w) (now, snd (add_item_endpoint True True now fresh user_id product_id quantity key w))"
| read: "t \<le> now \<Longrightarrow> healthy_step (t, w) (now, snd (get_cart True now user_id w))"
| checkout: "t \<le> now \<Longrightarrow> now \<le> finish \<Longrightarrow>
    healthy_step (t, w) (finish, snd (checkout_endpoint True True stamp now finish token user_id key w))"
| evict: "t \<le> now \<Longrightarrow> healthy_step (t, w) (now, w\<lparr>cw_cache := redis_delete (cw_cache w) k\<rparr>)"
| ttl_sweep: "t \<le> now \<Longrightarrow> healthy_step (t, w) (now, w\<lparr>cw_db := expire_by_ttl io now (cw_db w)\<rparr>)"
| reclaim_sweep: "t \<le> now \<Longrightarrow> healthy_step (t, w) (now, w\<lparr>cw_db := reclaim_stale_checkout io now (cw_db w)\<rparr>)"

definition no_carts_yet :: "rat \<times> cart_world \<Rightarrow> bool" where
  "no_carts_yet s \<longleftrightarrow> no_carts (snd s)"

lemma backed_later: "backed t db u e \<Longrightarrow> t \<le> now \<Longrightarrow> backed now db u e"
  by (auto simp: backed_def)

lemma coherent_later: "coherent (t, w) \<Longrightarrow> t \<le> now \<Longrightarrow> coherent (now, w)"
  by (auto simp: coherent_def intro: backed_later)

lemma one_active:
  assumes "cart_inv True db"
  obtains "active_rows db u = []" | r where "active_rows db u = [r]"
proof -
  have "length (active_rows db u) \<le> 1" using assms by (simp add: cart_inv_def active_rows_count)
  then show thesis using that by (cases "active_rows db u" rule: remdups_adj.cases) auto
qed

lemma active_rows_map:
  assumes "\<And>r. ct_user_id (f r) = ct_user_id r \<and> ct_status (f r) = ct_status r"
  shows "active_rows (db\<lparr>cd_carts := map f (cd_carts db)\<rparr>) u = map f (active_rows db u)"
  by (simp add: active_rows_def filter_map comp_def assms)

lemma active_rows_keys [simp]: "active_rows (db\<lparr>cd_keys := ks\<rparr>) u = active_rows db u"
  "active_rows (db\<lparr>cd_outbox := ms\<rparr>) u = active_rows db u"
  by (simp_all add: active_rows_def)

text \<open>The row an addition finds, and the rows after its commit, when nothing comes in between.\<close>

definition row_found :: "cart_db \<Rightarrow> uuid \<Rightarrow> cart_row option" where
  "row_found db u = (case active_rows db u of [] \<Rightarrow> None | r # _ \<Rightarrow> Some r)"

lemma find_active_one: "cart_inv True db \<Longrightarrow> find_active db u = Inr (row_found db u)"
  by (cases rule: one_active [of db u]) (auto simp: find_active_def row_found_def)

lemma active_rows_save:
  assumes "cart_inv True db" and "distinct (map ct_id (cd_carts db))"
  shows "\<exists>r. active_rows (save_cart now fresh u items (row_found db u) db) u = [r] \<and> ct_items r = jsonb items \<and> ct_expires_at r = now + CART_TTL"
    and "v \<noteq> u \<Longrightarrow> active_rows (save_cart now fresh u items (row_found db u) db) v = active_rows db v"
proof (atomize (full), cases rule: one_active [OF assms(1), of u])
  case 1
  then show "(\<exists>r. active_rows (save_cart now fresh u items (row_found db u) db) u = [r] \<and> ct_items r = jsonb items \<and>
      ct_expires_at r = now + CART_TTL) \<and> (v \<noteq> u \<longrightarrow> active_rows (save_cart now fresh u items (row_found db u) db) v = active_rows db v)"
    by (simp add: save_cart_def row_found_def) (simp add: active_rows_def)
next
  case (2 r)
  let ?g = "\<lambda>x. x\<lparr>ct_items := if jsonb items \<noteq> ct_items r then jsonb items else ct_items x,
    ct_expires_at := if now + CART_TTL \<noteq> ct_expires_at r then now + CART_TTL else ct_expires_at x,
    ct_updated_at := if jsonb items \<noteq> ct_items r \<or> now + CART_TTL \<noteq> ct_expires_at r then now else ct_updated_at x\<rparr>"
  let ?f = "\<lambda>x. if ct_id x = ct_id r then ?g x else x"
  have m: "active_rows (db\<lparr>cd_carts := map ?f (cd_carts db)\<rparr>) x = map ?f (active_rows db x)" for x
    by (rule active_rows_map) simp
  have r: "r \<in> set (cd_carts db)" "ct_user_id r = u"
    using 2 by (auto simp: active_rows_def dest!: filter_eq_ConsD)
  have other: "ct_id x \<noteq> ct_id r" if "x \<in> set (active_rows db v)" "v \<noteq> u" for x
    using that r assms(2) by (auto simp: active_rows_def distinct_map inj_on_def)
  have save: "save_cart now fresh u items (row_found db u) db = db\<lparr>cd_carts := map ?f (cd_carts db)\<rparr>"
    by (simp add: save_cart_def row_found_def 2 Let_def)
  have "active_rows (save_cart now fresh u items (row_found db u) db) u = [?g r]" unfolding save m 2 by simp
  moreover have "v \<noteq> u \<Longrightarrow> active_rows (save_cart now fresh u items (row_found db u) db) v = active_rows db v"
    unfolding save m using other by (simp add: map_idI)
  ultimately show "(\<exists>r. active_rows (save_cart now fresh u items (row_found db u) db) u = [r] \<and> ct_items r = jsonb items \<and>
      ct_expires_at r = now + CART_TTL) \<and> (v \<noteq> u \<longrightarrow> active_rows (save_cart now fresh u items (row_found db u) db) v = active_rows db v)"
    by simp
qed

lemma resolved:
  assumes "coherent (now, w)"
  obtains view durable where "resolve_view now u w = Inr (view, durable)" "distinct (map fst (cv_items view))"
    "rehydrated view \<Longrightarrow> \<exists>r. active_rows (cw_db w) u = [r] \<and> cv_items view = ct_items r \<and>
       Option.bind durable dc_expires_at = Some (ct_expires_at r)"
proof -
  from assms have inv: "cart_inv True (cw_db w)" and d: "dicts_ok w" by (simp_all add: coherent_def)
  have cached: "distinct (map fst v)" if "redis_get now (cw_cache w) (cart_key u) = Some v" for v
    using that d by (auto simp: redis_get_def dicts_ok_def split: option.splits prod.splits if_splits)
  show thesis
  proof (cases rule: one_active [OF inv, of u])
    case 1
    then show thesis using cached
      by (intro that [of _ None])
        (auto simp: resolve_view_def load_durable_def resolve_cart_def rehydrated_def split: option.splits)
  next
    case (2 r)
    then have r: "r \<in> set (cd_carts (cw_db w))" "ct_status r = ''active''"
      using filter_eq_ConsD [of "\<lambda>r. ct_user_id r = u \<and> ct_status r = ''active''" "cd_carts (cw_db w)" r "[]"]
      by (auto simp: active_rows_def)
    with 2 cached d show thesis
      by (intro that [of _ "Some \<lparr>dc_items = ct_items r, dc_status = ct_status r, dc_expires_at = Some (ct_expires_at r)\<rparr>"])
        (auto simp: resolve_view_def load_durable_def resolve_cart_def rehydrated_def dicts_ok_def split: option.splits if_splits)
  qed
qed

text \<open>The cache of one user is replaced, the other users' keys and rows stay.\<close>

lemma coherent_write:
  assumes "coherent (now, w)" and "cart_inv True (cw_db w')"
    and "distinct (map ct_id (cd_carts (cw_db w'))) \<and> (\<forall>r \<in> set (cd_carts (cw_db w')). distinct (map fst (ct_items r)))"
    and "\<And>v. v \<noteq> u \<Longrightarrow> active_rows (cw_db w') v = active_rows (cw_db w) v"
    and "\<And>k. k \<noteq> cart_key u \<Longrightarrow> map_of (cw_cache w') k = map_of (cw_cache w) k"
    and "\<And>v e. map_of (cw_cache w') (cart_key u) = Some (v, e) \<Longrightarrow> distinct (map fst v) \<and> backed now (cw_db w') u (v, e)"
  shows "coherent (now, w')"
proof -
  have b: "backed now (cw_db w') x e" if "map_of (cw_cache w') (cart_key x) = Some e" for x e
  proof (cases "x = u")
    case True
    with that assms(6) [of "fst e" "snd e"] show ?thesis by simp
  next
    case False
    with that assms(1) assms(5) [of "cart_key x"] have "backed now (cw_db w) x e" by (cases e) (simp add: coherent_def)
    with assms(4) [OF False] show ?thesis by (simp add: backed_def)
  qed
  have "distinct (map fst v)" if "map_of (cw_cache w') (cart_key x) = Some (v, e)" for x v e
    using that assms(6) [of v e] assms(1) assms(5) [of "cart_key x"] by (cases "x = u") (auto simp: coherent_def dicts_ok_def)
  with b assms(2,3) show ?thesis by (simp add: coherent_def dicts_ok_def)
qed

lemma map_if_key: "(\<And>x. k (g x) = k x) \<Longrightarrow> map k (map (\<lambda>x. if P x then g x else x) xs) = map k xs"
  by simp

lemma rows_saved:
  assumes "\<forall>r \<in> set (cd_carts db). distinct (map fst (ct_items r))" and "distinct (map fst items)"
    and "distinct (map ct_id (cd_carts db))" and "fresh \<notin> ct_id ` set (cd_carts db)"
  shows "distinct (map ct_id (cd_carts (save_cart now fresh u items found db))) \<and>
    (\<forall>r \<in> set (cd_carts (save_cart now fresh u items found db)). distinct (map fst (ct_items r)))"
  using assms map_of_jsonb(2) [OF assms(2)]
  by (cases found) (auto simp: save_cart_def Let_def map_if_key [where k = ct_id] simp del: map_map)

lemma read_coherent:
  assumes "coherent (now, w)"
  shows "coherent (now, snd (get_cart True now u w))"
proof (rule resolved [OF assms, of u])
  fix view durable
  assume view: "resolve_view now u w = Inr (view, durable)" "distinct (map fst (cv_items view))"
    and src: "rehydrated view \<Longrightarrow> \<exists>r. active_rows (cw_db w) u = [r] \<and> cv_items view = ct_items r \<and>
       Option.bind durable dc_expires_at = Some (ct_expires_at r)"
  show ?thesis
  proof (cases "rehydrated view")
    case False
    with view assms show ?thesis by (simp add: get_cart_def)
  next
    case True
    with src obtain r where r: "active_rows (cw_db w) u = [r]" "cv_items view = ct_items r"
      "Option.bind durable dc_expires_at = Some (ct_expires_at r)" by blast
    have w': "snd (get_cart True now u w) = w\<lparr>cw_cache := rewarm True now u (cv_items view) durable (cw_cache w)\<rparr>"
      using True view(1) by (simp add: get_cart_def)
    have "backed now (cw_db w) u (v, e)" "distinct (map fst v)"
      if "map_of (rewarm True now u (cv_items view) durable (cw_cache w)) (cart_key u) = Some (v, e)" for v e
    proof -
      have "now + min CART_TTL (of_int \<lfloor>ct_expires_at r - now\<rfloor>) \<le> ct_expires_at r"
        using order_trans [OF min.cobounded2 of_int_floor_le, of CART_TTL "ct_expires_at r - now"] by linarith
      moreover have "backed now (cw_db w) u (v, e) \<and> distinct (map fst v)" if "map_of (cw_cache w) (cart_key u) = Some (v, e)"
        using assms that by (auto simp: coherent_def dicts_ok_def)
      ultimately show "backed now (cw_db w) u (v, e)" "distinct (map fst v)"
        using that r view(2) by (auto simp: rewarm_def Let_def map_of_set backed_def split: if_splits)
    qed
    with assms show ?thesis unfolding w'
      by (intro coherent_write [OF assms, of _ u]) (auto simp: coherent_def dicts_ok_def rewarm_def Let_def map_of_set split: option.split)
  qed
qed

lemma add_to_cart_alone:
  assumes "cart_inv True (cw_db w)" and "resolve_view now u w = Inr (view, durable)" and "fresh \<notin> ct_id ` set (cd_carts (cw_db w))"
    and "key \<notin> set (cd_keys (cw_db w))" and "length key \<le> 255" and "items = merge_item (cv_items view) p q"
  shows "add_to_cart True True now fresh u p q key w = (Inr \<lparr>cr_user_id = u, cr_items = items\<rparr>,
     w\<lparr>cw_cache := redis_set now (cw_cache w) (cart_key u) items CART_TTL,
       cw_db := save_cart now fresh u items (row_found (cw_db w) u) (cw_db w)\<lparr>cd_keys := cd_keys (cw_db w) @ [key]\<rparr>\<rparr>)"
  using assms find_active_one [OF assms(1), of u]
  by (simp add: add_to_cart_def add_commit_def cache_cart_def Let_def)

lemma add_coherent:
  assumes "coherent (now, w)" and fresh: "fresh \<notin> ct_id ` set (cd_carts (cw_db w))"
  shows "coherent (now, snd (add_to_cart True True now fresh u p q key w))"
proof (rule resolved [OF assms(1), of u])
  fix view durable
  assume view: "resolve_view now u w = Inr (view, durable)" "distinct (map fst (cv_items view))"
  from assms have inv: "cart_inv True (cw_db w)" and ids: "distinct (map ct_id (cd_carts (cw_db w)))"
    and d: "\<forall>r \<in> set (cd_carts (cw_db w)). distinct (map fst (ct_items r))"
    by (simp_all add: coherent_def dicts_ok_def)
  let ?items = "merge_item (cv_items view) p q"
  let ?db = "save_cart now fresh u ?items (row_found (cw_db w) u) (cw_db w)"
  have items: "distinct (map fst ?items)" using view(2) by simp
  obtain r where r: "active_rows ?db u = [r]" "ct_items r = jsonb ?items" "ct_expires_at r = now + CART_TTL"
    using active_rows_save(1) [OF inv ids] by blast
  have "coherent (now, w\<lparr>cw_cache := redis_set now (cw_cache w) (cart_key u) ?items CART_TTL,
    cw_db := ?db\<lparr>cd_keys := cd_keys (cw_db w) @ [key]\<rparr>\<rparr>)"
  proof (rule coherent_write [OF assms(1), of _ u], goal_cases)
    case 1
    have "row_found (cw_db w) u = None \<Longrightarrow> active_rows (cw_db w) u = []" by (simp add: row_found_def split: list.splits)
    then show ?case using save_cart_inv [OF inv] by simp
  next
    case 2 then show ?case using rows_saved [OF d items ids fresh] by simp
  next
    case (3 v) then show ?case using active_rows_save(2) [OF inv ids] by simp
  next
    case (4 k) then show ?case by (simp add: map_of_set)
  next
    case (5 v e)
    then show ?case using r items map_of_jsonb(1) [OF items] by (simp add: map_of_set backed_def)
  qed
  with add_to_cart_alone [OF inv view(1) fresh _ _ refl, of key p q] assms(1) read_coherent [OF assms(1)] show ?thesis
    by (cases "255 < length key \<or> key \<in> set (cd_keys (cw_db w))") (auto simp: add_to_cart_def)
qed

lemma active_rows_claim:
  "active_rows (claim_cart now u db) v = (if v = u then [] else active_rows db v)"
proof -
  have "filter (\<lambda>r. ct_user_id r = v \<and> ct_status r = ''active'') (map (\<lambda>r. if ct_user_id r = u \<and> ct_status r = ''active''
      then r\<lparr>ct_status := ''checkout_in_progress'', ct_updated_at := now\<rparr> else r) rows) =
    (if v = u then [] else filter (\<lambda>r. ct_user_id r = v \<and> ct_status r = ''active'') rows)" for rows
    by (induction rows) auto
  from this [of "cd_carts db"] show ?thesis by (cases "v = u") (simp_all add: active_rows_def claim_cart_def)
qed

lemma checkout_locked_coherent:
  assumes "coherent (now, w)"
  shows "coherent (now, snd (checkout_locked True True stamp now u key w))"
proof (cases rule: checkout_locked_cases [of True True stamp now u key w])
  case kept
  with assms show ?thesis by simp
next
  case (claimed view durable p)
  have "coherent (now, w\<lparr>cw_db := claim_cart now u (cw_db w)\<lparr>cd_keys := cd_keys (cw_db w) @ [key],
             cd_outbox := cd_outbox (cw_db w) @ [outbox ''Cart'' u ''CartCheckoutInitiated'' p]\<rparr>,
           cw_cache := redis_delete (cw_cache w) (cart_key u)\<rparr>)"
  proof (rule coherent_write [OF assms, of _ u], goal_cases)
    case 1 from assms show ?case using claim_cart_inv [OF _ claimed(2)] by (simp add: coherent_def)
  next
    case 2
    have "map ct_id (cd_carts (claim_cart now u (cw_db w))) = map ct_id (cd_carts (cw_db w))" by (simp add: claim_cart_def)
    with assms show ?case by (auto simp: coherent_def dicts_ok_def claim_cart_def simp del: map_map)
  next
    case (3 v) then show ?case by (simp add: active_rows_claim)
  qed (simp_all add: map_of_delete)
  with claimed(3) show ?thesis by simp
qed

lemma coherent_locks: "coherent (t, w\<lparr>cw_locks := locks\<rparr>) \<longleftrightarrow> coherent (t, w)"
  by (simp add: coherent_def dicts_ok_def)

lemma checkout_coherent:
  assumes "coherent (now, w)" and "now \<le> finish"
  shows "coherent (finish, snd (checkout_cart True True stamp now finish token u key w))"
proof (cases rule: checkout_cart_cases [of True True stamp now finish token u key w])
  case busy
  with coherent_later [OF assms] show ?thesis by simp
next
  case (held locks r w1)
  with checkout_locked_coherent [of now "w\<lparr>cw_locks := locks\<rparr>" stamp u key] assms(1)
  have "coherent (now, w1)" by (simp add: coherent_locks)
  with coherent_later [OF _ assms(2)] held(3) show ?thesis by (simp add: coherent_locks)
qed

lemma evict_coherent:
  assumes "coherent (now, w)"
  shows "coherent (now, w\<lparr>cw_cache := redis_delete (cw_cache w) k\<rparr>)"
  using assms by (simp add: coherent_def dicts_ok_def map_of_delete)

text \<open>A sweep leaves the active rows it does not select.\<close>

lemma sweep_coherent:
  assumes "coherent (now, w)" and "cart_inv True (sweep io reason P now (cw_db w))"
    and "\<And>r. P r \<Longrightarrow> ct_status r = ''active'' \<Longrightarrow> ct_expires_at r < now"
  shows "coherent (now, w\<lparr>cw_db := sweep io reason P now (cw_db w)\<rparr>)"
proof -
  have act: "active_rows (sweep io reason P now db) u = filter (\<lambda>r. \<not> (io \<and> P r)) (active_rows db u)" for db u
  proof (cases io)
    case True
    have "filter (\<lambda>r. ct_user_id r = u \<and> ct_status r = ''active'')
        (map (\<lambda>r. if P r then r\<lparr>ct_status := ''expired'', ct_updated_at := now\<rparr> else r) rows) =
      filter (\<lambda>r. \<not> P r) (filter (\<lambda>r. ct_user_id r = u \<and> ct_status r = ''active'') rows)" for rows by (induction rows) auto
    with True show ?thesis by (simp add: sweep_def active_rows_def)
  qed (simp add: sweep_def active_rows_def)
  have "backed now (sweep io reason P now (cw_db w)) u e" if "backed now (cw_db w) u e" for u e
  proof (cases "now < snd e")
    case True
    with that obtain r where r: "active_rows (cw_db w) u = [r]" "map_of (ct_items r) = map_of (fst e)" "snd e \<le> ct_expires_at r"
      by (auto simp: backed_def)
    moreover have "ct_status r = ''active''" using r(1) by (auto simp: active_rows_def dest!: filter_eq_ConsD)
    ultimately have "\<not> P r" using assms(3) [of r] True by auto
    with r act show ?thesis by (simp add: backed_def)
  qed (simp add: backed_def)
  moreover have "map ct_id (cd_carts (sweep io reason P now (cw_db w))) = map ct_id (cd_carts (cw_db w))"
    by (simp add: sweep_def)
  ultimately show ?thesis using assms(1,2) by (auto simp: coherent_def dicts_ok_def sweep_def simp del: map_map)
qed

interpretation healthy: inductive_invariant no_carts_yet healthy_step coherent
proof unfold_locales
  show "no_carts_yet s \<Longrightarrow> coherent s" for s
    by (simp add: no_carts_yet_def no_carts_def coherent_def dicts_ok_def cart_inv_def count_rows_def count_events_def)
  show "coherent s \<Longrightarrow> healthy_step s s' \<Longrightarrow> coherent s'" for s s'
  proof (erule healthy_step.cases, goal_cases)
    case 1 then show ?case using add_coherent coherent_later by (simp add: add_item_endpoint_def)
  next
    case 2 then show ?case using read_coherent coherent_later by blast
  next
    case 3 then show ?case using checkout_coherent coherent_later by (simp add: checkout_endpoint_def)
  next
    case 4 then show ?case using evict_coherent coherent_later by blast
  next
    case (5 t now w io)
    then have c: "coherent (now, w)" using coherent_later by blast
    have "cart_inv True (expire_by_ttl io now (cw_db w))" unfolding expire_by_ttl_def
      by (rule ttl_inv) (use c in \<open>auto simp: coherent_def\<close>)
    with c 5 show ?case unfolding expire_by_ttl_def by (auto intro!: sweep_coherent)
  next
    case (6 t now w io)
    then have c: "coherent (now, w)" using coherent_later by blast
    have "cart_inv True (reclaim_stale_checkout io now (cw_db w))" unfolding reclaim_stale_checkout_def
      by (rule reclaim_inv) (use c in \<open>auto simp: coherent_def\<close>)
    with c 6 show ?case unfolding reclaim_stale_checkout_def by (auto intro!: sweep_coherent)
  qed
qed

lemma resolve_evicted:
  assumes "coherent (now, w)"
  obtains view view' durable where "resolve_view now u w = Inr (view, durable)"
    "resolve_view now u (w\<lparr>cw_cache := redis_delete (cw_cache w) (cart_key u)\<rparr>) = Inr (view', durable)"
    "map_of (cv_items view') = map_of (cv_items view)"
proof (rule resolved [OF assms, of u])
  fix view durable
  assume view: "resolve_view now u w = Inr (view, durable)"
  let ?w = "w\<lparr>cw_cache := redis_delete (cw_cache w) (cart_key u)\<rparr>"
  have miss: "redis_get now (cw_cache ?w) (cart_key u) = None" by (simp add: redis_get_def map_of_delete)
  from view have load: "load_durable (cw_db w) u = Inr durable" by (auto simp: resolve_view_def split: sum.splits)
  then have view': "resolve_view now u ?w = Inr (resolve_cart None durable now, durable)"
    using miss by (simp add: resolve_view_def)
  show thesis
  proof (cases "redis_get now (cw_cache w) (cart_key u)")
    case None
    with view view' load show thesis by (intro that [OF view view']) (simp add: resolve_view_def)
  next
    case (Some v)
    then obtain e where e: "map_of (cw_cache w) (cart_key u) = Some (v, e)" "now < e"
      by (auto simp: redis_get_def split: option.splits prod.splits if_splits)
    with assms have "backed now (cw_db w) u (v, e)" by (simp add: coherent_def)
    with e obtain r where r: "active_rows (cw_db w) u = [r]" "map_of (ct_items r) = map_of v" "e \<le> ct_expires_at r"
      by (auto simp: backed_def)
    have "ct_status r = ''active''" using r(1) by (auto simp: active_rows_def dest!: filter_eq_ConsD)
    with r e Some view load show thesis
      by (intro that [OF view view']) (auto simp: resolve_view_def load_durable_def resolve_cart_def)
  qed
qed

section \<open>Properties\<close>

definition empty_cart_world :: cart_world where
  "empty_cart_world = \<lparr>cw_db = \<lparr>cd_carts = [], cd_keys = [], cd_outbox = []\<rparr>, cw_cache = [], cw_locks = []\<rparr>"

definition demo_cart :: cart_world where
  "demo_cart = snd (add_item_endpoint True True 0 ''c1'' ''u1'' ''p1'' 2 ''k1'' empty_cart_world)"

lemmas demo_cart_defs = demo_cart_def empty_cart_world_def add_item_endpoint_def add_to_cart_def resolve_view_def load_durable_def
  active_rows_def resolve_cart_def redis_get_def redis_set_def redis_delete_def find_active_def add_commit_def cache_cart_def save_cart_def
  merge_item_def jsonb_def CART_TTL_def Let_def

lemma no_carts_reachable: "reachable no_carts (cart_step lone) empty_cart_world"
  by (rule reach_init) (simp add: no_carts_def empty_cart_world_def)

lemma demo_cart_reachable: "reachable no_carts (cart_step lone) demo_cart"
  unfolding demo_cart_def by (rule add_item_history [OF no_carts_reachable])

lemma demo_cart_healthy: "reachable no_carts_yet healthy_step (0, demo_cart)"
proof -
  have "reachable no_carts_yet healthy_step (0, empty_cart_world)"
    by (rule reach_init) (simp add: no_carts_yet_def no_carts_def empty_cart_world_def)
  then show ?thesis unfolding demo_cart_def
    by (rule reach_step) (rule healthy_step.add, simp_all add: empty_cart_world_def)
qed

text \<open>
  Property C12 (every cart leaves the shelf once). Whatever requests overlap and fail, whatever Redis
  and the checkout lock lose, a cart leaves the active state at most once: a user has at least as many
  carts as active rows, started checkouts and lapsed carts together, so every checkout has taken a
  cart that no other checkout and no expiry took, and every expired cart has exactly one event. If no
  two first additions of a user overlap, there is moreover at most one active cart, every cart that is
  not active has left with exactly one event, and no more checkouts have been reclaimed as abandoned
  than were started.
\<close>

theorem carts_accounted:
  assumes "reachable no_carts (cart_step lone) w"
  shows "length (active_rows (cw_db w) u) + count_events (initiated u) (cw_db w) + count_events (expired ''ttl_expired'' u) (cw_db w)
       \<le> length (filter (\<lambda>r. ct_user_id r = u) (cd_carts (cw_db w))) \<and>
     length (filter (\<lambda>r. ct_user_id r = u \<and> ct_status r = ''expired'') (cd_carts (cw_db w))) =
       count_events (expired ''ttl_expired'' u) (cw_db w) + count_events (expired ''checkout_abandoned'' u) (cw_db w) \<and>
     (lone \<longrightarrow> length (active_rows (cw_db w) u) \<le> 1 \<and>
       length (filter (\<lambda>r. ct_user_id r = u) (cd_carts (cw_db w))) =
         length (active_rows (cw_db w) u) + count_events (initiated u) (cw_db w) + count_events (expired ''ttl_expired'' u) (cw_db w) \<and>
       count_events (expired ''checkout_abandoned'' u) (cw_db w) \<le> count_events (initiated u) (cw_db w))"
proof -
  let ?n = "\<lambda>st. count_rows st u (cd_carts (cw_db w))" and ?e = "\<lambda>P. count_events P (cw_db w)"
  have "cart_inv lone (cw_db w)" by (rule carts.reachable_inv [OF assms])
  then have i: "\<forall>r \<in> set (cd_carts (cw_db w)). ct_status r \<in> {''active'', ''checkout_in_progress'', ''expired''}"
    "?e (initiated u) \<le> ?e (expired ''checkout_abandoned'' u) + ?n ''checkout_in_progress''"
    "?n ''expired'' = ?e (expired ''ttl_expired'' u) + ?e (expired ''checkout_abandoned'' u)"
    "lone \<longrightarrow> ?n ''active'' \<le> 1 \<and> ?e (initiated u) = ?e (expired ''checkout_abandoned'' u) + ?n ''checkout_in_progress''"
    by (simp_all add: cart_inv_def)
  have "length (filter (\<lambda>r. ct_user_id r = u \<and> ct_status r = ''expired'') (cd_carts (cw_db w))) = ?n ''expired''"
    by (simp add: count_rows_def)
  with rows_by_status [OF i(1), of u] i(2-4) show ?thesis by (auto simp: active_rows_count)
qed

definition demo_checkout :: cart_world where
  "demo_checkout = snd (checkout_endpoint True True (\<lambda>_. ''now'') 10 11 ''t1'' ''u1'' ''k2'' demo_cart)"

theorem carts_accounted_witness:
  "active_rows (cw_db demo_checkout) ''u1'' = [] \<and> count_events (initiated ''u1'') (cw_db demo_checkout) = 1 \<and>
   count_events (expired ''checkout_abandoned'' ''u1'') (cw_db demo_checkout) = 0"
proof -
  have "active_rows (cw_db demo_checkout) ''u1'' = []" "length (filter (\<lambda>r. ct_user_id r = ''u1'') (cd_carts (cw_db demo_checkout))) = 1"
    "count_events (expired ''ttl_expired'' ''u1'') (cw_db demo_checkout) = 0"
    "length (filter (\<lambda>r. ct_user_id r = ''u1'' \<and> ct_status r = ''expired'') (cd_carts (cw_db demo_checkout))) = 0"
    by (simp_all add: demo_checkout_def demo_cart_defs checkout_endpoint_def checkout_cart_def acquire_def checkout_locked_def
        checkout_claim_def cart_empty_def claim_cart_def count_events_def)
  moreover have "reachable no_carts (cart_step True) demo_checkout"
    unfolding demo_checkout_def by (rule checkout_history [OF demo_cart_reachable])
  ultimately show ?thesis using carts_accounted [of True demo_checkout "''u1''"] by simp
qed

text \<open>
  Two first additions that overlap. Both have found no active row when they commit, so both insert
  one. From then on reading the cart, adding to it and checking it out fail, until the rows expire.
\<close>

lemma overlapping_first_adds:
  assumes "w1 = snd (add_commit True 0 ''c1'' ''u1'' [(''p1'', 1)] None ''k1'' empty_cart_world)"
    and "w2 = snd (add_commit True 0 ''c2'' ''u1'' [(''p2'', 1)] None ''k2'' w1)"
  shows "find_active (cw_db empty_cart_world) ''u1'' = Inr None" and "reachable no_carts (cart_step False) w2"
    and "length (active_rows (cw_db w2) ''u1'') = 2" and "fst (get_cart redis_ok now ''u1'' w2) = Inl (Uncaught ''MultipleResultsFound'')"
    and "fst (checkout_locked io redis_ok stamp now ''u1'' key w2) = Inl (Uncaught ''MultipleResultsFound'')"
proof -
  show "find_active (cw_db empty_cart_world) ''u1'' = Inr None" by (simp add: empty_cart_world_def find_active_def active_rows_def)
  have "reachable no_carts (cart_step False) w1"
    unfolding assms(1) by (rule reach_step [OF no_carts_reachable]) (rule cart_step.add, simp)
  then show "reachable no_carts (cart_step False) w2" unfolding assms(2) by (rule reach_step) (rule cart_step.add, simp)
  have "active_rows (cw_db w2) ''u1'' = [\<lparr>ct_id = ''c1'', ct_user_id = ''u1'', ct_items = [(''p1'', 1)], ct_status = ''active'',
        ct_expires_at = 3600, ct_updated_at = 0\<rparr>, \<lparr>ct_id = ''c2'', ct_user_id = ''u1'', ct_items = [(''p2'', 1)], ct_status = ''active'',
        ct_expires_at = 3600, ct_updated_at = 0\<rparr>]"
    by (simp add: assms empty_cart_world_def add_commit_def save_cart_def active_rows_def jsonb_def CART_TTL_def)
  then show "length (active_rows (cw_db w2) ''u1'') = 2" "fst (get_cart redis_ok now ''u1'' w2) = Inl (Uncaught ''MultipleResultsFound'')"
    "fst (checkout_locked io redis_ok stamp now ''u1'' key w2) = Inl (Uncaught ''MultipleResultsFound'')"
    by (simp_all add: get_cart_def checkout_locked_def resolve_view_def load_durable_def)
qed

text \<open>
  Property C30 (an evicted cart is still there). After any history in which requests are handled one
  after the other and commits and Redis writes succeed, with keys evicted at will, deleting a user's
  cache key changes neither what \<open>get_cart\<close> answers nor what a further \<open>add_to_cart\<close> answers, up to
  the order of the items.
\<close>

theorem eviction_harmless:
  assumes "reachable no_carts_yet healthy_step (t, w)" and "t \<le> now"
    and "w' = w\<lparr>cw_cache := redis_delete (cw_cache w) (cart_key u)\<rparr>"
    and "key \<notin> set (cd_keys (cw_db w))" and "length key \<le> 255" and "fresh \<notin> ct_id ` set (cd_carts (cw_db w))"
  shows "(\<exists>c c'. fst (get_cart True now u w) = Inr c \<and> fst (get_cart True now u w') = Inr c' \<and>
       map_of (cr_items c') = map_of (cr_items c)) \<and>
     (\<exists>c c'. fst (add_to_cart True True now fresh u p q key w) = Inr c \<and> fst (add_to_cart True True now fresh u p q key w') = Inr c' \<and>
       map_of (cr_items c') = map_of (cr_items c))"
proof -
  have c: "coherent (now, w)" using coherent_later [OF healthy.reachable_inv [OF assms(1)] assms(2)] .
  then have inv: "cart_inv True (cw_db w)" "cart_inv True (cw_db w')" by (simp_all add: coherent_def assms(3))
  from c obtain view view' durable where v: "resolve_view now u w = Inr (view, durable)" "resolve_view now u w' = Inr (view', durable)"
    "map_of (cv_items view') = map_of (cv_items view)" unfolding assms(3) by (rule resolve_evicted)
  have "\<exists>c c'. fst (get_cart True now u w) = Inr c \<and> fst (get_cart True now u w') = Inr c' \<and> map_of (cr_items c') = map_of (cr_items c)"
    using v by (simp add: get_cart_def)
  moreover have "\<exists>c c'. fst (add_to_cart True True now fresh u p q key w) = Inr c \<and>
      fst (add_to_cart True True now fresh u p q key w') = Inr c' \<and> map_of (cr_items c') = map_of (cr_items c)"
    using add_to_cart_alone [OF inv(1) v(1) assms(6,4,5) refl, of p q] add_to_cart_alone [OF inv(2) v(2) _ _ assms(5) refl, of fresh p q] v(3)
      assms(3,4,6) by (simp add: map_of_merge_item)
  ultimately show ?thesis by (rule conjI)
qed

theorem eviction_harmless_witness:
  "let w' = demo_cart\<lparr>cw_cache := redis_delete (cw_cache demo_cart) (cart_key ''u1'')\<rparr> in
   cw_cache demo_cart \<noteq> [] \<and> cw_cache w' = [] \<and> (\<exists>c. fst (get_cart True 60 ''u1'' w') = Inr c \<and> map_of (cr_items c) ''p1'' = Some 2)"
proof -
  define w' where "w' = demo_cart\<lparr>cw_cache := redis_delete (cw_cache demo_cart) (cart_key ''u1'')\<rparr>"
  have "fst (get_cart True 60 ''u1'' demo_cart) = Inr \<lparr>cr_user_id = ''u1'', cr_items = [(''p1'', 2)]\<rparr>"
    "cw_cache demo_cart \<noteq> []" "cw_cache w' = []" "''k2'' \<notin> set (cd_keys (cw_db demo_cart))" "length ''k2'' \<le> 255"
    "''c2'' \<notin> ct_id ` set (cd_carts (cw_db demo_cart))"
    by (simp_all add: w'_def demo_cart_defs get_cart_def rehydrated_def)
  with conjunct1 [OF eviction_harmless [OF demo_cart_healthy _ w'_def, of 60 "''k2''" "''c2''"]] show ?thesis
    by (auto simp: w'_def [symmetric])
qed

text \<open>
  Two additions that overlap. The one that writes to Redis last commits first, so Redis holds its cart
  and the table the other's: the answer of \<open>get_cart\<close> then depends on whether the key is evicted.
\<close>

lemma overlapping_adds_split_stores:
  assumes "find_active (cw_db demo_cart) ''u1'' = Inr found"
    and "w1 = cache_cart 2 ''u1'' (merge_item [(''p1'', 2)] ''p3'' 1) (cache_cart 1 ''u1'' (merge_item [(''p1'', 2)] ''p2'' 1) demo_cart)"
    and "w2 = snd (add_commit True 2 ''c2'' ''u1'' (merge_item [(''p1'', 2)] ''p3'' 1) found ''k3'' w1)"
    and "w3 = snd (add_commit True 1 ''c3'' ''u1'' (merge_item [(''p1'', 2)] ''p2'' 1) found ''k2'' w2)"
  shows "fst (get_cart True 3 ''u1'' demo_cart) = Inr \<lparr>cr_user_id = ''u1'', cr_items = [(''p1'', 2)]\<rparr>"
    and "fst (get_cart True 3 ''u1'' w3) = Inr \<lparr>cr_user_id = ''u1'', cr_items = [(''p1'', 2), (''p3'', 1)]\<rparr>"
    and "fst (get_cart True 3 ''u1'' (w3\<lparr>cw_cache := redis_delete (cw_cache w3) (cart_key ''u1'')\<rparr>)) =
      Inr \<lparr>cr_user_id = ''u1'', cr_items = [(''p1'', 2), (''p2'', 1)]\<rparr>"
proof -
  from assms(1) have found: "found = Some \<lparr>ct_id = ''c1'', ct_user_id = ''u1'', ct_items = [(''p1'', 2)], ct_status = ''active'',
      ct_expires_at = 3600, ct_updated_at = 0\<rparr>" by (simp add: demo_cart_defs)
  show "fst (get_cart True 3 ''u1'' demo_cart) = Inr \<lparr>cr_user_id = ''u1'', cr_items = [(''p1'', 2)]\<rparr>"
    "fst (get_cart True 3 ''u1'' w3) = Inr \<lparr>cr_user_id = ''u1'', cr_items = [(''p1'', 2), (''p3'', 1)]\<rparr>"
    "fst (get_cart True 3 ''u1'' (w3\<lparr>cw_cache := redis_delete (cw_cache w3) (cart_key ''u1'')\<rparr>)) =
      Inr \<lparr>cr_user_id = ''u1'', cr_items = [(''p1'', 2), (''p2'', 1)]\<rparr>"
    by (simp_all add: assms(2-4) found demo_cart_defs get_cart_def rehydrated_def)
qed

text \<open>
  A retried addition counts twice. Redis is written before the commit and not taken
  back when the commit fails. A client that retries the failed request with its idempotency key
  finds the key unused and the cache already changed: the quantity is added a second time.
\<close>

theorem failed_add_retry_doubles:
  assumes "resolve_view now u w = Inr (view, durable)" and "key \<notin> set (cd_keys (cw_db w))" and "key \<noteq> []"
    and "length key \<le> 255" and "0 < q" and "now \<le> later" and "later < now + 3600" and "fresh2 \<notin> ct_id ` set (cd_carts (cw_db w))"
    and "add_item_endpoint False True now fresh u p q key w = (r1, w1)"
    and "add_item_endpoint True True later fresh2 u p q key w1 = (r2, w2)"
  shows "r1 = Inl (HTTPException 500) \<and> (\<exists>c. r2 = Inr c \<and>
     map_of (cr_items c) p = Some ((case map_of (cv_items view) p of None \<Rightarrow> 0 | Some n \<Rightarrow> n) + 2 * q))"
proof -
  let ?items = "merge_item (cv_items view) p q"
  from assms(1) obtain found where found: "find_active (cw_db w) u = Inr found"
    by (auto simp: resolve_view_def load_durable_def find_active_def split: list.splits)
  have 1: "r1 = Inl (HTTPException 500)" "w1 = w\<lparr>cw_cache := redis_set now (cw_cache w) (cart_key u) ?items CART_TTL\<rparr>"
    using assms(1-5,9) found by (auto simp: add_item_endpoint_def add_to_cart_def add_commit_def cache_cart_def Let_def)
  have "redis_get later (cw_cache w1) (cart_key u) = Some ?items"
    using assms(7) by (simp add: 1(2) redis_get_def map_of_set CART_TTL_def)
  with assms(1) have "resolve_view later u w1 = Inr (\<lparr>cv_items = ?items, cv_source = CACHE\<rparr>, durable)"
    by (auto simp: resolve_view_def 1(2) resolve_cart_def split: sum.splits)
  with assms(2-5,8,10) 1 found show ?thesis
    by (auto simp: add_item_endpoint_def add_to_cart_def add_commit_def cache_cart_def Let_def map_of_merge_item)
qed

theorem failed_add_retry_doubles_witness:
  "let (r1, w1) = add_item_endpoint False True 10 ''c2'' ''u1'' ''p1'' 3 ''k2'' demo_cart;
       (r2, w2) = add_item_endpoint True True 12 ''c2'' ''u1'' ''p1'' 3 ''k2'' w1 in
   \<exists>c. r2 = Inr c \<and> map_of (cr_items c) ''p1'' = Some 8"
proof -
  obtain r1 w1 where a: "add_item_endpoint False True 10 ''c2'' ''u1'' ''p1'' 3 ''k2'' demo_cart = (r1, w1)" by (rule prod.exhaust)
  obtain r2 w2 where b: "add_item_endpoint True True 12 ''c2'' ''u1'' ''p1'' 3 ''k2'' w1 = (r2, w2)" by (rule prod.exhaust)
  obtain view durable where "resolve_view 10 ''u1'' demo_cart = Inr (view, durable)" "map_of (cv_items view) ''p1'' = Some 2"
    "''k2'' \<notin> set (cd_keys (cw_db demo_cart))" "''c2'' \<notin> ct_id ` set (cd_carts (cw_db demo_cart))" by (simp add: demo_cart_defs)
  with failed_add_retry_doubles [OF _ _ _ _ _ _ _ _ a b] show ?thesis by (simp add: a b)
qed

lemma retried_checkout_not_found:
  assumes "checkout_locked True True stamp now u key w = (Inr ''Checkout initiated'', w')"
  shows "fst (checkout_locked io redis_ok stamp later u key w') = Inl (HTTPException 404)"
proof (cases rule: checkout_locked_cases [of True True stamp now u key w])
  case kept
  with assms show ?thesis by simp
next
  case (claimed view durable p)
  then have w': "w' = w\<lparr>cw_db := claim_cart now u (cw_db w)\<lparr>cd_keys := cd_keys (cw_db w) @ [key],
      cd_outbox := cd_outbox (cw_db w) @ [outbox ''Cart'' u ''CartCheckoutInitiated'' p]\<rparr>,
      cw_cache := redis_delete (cw_cache w) (cart_key u)\<rparr>" using assms by simp
  have "resolve_view later u w' = Inr (\<lparr>cv_items = [], cv_source = EMPTY\<rparr>, None)"
    by (simp add: w' resolve_view_def load_durable_def active_rows_claim redis_get_def map_of_delete resolve_cart_def)
  then show ?thesis by (simp add: checkout_locked_def checkout_claim_def cart_empty_def)
qed

section \<open>Mutual exclusion\<close>

datatype lock_op = Acquire rat string | Release rat string

fun lock_time :: "lock_op \<Rightarrow> rat" where
  "lock_time (Acquire t _) = t"
| "lock_time (Release t _) = t"

fun lock_token :: "lock_op \<Rightarrow> string" where
  "lock_token (Acquire _ k) = k"
| "lock_token (Release _ k) = k"

fun lock_apply :: "string \<Rightarrow> lock_op \<Rightarrow> string redis \<Rightarrow> string redis" where
  "lock_apply key (Acquire t token) r = snd (acquire t r key token DEFAULT_TTL_SECONDS)"
| "lock_apply key (Release t token) r = snd (release_lock t r key token)"

lemma lock_kept:
  assumes "map_of r key = Some (token, e)" and "\<forall>op \<in> set ops. lock_time op < e \<and> lock_token op \<noteq> token"
  shows "map_of (fold (lock_apply key) ops r) key = Some (token, e)"
  using assms
proof (induction ops arbitrary: r)
  case (Cons op ops)
  have "map_of (lock_apply key op r) key = Some (token, e)"
    using Cons.prems by (cases op) (auto simp: acquire_def release_lock_def redis_get_def)
  with Cons show ?case by simp
qed simp

text \<open>
  The checkout lock excludes. A request that takes the lock keeps it for its ten
  seconds whatever other requests do in between, including requests that release a lock they no
  longer own; every other request is refused during that time. Once the owner has released the
  lock, the next request gets it.
\<close>

theorem lock_exclusive:
  assumes "acquire t r key token DEFAULT_TTL_SECONDS = (True, r0)"
    and "\<forall>op \<in> set ops. lock_time op < t + 10 \<and> lock_token op \<noteq> token" and "now < t + 10"
    and "r1 = fold (lock_apply key) ops r0"
  shows "current_owner now r1 key = Some token \<and> acquire now r1 key other ttl = (False, r1) \<and>
     fst (release_lock now r1 key token) = 1 \<and> fst (acquire now (snd (release_lock now r1 key token)) key other ttl)"
proof -
  have "map_of r0 key = Some (token, t + 10)"
    using assms(1) by (auto simp: acquire_def map_of_set DEFAULT_TTL_SECONDS_def split: option.splits)
  from lock_kept [OF this assms(2)] assms(3) have "redis_get now r1 key = Some token"
    by (simp add: assms(4) redis_get_def)
  then show ?thesis
    by (simp add: current_owner_def acquire_def release_lock_def redis_get_def map_of_delete)
qed

theorem lock_exclusive_witness:
  "let r0 = snd (acquire 0 [] (lock_key_for ''u1'') ''a'' DEFAULT_TTL_SECONDS);
       r1 = fold (lock_apply (lock_key_for ''u1'')) [Acquire 3 ''b'', Release 5 ''b'', Acquire 6 ''c''] r0 in
   current_owner 9 r1 (lock_key_for ''u1'') = Some ''a''"
proof -
  obtain r0 where r0: "acquire 0 [] (lock_key_for ''u1'') ''a'' DEFAULT_TTL_SECONDS = (True, r0)"
    by (simp add: acquire_def redis_get_def)
  from lock_exclusive [OF r0, of "[Acquire 3 ''b'', Release 5 ''b'', Acquire 6 ''c'']" 9] show ?thesis
    by (simp add: r0 Let_def)
qed

end
