(* ===== verification/Resilience.thy ===== *)
theory Resilience
  imports Prelude
begin

text \<open>
  The circuit breaker with its bulkhead that stands in front of every synchronous call between
  services (\<open>shared/libs/python-common/resilience.py\<close>). A call is split where the code awaits
  the downstream service: \<open>begin_call\<close> up to the await, \<open>end_ok\<close> or \<open>end_fail\<close> after it. Calls
  of concurrent tasks are sequences of these steps, because every block between two awaits runs
  under the breaker's lock or without suspension. Times are \<open>time.monotonic()\<close> in seconds.
\<close>

section \<open>State\<close>

datatype breaker_state = CLOSED | OPEN | HALF_OPEN

datatype breaker_error = CircuitOpenError string rat | BulkheadFullError string nat

definition FAILURE_THRESHOLD :: nat where
  "FAILURE_THRESHOLD = 5"

definition RESET_TIMEOUT_SECONDS :: rat where
  "RESET_TIMEOUT_SECONDS = 30"

definition DEFAULT_BULKHEAD :: nat where
  "DEFAULT_BULKHEAD = 10"

record AsyncCircuitBreaker =
  br_name :: string
  br_failure_threshold :: nat
  br_reset_timeout :: rat
  br_bulkhead_limit :: nat
  br_state :: breaker_state
  br_consecutive_failures :: nat
  br_opened_at :: rat
  br_probe_in_flight :: bool
  br_in_flight :: nat
  br_total_calls :: nat
  br_total_failures :: nat
  br_total_short_circuited :: nat

definition new_breaker :: "string \<Rightarrow> nat \<Rightarrow> rat \<Rightarrow> nat \<Rightarrow> AsyncCircuitBreaker" where
  "new_breaker name threshold reset bulkhead =
     \<lparr>br_name = name, br_failure_threshold = threshold, br_reset_timeout = reset, br_bulkhead_limit = bulkhead,
      br_state = CLOSED, br_consecutive_failures = 0, br_opened_at = 0, br_probe_in_flight = False, br_in_flight = 0,
      br_total_calls = 0, br_total_failures = 0, br_total_short_circuited = 0\<rparr>"

section \<open>Steps\<close>

text \<open>The status code of the response an exception carries, if it carries one.\<close>

definition is_downstream_failure :: "int option \<Rightarrow> bool" where
  "is_downstream_failure status = (case status of Some s \<Rightarrow> 500 \<le> s | None \<Rightarrow> True)"

definition short_circuit :: "AsyncCircuitBreaker \<Rightarrow> AsyncCircuitBreaker" where
  "short_circuit b = b\<lparr>br_total_short_circuited := Suc (br_total_short_circuited b)\<rparr>"

definition before_call :: "rat \<Rightarrow> AsyncCircuitBreaker \<Rightarrow> breaker_error option \<times> AsyncCircuitBreaker" where
  "before_call now b =
     (case br_state b of
        OPEN \<Rightarrow>
          (let elapsed = now - br_opened_at b in
           if elapsed < br_reset_timeout b
           then (Some (CircuitOpenError (br_name b) (br_reset_timeout b - elapsed)), short_circuit b)
           else (None, b\<lparr>br_state := HALF_OPEN, br_probe_in_flight := True\<rparr>))
      | HALF_OPEN \<Rightarrow>
          if br_probe_in_flight b then (Some (CircuitOpenError (br_name b) 0), short_circuit b)
          else (None, b\<lparr>br_probe_in_flight := True\<rparr>)
      | CLOSED \<Rightarrow> (None, b))"

definition on_success :: "AsyncCircuitBreaker \<Rightarrow> AsyncCircuitBreaker" where
  "on_success b = b\<lparr>br_consecutive_failures := 0, br_probe_in_flight := False, br_state := CLOSED\<rparr>"

definition on_failure :: "rat \<Rightarrow> int option \<Rightarrow> AsyncCircuitBreaker \<Rightarrow> AsyncCircuitBreaker" where
  "on_failure now status b =
     (if \<not> is_downstream_failure status then b\<lparr>br_probe_in_flight := False\<rparr>
      else
        (let b1 = b\<lparr>br_total_failures := Suc (br_total_failures b)\<rparr> in
         if br_state b1 = HALF_OPEN then b1\<lparr>br_probe_in_flight := False, br_state := OPEN, br_opened_at := now\<rparr>
         else
           (let n = Suc (br_consecutive_failures b1) in
            if br_failure_threshold b1 \<le> n
            then b1\<lparr>br_state := OPEN, br_opened_at := now, br_consecutive_failures := 0\<rparr>
            else b1\<lparr>br_consecutive_failures := n\<rparr>)))"

text \<open>
  The semaphore is held exactly while a call is counted in flight, so it is locked when the
  bulkhead's limit is in flight.
\<close>

definition begin_call :: "rat \<Rightarrow> AsyncCircuitBreaker \<Rightarrow> (breaker_error + unit) \<times> AsyncCircuitBreaker" where
  "begin_call now b =
     (case before_call now b of
        (Some e, b1) \<Rightarrow> (Inl e, b1)
      | (None, b1) \<Rightarrow>
          if br_bulkhead_limit b1 \<le> br_in_flight b1
          then (Inl (BulkheadFullError (br_name b1) (br_bulkhead_limit b1)), b1)
          else (Inr (), b1\<lparr>br_in_flight := Suc (br_in_flight b1), br_total_calls := Suc (br_total_calls b1)\<rparr>))"

definition leave :: "AsyncCircuitBreaker \<Rightarrow> AsyncCircuitBreaker" where
  "leave b = b\<lparr>br_in_flight := br_in_flight b - 1\<rparr>"

definition end_ok :: "AsyncCircuitBreaker \<Rightarrow> AsyncCircuitBreaker" where
  "end_ok b = leave (on_success b)"

definition end_fail :: "rat \<Rightarrow> int option \<Rightarrow> AsyncCircuitBreaker \<Rightarrow> AsyncCircuitBreaker" where
  "end_fail now status b = leave (on_failure now status b)"

lemmas breaker_defs = before_call_def on_success_def on_failure_def begin_call_def leave_def end_ok_def end_fail_def
  short_circuit_def Let_def

inductive breaker_step :: "AsyncCircuitBreaker \<Rightarrow> AsyncCircuitBreaker \<Rightarrow> bool" where
  starts: "breaker_step b (snd (begin_call now b))"
| succeeds: "0 < br_in_flight b \<Longrightarrow> breaker_step b (end_ok b)"
| fails: "0 < br_in_flight b \<Longrightarrow> breaker_step b (end_fail now status b)"

definition fresh_breaker :: "AsyncCircuitBreaker \<Rightarrow> bool" where
  "fresh_breaker b \<longleftrightarrow> (\<exists>name threshold reset bulkhead.
     0 < threshold \<and> 0 < bulkhead \<and> b = new_breaker name threshold reset bulkhead)"

section \<open>Invariant\<close>

text \<open>
  The probe flag is set only in the half-open state and only while some call is under way; that
  call clears it when it ends, whichever way it ends.
\<close>

definition breaker_inv :: "AsyncCircuitBreaker \<Rightarrow> bool" where
  "breaker_inv b \<longleftrightarrow>
     0 < br_bulkhead_limit b \<and> br_in_flight b \<le> br_bulkhead_limit b \<and>
     br_consecutive_failures b < br_failure_threshold b \<and>
     (br_probe_in_flight b \<longrightarrow> br_state b = HALF_OPEN \<and> 0 < br_in_flight b)"

lemma begin_call_inv: "breaker_inv b \<Longrightarrow> breaker_inv (snd (begin_call now b))"
  by (cases "br_state b") (auto simp: breaker_inv_def breaker_defs)

lemma end_ok_inv: "breaker_inv b \<Longrightarrow> breaker_inv (end_ok b)"
  by (auto simp: breaker_inv_def breaker_defs)

lemma end_fail_inv: "breaker_inv b \<Longrightarrow> breaker_inv (end_fail now status b)"
  by (cases "br_state b") (auto simp: breaker_inv_def breaker_defs)

interpretation breaker: inductive_invariant fresh_breaker breaker_step breaker_inv
proof unfold_locales
  show "fresh_breaker b \<Longrightarrow> breaker_inv b" for b
    by (auto simp: fresh_breaker_def new_breaker_def breaker_inv_def)
  show "breaker_inv b \<Longrightarrow> breaker_step b b' \<Longrightarrow> breaker_inv b'" for b b'
    by (auto elim!: breaker_step.cases intro: begin_call_inv end_ok_inv end_fail_inv)
qed

lemma begin_call_admits:
  assumes "breaker_inv b" and "br_in_flight b = 0" and "br_state b = OPEN \<longrightarrow> br_opened_at b + br_reset_timeout b \<le> now"
  shows "fst (begin_call now b) = Inr ()"
  using assms by (cases "br_state b") (auto simp: breaker_inv_def breaker_defs)

section \<open>Opening and failing fast\<close>

text \<open>A call that is started and fails, with nothing else under way.\<close>

definition failing_call :: "rat \<Rightarrow> int option \<Rightarrow> AsyncCircuitBreaker \<Rightarrow> AsyncCircuitBreaker" where
  "failing_call now status b = end_fail now status (snd (begin_call now b))"

lemma open_refuses:
  assumes "br_state b = OPEN" and "now - br_opened_at b < br_reset_timeout b"
  shows "begin_call now b = (Inl (CircuitOpenError (br_name b) (br_reset_timeout b - (now - br_opened_at b))), short_circuit b)"
  using assms by (simp add: begin_call_def before_call_def Let_def)

lemma failing_call_counts:
  assumes "br_state b = CLOSED" and "br_in_flight b < br_bulkhead_limit b" and "is_downstream_failure status"
    and "Suc (br_consecutive_failures b) < br_failure_threshold b"
  shows "br_state (failing_call now status b) = CLOSED \<and> br_in_flight (failing_call now status b) = br_in_flight b \<and>
     br_bulkhead_limit (failing_call now status b) = br_bulkhead_limit b \<and>
     br_failure_threshold (failing_call now status b) = br_failure_threshold b \<and>
     br_consecutive_failures (failing_call now status b) = Suc (br_consecutive_failures b)"
  using assms by (simp add: failing_call_def breaker_defs)

lemma failing_call_opens:
  assumes "br_state b = CLOSED" and "br_in_flight b < br_bulkhead_limit b" and "is_downstream_failure status"
    and "br_failure_threshold b = Suc (br_consecutive_failures b)"
  shows "br_state (failing_call now status b) = OPEN \<and> br_opened_at (failing_call now status b) = now"
  using assms by (simp add: failing_call_def breaker_defs)

lemma failing_calls_open:
  assumes "br_state b = CLOSED" and "br_in_flight b < br_bulkhead_limit b"
    and "\<forall>(t, status) \<in> set calls. is_downstream_failure status"
    and "br_failure_threshold b = br_consecutive_failures b + length calls" and "calls \<noteq> []"
  shows "br_state (fold (\<lambda>(t, status). failing_call t status) calls b) = OPEN \<and>
     br_opened_at (fold (\<lambda>(t, status). failing_call t status) calls b) = fst (last calls)"
  using assms
proof (induction calls arbitrary: b)
  case (Cons c calls)
  obtain t status where c: "c = (t, status)" by (cases c)
  show ?case
  proof (cases "calls = []")
    case True
    then show ?thesis using failing_call_opens [of b status t] Cons.prems by (simp add: c)
  next
    case False
    then have "0 < length calls" by simp
    with Cons.prems have "Suc (br_consecutive_failures b) < br_failure_threshold b" by (simp add: c)
    with Cons.prems failing_call_counts [of b status t]
    have "br_state (failing_call t status b) = CLOSED" "br_in_flight (failing_call t status b) < br_bulkhead_limit (failing_call t status b)"
      "br_failure_threshold (failing_call t status b) = br_consecutive_failures (failing_call t status b) + length calls"
      by (auto simp: c)
    from Cons.IH [OF this(1,2) _ this(3) False] Cons.prems(3) False show ?thesis by (simp add: c)
  qed
qed simp

text \<open>A breaker with the library's defaults after five failures.\<close>

definition demo_open :: AsyncCircuitBreaker where
  "demo_open = fold (\<lambda>(t, status). failing_call t status) [(1, None), (2, Some 500), (3, Some 503), (4, None), (5, Some 502)]
     (new_breaker ''order-saga'' FAILURE_THRESHOLD RESET_TIMEOUT_SECONDS DEFAULT_BULKHEAD)"

lemmas demo_open_defs = demo_open_def failing_call_def new_breaker_def FAILURE_THRESHOLD_def RESET_TIMEOUT_SECONDS_def
  DEFAULT_BULKHEAD_def is_downstream_failure_def breaker_defs

lemma failing_calls_kept:
  "br_name (fold (\<lambda>(t, status). failing_call t status) calls b) = br_name b"
  "br_reset_timeout (fold (\<lambda>(t, status). failing_call t status) calls b) = br_reset_timeout b"
proof -
  have 1: "br_name (failing_call t status b) = br_name b \<and> br_reset_timeout (failing_call t status b) = br_reset_timeout b" for t status b
    by (cases "br_state b") (simp_all add: failing_call_def breaker_defs)
  show "br_name (fold (\<lambda>(t, status). failing_call t status) calls b) = br_name b"
    "br_reset_timeout (fold (\<lambda>(t, status). failing_call t status) calls b) = br_reset_timeout b"
    by (induction calls arbitrary: b) (auto simp: 1 split: prod.splits)
qed

lemma failing_call_reachable:
  assumes "reachable fresh_breaker breaker_step b" and "0 < br_in_flight (snd (begin_call now b))"
  shows "reachable fresh_breaker breaker_step (failing_call now status b)"
proof -
  have "reachable fresh_breaker breaker_step (snd (begin_call now b))"
    using assms(1) by (rule reach_step) (rule breaker_step.starts)
  then show ?thesis unfolding failing_call_def by (rule reach_step) (rule breaker_step.fails [OF assms(2)])
qed

lemma fresh_new_breaker: "0 < threshold \<Longrightarrow> 0 < bulkhead \<Longrightarrow> fresh_breaker (new_breaker name threshold reset bulkhead)"
  unfolding fresh_breaker_def by blast

lemma demo_open_reachable: "reachable fresh_breaker breaker_step demo_open"
proof -
  have "reachable fresh_breaker breaker_step (new_breaker ''order-saga'' FAILURE_THRESHOLD RESET_TIMEOUT_SECONDS DEFAULT_BULKHEAD)"
    by (rule reach_init, rule fresh_new_breaker) (simp_all add: FAILURE_THRESHOLD_def DEFAULT_BULKHEAD_def)
  then show ?thesis unfolding demo_open_def fold_simps split_conv
    by (intro failing_call_reachable) (simp_all add: demo_open_defs)
qed

section \<open>Properties\<close>

text \<open>
  The breaker opens and fails fast. Five calls in a row that fail with a server
  error or without an answer open the circuit of a new breaker, and every call of the next thirty
  seconds is refused with the remaining time, without reaching the service.
\<close>

theorem breaker_opens:
  assumes "length calls = 5" and "\<forall>(t, status) \<in> set calls. is_downstream_failure status" and "0 < bulkhead"
    and "b = fold (\<lambda>(t, status). failing_call t status) calls (new_breaker name FAILURE_THRESHOLD RESET_TIMEOUT_SECONDS bulkhead)"
    and "now - fst (last calls) < 30"
  shows "\<exists>e b'. begin_call now b = (Inl e, b') \<and> br_total_calls b' = br_total_calls b \<and>
     e = CircuitOpenError name (30 - (now - fst (last calls)))"
proof -
  let ?b = "new_breaker name FAILURE_THRESHOLD RESET_TIMEOUT_SECONDS bulkhead"
  have "calls \<noteq> []" using assms(1) by auto
  have st: "br_state ?b = CLOSED" "br_in_flight ?b < br_bulkhead_limit ?b"
    "br_failure_threshold ?b = br_consecutive_failures ?b + length calls"
    using assms(1,3) by (simp_all add: new_breaker_def FAILURE_THRESHOLD_def)
  note o = failing_calls_open [OF st(1,2) assms(2) st(3) \<open>calls \<noteq> []\<close>, folded assms(4)]
  have "br_name b = name" "br_reset_timeout b = 30"
    unfolding assms(4) by (simp_all add: failing_calls_kept) (simp_all add: new_breaker_def RESET_TIMEOUT_SECONDS_def)
  with o assms(5) open_refuses [of b now] show ?thesis by (simp add: short_circuit_def)
qed

theorem breaker_opens_witness:
  "\<exists>e b'. begin_call 20 demo_open = (Inl e, b') \<and> e = CircuitOpenError ''order-saga'' 15"
  using breaker_opens [OF _ _ _ demo_open_def, of 20]
  by (auto simp: is_downstream_failure_def DEFAULT_BULKHEAD_def)

text \<open>
  Property C36 (the breaker recovers). However calls were interleaved, once none is under way and
  the reset time has passed, the next call is let through, and its success closes the circuit:
  a probe that was refused by the full bulkhead, or whose task was cancelled, leaves no flag
  behind that would keep the circuit open.
\<close>

theorem breaker_recovers:
  assumes "reachable fresh_breaker breaker_step b" and "br_in_flight b = 0"
    and "br_opened_at b + br_reset_timeout b \<le> now"
  shows "\<exists>b'. begin_call now b = (Inr (), b') \<and> br_state (end_ok b') = CLOSED \<and> \<not> br_probe_in_flight (end_ok b')"
proof -
  have "fst (begin_call now b) = Inr ()"
    by (rule begin_call_admits) (use breaker.reachable_inv [OF assms(1)] assms(2,3) in simp_all)
  then show ?thesis by (cases "begin_call now b") (simp add: breaker_defs)
qed

theorem breaker_recovers_witness:
  "br_state demo_open = OPEN \<and> (\<exists>b'. begin_call 40 demo_open = (Inr (), b') \<and> br_state (end_ok b') = CLOSED)"
proof -
  have "br_in_flight demo_open = 0" "br_opened_at demo_open + br_reset_timeout demo_open \<le> 40" "br_state demo_open = OPEN"
    by (simp_all add: demo_open_defs)
  with breaker_recovers [OF demo_open_reachable, of 40] show ?thesis by blast
qed

text \<open>
  A straggler closes the circuit. A call that was under way when the circuit opened
  and then succeeds closes it at once, so that calls are let through again before the reset time
  has passed and without a probe.
\<close>

theorem straggler_closes_circuit:
  assumes "br_state b = OPEN" and "now - br_opened_at b < br_reset_timeout b"
    and "0 < br_in_flight b" and "br_in_flight b \<le> br_bulkhead_limit b"
  shows "fst (begin_call now b) \<noteq> Inr () \<and> breaker_step b (end_ok b) \<and> fst (begin_call now (end_ok b)) = Inr ()"
  using assms open_refuses [OF assms(1,2)] breaker_step.succeeds [OF assms(3)]
  by (auto simp: breaker_defs)

theorem straggler_closes_circuit_witness:
  "let b = fold (\<lambda>(t, status). failing_call t status) [(1, None), (2, Some 500), (3, Some 503), (4, None), (5, Some 502)]
         (snd (begin_call 0 (new_breaker ''order-saga'' FAILURE_THRESHOLD RESET_TIMEOUT_SECONDS DEFAULT_BULKHEAD))) in
   fst (begin_call 6 b) \<noteq> Inr () \<and> fst (begin_call 6 (end_ok b)) = Inr ()"
  unfolding Let_def
  by (rule conjI [OF conjunct1 conjunct2 [OF conjunct2]]; rule straggler_closes_circuit)
    (simp_all add: demo_open_defs)

end
