(* ===== verification/Courier_Rules.thy ===== *)
theory Courier_Rules
  imports Prelude
begin

text \<open>
  The courier vocabulary and the reconciliation rules of the fulfilment service
  (\<open>courier_rules.py\<close>) and the registry of configured couriers (\<open>courier_registry.py\<close>).
  A courier's own status words are mapped to one canonical vocabulary; the index is the inverse
  of the configured table, and a row of a settlement file gets exactly one classification.
\<close>

section \<open>Courier vocabulary\<close>

datatype CourierStatus =
    PICKUP_PENDING | PICKED_UP | IN_TRANSIT | OUT_FOR_DELIVERY | DELIVERED | DELIVERY_FAILED
  | RETURNING | RETURNED | CANCELLED

fun courier_value :: "CourierStatus \<Rightarrow> string" where
  "courier_value PICKUP_PENDING = ''PICKUP_PENDING''"
| "courier_value PICKED_UP = ''PICKED_UP''"
| "courier_value IN_TRANSIT = ''IN_TRANSIT''"
| "courier_value OUT_FOR_DELIVERY = ''OUT_FOR_DELIVERY''"
| "courier_value DELIVERED = ''DELIVERED''"
| "courier_value DELIVERY_FAILED = ''DELIVERY_FAILED''"
| "courier_value RETURNING = ''RETURNING''"
| "courier_value RETURNED = ''RETURNED''"
| "courier_value CANCELLED = ''CANCELLED''"

definition courier_members :: "CourierStatus list" where
  "courier_members = [PICKUP_PENDING, PICKED_UP, IN_TRANSIT, OUT_FOR_DELIVERY, DELIVERED, DELIVERY_FAILED,
     RETURNING, RETURNED, CANCELLED]"

text \<open>\<open>CourierStatus(value)\<close>; \<open>None\<close> is \<open>ValueError\<close>.\<close>

definition as_courier_status :: "string \<Rightarrow> CourierStatus option" where
  "as_courier_status v = find (\<lambda>s. courier_value s = v) courier_members"

definition STATUS_ACTIONS :: "(CourierStatus \<times> string) list" where
  "STATUS_ACTIONS =
     [(PICKED_UP, ''dispatch''), (DELIVERED, ''deliver''), (RETURNING, ''mark_rto''),
      (RETURNED, ''complete_return''), (CANCELLED, ''cancel'')]"

definition REQUIRED_CANONICAL :: "CourierStatus list" where
  "REQUIRED_CANONICAL = [PICKED_UP, DELIVERED, RETURNING, RETURNED]"

record MappingProblem =
  mp_provider :: string
  mp_detail :: string

definition normalise :: "string option \<Rightarrow> string" where
  "normalise raw =
     (case raw of
        None \<Rightarrow> []
      | Some s \<Rightarrow> replace_char (CHR '' '') (CHR ''_'') (replace_char (CHR ''-'') (CHR ''_'') (py_lower (py_strip s))))"

type_synonym courier_index = "(string \<times> CourierStatus) list"

fun index_words :: "CourierStatus \<Rightarrow> string list \<Rightarrow> courier_index \<Rightarrow> string + courier_index" where
  "index_words canonical [] index = Inr index"
| "index_words canonical (word # words) index =
     (let key = normalise (Some word) in
      if key = [] then index_words canonical words index
      else case map_of index key of
        Some other \<Rightarrow>
          if other \<noteq> canonical then
            Inl (''provider word '' @ repr_str word @ '' is mapped to both '' @ courier_value other @ '' and '' @ courier_value canonical)
          else index_words canonical words (dict_set index key canonical)
      | None \<Rightarrow> index_words canonical words (dict_set index key canonical))"

fun index_from :: "(string \<times> string list) list \<Rightarrow> courier_index \<Rightarrow> string + courier_index" where
  "index_from [] index = Inr index"
| "index_from ((canonical_name, words) # mapping) index =
     (case as_courier_status canonical_name of
        None \<Rightarrow> Inl (repr_str canonical_name @ '' is not a canonical courier status; the platform vocabulary is fixed and providers map onto it'')
      | Some canonical \<Rightarrow>
          (case index_words canonical words index of
             Inl e \<Rightarrow> Inl e
           | Inr index' \<Rightarrow> index_from mapping index'))"

definition build_index :: "(string \<times> string list) list \<Rightarrow> string + courier_index" where
  "build_index provider_mapping = index_from provider_mapping []"

definition map_status :: "courier_index \<Rightarrow> string option \<Rightarrow> CourierStatus option" where
  "map_status index raw_status = map_of index (normalise raw_status)"

definition action_for :: "CourierStatus option \<Rightarrow> string option" where
  "action_for status = (case status of None \<Rightarrow> None | Some s \<Rightarrow> map_of STATUS_ACTIONS s)"

definition validate_mapping :: "string \<Rightarrow> (string \<times> string list) list \<Rightarrow> MappingProblem list" where
  "validate_mapping provider provider_mapping =
     (case build_index provider_mapping of
        Inl e \<Rightarrow> [\<lparr>mp_provider = provider, mp_detail = e\<rparr>]
      | Inr index \<Rightarrow>
          (let missing = filter (\<lambda>s. s \<notin> snd ` set index) REQUIRED_CANONICAL in
           (if missing = [] then []
            else [\<lparr>mp_provider = provider, mp_detail = ''maps nothing to '' @ join_with '', '' (sort (map courier_value missing))
              @ ''; the platform would never see those events from this courier''\<rparr>])
           @ (if index = [] then [\<lparr>mp_provider = provider, mp_detail = ''maps no statuses at all''\<rparr>] else [])))"

section \<open>Settlement rules\<close>

datatype ReconcileOutcome = MATCHED | SHORT | OVER | UNKNOWN_ORDER | NOT_DELIVERED | DUPLICATE | INVALID

fun outcome_value :: "ReconcileOutcome \<Rightarrow> string" where
  "outcome_value MATCHED = ''matched''"
| "outcome_value SHORT = ''short''"
| "outcome_value OVER = ''over''"
| "outcome_value UNKNOWN_ORDER = ''unknown_order''"
| "outcome_value NOT_DELIVERED = ''not_delivered''"
| "outcome_value DUPLICATE = ''duplicate''"
| "outcome_value INVALID = ''invalid''"

record Reconciliation =
  rc_outcome :: ReconcileOutcome
  rc_seller_order_id :: "string option"
  rc_expected_cents :: int
  rc_remitted_cents :: int
  rc_detail :: string

definition rc_ok :: "Reconciliation \<Rightarrow> bool" where
  "rc_ok r \<longleftrightarrow> rc_outcome r = MATCHED"

definition needs_attention :: "Reconciliation \<Rightarrow> bool" where
  "needs_attention r \<longleftrightarrow> rc_outcome r \<in> {SHORT, OVER, UNKNOWN_ORDER, NOT_DELIVERED, INVALID}"

definition variance_cents :: "Reconciliation \<Rightarrow> int" where
  "variance_cents r = rc_remitted_cents r - rc_expected_cents r"

definition reconciliation :: "ReconcileOutcome \<Rightarrow> string option \<Rightarrow> int \<Rightarrow> int \<Rightarrow> string \<Rightarrow> Reconciliation" where
  "reconciliation outcome order expected remitted detail =
     \<lparr>rc_outcome = outcome, rc_seller_order_id = order, rc_expected_cents = expected, rc_remitted_cents = remitted, rc_detail = detail\<rparr>"

text \<open>What the platform expects of a seller order: the amount and the order's status.\<close>

record known_order =
  kn_expected_cents :: int
  kn_status :: string

definition show_signed :: "int \<Rightarrow> string" where
  "show_signed i = (if i < 0 then show_int i else CHR ''+'' # show_int i)"

definition reconcile_row :: "json \<Rightarrow> known_order option \<Rightarrow> bool \<Rightarrow> Reconciliation" where
  "reconcile_row row known already_settled =
     (let raw = dict_get_null row ''reference''; reference = py_strip (if truthy raw then py_str raw else []) in
      if reference = [] then reconciliation INVALID None 0 0 ''settlement row carries no order reference''
      else case Option.bind (dict_get row ''collected_cents'') py_int of
        None \<Rightarrow> reconciliation INVALID (Some reference) 0 0 (''row '' @ reference @ '' has no usable collected amount'')
      | Some remitted \<Rightarrow>
          if remitted < 0 then
            reconciliation INVALID (Some reference) 0 remitted (''row '' @ reference @ '' remits a negative amount'')
          else case known of
            None \<Rightarrow>
              reconciliation UNKNOWN_ORDER (Some reference) 0 remitted (''no seller order matches reference '' @ reference)
          | Some k \<Rightarrow>
              (let expected = kn_expected_cents k in
               if already_settled then
                 reconciliation DUPLICATE (Some reference) expected remitted (reference @ '' was already settled; ignoring'')
               else if kn_status k \<noteq> ''DELIVERED'' then
                 reconciliation NOT_DELIVERED (Some reference) expected remitted
                   (reference @ '' is '' @ kn_status k @ '', not DELIVERED; cash arrived for an order the platform does not believe was delivered'')
               else if remitted = expected then reconciliation MATCHED (Some reference) expected remitted ''matched''
               else
                 reconciliation (if remitted < expected then SHORT else OVER) (Some reference) expected remitted
                   (reference @ '' expected '' @ show_int expected @ '', remitted '' @ show_int remitted
                     @ '' ('' @ show_signed (remitted - expected) @ '')'')))"

record settlement_summary =
  su_rows :: nat
  su_matched :: nat
  su_needs_attention :: nat
  su_outcomes :: "(string \<times> nat) list"
  su_variance_cents :: int

definition count_outcome :: "(string \<times> nat) list \<Rightarrow> Reconciliation \<Rightarrow> (string \<times> nat) list" where
  "count_outcome counts r =
     (let v = outcome_value (rc_outcome r) in
      dict_set counts v ((case map_of counts v of None \<Rightarrow> 0 | Some n \<Rightarrow> n) + 1))"

definition summarise_settlement :: "Reconciliation list \<Rightarrow> settlement_summary" where
  "summarise_settlement results =
     (let counts = foldl count_outcome [] results; attention = filter needs_attention results in
      \<lparr>su_rows = length results, su_matched = (case map_of counts (outcome_value MATCHED) of None \<Rightarrow> 0 | Some n \<Rightarrow> n),
       su_needs_attention = length attention, su_outcomes = counts,
       su_variance_cents = sum_list (map variance_cents attention)\<rparr>)"

section \<open>The registry\<close>

record Courier =
  cu_provider :: string
  cu_display_name :: string
  cu_index :: courier_index

definition courier_canonical :: "Courier \<Rightarrow> string option \<Rightarrow> CourierStatus option" where
  "courier_canonical c raw_status = map_status (cu_index c) raw_status"

text \<open>A configuration file: its name, and its contents when it is readable as JSON.\<close>

record courier_config =
  cc_provider :: "string option"
  cc_display_name :: "string option"
  cc_statuses :: "(string \<times> string list) list"

type_synonym registry = "(string \<times> Courier) list"

fun load_files :: "(string \<times> courier_config option) list \<Rightarrow> registry \<Rightarrow> string list \<Rightarrow> registry \<times> string list" where
  "load_files [] reg problems = (reg, problems)"
| "load_files ((file, content) # files) reg problems =
     (case content of
        None \<Rightarrow> load_files files reg (problems @ [file @ '': not readable as JSON''])
      | Some config \<Rightarrow>
          (let provider = py_strip (case cc_provider config of None \<Rightarrow> [] | Some p \<Rightarrow> p) in
           if provider = [] then load_files files reg (problems @ [file @ '': no provider slug''])
           else
             (let found = validate_mapping provider (cc_statuses config) in
              if found \<noteq> [] then load_files files reg (problems @ map (\<lambda>p. file @ '': '' @ mp_detail p) found)
              else
                load_files files
                  (dict_set reg provider
                    \<lparr>cu_provider = provider,
                     cu_display_name = (case cc_display_name config of Some n \<Rightarrow> if n = [] then provider else n | None \<Rightarrow> provider),
                     cu_index = (case build_index (cc_statuses config) of Inr i \<Rightarrow> i | Inl _ \<Rightarrow> [])\<rparr>)
                  problems)))"

text \<open>\<open>load\<close>: \<open>None\<close> stands for a directory that does not exist; \<open>Inl\<close> is \<open>RuntimeError\<close>.\<close>

definition load_couriers :: "(string \<times> courier_config option) list option \<Rightarrow> string list + registry" where
  "load_couriers directory =
     (case directory of
        None \<Rightarrow> Inl [''no courier configuration'']
      | Some files \<Rightarrow>
          (case load_files (sort_key fst files) [] [] of
             (reg, problems) \<Rightarrow>
               if problems \<noteq> [] then Inl problems
               else if reg = [] then Inl [''no courier mappings found'']
               else Inr reg))"

definition get_courier :: "registry \<Rightarrow> string \<Rightarrow> Courier option" where
  "get_courier reg provider = map_of reg (py_lower (py_strip provider))"

definition known_couriers :: "registry \<Rightarrow> string list" where
  "known_couriers reg = sort (map fst reg)"

section \<open>The index is the inverse of the configured table\<close>

definition word_keys :: "string list \<Rightarrow> string set" where
  "word_keys words = {normalise (Some w) |w. w \<in> set words} - {[]}"

lemma word_keys_Nil [simp]: "word_keys [] = {}"
  by (simp add: word_keys_def)

lemma word_keys_Cons: "word_keys (w # ws) = (if normalise (Some w) = [] then {} else {normalise (Some w)}) \<union> word_keys ws"
  by (auto simp: word_keys_def)

lemma word_keys_iff: "k \<in> word_keys words \<longleftrightarrow> k \<noteq> [] \<and> (\<exists>w\<in>set words. normalise (Some w) = k)"
  by (auto simp: word_keys_def)

lemma index_words_lookup:
  "index_words c words index = Inr index' \<Longrightarrow>
     map_of index' k = (if k \<in> word_keys words then Some c else map_of index k)
     \<and> (k \<in> word_keys words \<longrightarrow> map_of index k \<in> {None, Some c})"
  by (induction c words index rule: index_words.induct)
    (force simp: Let_def word_keys_Cons lookup_dict_set split: if_splits option.splits)+

lemma index_words_distinct:
  "index_words c words index = Inr index' \<Longrightarrow> distinct (map fst index) \<Longrightarrow> distinct (map fst index')"
  by (induction c words index rule: index_words.induct) (auto simp: Let_def split: if_splits option.splits)

lemma as_courier_status_iff: "as_courier_status v = Some s \<longleftrightarrow> v = courier_value s"
  by (cases s) (auto simp: as_courier_status_def courier_members_def)

lemma courier_value_inj: "courier_value s = courier_value t \<longleftrightarrow> s = t"
  by (metis as_courier_status_iff option.inject)

definition configured :: "(string \<times> string list) list \<Rightarrow> CourierStatus \<Rightarrow> string \<Rightarrow> bool" where
  "configured mapping s k \<longleftrightarrow> (\<exists>words. (courier_value s, words) \<in> set mapping \<and> k \<in> word_keys words)"

lemma configured_Nil [simp]: "\<not> configured [] s k"
  by (simp add: configured_def)

lemma configured_Cons: "configured ((n, ws) # m) s k \<longleftrightarrow> (n = courier_value s \<and> k \<in> word_keys ws) \<or> configured m s k"
  by (auto simp: configured_def)

lemma index_from_lookup:
  "index_from mapping index = Inr index' \<Longrightarrow>
     map_of index' k = Some s \<longleftrightarrow> map_of index k = Some s \<or> configured mapping s k"
proof (induction mapping index rule: index_from.induct)
  case (2 n words mapping index)
  obtain c index1 where c: "as_courier_status n = Some c" "n = courier_value c"
    and w: "index_words c words index = Inr index1" and rest: "index_from mapping index1 = Inr index'"
    using 2 (2) by (auto simp: as_courier_status_iff split: option.splits sum.splits)
  have "map_of index1 k = Some s \<longleftrightarrow> map_of index k = Some s \<or> (n = courier_value s \<and> k \<in> word_keys words)"
    using index_words_lookup [OF w, of k] c by (auto simp: courier_value_inj)
  then show ?case using 2 (1) [OF c (1) w rest] by (auto simp: configured_Cons)
qed simp

lemma index_from_distinct:
  "index_from mapping index = Inr index' \<Longrightarrow> distinct (map fst index) \<Longrightarrow> distinct (map fst index')"
  by (induction mapping index rule: index_from.induct)
    (auto dest: index_words_distinct split: option.splits sum.splits)

lemma build_index_lookup: "build_index mapping = Inr index \<Longrightarrow> map_of index k = Some s \<longleftrightarrow> configured mapping s k"
  by (simp add: build_index_def index_from_lookup)

lemma build_index_covers:
  assumes "build_index mapping = Inr index" "s \<in> snd ` set index"
  shows "\<exists>raw. map_status index (Some raw) = Some s"
proof -
  have "distinct (map fst index)" using assms (1) by (auto simp: build_index_def dest: index_from_distinct)
  with assms (2) obtain k where k: "map_of index k = Some s" by auto
  then obtain words where "k \<in> word_keys words" using build_index_lookup [OF assms (1)] by (auto simp: configured_def)
  then show ?thesis using k by (auto simp: map_status_def word_keys_def)
qed

text \<open>
  Property C28 (a courier's words): when the configured table is accepted, a word a courier sends
  means a canonical status exactly when the table lists, under that status, a word with the same
  normal form. So every listed word maps back to the status it is listed under, nothing else maps to
  it, and no word has two meanings.
\<close>

theorem courier_words_roundtrip:
  assumes "build_index mapping = Inr index"
  shows "map_status index (Some raw) = Some s \<longleftrightarrow>
    (\<exists>words. (courier_value s, words) \<in> set mapping \<and> normalise (Some raw) \<noteq> []
       \<and> (\<exists>w. w \<in> set words \<and> normalise (Some w) = normalise (Some raw)))"
  by (simp add: map_status_def build_index_lookup [OF assms] configured_def word_keys_iff) blast

text \<open>The shipped configuration, \<open>config/couriers/manual.json\<close>.\<close>

definition manual_statuses :: "(string \<times> string list) list" where
  "manual_statuses =
     [(''PICKUP_PENDING'', [''pending'', ''awaiting_pickup'']), (''PICKED_UP'', [''picked_up'', ''collected'']),
      (''IN_TRANSIT'', [''in_transit'']), (''OUT_FOR_DELIVERY'', [''out_for_delivery'']), (''DELIVERED'', [''delivered'']),
      (''DELIVERY_FAILED'', [''attempt_failed'', ''not_home'']), (''RETURNING'', [''returning'', ''rto'']),
      (''RETURNED'', [''returned'']), (''CANCELLED'', [''cancelled'', ''canceled''])]"

definition manual_index :: courier_index where
  "manual_index =
     [(''pending'', PICKUP_PENDING), (''awaiting_pickup'', PICKUP_PENDING), (''picked_up'', PICKED_UP),
      (''collected'', PICKED_UP), (''in_transit'', IN_TRANSIT), (''out_for_delivery'', OUT_FOR_DELIVERY),
      (''delivered'', DELIVERED), (''attempt_failed'', DELIVERY_FAILED), (''not_home'', DELIVERY_FAILED),
      (''returning'', RETURNING), (''rto'', RETURNING), (''returned'', RETURNED), (''cancelled'', CANCELLED),
      (''canceled'', CANCELLED)]"

lemma manual_build: "build_index manual_statuses = Inr manual_index"
  by code_simp

lemma manual_valid: "validate_mapping ''manual'' manual_statuses = []"
  by code_simp

text \<open>A spelling of another endpoint has the meaning of the listed word.\<close>

theorem courier_words_roundtrip_witness:
  "map_status manual_index (Some '' Picked-Up'') = Some PICKED_UP"
proof -
  have "normalise (Some '' Picked-Up'') = ''picked_up''" "normalise (Some ''picked_up'') = ''picked_up''" by code_simp+
  then show ?thesis
    using courier_words_roundtrip [OF manual_build, of "'' Picked-Up''" PICKED_UP]
    by (auto simp: manual_statuses_def)
qed

section \<open>The registry\<close>

lemma strip_by_idem: "strip_by P (strip_by P s) = strip_by P s"
proof -
  define u where "u = dropWhile P s"
  define t where "t = rev (dropWhile P (rev u))"
  have split: "u = t @ rev (takeWhile P (rev u))"
    unfolding t_def by (metis rev_append rev_rev_ident takeWhile_dropWhile_id)
  have "dropWhile P t = t"
  proof (cases "t = []")
    case False
    then have "hd t = hd u" and "u \<noteq> []" using split by (metis hd_append2, auto)
    then show ?thesis using hd_dropWhile [of P s] by (simp add: dropWhile_eq_self_iff u_def)
  qed simp
  moreover have "dropWhile P (rev t) = rev t" by (simp add: t_def)
  ultimately show ?thesis by (simp add: strip_by_def flip: u_def t_def)
qed

lemma py_strip_idem [simp]: "py_strip (py_strip s) = py_strip s"
  by (simp add: py_strip_def strip_by_idem)

lemma lower_char_idem [simp]: "lower_char (lower_char c) = lower_char c"
  by (simp add: lower_char_def Let_def)

lemma py_lower_idem [simp]: "py_lower (py_lower s) = py_lower s"
  by (simp add: py_lower_def)

text \<open>A loaded courier stands under its own slug, which is stripped, and its mapping is complete.\<close>

definition registered :: "string \<times> Courier \<Rightarrow> bool" where
  "registered e \<longleftrightarrow> (case e of (p, c) \<Rightarrow> cu_provider c = p \<and> p \<noteq> [] \<and> py_strip p = p
     \<and> (\<exists>mapping. build_index mapping = Inr (cu_index c) \<and> validate_mapping p mapping = []))"

lemma dict_set_all: "list_all P d \<Longrightarrow> P (k, v) \<Longrightarrow> list_all P (dict_set d k v)"
  by (induction d k v rule: dict_set.induct) auto

lemma validated_index: "validate_mapping p mapping = [] \<Longrightarrow> \<exists>index. build_index mapping = Inr index"
  by (auto simp: validate_mapping_def split: sum.splits)

lemma load_files_registered:
  "load_files files reg problems = (reg', problems') \<Longrightarrow> list_all registered reg \<Longrightarrow> distinct (map fst reg) \<Longrightarrow>
     list_all registered reg' \<and> distinct (map fst reg')"
proof (induction files reg problems rule: load_files.induct)
  case (2 name content files reg problems)
  show ?case
  proof (cases content)
    case None then show ?thesis using 2 by simp
  next
    case (Some config)
    define p where "p = py_strip (case cc_provider config of None \<Rightarrow> [] | Some p \<Rightarrow> p)"
    consider (blank) "p = []" | (bad) "p \<noteq> []" "validate_mapping p (cc_statuses config) \<noteq> []"
      | (good) index where "p \<noteq> []" "validate_mapping p (cc_statuses config) = []" "build_index (cc_statuses config) = Inr index"
      using validated_index by blast
    then show ?thesis
    proof cases
      case blank then show ?thesis using 2 (1-2,5-) Some by (simp add: p_def)
    next
      case bad then show ?thesis using 2 (3,5-) Some by (simp add: p_def)
    next
      case good
      then have "registered (p, \<lparr>cu_provider = p, cu_display_name = n, cu_index = index\<rparr>)" for n
        by (auto simp: registered_def p_def)
      then show ?thesis using 2 (4-) Some good by (simp add: dict_set_all flip: p_def)
    qed
  qed
qed simp

lemma loaded_registered:
  assumes "load_couriers directory = Inr reg"
  shows "list_all registered reg" and "distinct (map fst reg)" and "reg \<noteq> []"
  using assms load_files_registered [of _ "[]" "[]"]
  by (auto simp: load_couriers_def split: option.splits prod.splits if_splits)

lemma loaded_courier:
  assumes "load_couriers directory = Inr reg" "map_of reg p = Some c"
  shows "registered (p, c)"
  using assms loaded_registered (1) by (force simp: list_all_iff dest: map_of_SomeD)

lemma required_actions:
  "map_of STATUS_ACTIONS PICKED_UP = Some ''dispatch''" "map_of STATUS_ACTIONS DELIVERED = Some ''deliver''"
  "map_of STATUS_ACTIONS RETURNING = Some ''mark_rto''" "map_of STATUS_ACTIONS RETURNED = Some ''complete_return''"
  "set REQUIRED_CANONICAL = {PICKED_UP, DELIVERED, RETURNING, RETURNED}"
  by (simp_all add: STATUS_ACTIONS_def REQUIRED_CANONICAL_def)

text \<open>
  Every courier can report what moves an order: a directory that loads gives at
  least one courier, and each one has a word for pick-up, delivery, a return under way and a return
  completed, so for each of the actions dispatch, deliver, mark_rto and complete_return some callback
  of that courier drives it.
\<close>

theorem loaded_couriers_drive_orders:
  assumes "load_couriers directory = Inr reg"
  shows "reg \<noteq> [] \<and> (\<forall>(p, c)\<in>set reg. \<forall>action\<in>{''dispatch'', ''deliver'', ''mark_rto'', ''complete_return''}.
    \<exists>raw. action_for (courier_canonical c (Some raw)) = Some action)"
proof -
  have drive: "\<exists>raw. action_for (courier_canonical c (Some raw)) = Some action"
    if e: "(p, c) \<in> set reg" and s: "s \<in> set REQUIRED_CANONICAL" "map_of STATUS_ACTIONS s = Some action" for p c s action
  proof -
    obtain mapping where m: "build_index mapping = Inr (cu_index c)" "validate_mapping p mapping = []"
      using loaded_registered (1) [OF assms] e by (force simp: list_all_iff registered_def)
    then have "s \<in> snd ` set (cu_index c)"
      using s (1) by (auto simp: validate_mapping_def Let_def filter_empty_conv split: if_splits)
    then obtain raw where "map_status (cu_index c) (Some raw) = Some s" using build_index_covers [OF m (1)] by blast
    then have "action_for (courier_canonical c (Some raw)) = Some action"
      using s (2) by (simp add: courier_canonical_def action_for_def)
    then show ?thesis by blast
  qed
  have "\<forall>action\<in>{''dispatch'', ''deliver'', ''mark_rto'', ''complete_return''}.
      \<exists>raw. action_for (courier_canonical c (Some raw)) = Some action" if "(p, c) \<in> set reg" for p c
    using drive [OF that, of PICKED_UP "''dispatch''"] drive [OF that, of DELIVERED "''deliver''"]
      drive [OF that, of RETURNING "''mark_rto''"] drive [OF that, of RETURNED "''complete_return''"]
    by (simp add: required_actions del: split_paired_All)
  then show ?thesis using loaded_registered (3) [OF assms] by blast
qed

text \<open>
  A slug with a capital letter: a courier that was loaded under a slug is
  found by some request exactly when the slug is in lower case. The directory loads any slug, and a
  courier under a slug with a capital letter can neither get a parcel nor report on one.
\<close>

theorem loaded_courier_found_iff_lower_case:
  assumes "load_couriers directory = Inr reg" "map_of reg p = Some c"
  shows "(\<exists>q. get_courier reg q = Some c) \<longleftrightarrow> py_lower p = p"
proof
  assume "\<exists>q. get_courier reg q = Some c"
  then obtain q where q: "map_of reg (py_lower (py_strip q)) = Some c" by (auto simp: get_courier_def)
  have "cu_provider c = py_lower (py_strip q)" "cu_provider c = p"
    using loaded_courier [OF assms (1) q] loaded_courier [OF assms] by (simp_all add: registered_def)
  then show "py_lower p = p" by (metis py_lower_idem)
next
  assume "py_lower p = p"
  then have "get_courier reg p = Some c"
    using loaded_courier [OF assms] assms (2) by (simp add: get_courier_def registered_def)
  then show "\<exists>q. get_courier reg q = Some c" by blast
qed

definition capital_config :: "(string \<times> courier_config option) list" where
  "capital_config =
     [(''manual.json'', Some \<lparr>cc_provider = Some ''manual'', cc_display_name = None, cc_statuses = manual_statuses\<rparr>),
      (''pathao.json'', Some \<lparr>cc_provider = Some ''Pathao'', cc_display_name = Some ''Pathao'', cc_statuses = manual_statuses\<rparr>)]"

definition manual_courier :: Courier where
  "manual_courier = \<lparr>cu_provider = ''manual'', cu_display_name = ''manual'', cu_index = manual_index\<rparr>"

definition capital_courier :: Courier where
  "capital_courier = \<lparr>cu_provider = ''Pathao'', cu_display_name = ''Pathao'', cu_index = manual_index\<rparr>"

lemma capital_loads: "load_couriers (Some capital_config) = Inr [(''manual'', manual_courier), (''Pathao'', capital_courier)]"
  by code_simp

theorem loaded_couriers_drive_orders_witness:
  "\<exists>raw. action_for (courier_canonical manual_courier (Some raw)) = Some ''deliver''"
  using loaded_couriers_drive_orders [OF capital_loads] by simp

theorem loaded_courier_found_iff_lower_case_witness:
  "(\<nexists>q. get_courier [(''manual'', manual_courier), (''Pathao'', capital_courier)] q = Some capital_courier)"
proof -
  have "py_lower ''Pathao'' \<noteq> ''Pathao''" by code_simp
  moreover have m: "map_of [(''manual'', manual_courier), (''Pathao'', capital_courier)] ''Pathao'' = Some capital_courier" by simp
  ultimately show ?thesis using loaded_courier_found_iff_lower_case [OF capital_loads m] by simp
qed

section \<open>Reconciliation\<close>

text \<open>Money is recognised only for a delivered order, once, and only when the amount is exact.\<close>

lemma reconcile_row_matched:
  "rc_outcome (reconcile_row row known settled) = MATCHED \<longleftrightarrow>
     py_strip (if truthy (dict_get_null row ''reference'') then py_str (dict_get_null row ''reference'') else []) \<noteq> []
     \<and> \<not> settled
     \<and> (\<exists>k. known = Some k \<and> kn_status k = ''DELIVERED'' \<and> 0 \<le> kn_expected_cents k
          \<and> Option.bind (dict_get row ''collected_cents'') py_int = Some (kn_expected_cents k))"
  by (auto simp: reconcile_row_def Let_def reconciliation_def split: option.splits if_splits)

lemma reconcile_row_amounts:
  "rc_outcome (reconcile_row row known settled) = MATCHED \<Longrightarrow>
     rc_remitted_cents (reconcile_row row known settled) = rc_expected_cents (reconcile_row row known settled)
     \<and> 0 \<le> rc_expected_cents (reconcile_row row known settled)"
  by (auto simp: reconcile_row_def Let_def reconciliation_def split: option.splits if_splits)

text \<open>The summary accounts for every row: matched, a repeat, or for a person to look at.\<close>

lemma outcome_value_inj: "outcome_value o1 = outcome_value o2 \<longleftrightarrow> o1 = o2"
  by (cases o1; cases o2) simp_all

lemma count_outcomes:
  "(case map_of (foldl count_outcome counts results) (outcome_value o1) of None \<Rightarrow> 0 | Some n \<Rightarrow> n)
     = (case map_of counts (outcome_value o1) of None \<Rightarrow> 0 | Some n \<Rightarrow> n)
       + length (filter (\<lambda>r. rc_outcome r = o1) results)"
  by (induction results arbitrary: counts)
    (simp_all add: count_outcome_def Let_def lookup_dict_set outcome_value_inj)

theorem settlement_summary_accounts:
  "su_rows (summarise_settlement results)
     = su_matched (summarise_settlement results) + su_needs_attention (summarise_settlement results)
       + length (filter (\<lambda>r. rc_outcome r = DUPLICATE) results)"
proof -
  have "length results = length (filter rc_ok results) + length (filter needs_attention results)
      + length (filter (\<lambda>r. rc_outcome r = DUPLICATE) results)"
    by (induction results) (auto simp: rc_ok_def needs_attention_def, metis ReconcileOutcome.exhaust)
  then show ?thesis using count_outcomes [of "[]" results MATCHED]
    by (simp add: summarise_settlement_def Let_def rc_ok_def [abs_def])
qed

end
