(* ===== verification/Fulfillment.thy ===== *)
theory Fulfillment
  imports Courier_Rules
begin

text \<open>
  The fulfilment service: shipments, courier callbacks and settlement files
  (\<open>shipment_service.py\<close>) and the older dispatch route (\<open>fulfillment_service.py\<close>). The call to
  the order service is a parameter that threads the state of that service.
\<close>

section \<open>Tables\<close>

text \<open>
  The rows of the service's tables. The \<open>created_at\<close> and \<open>updated_at\<close> columns, which no rule
  of the service reads, are left out.
\<close>

record FulfillmentRecord =
  fr_id :: uuid
  fr_order_id :: uuid
  fr_destination_region :: string
  fr_tracking_number :: string
  fr_courier :: string
  fr_status :: string

record Shipment =
  sh_id :: uuid
  sh_seller_order_id :: uuid
  sh_order_id :: uuid
  sh_provider :: string
  sh_tracking_code :: "string option"
  sh_status :: string
  sh_raw_status :: "string option"
  sh_raw_status_at :: "int option"
  sh_unmapped :: bool
  sh_cod_amount_cents :: int
  sh_currency :: string

record SettlementRow =
  sr_provider :: string
  sr_batch_reference :: string
  sr_row_reference :: string
  sr_seller_order_id :: "uuid option"
  sr_expected_cents :: int
  sr_collected_cents :: int
  sr_outcome :: string
  sr_detail :: string

record fulfillment_db =
  fd_records :: "FulfillmentRecord list"
  fd_shipments :: "Shipment list"
  fd_settlement_rows :: "SettlementRow list"
  fd_keys :: "string list"
  fd_outbox :: "outbox_message list"

section \<open>Shipments\<close>

record ShipmentCreateRequest =
  cr_seller_order_id :: uuid
  cr_order_id :: uuid
  cr_provider :: string
  cr_tracking_code :: "string option"
  cr_cod_amount_cents :: int
  cr_currency :: string

definition ShipmentCreateRequest_valid :: "ShipmentCreateRequest \<Rightarrow> bool" where
  "ShipmentCreateRequest_valid r \<longleftrightarrow>
     1 \<le> length (cr_provider r) \<and> length (cr_provider r) \<le> 64
     \<and> (case cr_tracking_code r of None \<Rightarrow> True | Some t \<Rightarrow> length t \<le> 128)
     \<and> 0 \<le> cr_cod_amount_cents r \<and> length (cr_currency r) = 3"

text \<open>
  The unique indexes of \<open>shipments\<close>: one row per seller order, and one per provider and tracking
  code where the code is not NULL.
\<close>

definition same_parcel :: "Shipment \<Rightarrow> Shipment \<Rightarrow> bool" where
  "same_parcel s t \<longleftrightarrow> sh_id s = sh_id t \<or> sh_seller_order_id s = sh_seller_order_id t
     \<or> (sh_provider s = sh_provider t \<and> sh_tracking_code s = sh_tracking_code t \<and> sh_tracking_code s \<noteq> None)"

definition shipment_storable :: "Shipment list \<Rightarrow> Shipment \<Rightarrow> bool" where
  "shipment_storable rows s \<longleftrightarrow>
     int4 (sh_cod_amount_cents s) \<and> length (sh_provider s) \<le> 64 \<and> \<not> (\<exists>t\<in>set rows. same_parcel s t)"

definition new_shipment :: "uuid \<Rightarrow> Courier \<Rightarrow> ShipmentCreateRequest \<Rightarrow> Shipment" where
  "new_shipment fresh courier request =
     \<lparr>sh_id = fresh, sh_seller_order_id = cr_seller_order_id request, sh_order_id = cr_order_id request,
      sh_provider = cu_provider courier, sh_tracking_code = cr_tracking_code request,
      sh_status = ''PICKUP_PENDING'', sh_raw_status = None, sh_raw_status_at = None, sh_unmapped = False,
      sh_cod_amount_cents = cr_cod_amount_cents request, sh_currency = py_upper (cr_currency request)\<rparr>"

definition shipment_created :: "Shipment \<Rightarrow> outbox_message" where
  "shipment_created s =
     outbox ''Shipment'' (sh_id s) ''ShipmentCreated''
       (JObj [(''shipment_id'', JStr (sh_id s)), (''seller_order_id'', JStr (sh_seller_order_id s)),
              (''order_id'', JStr (sh_order_id s)), (''provider'', JStr (sh_provider s)),
              (''tracking_code'', str_or_null (sh_tracking_code s)), (''cod_amount_cents'', JInt (sh_cod_amount_cents s))])"

text \<open>
  \<open>seen\<close> is what the \<open>SELECT\<close> for an existing parcel sees. The \<open>flush\<close> is outside the
  \<open>try\<close>, so a violated index or an amount outside INTEGER is not caught.
\<close>

definition create_shipment ::
  "bool \<Rightarrow> uuid \<Rightarrow> registry \<Rightarrow> Shipment list \<Rightarrow> ShipmentCreateRequest \<Rightarrow> fulfillment_db \<Rightarrow>
     Shipment result \<times> fulfillment_db" where
  "create_shipment io fresh reg seen request db =
     (case get_courier reg (cr_provider request) of
        None \<Rightarrow> (Inl (HTTPException 422), db)
      | Some courier \<Rightarrow>
          (case find (\<lambda>s. sh_seller_order_id s = cr_seller_order_id request) seen of
             Some already \<Rightarrow> (Inl (HTTPException 409), db)
           | None \<Rightarrow>
               (let shipment = new_shipment fresh courier request in
                if \<not> shipment_storable (fd_shipments db) shipment then (Inl (Uncaught ''IntegrityError''), db)
                else
                  commit io True db
                    (db\<lparr>fd_shipments := fd_shipments db @ [shipment], fd_outbox := fd_outbox db @ [shipment_created shipment]\<rparr>)
                    shipment)))"

definition create_shipment_endpoint ::
  "bool \<Rightarrow> uuid \<Rightarrow> registry \<Rightarrow> Shipment list \<Rightarrow> ShipmentCreateRequest \<Rightarrow> fulfillment_db \<Rightarrow>
     Shipment result \<times> fulfillment_db" where
  "create_shipment_endpoint io fresh reg seen request db =
     (if ShipmentCreateRequest_valid request then create_shipment io fresh reg seen request db
      else (Inl (HTTPException 422), db))"

section \<open>Courier callbacks\<close>

text \<open>
  What the guarded call to the order service gives: the circuit or the bulkhead refuses it, it
  times out or cannot connect, or an answer with a status comes back.
\<close>

datatype saga_reply = SagaUnavailable | SagaUnreachable | SagaStatus int

definition drive_outcome :: "saga_reply \<Rightarrow> string" where
  "drive_outcome reply =
     (case reply of
        SagaUnavailable \<Rightarrow> ''unavailable''
      | SagaUnreachable \<Rightarrow> ''unreachable''
      | SagaStatus code \<Rightarrow>
          if code = 200 then ''applied'' else if code = 409 then ''not_applicable'' else ''rejected_'' @ show_int code)"

text \<open>
  The order service as the callback handler sees it: order, seller order, action and reason, and
  its state before; its reply and its state after.
\<close>

type_synonym 'o saga_post = "uuid \<Rightarrow> uuid \<Rightarrow> string \<Rightarrow> string \<Rightarrow> 'o \<Rightarrow> saga_reply \<times> 'o"

definition drive_seller_order ::
  "'o saga_post \<Rightarrow> uuid \<Rightarrow> uuid \<Rightarrow> string \<Rightarrow> string \<Rightarrow> 'o \<Rightarrow> string \<times> 'o" where
  "drive_seller_order post order_id seller_order_id action reason saga =
     (case post order_id seller_order_id action reason saga of (reply, saga') \<Rightarrow> (drive_outcome reply, saga'))"

record CourierCallbackRequest =
  cb_tracking_code :: "string option"
  cb_seller_order_id :: "uuid option"
  cb_status :: string
  cb_occurred_at :: "int option"

definition CourierCallbackRequest_valid :: "CourierCallbackRequest \<Rightarrow> bool" where
  "CourierCallbackRequest_valid r \<longleftrightarrow>
     (case cb_tracking_code r of None \<Rightarrow> True | Some t \<Rightarrow> length t \<le> 128)
     \<and> 1 \<le> length (cb_status r) \<and> length (cb_status r) \<le> 128"

text \<open>The parcel a callback names; \<open>None\<close> when it names none.\<close>

definition callback_query :: "string \<Rightarrow> CourierCallbackRequest \<Rightarrow> (Shipment \<Rightarrow> bool) option" where
  "callback_query provider request =
     (if cb_tracking_code request \<noteq> None \<and> cb_tracking_code request \<noteq> Some [] then
        Some (\<lambda>s. sh_provider s = provider \<and> sh_tracking_code s = cb_tracking_code request)
      else case cb_seller_order_id request of
        Some i \<Rightarrow> Some (\<lambda>s. sh_provider s = provider \<and> sh_seller_order_id s = i)
      | None \<Rightarrow> None)"

definition recorded_status :: "int \<Rightarrow> CourierCallbackRequest \<Rightarrow> CourierStatus option \<Rightarrow> Shipment \<Rightarrow> Shipment" where
  "recorded_status now request canonical s =
     s\<lparr>sh_raw_status := Some (cb_status request),
       sh_raw_status_at := Some (case cb_occurred_at request of None \<Rightarrow> now | Some t \<Rightarrow> t),
       sh_unmapped := (canonical = None),
       sh_status := (case canonical of None \<Rightarrow> sh_status s | Some c \<Rightarrow> courier_value c)\<rparr>"

definition status_event :: "Shipment \<Rightarrow> CourierCallbackRequest \<Rightarrow> CourierStatus option \<Rightarrow> outbox_message" where
  "status_event s request canonical =
     outbox ''Shipment'' (sh_id s) (if canonical = None then ''ShipmentStatusUnmapped'' else ''ShipmentStatusChanged'')
       (JObj [(''shipment_id'', JStr (sh_id s)), (''seller_order_id'', JStr (sh_seller_order_id s)),
              (''order_id'', JStr (sh_order_id s)), (''provider'', JStr (sh_provider s)),
              (''raw_status'', JStr (cb_status request)),
              (''canonical_status'', str_or_null (map_option courier_value canonical)),
              (''action'', str_or_null (action_for canonical))])"

record CallbackResponse =
  cl_shipment_id :: uuid
  cl_provider :: string
  cl_raw_status :: string
  cl_canonical_status :: "string option"
  cl_action :: "string option"
  cl_action_result :: "string option"
  cl_unmapped :: bool

definition callback_response ::
  "Shipment \<Rightarrow> CourierCallbackRequest \<Rightarrow> CourierStatus option \<Rightarrow> string option \<Rightarrow> CallbackResponse" where
  "callback_response s request canonical action_result =
     \<lparr>cl_shipment_id = sh_id s, cl_provider = sh_provider s, cl_raw_status = cb_status request,
      cl_canonical_status = map_option courier_value canonical, cl_action = action_for canonical,
      cl_action_result = action_result, cl_unmapped = (canonical = None)\<rparr>"

text \<open>
  \<open>locked\<close> says that the row lock is not granted within \<open>lock_timeout\<close>. The order service is
  asked only after the commit.
\<close>

definition handle_callback ::
  "bool \<Rightarrow> bool \<Rightarrow> int \<Rightarrow> registry \<Rightarrow> 'o saga_post \<Rightarrow> string \<Rightarrow> CourierCallbackRequest \<Rightarrow> fulfillment_db \<times> 'o \<Rightarrow>
     CallbackResponse result \<times> fulfillment_db \<times> 'o" where
  "handle_callback io locked now reg post provider request w =
     (case w of (db, saga) \<Rightarrow>
        (case get_courier reg provider of
           None \<Rightarrow> (Inl (HTTPException 404), db, saga)
         | Some courier \<Rightarrow>
             (case callback_query (cu_provider courier) request of
                None \<Rightarrow> (Inl (HTTPException 422), db, saga)
              | Some query \<Rightarrow>
                  if locked then (Inl (Uncaught ''LockNotAvailable''), db, saga)
                  else case find query (fd_shipments db) of
                    None \<Rightarrow> (Inl (HTTPException 404), db, saga)
                  | Some found \<Rightarrow>
                      (let canonical = courier_canonical courier (Some (cb_status request));
                           shipment = recorded_status now request canonical found;
                           db' = db\<lparr>fd_shipments := map (\<lambda>s. if sh_id s = sh_id found then shipment else s) (fd_shipments db),
                                     fd_outbox := fd_outbox db @ [status_event shipment request canonical]\<rparr>
                       in if \<not> io then (Inl (HTTPException 500), db, saga)
                          else case action_for canonical of
                            None \<Rightarrow> (Inr (callback_response shipment request canonical None), db', saga)
                          | Some action \<Rightarrow>
                              (case drive_seller_order post (sh_order_id shipment) (sh_seller_order_id shipment) action
                                      (''courier '' @ provider @ '' reported '' @ cb_status request) saga of
                                 (word, saga') \<Rightarrow>
                                   (Inr (callback_response shipment request canonical (Some word)), db', saga'))))))"

definition callback_endpoint ::
  "bool \<Rightarrow> bool \<Rightarrow> int \<Rightarrow> registry \<Rightarrow> 'o saga_post \<Rightarrow> string \<Rightarrow> CourierCallbackRequest \<Rightarrow> fulfillment_db \<times> 'o \<Rightarrow>
     CallbackResponse result \<times> fulfillment_db \<times> 'o" where
  "callback_endpoint io locked now reg post provider request w =
     (if CourierCallbackRequest_valid request then handle_callback io locked now reg post provider request w
      else (Inl (HTTPException 422), w))"

section \<open>Settlement files\<close>

text \<open>One entry of the order service's answer to \<open>GET /orders/{order_id}/seller-orders\<close>.\<close>

record saga_seller_order =
  sv_id :: uuid
  sv_subtotal_cents :: int
  sv_status :: string

definition seller_order_snapshot :: "(int \<times> saga_seller_order list) option \<Rightarrow> uuid \<Rightarrow> known_order option" where
  "seller_order_snapshot reply seller_order_id =
     (case reply of
        None \<Rightarrow> None
      | Some (status_code, seller_orders) \<Rightarrow>
          if status_code \<noteq> 200 then None
          else map_option (\<lambda>v. \<lparr>kn_expected_cents = sv_subtotal_cents v, kn_status = sv_status v\<rparr>)
                 (find (\<lambda>v. sv_id v = seller_order_id) seller_orders))"

record SettlementRowInput =
  si_reference :: string
  si_collected_cents :: int

record SettlementRequest =
  st_provider :: string
  st_batch_reference :: string
  st_rows :: "SettlementRowInput list"

definition SettlementRequest_valid :: "SettlementRequest \<Rightarrow> bool" where
  "SettlementRequest_valid r \<longleftrightarrow>
     1 \<le> length (st_provider r) \<and> length (st_provider r) \<le> 64
     \<and> 1 \<le> length (st_batch_reference r) \<and> length (st_batch_reference r) \<le> 128
     \<and> list_all (\<lambda>i. 1 \<le> length (si_reference i) \<and> length (si_reference i) \<le> 128) (st_rows r)"

text \<open>
  What the order service answers at the \<open>k\<close>-th row about an order: \<open>None\<close> is no answer.
\<close>

type_synonym saga_get = "nat \<Rightarrow> uuid \<Rightarrow> (int \<times> saga_seller_order list) option"

definition known_for :: "saga_get \<Rightarrow> nat \<Rightarrow> Shipment \<Rightarrow> known_order" where
  "known_for get k shipment =
     (case seller_order_snapshot (get k (sh_order_id shipment)) (sh_seller_order_id shipment) of
        Some known \<Rightarrow> known
      | None \<Rightarrow> \<lparr>kn_expected_cents = sh_cod_amount_cents shipment, kn_status = sh_status shipment\<rparr>)"

text \<open>
  One row of the file: the shipment its reference names and the classification. The prior
  settlement is looked for in the rows \<open>seen\<close>, which include the rows this file has flushed.
\<close>

definition classify_row ::
  "string \<Rightarrow> saga_get \<Rightarrow> nat \<Rightarrow> Shipment list \<Rightarrow> SettlementRow list \<Rightarrow> SettlementRowInput \<Rightarrow> uuid option \<times> Reconciliation" where
  "classify_row provider get k shipments seen row =
     (let reference = py_strip (si_reference row);
          shipment = find (\<lambda>s. sh_provider s = provider \<and> sh_tracking_code s = Some reference) shipments;
          seller_order_id = map_option sh_seller_order_id shipment;
          settled_before = (seller_order_id \<noteq> None
            \<and> (\<exists>r\<in>set seen. sr_seller_order_id r = seller_order_id \<and> sr_outcome r = outcome_value MATCHED))
      in (seller_order_id,
          reconcile_row (JObj [(''reference'', JStr reference), (''collected_cents'', JInt (si_collected_cents row))])
            (map_option (known_for get k) shipment) settled_before))"

definition settlement_row :: "string \<Rightarrow> string \<Rightarrow> SettlementRowInput \<Rightarrow> uuid option \<times> Reconciliation \<Rightarrow> SettlementRow" where
  "settlement_row provider batch row c =
     (case c of (seller_order_id, outcome) \<Rightarrow>
       \<lparr>sr_provider = provider, sr_batch_reference = batch, sr_row_reference = py_strip (si_reference row),
        sr_seller_order_id = seller_order_id, sr_expected_cents = rc_expected_cents outcome,
        sr_collected_cents = rc_remitted_cents outcome, sr_outcome = outcome_value (rc_outcome outcome),
        sr_detail = take 1024 (rc_detail outcome)\<rparr>)"

definition row_key :: "SettlementRow \<Rightarrow> string \<times> string \<times> string" where
  "row_key r = (sr_provider r, sr_batch_reference r, sr_row_reference r)"

definition row_storable :: "SettlementRow list \<Rightarrow> SettlementRow \<Rightarrow> bool" where
  "row_storable rows r \<longleftrightarrow> int4 (sr_expected_cents r) \<and> int4 (sr_collected_cents r) \<and> row_key r \<notin> row_key ` set rows"

text \<open>
  The rows added so far are \<open>own\<close>. All but the last have been flushed: the first \<open>SELECT\<close> of
  the next row flushes the last one, and a violated index or an amount outside INTEGER is raised
  there. The requests of the service overlap and the loop waits for the order service at every row, so
  each row's queries see the tables of another moment: \<open>look k\<close> holds the shipments and the committed
  settlement rows that the queries of the \<open>k\<close>-th row see, \<open>rows\<close> the rows that the unique index checks
  against.
\<close>

definition last_storable :: "SettlementRow list \<Rightarrow> SettlementRow list \<Rightarrow> bool" where
  "last_storable rows own \<longleftrightarrow> own = [] \<or> row_storable (rows @ butlast own) (last own)"

type_synonym settlement_look = "nat \<Rightarrow> Shipment list \<times> SettlementRow list"

fun ingest_rows ::
  "string \<Rightarrow> string \<Rightarrow> saga_get \<Rightarrow> settlement_look \<Rightarrow> SettlementRow list \<Rightarrow> nat \<Rightarrow>
     SettlementRow list \<Rightarrow> Reconciliation list \<Rightarrow> SettlementRowInput list \<Rightarrow> (SettlementRow list \<times> Reconciliation list) result" where
  "ingest_rows provider batch get look rows k own results [] = Inr (own, results)"
| "ingest_rows provider batch get look rows k own results (row # inputs) =
     (if \<not> last_storable rows own then Inl (Uncaught ''IntegrityError'')
      else
        (let c = classify_row provider get k (fst (look k)) (snd (look k) @ own) row in
         ingest_rows provider batch get look rows (Suc k)
           (own @ [settlement_row provider batch row c]) (results @ [snd c]) inputs))"

definition settlement_reconciled :: "SettlementRequest \<Rightarrow> settlement_summary \<Rightarrow> outbox_message" where
  "settlement_reconciled request s =
     outbox ''Settlement'' (st_provider request @ '':'' @ st_batch_reference request) ''SettlementReconciled''
       (JObj [(''provider'', JStr (st_provider request)), (''batch_reference'', JStr (st_batch_reference request)),
              (''rows'', JInt (int (su_rows s))), (''matched'', JInt (int (su_matched s))),
              (''needs_attention'', JInt (int (su_needs_attention s))),
              (''outcomes'', JObj (map (\<lambda>(k, n). (k, JInt (int n))) (su_outcomes s))),
              (''variance_cents'', JInt (su_variance_cents s))])"

definition ingest_settlement ::
  "bool \<Rightarrow> registry \<Rightarrow> saga_get \<Rightarrow> settlement_look \<Rightarrow> SettlementRequest \<Rightarrow> fulfillment_db \<Rightarrow>
     settlement_summary result \<times> fulfillment_db" where
  "ingest_settlement io reg get look request db =
     (case get_courier reg (st_provider request) of
        None \<Rightarrow> (Inl (HTTPException 404), db)
      | Some courier \<Rightarrow>
          (case ingest_rows (cu_provider courier) (st_batch_reference request) get look
                  (fd_settlement_rows db) 0 [] [] (st_rows request) of
             Inl e \<Rightarrow> (Inl e, db)
           | Inr (own, results) \<Rightarrow>
               (let summary = summarise_settlement results in
                if io \<and> last_storable (fd_settlement_rows db) own then
                  (Inr summary,
                   db\<lparr>fd_settlement_rows := fd_settlement_rows db @ own,
                      fd_outbox := fd_outbox db @ [settlement_reconciled request summary]\<rparr>)
                else (Inl (HTTPException 409), db))))"

definition settlement_endpoint ::
  "bool \<Rightarrow> registry \<Rightarrow> saga_get \<Rightarrow> settlement_look \<Rightarrow> SettlementRequest \<Rightarrow> fulfillment_db \<Rightarrow>
     settlement_summary result \<times> fulfillment_db" where
  "settlement_endpoint io reg get look request db =
     (if SettlementRequest_valid request then ingest_settlement io reg get look request db
      else (Inl (HTTPException 422), db))"

section \<open>The dispatch route\<close>

record DispatchRequest =
  dr_order_id :: uuid
  dr_destination_region :: string

text \<open>\<open>fresh\<close> is the record's identifier, \<open>track\<close> the identifier the tracking number is cut from.\<close>

definition dispatch_order ::
  "bool \<Rightarrow> string \<Rightarrow> uuid \<Rightarrow> uuid \<Rightarrow> DispatchRequest \<Rightarrow> string \<Rightarrow> fulfillment_db \<Rightarrow>
     FulfillmentRecord result \<times> fulfillment_db" where
  "dispatch_order io now_text fresh track request idempotency_key db =
     (if length idempotency_key > 255 then (Inl (Uncaught ''StringDataRightTruncation''), db)
      else if idempotency_key \<in> set (fd_keys db) then (Inl (HTTPException 409), db)
      else
        (let tracking_number = ''TRK-'' @ py_upper (take 12 (filter (\<lambda>c. c \<noteq> CHR ''-'') track));
             held = (dr_destination_region request = ''Blatten'');
             status = (if held then ''HELD_FOR_CLEARANCE'' else ''DISPATCHED'');
             event_type = (if held then ''OrderHeld'' else ''OrderDispatched'');
             fulfillment =
               \<lparr>fr_id = fresh, fr_order_id = dr_order_id request, fr_destination_region = dr_destination_region request,
                fr_tracking_number = tracking_number, fr_courier = ''SwissPost'', fr_status = status\<rparr>;
             message = outbox ''Fulfillment'' (dr_order_id request) event_type
               (JObj [(''id'', JStr fresh), (''order_id'', JStr (dr_order_id request)),
                      (''destination_region'', JStr (dr_destination_region request)),
                      (''tracking_number'', JStr tracking_number), (''courier'', JStr ''SwissPost''),
                      (''status'', JStr status), (''created_at'', JStr now_text)])
         in commit io (length (dr_destination_region request) \<le> 255 \<and> fresh \<notin> fr_id ` set (fd_records db)) db
              (db\<lparr>fd_keys := fd_keys db @ [idempotency_key], fd_records := fd_records db @ [fulfillment],
                  fd_outbox := fd_outbox db @ [message]\<rparr>)
              fulfillment))"

definition dispatch_order_endpoint ::
  "bool \<Rightarrow> string \<Rightarrow> uuid \<Rightarrow> uuid \<Rightarrow> DispatchRequest \<Rightarrow> string \<Rightarrow> fulfillment_db \<Rightarrow>
     FulfillmentRecord result \<times> fulfillment_db" where
  "dispatch_order_endpoint io now_text fresh track request idempotency_key db =
     (if idempotency_key = [] then (Inl (HTTPException 400), db)
      else dispatch_order io now_text fresh track request idempotency_key db)"

section \<open>What the tables keep\<close>

definition matched_row :: "SettlementRow \<Rightarrow> bool" where
  "matched_row r \<longleftrightarrow> sr_outcome r = outcome_value MATCHED"

text \<open>
  The keys of stored rows differ and their amounts fit the columns; a matched row has the amount
  that was expected of a known seller order. When the settlement files do not overlap, a seller order
  has at most one matched row.
\<close>

definition keys_ok :: "SettlementRow list \<Rightarrow> bool" where
  "keys_ok rows \<longleftrightarrow> distinct (map row_key rows) \<and> list_all (\<lambda>r. int4 (sr_expected_cents r) \<and> int4 (sr_collected_cents r)) rows"

definition money_ok :: "SettlementRow list \<Rightarrow> bool" where
  "money_ok rows \<longleftrightarrow>
     list_all (\<lambda>r. matched_row r \<longrightarrow> sr_seller_order_id r \<noteq> None \<and> 0 \<le> sr_expected_cents r
                  \<and> sr_collected_cents r = sr_expected_cents r) rows"

definition matched_once :: "SettlementRow list \<Rightarrow> bool" where
  "matched_once rows \<longleftrightarrow> distinct (map sr_seller_order_id (filter matched_row rows))"

definition shipments_ok :: "Shipment list \<Rightarrow> bool" where
  "shipments_ok ss \<longleftrightarrow> sorted_wrt (\<lambda>s t. \<not> same_parcel s t) ss"

definition shipment_typed :: "Shipment \<Rightarrow> bool" where
  "shipment_typed s \<longleftrightarrow> as_courier_status (sh_status s) \<noteq> None \<and> 0 \<le> sh_cod_amount_cents s \<and> int4 (sh_cod_amount_cents s)
     \<and> length (sh_currency s) = 3 \<and> (sh_raw_status s = None \<longrightarrow> sh_status s = ''PICKUP_PENDING'' \<and> \<not> sh_unmapped s)"

definition fulfillment_inv :: "fulfillment_db \<Rightarrow> bool" where
  "fulfillment_inv db \<longleftrightarrow> shipments_ok (fd_shipments db) \<and> list_all shipment_typed (fd_shipments db)
     \<and> keys_ok (fd_settlement_rows db) \<and> money_ok (fd_settlement_rows db)
     \<and> distinct (fd_keys db) \<and> length (fd_records db) = length (fd_keys db)"

text \<open>
  The requests the service takes. A step is the commit of a request; what its queries saw before, the
  parcels in \<open>seen\<close> and the tables in \<open>look\<close>, may be of any earlier moment. What a callback writes does not
  depend on the order service, so the step asks one with no state.
\<close>

definition no_fulfillment :: "fulfillment_db \<Rightarrow> bool" where
  "no_fulfillment db \<longleftrightarrow> fd_records db = [] \<and> fd_shipments db = [] \<and> fd_settlement_rows db = [] \<and> fd_keys db = []"

inductive fulfillment_step :: "registry \<Rightarrow> fulfillment_db \<Rightarrow> fulfillment_db \<Rightarrow> bool" for reg where
  create: "fulfillment_step reg db (snd (create_shipment_endpoint io fresh reg seen request db))"
| callback: "fulfillment_step reg db (fst (snd (callback_endpoint io locked now reg (post :: unit saga_post) provider request (db, ()))))"
| settle: "fulfillment_step reg db (snd (settlement_endpoint io reg get look request db))"
| dispatch: "fulfillment_step reg db (snd (dispatch_order_endpoint io now_text fresh track dispatch key db))"

text \<open>
  The same service when no two settlement files overlap: the queries of a file see the settlement rows
  that are there when it commits. Everything else may still interleave with it.
\<close>

inductive serial_step :: "registry \<Rightarrow> fulfillment_db \<Rightarrow> fulfillment_db \<Rightarrow> bool" for reg where
  settle: "(\<And>k. snd (look k) = fd_settlement_rows db) \<Longrightarrow> serial_step reg db (snd (settlement_endpoint io reg get look request db))"
| other: "fulfillment_step reg db db' \<Longrightarrow> fd_settlement_rows db' = fd_settlement_rows db \<Longrightarrow> serial_step reg db db'"

subsection \<open>Shipments\<close>

lemma same_parcel_sym: "same_parcel s t = same_parcel t s"
  unfolding same_parcel_def by metis

lemma shipments_ok_snoc:
  "shipments_ok (ss @ [s]) \<longleftrightarrow> shipments_ok ss \<and> \<not> (\<exists>t\<in>set ss. same_parcel s t)"
  by (auto simp: shipments_ok_def sorted_wrt_append same_parcel_sym)

lemma shipments_ok_map:
  "(\<And>s t. same_parcel (f s) (f t) = same_parcel s t) \<Longrightarrow> shipments_ok (map f ss) = shipments_ok ss"
  by (simp add: shipments_ok_def sorted_wrt_map)

lemma recorded_status_sel [simp]:
  "sh_id (recorded_status now request c s) = sh_id s"
  "sh_seller_order_id (recorded_status now request c s) = sh_seller_order_id s"
  "sh_order_id (recorded_status now request c s) = sh_order_id s"
  "sh_provider (recorded_status now request c s) = sh_provider s"
  "sh_tracking_code (recorded_status now request c s) = sh_tracking_code s"
  "sh_cod_amount_cents (recorded_status now request c s) = sh_cod_amount_cents s"
  by (simp_all add: recorded_status_def)

lemma shipments_ok_inj: "shipments_ok ss \<Longrightarrow> s \<in> set ss \<Longrightarrow> t \<in> set ss \<Longrightarrow> same_parcel s t \<Longrightarrow> s = t"
  by (induction ss) (auto simp: shipments_ok_def same_parcel_sym)

text \<open>Replacing the row with the identifier of \<open>found\<close> replaces that row and no other.\<close>

lemma replaced_row:
  assumes "shipments_ok ss" "found \<in> set ss"
  shows "map (\<lambda>s. if sh_id s = sh_id found then recorded_status now request c found else s) ss
       = map (\<lambda>s. if sh_id s = sh_id found then recorded_status now request c s else s) ss"
  using shipments_ok_inj [OF assms (1) _ assms (2)] by (auto simp: same_parcel_def)

lemma recorded_typed: "shipment_typed s \<Longrightarrow> shipment_typed (recorded_status now request c s)"
  by (auto simp: shipment_typed_def recorded_status_def as_courier_status_iff split: option.splits)

lemma create_shipment_inv:
  assumes "fulfillment_inv db"
  shows "fulfillment_inv (snd (create_shipment_endpoint io fresh reg seen request db))"
proof -
  have "shipment_typed (new_shipment fresh courier request)"
    if "ShipmentCreateRequest_valid request" "int4 (cr_cod_amount_cents request)" for courier
    using that as_courier_status_iff [of "''PICKUP_PENDING''" PICKUP_PENDING]
    by (simp add: shipment_typed_def new_shipment_def ShipmentCreateRequest_valid_def py_upper_def)
  moreover have "int4 (cr_cod_amount_cents request)" if "shipment_storable ss (new_shipment fresh courier request)" for ss courier
    using that by (simp add: shipment_storable_def new_shipment_def)
  ultimately show ?thesis using assms
    by (auto simp: create_shipment_endpoint_def create_shipment_def commit_def Let_def fulfillment_inv_def shipments_ok_snoc
        shipment_storable_def split: option.splits)
qed

lemma callback_db:
  assumes "shipments_ok (fd_shipments db)"
  shows "fst (snd (callback_endpoint io locked now reg post provider request (db, saga))) = db
    \<or> (\<exists>i c message. fst (snd (callback_endpoint io locked now reg post provider request (db, saga)))
         = db\<lparr>fd_shipments := map (\<lambda>s. if sh_id s = i then recorded_status now request c s else s) (fd_shipments db),
              fd_outbox := fd_outbox db @ [message]\<rparr>)"
proof (cases "fst (snd (callback_endpoint io locked now reg post provider request (db, saga))) = db")
  case False
  then obtain courier query found where "get_courier reg provider = Some courier"
      "callback_query (cu_provider courier) request = Some query" "find query (fd_shipments db) = Some found"
      "CourierCallbackRequest_valid request" "io" "\<not> locked"
    by (fastforce simp: callback_endpoint_def handle_callback_def split: option.splits if_splits)
  note found = this
  define c where "c = courier_canonical courier (Some (cb_status request))"
  have "found \<in> set (fd_shipments db)" using found (3) by (metis find_Some_iff nth_mem)
  note rows = replaced_row [OF assms this, of now request c]
  have "fst (snd (callback_endpoint io locked now reg post provider request (db, saga)))
      = db\<lparr>fd_shipments := map (\<lambda>s. if sh_id s = sh_id found then recorded_status now request c found else s) (fd_shipments db),
           fd_outbox := fd_outbox db @ [status_event (recorded_status now request c found) request c]\<rparr>"
    using found by (simp add: callback_endpoint_def handle_callback_def Let_def c_def split: option.splits prod.splits)
  then show ?thesis unfolding rows by blast
qed simp

lemma callback_db_any:
  "fst (snd (callback_endpoint io locked now reg post provider request (db, saga)))
     = fst (snd (callback_endpoint io locked now reg (post' :: unit saga_post) provider request (db, ())))"
  by (auto simp: callback_endpoint_def handle_callback_def Let_def split: option.splits prod.splits)

lemma callback_inv:
  assumes "fulfillment_inv db"
  shows "fulfillment_inv (fst (snd (callback_endpoint io locked now reg post provider request (db, saga))))"
proof -
  have ok: "shipments_ok (fd_shipments db)" and typed: "list_all shipment_typed (fd_shipments db)"
    using assms by (simp_all add: fulfillment_inv_def)
  have "shipments_ok (map (\<lambda>s. if sh_id s = i then recorded_status now request c s else s) (fd_shipments db))" for i c
    using ok by (subst shipments_ok_map) (auto simp: same_parcel_def)
  moreover have "list_all shipment_typed (map (\<lambda>s. if sh_id s = i then recorded_status now request c s else s) (fd_shipments db))" for i c
    using typed by (auto simp: list_all_iff recorded_typed)
  ultimately have "fulfillment_inv (db\<lparr>fd_shipments := map (\<lambda>s. if sh_id s = i then recorded_status now request c s else s) (fd_shipments db),
      fd_outbox := fd_outbox db @ [message]\<rparr>)" for i c message
    using assms by (simp add: fulfillment_inv_def)
  note written = this
  show ?thesis
    using callback_db [OF ok, of io locked now reg post provider request saga]
    by (elim disjE exE) (simp_all only: assms written)
qed

subsection \<open>Settlement rows\<close>

lemma keys_ok_snoc: "keys_ok (rows @ [r]) \<longleftrightarrow> keys_ok rows \<and> row_storable rows r"
  by (auto simp: keys_ok_def row_storable_def)

lemma keys_ok_last: "keys_ok (rows @ butlast own) \<and> last_storable rows own \<longleftrightarrow> keys_ok (rows @ own)"
proof (cases own rule: rev_cases)
  case (snoc own' r)
  then show ?thesis using keys_ok_snoc [of "rows @ own'" r] by (simp add: last_storable_def)
qed (simp add: last_storable_def)

lemma outcome_matched: "outcome_value o1 = ''matched'' \<longleftrightarrow> o1 = MATCHED"
  by (cases o1) simp_all

lemma settlement_row_sel [simp]:
  "row_key (settlement_row provider batch row c) = (provider, batch, py_strip (si_reference row))"
  "sr_seller_order_id (settlement_row provider batch row c) = fst c"
  "sr_expected_cents (settlement_row provider batch row c) = rc_expected_cents (snd c)"
  "sr_collected_cents (settlement_row provider batch row c) = rc_remitted_cents (snd c)"
  "sr_outcome (settlement_row provider batch row c) = outcome_value (rc_outcome (snd c))"
  by (simp_all add: settlement_row_def row_key_def split: prod.splits)

lemma classify_matched:
  assumes "rc_outcome (snd (classify_row provider get k shipments seen row)) = MATCHED"
  shows "fst (classify_row provider get k shipments seen row) \<noteq> None"
    and "fst (classify_row provider get k shipments seen row) \<notin> sr_seller_order_id ` set (filter matched_row seen)"
  using assms by (auto simp: classify_row_def Let_def reconcile_row_matched matched_row_def)

lemma money_ok_snoc:
  assumes "money_ok rows"
  shows "money_ok (rows @ [settlement_row provider batch row (classify_row provider get k shipments seen row)])"
proof (cases "rc_outcome (snd (classify_row provider get k shipments seen row)) = MATCHED")
  case True
  note amounts = reconcile_row_amounts
  have "rc_remitted_cents (snd (classify_row provider get k shipments seen row))
      = rc_expected_cents (snd (classify_row provider get k shipments seen row))
      \<and> 0 \<le> rc_expected_cents (snd (classify_row provider get k shipments seen row))"
    using True by (auto simp: classify_row_def Let_def dest: amounts)
  then show ?thesis using assms True classify_matched (1) [OF True] by (auto simp: money_ok_def matched_row_def)
next
  case False
  then show ?thesis using assms by (simp add: money_ok_def matched_row_def outcome_matched)
qed

lemma matched_once_snoc:
  assumes "matched_once seen"
  shows "matched_once (seen @ [settlement_row provider batch row (classify_row provider get k shipments seen row)])"
  using assms classify_matched (2) [of provider get k shipments seen row]
  by (auto simp: matched_once_def matched_row_def outcome_matched)

lemma ingest_rows_ok:
  "ingest_rows provider batch get look rows k own results inputs = Inr (own', results') \<Longrightarrow>
     keys_ok (rows @ butlast own) \<Longrightarrow> money_ok (rows @ own) \<Longrightarrow> last_storable rows own' \<Longrightarrow>
     keys_ok (rows @ own') \<and> money_ok (rows @ own') \<and>
     ((\<forall>k. snd (look k) = rows) \<longrightarrow> matched_once (rows @ own) \<longrightarrow> matched_once (rows @ own'))"
proof (induction inputs arbitrary: k own results)
  case Nil
  then show ?case using keys_ok_last by auto
next
  case (Cons row inputs)
  let ?c = "classify_row provider get k (fst (look k)) (snd (look k) @ own) row"
  have last: "last_storable rows own"
    and rest: "ingest_rows provider batch get look rows (Suc k) (own @ [settlement_row provider batch row ?c])
        (results @ [snd ?c]) inputs = Inr (own', results')"
    using Cons.prems (1) by (auto simp: Let_def split: if_splits)
  have "keys_ok (rows @ own)" using Cons.prems (2) last keys_ok_last by blast
  moreover have "money_ok (rows @ own @ [settlement_row provider batch row ?c])"
    using money_ok_snoc [OF Cons.prems (3)] by simp
  moreover have "matched_once (rows @ own @ [settlement_row provider batch row ?c])"
    if "\<forall>k. snd (look k) = rows" "matched_once (rows @ own)"
    using matched_once_snoc [OF that (2), of provider batch row get k "fst (look k)"] that (1) by simp
  ultimately show ?case using Cons.IH [OF rest] Cons.prems (4) by simp
qed

lemma ingest_settlement_inv:
  assumes "fulfillment_inv db"
  shows "fulfillment_inv (snd (settlement_endpoint io reg get look request db))"
    and "(\<And>k. snd (look k) = fd_settlement_rows db) \<Longrightarrow> matched_once (fd_settlement_rows db) \<Longrightarrow>
      matched_once (fd_settlement_rows (snd (settlement_endpoint io reg get look request db)))"
proof -
  have keys: "keys_ok (fd_settlement_rows db)" and money: "money_ok (fd_settlement_rows db)"
    using assms by (simp_all add: fulfillment_inv_def)
  have run: "keys_ok (fd_settlement_rows db @ own) \<and> money_ok (fd_settlement_rows db @ own) \<and>
      ((\<forall>k. snd (look k) = fd_settlement_rows db) \<longrightarrow> matched_once (fd_settlement_rows db) \<longrightarrow> matched_once (fd_settlement_rows db @ own))"
    if "ingest_rows provider batch get look (fd_settlement_rows db) 0 [] [] inputs
          = Inr (own, results)" "last_storable (fd_settlement_rows db) own" for provider batch inputs own results
    using ingest_rows_ok [OF that (1) _ _ that (2)] keys money by simp
  then show "fulfillment_inv (snd (settlement_endpoint io reg get look request db))" using assms
    by (auto simp: settlement_endpoint_def ingest_settlement_def Let_def fulfillment_inv_def split: option.splits sum.splits)
  show "matched_once (fd_settlement_rows (snd (settlement_endpoint io reg get look request db)))"
    if "\<And>k. snd (look k) = fd_settlement_rows db" "matched_once (fd_settlement_rows db)"
    using run that by (auto simp: settlement_endpoint_def ingest_settlement_def Let_def split: option.splits sum.splits)
qed

lemma dispatch_inv:
  "fulfillment_inv db \<Longrightarrow> fulfillment_inv (snd (dispatch_order_endpoint io now_text fresh track request key db))"
  by (simp add: dispatch_order_endpoint_def dispatch_order_def commit_def Let_def fulfillment_inv_def)

interpretation parcels: inductive_invariant no_fulfillment "fulfillment_step reg" fulfillment_inv for reg
proof unfold_locales
  show "no_fulfillment db \<Longrightarrow> fulfillment_inv db" for db
    by (simp add: no_fulfillment_def fulfillment_inv_def shipments_ok_def keys_ok_def money_ok_def)
  show "fulfillment_inv db \<Longrightarrow> fulfillment_step reg db db' \<Longrightarrow> fulfillment_inv db'" for db db'
    by (erule fulfillment_step.cases)
      (simp_all add: create_shipment_inv callback_inv ingest_settlement_inv(1) dispatch_inv)
qed

interpretation serial_parcels:
  inductive_invariant no_fulfillment "serial_step reg" "\<lambda>db. fulfillment_inv db \<and> matched_once (fd_settlement_rows db)" for reg
proof unfold_locales
  show "no_fulfillment db \<Longrightarrow> fulfillment_inv db \<and> matched_once (fd_settlement_rows db)" for db
    by (simp add: parcels.init_inv) (simp add: no_fulfillment_def matched_once_def)
  show "fulfillment_inv db' \<and> matched_once (fd_settlement_rows db')"
    if "fulfillment_inv db \<and> matched_once (fd_settlement_rows db)" and "serial_step reg db db'" for db db'
    using that(2,1) by cases (auto simp: ingest_settlement_inv dest: parcels.step_inv)
qed

section \<open>Properties\<close>

lemma shipments_ok_distinct: "shipments_ok ss \<Longrightarrow> distinct (map sh_seller_order_id ss)"
  by (induction ss) (auto simp: shipments_ok_def same_parcel_def)

lemma distinct_filter_le_1: "distinct (map f (filter P xs)) \<Longrightarrow> length (filter (\<lambda>x. P x \<and> f x = y) xs) \<le> 1"
  by (induction xs) (auto simp: image_iff filter_empty_conv split: if_splits)

text \<open>
  Property C13 (cash is recognised once): whatever shipments, callbacks, settlement files and
  dispatches the service takes, with requests that overlap and read tables of different moments, a
  seller order has at most one parcel, a line of a courier's batch is stored at most once, and a matched
  line remits exactly the amount that was expected of a known seller order. When no two settlement
  files overlap, a seller order has at most one matched line. Nothing in the service enforces that
  condition: \<open>concurrent_batches_match_twice\<close> shows what two files at once do.
\<close>

theorem cash_recognised_once:
  assumes "reachable no_fulfillment (fulfillment_step reg) db"
  shows "distinct (map sh_seller_order_id (fd_shipments db)) \<and> distinct (map row_key (fd_settlement_rows db))
    \<and> (\<forall>r\<in>set (fd_settlement_rows db). sr_outcome r = outcome_value MATCHED \<longrightarrow>
         sr_seller_order_id r \<noteq> None \<and> sr_collected_cents r = sr_expected_cents r)
    \<and> (reachable no_fulfillment (serial_step reg) db \<longrightarrow>
         (\<forall>i. length (filter (\<lambda>r. sr_outcome r = outcome_value MATCHED \<and> sr_seller_order_id r = Some i) (fd_settlement_rows db)) \<le> 1))"
proof -
  have inv: "shipments_ok (fd_shipments db)" "keys_ok (fd_settlement_rows db)" "money_ok (fd_settlement_rows db)"
    using parcels.reachable_inv [OF assms] by (simp_all add: fulfillment_inv_def)
  have "length (filter (\<lambda>r. matched_row r \<and> sr_seller_order_id r = Some i) (fd_settlement_rows db)) \<le> 1"
    if "reachable no_fulfillment (serial_step reg) db" for i
    using serial_parcels.reachable_inv [OF that] by (intro distinct_filter_le_1) (simp add: matched_once_def)
  then show ?thesis using inv shipments_ok_distinct by (auto simp: keys_ok_def money_ok_def list_all_iff matched_row_def)
qed

text \<open>
  What a shipment row can hold: in every reachable database the status of a shipment
  is a word of the canonical vocabulary, whatever words the couriers sent; the amount to collect is not
  negative and fits its column, the currency has three letters, and a parcel no courier has reported on
  is waiting for pick-up and not flagged.
\<close>

theorem shipment_rows_typed:
  assumes "reachable no_fulfillment (fulfillment_step reg) db" "s \<in> set (fd_shipments db)"
  shows "(\<exists>c. sh_status s = courier_value c) \<and> 0 \<le> sh_cod_amount_cents s \<and> sh_cod_amount_cents s < 2 ^ 31
    \<and> length (sh_currency s) = 3 \<and> (sh_raw_status s = None \<longrightarrow> sh_status s = courier_value PICKUP_PENDING \<and> \<not> sh_unmapped s)"
proof -
  have "shipment_typed s"
    using parcels.reachable_inv [OF assms (1)] assms (2) by (simp add: fulfillment_inv_def list_all_iff)
  then show ?thesis by (auto simp: shipment_typed_def int4_def as_courier_status_iff)
qed

text \<open>The keys that a file's rows get depend on the file alone.\<close>

lemma ingest_rows_keys:
  "ingest_rows provider batch get look rows k own results inputs = Inr (own', results') \<Longrightarrow>
     map row_key own' = map row_key own @ map (\<lambda>i. (provider, batch, py_strip (si_reference i))) inputs"
  by (induction inputs arbitrary: k own results) (auto simp: Let_def split: if_splits)

text \<open>
  A settlement file that is sent again: once a file with at least one row has been
  stored, the same file is refused, whatever the order service answers this time and whatever else the
  queries see, and nothing is written. The status depends on the number of rows: a file of one row
  meets the unique index at the commit and is answered with 409, a longer one meets it in the loop,
  where nothing catches it.
\<close>

theorem resent_batch_refused:
  assumes "ingest_settlement io reg get look request db = (Inr summary, db')" "st_rows request \<noteq> []"
  shows "ingest_settlement io' reg get' look' request db'
    = (Inl (if length (st_rows request) = 1 then HTTPException 409 else Uncaught ''IntegrityError''), db')"
proof -
  obtain courier own results where c: "get_courier reg (st_provider request) = Some courier"
    and own: "ingest_rows (cu_provider courier) (st_batch_reference request) get look
        (fd_settlement_rows db) 0 [] [] (st_rows request) = Inr (own, results)"
    and db': "fd_settlement_rows db' = fd_settlement_rows db @ own"
    using assms (1) by (auto simp: ingest_settlement_def Let_def split: option.splits sum.splits prod.splits if_splits)
  obtain i inputs where rows: "st_rows request = i # inputs" using assms (2) by (cases "st_rows request") auto
  have "map row_key own = map (\<lambda>i. (cu_provider courier, st_batch_reference request, py_strip (si_reference i))) (st_rows request)"
    using ingest_rows_keys [OF own] by simp
  then have "(cu_provider courier, st_batch_reference request, py_strip (si_reference i)) \<in> row_key ` set own"
    using rows by (metis list.set_intros(1) list.set_map list.simps(9))
  then have stored: "\<not> last_storable (fd_settlement_rows db')
      [settlement_row (cu_provider courier) (st_batch_reference request) i c]" for c
    by (simp add: last_storable_def row_storable_def db' image_Un)
  then show ?thesis
    by (cases inputs) (simp_all add: ingest_settlement_def c rows Let_def last_storable_def [of _ "[]"])
qed

text \<open>
  Which amount a remittance is compared with: for a delivered parcel that has not
  been settled, a courier that remits the amount recorded on the shipment when it went out is matched
  exactly when the order service's present subtotal is that amount, whenever the order service answers.
  The recorded amount decides only when it does not answer.
\<close>

theorem remittance_compared_with_order:
  assumes "find (\<lambda>s. sh_provider s = provider \<and> sh_tracking_code s = Some (py_strip (si_reference row))) shipments = Some shipment"
    and "seller_order_snapshot (get k (sh_order_id shipment)) (sh_seller_order_id shipment) = Some known"
    and "kn_status known = ''DELIVERED''" "py_strip (si_reference row) \<noteq> []"
    and "\<not> (\<exists>r\<in>set seen. sr_seller_order_id r = Some (sh_seller_order_id shipment) \<and> sr_outcome r = outcome_value MATCHED)"
    and "si_collected_cents row = sh_cod_amount_cents shipment" "0 \<le> sh_cod_amount_cents shipment"
  shows "rc_outcome (snd (classify_row provider get k shipments seen row)) = MATCHED
    \<longleftrightarrow> kn_expected_cents known = sh_cod_amount_cents shipment"
  using assms by (auto simp: classify_row_def Let_def reconcile_row_matched known_for_def dict_get_null_def)

section \<open>One parcel, from its creation to the settlement\<close>

definition demo_couriers :: registry where
  "demo_couriers = [(''manual'', manual_courier)]"

definition demo_parcel :: ShipmentCreateRequest where
  "demo_parcel = \<lparr>cr_seller_order_id = ''s1'', cr_order_id = ''o1'', cr_provider = ''Manual'',
     cr_tracking_code = Some ''T1'', cr_cod_amount_cents = 1500, cr_currency = ''bdt''\<rparr>"

definition demo_delivered :: CourierCallbackRequest where
  "demo_delivered = \<lparr>cb_tracking_code = Some ''T1'', cb_seller_order_id = None, cb_status = ''Delivered'', cb_occurred_at = None\<rparr>"

definition demo_batch :: "string \<Rightarrow> SettlementRequest" where
  "demo_batch b = \<lparr>st_provider = ''manual'', st_batch_reference = b,
     st_rows = [\<lparr>si_reference = ''T1'', si_collected_cents = 1500\<rparr>, \<lparr>si_reference = ''T9'', si_collected_cents = 70\<rparr>]\<rparr>"

definition demo_down :: saga_get where
  "demo_down k i = None"

definition demo_db0 :: fulfillment_db where
  "demo_db0 = \<lparr>fd_records = [], fd_shipments = [], fd_settlement_rows = [], fd_keys = [], fd_outbox = []\<rparr>"

definition demo_db1 :: fulfillment_db where
  "demo_db1 = snd (create_shipment_endpoint True ''p1'' demo_couriers [] demo_parcel demo_db0)"

definition demo_db2 :: fulfillment_db where
  "demo_db2 = fst (snd (callback_endpoint True False 7 demo_couriers (\<lambda>_ _ _ _ _. (SagaUnreachable, ())) ''manual'' demo_delivered
     (demo_db1, ())))"

definition demo_look :: settlement_look where
  "demo_look k = (fd_shipments demo_db2, fd_settlement_rows demo_db2)"

definition demo_db3 :: fulfillment_db where
  "demo_db3 = snd (settlement_endpoint True demo_couriers demo_down demo_look (demo_batch ''B1'') demo_db2)"

lemma demo_parcels_reachable: "reachable no_fulfillment (fulfillment_step demo_couriers) demo_db3"
proof -
  have "no_fulfillment demo_db0" by (simp add: no_fulfillment_def demo_db0_def)
  then have "reachable no_fulfillment (fulfillment_step demo_couriers) demo_db0" by (rule reachable.intros)
  then have "reachable no_fulfillment (fulfillment_step demo_couriers) demo_db1"
    unfolding demo_db1_def by (rule reachable.intros) (rule fulfillment_step.create)
  then have "reachable no_fulfillment (fulfillment_step demo_couriers) demo_db2"
    unfolding demo_db2_def by (rule reachable.intros) (rule fulfillment_step.callback)
  then show ?thesis
    unfolding demo_db3_def by (rule reachable.intros) (rule fulfillment_step.settle)
qed

lemma demo_parcels_serial: "reachable no_fulfillment (serial_step demo_couriers) demo_db3"
proof -
  have "no_fulfillment demo_db0" by (simp add: no_fulfillment_def demo_db0_def)
  then have "reachable no_fulfillment (serial_step demo_couriers) demo_db0" by (rule reachable.intros)
  then have "reachable no_fulfillment (serial_step demo_couriers) demo_db1"
    by (rule reachable.intros, unfold demo_db1_def, intro serial_step.other fulfillment_step.create) code_simp
  then have "reachable no_fulfillment (serial_step demo_couriers) demo_db2"
    by (rule reachable.intros, unfold demo_db2_def, intro serial_step.other fulfillment_step.callback) code_simp
  then show ?thesis
    unfolding demo_db3_def by (rule reachable.intros) (rule serial_step.settle, simp add: demo_look_def)
qed

definition demo_shipment :: Shipment where
  "demo_shipment = \<lparr>sh_id = ''p1'', sh_seller_order_id = ''s1'', sh_order_id = ''o1'', sh_provider = ''manual'',
     sh_tracking_code = Some ''T1'', sh_status = ''DELIVERED'', sh_raw_status = Some ''Delivered'', sh_raw_status_at = Some 7,
     sh_unmapped = False, sh_cod_amount_cents = 1500, sh_currency = ''BDT''\<rparr>"

lemma demo_db2_shipments: "fd_shipments demo_db2 = [demo_shipment]"
  by code_simp

lemma demo_db3_rows:
  "map (\<lambda>r. (sr_outcome r, sr_collected_cents r)) (fd_settlement_rows demo_db3) = [(outcome_value MATCHED, 1500), (outcome_value UNKNOWN_ORDER, 70)]"
  by code_simp

lemma settlement_keeps_shipments: "fd_shipments (snd (settlement_endpoint io reg get look request db)) = fd_shipments db"
  by (simp add: settlement_endpoint_def ingest_settlement_def Let_def split: option.splits sum.splits prod.splits)

theorem cash_recognised_once_witness:
  "(\<exists>r. r \<in> set (fd_settlement_rows demo_db3) \<and> sr_collected_cents r = 1500 \<and> sr_expected_cents r = 1500) \<and>
   length (filter (\<lambda>r. sr_outcome r = outcome_value MATCHED \<and> sr_seller_order_id r = Some ''s1'') (fd_settlement_rows demo_db3)) \<le> 1"
proof -
  have "(outcome_value MATCHED, 1500) \<in> (\<lambda>r. (sr_outcome r, sr_collected_cents r)) ` set (fd_settlement_rows demo_db3)"
    using demo_db3_rows by (metis list.set_intros(1) list.set_map)
  then obtain r where "r \<in> set (fd_settlement_rows demo_db3)" "sr_outcome r = outcome_value MATCHED" "sr_collected_cents r = 1500"
    by auto
  then show ?thesis using cash_recognised_once [OF demo_parcels_reachable] demo_parcels_serial by metis
qed

theorem shipment_rows_typed_witness:
  "demo_shipment \<in> set (fd_shipments demo_db3) \<and> (\<exists>c. sh_status demo_shipment = courier_value c)"
proof -
  have "demo_shipment \<in> set (fd_shipments demo_db3)"
    by (simp add: demo_db3_def settlement_keeps_shipments demo_db2_shipments)
  then show ?thesis using shipment_rows_typed [OF demo_parcels_reachable] by blast
qed

theorem resent_batch_refused_witness:
  "ingest_settlement True demo_couriers demo_down (\<lambda>_. ([], [])) (demo_batch ''B1'') demo_db3 = (Inl (Uncaught ''IntegrityError''), demo_db3)"
proof -
  obtain r d where rd: "ingest_settlement True demo_couriers demo_down demo_look (demo_batch ''B1'') demo_db2 = (r, d)"
    by fastforce
  have "isl (fst (ingest_settlement True demo_couriers demo_down demo_look (demo_batch ''B1'') demo_db2)) = False"
    by code_simp
  moreover have "SettlementRequest_valid (demo_batch ''B1'')" by code_simp
  ultimately have "d = demo_db3" "\<not> isl r" using rd by (simp_all add: demo_db3_def settlement_endpoint_def)
  with rd obtain s where
    "ingest_settlement True demo_couriers demo_down demo_look (demo_batch ''B1'') demo_db2 = (Inr s, demo_db3)"
    by (cases r) auto
  from resent_batch_refused [OF this, of True demo_down "\<lambda>_. ([], [])"] show ?thesis by (simp add: demo_batch_def)
qed

text \<open>The order's subtotal has become 1400 since the parcel went out with 1500 to collect.\<close>

definition demo_revised :: saga_get where
  "demo_revised k i = Some (200, [\<lparr>sv_id = ''s1'', sv_subtotal_cents = 1400, sv_status = ''DELIVERED''\<rparr>])"

theorem remittance_compared_with_order_witness:
  "rc_outcome (snd (classify_row ''manual'' demo_revised 0 (fd_shipments demo_db2) [] \<lparr>si_reference = ''T1'', si_collected_cents = 1500\<rparr>))
     \<noteq> MATCHED"
proof -
  have "py_strip ''T1'' = ''T1''" by code_simp
  moreover from this have found: "find (\<lambda>s. sh_provider s = ''manual''
        \<and> sh_tracking_code s = Some (py_strip (si_reference \<lparr>si_reference = ''T1'', si_collected_cents = 1500\<rparr>)))
      (fd_shipments demo_db2) = Some demo_shipment"
    by (simp add: demo_db2_shipments demo_shipment_def)
  moreover have snapshot: "seller_order_snapshot (demo_revised 0 (sh_order_id demo_shipment)) (sh_seller_order_id demo_shipment)
      = Some \<lparr>kn_expected_cents = 1400, kn_status = ''DELIVERED''\<rparr>"
    by (simp add: seller_order_snapshot_def demo_revised_def demo_shipment_def)
  ultimately show ?thesis
    using remittance_compared_with_order [where seen = "[]" and get = demo_revised and k = 0, OF found snapshot]
    by (simp add: demo_shipment_def)
qed

text \<open>
  Two files at once: the search for an earlier settlement takes no lock. A second
  file of the courier that has read the table before the first one committed, with another batch
  reference and the same parcel, is stored as matched as well, so the seller order then has two
  matched lines of 1500 each.
\<close>

theorem concurrent_batches_match_twice:
  "map (\<lambda>r. (sr_batch_reference r, sr_outcome r, sr_collected_cents r))
     (filter (\<lambda>r. sr_seller_order_id r = Some (''s1''))
       (fd_settlement_rows (snd (settlement_endpoint True demo_couriers demo_down demo_look (demo_batch ''B2'') demo_db3))))
   = [(''B1'', ''matched'', 1500), (''B2'', ''matched'', 1500)]"
  by code_simp

end
