(* ===== verification/Delivery_Flow.thy ===== *)
theory Delivery_Flow
  imports Fulfillment Order_Lifecycle
begin

text \<open>
  The fulfilment service and the order service together: a courier's callback drives
  \<open>transition_seller_order\<close>, and a settlement file is compared with the answer of
  \<open>get_seller_orders\<close>.
\<close>

section \<open>The calls between the services\<close>

text \<open>
  What becomes of the guarded call: the circuit breaker or the bulkhead refuses it, it is lost
  before the order service takes it, the order service takes it and the answer comes too late, or the
  answer arrives.
\<close>

datatype call_fate = CallRefused | CallLost | CallLate | CallAnswered

definition courier_action :: "string \<Rightarrow> SellerOrderActionRequest" where
  "courier_action reason =
     \<lparr>ar_reason = (if reason = [] then None else Some reason), ar_courier_name = None, ar_tracking_code = None\<rparr>"

definition order_saga_post :: "bool \<Rightarrow> int \<Rightarrow> call_fate \<Rightarrow> order_db saga_post" where
  "order_saga_post io now fate order_id seller_order_id action reason odb =
     (case transition_seller_order io now order_id seller_order_id action (courier_action reason) odb of
        (r, odb') \<Rightarrow>
          (case fate of
             CallRefused \<Rightarrow> (SagaUnavailable, odb)
           | CallLost \<Rightarrow> (SagaUnreachable, odb)
           | CallLate \<Rightarrow> (SagaUnreachable, odb')
           | CallAnswered \<Rightarrow> (SagaStatus (http_status 200 r), odb')))"

text \<open>
  What becomes of the question about an order at the \<open>k\<close>-th row of a settlement file: it is answered,
  it gets no answer in time, or the answer has another status.
\<close>

datatype get_fate = GetAnswered | GetLost | GetStatus int

definition order_saga_get :: "(nat \<Rightarrow> get_fate) \<Rightarrow> order_db \<Rightarrow> saga_get" where
  "order_saga_get fates odb k order_id =
     (case fates k of
        GetAnswered \<Rightarrow>
          Some (200, map (\<lambda>(so, _). \<lparr>sv_id = so_id so, sv_subtotal_cents = so_subtotal_cents so, sv_status = so_status so\<rparr>)
                  (ob_seller_orders (get_seller_orders odb order_id)))
      | GetLost \<Rightarrow> None
      | GetStatus status_code \<Rightarrow> Some (status_code, []))"

text \<open>A callback that reaches its parcel, from a courier whose word has a canonical meaning.\<close>

definition callback_finds ::
  "registry \<Rightarrow> string \<Rightarrow> CourierCallbackRequest \<Rightarrow> fulfillment_db \<Rightarrow> CourierStatus \<Rightarrow> Shipment \<Rightarrow> bool" where
  "callback_finds reg provider request db status shipment \<longleftrightarrow>
     (\<exists>courier query. get_courier reg provider = Some courier
        \<and> callback_query (cu_provider courier) request = Some query
        \<and> find query (fd_shipments db) = Some shipment
        \<and> courier_canonical courier (Some (cb_status request)) = Some status)"

abbreviation saga_row_of :: "order_db \<Rightarrow> Shipment \<Rightarrow> seller_order option" where
  "saga_row_of odb shipment \<equiv>
     find (\<lambda>so. so_id so = sh_seller_order_id shipment \<and> so_order_id so = sh_order_id shipment) (od_seller_orders odb)"

section \<open>One callback\<close>

lemma find_map_cong: "(\<And>x. Q (f x) = Q x) \<Longrightarrow> find Q (map f xs) = map_option f (find Q xs)"
  by (induction xs) auto

lemma callback_query_recorded:
  assumes "callback_query provider request = Some query"
  shows "query (recorded_status now request' c s) = query s"
  using assms by (auto simp: callback_query_def split: if_splits option.splits)

definition callback_reason :: "string \<Rightarrow> CourierCallbackRequest \<Rightarrow> string" where
  "callback_reason provider request = ''courier '' @ provider @ '' reported '' @ cb_status request"

text \<open>What a callback with a meaning does, and that the next one finds the same parcel.\<close>

lemma handle_callback_finds:
  assumes "callback_finds reg provider request db status shipment" "action_for (Some status) = Some action"
    and "shipments_ok (fd_shipments db)"
  obtains resp db' where
    "handle_callback True False now reg post provider request (db, odb)
       = (Inr resp, db', snd (post (sh_order_id shipment) (sh_seller_order_id shipment) action (callback_reason provider request) odb))"
    "cl_action_result resp
       = Some (drive_outcome (fst (post (sh_order_id shipment) (sh_seller_order_id shipment) action (callback_reason provider request) odb)))"
    "callback_finds reg provider request db' status (recorded_status now request (Some status) shipment)"
    "fd_shipments db' = map (\<lambda>s. if sh_id s = sh_id shipment then recorded_status now request (Some status) s else s) (fd_shipments db)"
    "fd_settlement_rows db' = fd_settlement_rows db"
proof -
  obtain courier query where c: "get_courier reg provider = Some courier"
      "callback_query (cu_provider courier) request = Some query" "find query (fd_shipments db) = Some shipment"
      "courier_canonical courier (Some (cb_status request)) = Some status"
    using assms (1) by (auto simp: callback_finds_def)
  have "shipment \<in> set (fd_shipments db)" using c (3) by (metis find_Some_iff nth_mem)
  note rows = replaced_row [OF assms (3) this, of now request "Some status"]
  define f where "f = (\<lambda>s. if sh_id s = sh_id shipment then recorded_status now request (Some status) s else s)"
  define db' where "db' = db\<lparr>fd_shipments := map f (fd_shipments db),
      fd_outbox := fd_outbox db @ [status_event (recorded_status now request (Some status) shipment) request (Some status)]\<rparr>"
  define resp where "resp = callback_response (recorded_status now request (Some status) shipment) request (Some status)
    (Some (drive_outcome (fst (post (sh_order_id shipment) (sh_seller_order_id shipment) action (callback_reason provider request) odb))))"
  have "find query (map f (fd_shipments db)) = Some (f shipment)"
    using c (3) callback_query_recorded [OF c (2)] by (subst find_map_cong) (simp_all add: f_def)
  then have finds: "callback_finds reg provider request db' status (recorded_status now request (Some status) shipment)"
    using c by (simp add: callback_finds_def db'_def f_def)
  have "handle_callback True False now reg post provider request (db, odb)
      = (Inr resp, db', snd (post (sh_order_id shipment) (sh_seller_order_id shipment) action (callback_reason provider request) odb))"
    using c assms (2)
    by (simp add: handle_callback_def drive_seller_order_def rows callback_reason_def db'_def resp_def f_def Let_def split: prod.splits)
  then show ?thesis by (rule that) (use finds in \<open>simp_all add: resp_def db'_def f_def callback_response_def\<close>)
qed

section \<open>The order service's side\<close>

text \<open>Whether the call takes effect at the order service.\<close>

definition takes_effect :: "call_fate \<Rightarrow> bool" where
  "takes_effect fate \<longleftrightarrow> fate = CallLate \<or> fate = CallAnswered"

lemma order_saga_post_state:
  "snd (order_saga_post io now fate oid sid action reason odb)
     = (if takes_effect fate then snd (transition_seller_order io now oid sid action (courier_action reason) odb) else odb)"
  by (cases fate) (simp_all add: order_saga_post_def takes_effect_def split: prod.splits)

lemma deliver_plan:
  "plan_transition ''deliver'' ''DISPATCHED'' reason =
     \<lparr>cd_outcome = COD_OK, cd_to = Some S_DELIVERED, cd_event = Some ''SellerOrderDelivered'', cd_effect = EFFECT_CONSUME,
      cd_detail = py_strip reason\<rparr>"
proof -
  have "''DISPATCHED'' = sos_value S_DISPATCHED" by simp
  then show ?thesis by (subst plan_transition_ok) (blast intro: cod_arrow.deliver)
qed

lemma deliver_refused: "status \<noteq> ''DISPATCHED'' \<Longrightarrow> cd_outcome (plan_transition ''deliver'' status reason) = COD_NOT_ALLOWED"
  by (cases "as_status status") (auto simp: plan_transition_def ACTIONS_def as_status_Some Let_def)

lemma moved_subtotal [simp]: "so_subtotal_cents (moved_seller_order action now request d so) = so_subtotal_cents so"
  by (simp add: moved_seller_order_def stamp_action_def Let_def)

text \<open>The order database after a delivery that the order service accepts.\<close>

definition delivered_db :: "int \<Rightarrow> string \<Rightarrow> Shipment \<Rightarrow> order_db \<Rightarrow> order_db" where
  "delivered_db now reason shipment odb =
     snd (transition_seller_order True now (sh_order_id shipment) (sh_seller_order_id shipment) ''deliver'' (courier_action reason) odb)"

lemma deliver_dispatched:
  assumes "saga_row_of odb shipment = Some so" "so_status so = ''DISPATCHED''"
  obtains so' where
    "transition_seller_order True now (sh_order_id shipment) (sh_seller_order_id shipment) ''deliver'' (courier_action reason) odb
       = (Inr (so', ''consume''), delivered_db now reason shipment odb)"
    "so_status so' = ''DELIVERED''" "so_subtotal_cents so' = so_subtotal_cents so"
    "so_id so' = sh_seller_order_id shipment" "so_order_id so' = sh_order_id shipment"
    "od_seller_orders (delivered_db now reason shipment odb)
       = map (\<lambda>x. if so_id x = sh_seller_order_id shipment then so' else x) (od_seller_orders odb)"
proof -
  have ids: "so_id so = sh_seller_order_id shipment" "so_order_id so = sh_order_id shipment"
    using assms (1) by (auto simp: find_Some_iff)
  define d where "d = plan_transition ''deliver'' (so_status so) (case ar_reason (courier_action reason) of None \<Rightarrow> [] | Some r \<Rightarrow> r)"
  have d: "cod_ok d" "cd_to d = Some S_DELIVERED" "effect_value (cd_effect d) = ''consume''"
    using assms (2) by (simp_all add: d_def deliver_plan cod_ok_def effect_value_def)
  show ?thesis
    using that [of "moved_seller_order ''deliver'' now (courier_action reason) d so"] assms (1) ids d
    by (simp add: delivered_db_def transition_seller_order_def Let_def add_outbox_def update_seller_orders_def flip: d_def)
qed

lemma deliver_again:
  assumes "saga_row_of odb shipment = Some so" "so_status so \<noteq> ''DISPATCHED''"
  shows "transition_seller_order io now (sh_order_id shipment) (sh_seller_order_id shipment) ''deliver'' request odb
    = (Inl (HTTPException 409), odb)"
  using assms deliver_refused [OF assms (2)]
  by (simp add: transition_seller_order_def Let_def cod_ok_def cod_http_status_def)

lemma find_replaced:
  "distinct (map so_id rows) \<Longrightarrow> find (\<lambda>x. so_id x = i \<and> so_order_id x = j) rows = Some so \<Longrightarrow>
     so_id so' = i \<Longrightarrow> so_order_id so' = j \<Longrightarrow>
     find (\<lambda>x. so_id x = i \<and> so_order_id x = j) (map (\<lambda>x. if so_id x = i then so' else x) rows) = Some so'"
  by (induction rows) (auto simp: find_Some_iff split: if_splits)

lemma delivered_row:
  assumes "saga_row_of odb shipment = Some so" "so_status so = ''DISPATCHED''" "distinct (map so_id (od_seller_orders odb))"
  shows "\<exists>so'. saga_row_of (delivered_db now reason shipment odb) shipment = Some so' \<and> so_status so' = ''DELIVERED''
    \<and> so_subtotal_cents so' = so_subtotal_cents so"
proof -
  obtain so' where so': "so_status so' = ''DELIVERED''" "so_subtotal_cents so' = so_subtotal_cents so"
      "so_id so' = sh_seller_order_id shipment" "so_order_id so' = sh_order_id shipment"
    "od_seller_orders (delivered_db now reason shipment odb)
       = map (\<lambda>x. if so_id x = sh_seller_order_id shipment then so' else x) (od_seller_orders odb)"
    by (rule deliver_dispatched [OF assms (1,2)])
  show ?thesis unfolding so' (5) using find_replaced [OF assms (3,1) so' (3,4)] so' (1,2) by simp
qed

lemma delivered_distinct:
  assumes "saga_row_of odb shipment = Some so" "so_status so = ''DISPATCHED''" "distinct (map so_id (od_seller_orders odb))"
  shows "distinct (map so_id (od_seller_orders (delivered_db now reason shipment odb)))"
proof -
  obtain so' where so': "so_id so' = sh_seller_order_id shipment"
    "od_seller_orders (delivered_db now reason shipment odb)
       = map (\<lambda>x. if so_id x = sh_seller_order_id shipment then so' else x) (od_seller_orders odb)"
    by (rule deliver_dispatched [OF assms (1,2)])
  then have "map so_id (od_seller_orders (delivered_db now reason shipment odb)) = map so_id (od_seller_orders odb)" by simp
  then show ?thesis using assms (3) by simp
qed

text \<open>What the order service answers to the second report of a delivery.\<close>

lemma second_report:
  assumes "saga_row_of odb shipment = Some so" "so_status so = ''DISPATCHED''" "distinct (map so_id (od_seller_orders odb))"
  shows "order_saga_post True now2 CallAnswered (sh_order_id shipment) (sh_seller_order_id shipment) ''deliver'' reason
        (if takes_effect fate then delivered_db now1 reason shipment odb else odb)
      = (SagaStatus (if takes_effect fate then 409 else 200),
         delivered_db (if takes_effect fate then now1 else now2) reason shipment odb)"
proof (cases "takes_effect fate")
  case True
  obtain so' where "saga_row_of (delivered_db now1 reason shipment odb) shipment = Some so'" "so_status so' \<noteq> ''DISPATCHED''"
    using delivered_row [OF assms, of now1 reason] by auto
  then show ?thesis using deliver_again True by (simp add: order_saga_post_def http_status_def)
next
  case False
  show ?thesis
    by (rule deliver_dispatched [OF assms (1,2), of now2 reason]) (use False in \<open>simp add: order_saga_post_def http_status_def\<close>)
qed

lemma find_only:
  assumes "x \<in> set xs" "P x" "\<And>y. y \<in> set xs \<Longrightarrow> P y \<Longrightarrow> y = x"
  shows "find P xs = Some x"
proof (cases "find P xs")
  case None then show ?thesis using assms (1,2) find_NoneD by fast
next
  case (Some y) then show ?thesis using assms (3) [of y] find_SomeD [OF Some] by simp
qed

text \<open>What the settlement run reads of a seller order.\<close>

lemma snapshot_of_order:
  assumes "saga_row_of odb shipment = Some so" "distinct (map so_id (od_seller_orders odb))"
  shows "seller_order_snapshot (order_saga_get fates odb k (sh_order_id shipment)) (sh_seller_order_id shipment)
    = (if fates k = GetAnswered then Some \<lparr>kn_expected_cents = so_subtotal_cents so, kn_status = so_status so\<rparr> else None)"
proof (cases "fates k = GetAnswered")
  case False
  then show ?thesis by (cases "fates k") (simp_all add: order_saga_get_def seller_order_snapshot_def)
next
  case True
  have so: "so \<in> set (od_seller_orders odb)" "so_id so = sh_seller_order_id shipment" "so_order_id so = sh_order_id shipment"
    using assms (1) by (auto simp: find_Some_iff)
  then have child: "so \<in> set (children_of odb (sh_order_id shipment))" by (simp add: children_of_def)
  have one: "x = so" if "x \<in> set (children_of odb (sh_order_id shipment))" "so_id x = sh_seller_order_id shipment" for x
    using that so assms (2) by (auto simp: children_of_def distinct_map inj_on_def)
  define f where "f = (\<lambda>so :: seller_order. \<lparr>sv_id = so_id so, sv_subtotal_cents = so_subtotal_cents so, sv_status = so_status so\<rparr>)"
  have "order_saga_get fates odb k (sh_order_id shipment) = Some (200, map f (children_of odb (sh_order_id shipment)))"
    by (simp add: order_saga_get_def True get_seller_orders_def Let_def f_def comp_def)
  moreover have "find (\<lambda>v. sv_id v = sh_seller_order_id shipment) (map f (children_of odb (sh_order_id shipment))) = Some (f so)"
  proof (rule find_only)
    show "f so \<in> set (map f (children_of odb (sh_order_id shipment)))" using child by simp
    show "sv_id (f so) = sh_seller_order_id shipment" using so (2) by (simp add: f_def)
  next
    fix v assume "v \<in> set (map f (children_of odb (sh_order_id shipment)))" and v: "sv_id v = sh_seller_order_id shipment"
    then obtain x where x: "x \<in> set (children_of odb (sh_order_id shipment))" "v = f x" by auto
    with v have "so_id x = sh_seller_order_id shipment" by (simp add: f_def)
    with one [OF x (1)] x (2) show "v = f so" by simp
  qed
  ultimately show ?thesis by (simp add: True seller_order_snapshot_def f_def)
qed

section \<open>Properties\<close>

text \<open>
  Property C6 (a delivery that is reported again): a courier reports a parcel delivered whose
  seller order is dispatched, and reports it again. Whatever became of the first call to the order
  service, once a report gets through the seller order is delivered, and the order database is that of
  exactly one accepted delivery: the one of the first report when its call took effect, even when its
  answer was lost, and else the one of the second. Neither report is refused, and the second is told
  apart by its result word.
\<close>

theorem resent_delivery_converges:
  assumes "reachable no_fulfillment (fulfillment_step reg) db"
    and "callback_finds reg provider request db DELIVERED shipment"
    and "saga_row_of odb shipment = Some so" "so_status so = ''DISPATCHED''"
    and "distinct (map so_id (od_seller_orders odb))"
  shows "\<exists>r1 db1 odb1 r2 db2.
      handle_callback True False now1 reg (order_saga_post True now1 fate) provider request (db, odb) = (Inr r1, db1, odb1)
    \<and> handle_callback True False now2 reg (order_saga_post True now2 CallAnswered) provider request (db1, odb1)
        = (Inr r2, db2, delivered_db (if takes_effect fate then now1 else now2) (callback_reason provider request) shipment odb)
    \<and> cl_action_result r2 = Some (if takes_effect fate then ''not_applicable'' else ''applied'')"
proof -
  have action: "action_for (Some DELIVERED) = Some ''deliver''" by (simp add: action_for_def required_actions)
  have ok: "shipments_ok (fd_shipments db)"
    using parcels.reachable_inv [OF assms (1)] by (simp add: fulfillment_inv_def)
  let ?reason = "callback_reason provider request"
  obtain r1 db1 where 1: "handle_callback True False now1 reg (order_saga_post True now1 fate) provider request (db, odb)
      = (Inr r1, db1, if takes_effect fate then delivered_db now1 ?reason shipment odb else odb)"
    and finds: "callback_finds reg provider request db1 DELIVERED (recorded_status now1 request (Some DELIVERED) shipment)"
    and rows: "fd_shipments db1 = map (\<lambda>s. if sh_id s = sh_id shipment then recorded_status now1 request (Some DELIVERED) s else s) (fd_shipments db)"
    by (rule handle_callback_finds [OF assms (2) action ok, of now1 "order_saga_post True now1 fate" odb])
      (simp add: order_saga_post_state delivered_db_def)
  have ok1: "shipments_ok (fd_shipments db1)"
    using ok unfolding rows by (subst shipments_ok_map) (auto simp: same_parcel_def)
  let ?odb1 = "if takes_effect fate then delivered_db now1 ?reason shipment odb else odb"
  note post = second_report [OF assms (3-5), where ?now1.0 = now1 and ?now2.0 = now2 and fate = fate and reason = ?reason]
  obtain r2 db2 where 2: "handle_callback True False now2 reg (order_saga_post True now2 CallAnswered) provider request (db1, ?odb1)
      = (Inr r2, db2, delivered_db (if takes_effect fate then now1 else now2) ?reason shipment odb)"
    and word: "cl_action_result r2 = Some (drive_outcome (SagaStatus (if takes_effect fate then 409 else 200)))"
    by (rule handle_callback_finds [OF finds action ok1, of now2 "order_saga_post True now2 CallAnswered" ?odb1])
      (simp only: recorded_status_sel post fst_conv snd_conv)
  show ?thesis using 1 2 word by (auto simp: drive_outcome_def)
qed

text \<open>
  Property C29 (a delivery and its settlement): a courier reports a parcel delivered and then remits an
  amount for it. When the order service answers the settlement's question, the row is compared with the
  seller order's subtotal, and it is flagged as cash for an order that was not delivered when the
  report's call never took effect, although the callback was answered as a success. When the order
  service does not answer, the shipment is believed instead: it is recorded as delivered whatever became
  of the report's call, so the row is compared with the amount recorded on the shipment and is matched
  when it is equal, even for a delivery the order service never learned of.
\<close>

theorem settlement_after_delivery:
  assumes "reachable no_fulfillment (fulfillment_step reg) db"
    and "callback_finds reg provider request db DELIVERED shipment"
    and "saga_row_of odb shipment = Some so" "so_status so = ''DISPATCHED''" "0 \<le> remitted"
    and "distinct (map so_id (od_seller_orders odb))"
    and "sh_tracking_code shipment = Some reference" "py_strip reference = reference" "reference \<noteq> []"
    and "sr_outcome ` {r \<in> set (fd_settlement_rows db). sr_seller_order_id r = Some (sh_seller_order_id shipment)}
           \<subseteq> {outcome_value SHORT, outcome_value OVER, outcome_value NOT_DELIVERED}"
  shows "\<exists>r1 db1 odb1.
      handle_callback True False now reg (order_saga_post True now fate) provider request (db, odb) = (Inr r1, db1, odb1)
    \<and> (\<exists>s\<in>set (fd_shipments db1). sh_id s = sh_id shipment \<and> sh_status s = courier_value DELIVERED)
    \<and> rc_outcome (snd (classify_row (sh_provider shipment) (order_saga_get fates odb1) k (fd_shipments db1) (fd_settlement_rows db1)
          \<lparr>si_reference = reference, si_collected_cents = remitted\<rparr>))
        = (let expected = if fates k = GetAnswered then so_subtotal_cents so else sh_cod_amount_cents shipment in
           if fates k = GetAnswered \<and> \<not> takes_effect fate then NOT_DELIVERED
           else if remitted = expected then MATCHED else if remitted < expected then SHORT else OVER)"
proof -
  have action: "action_for (Some DELIVERED) = Some ''deliver''" by (simp add: action_for_def required_actions)
  have ok: "shipments_ok (fd_shipments db)"
    using parcels.reachable_inv [OF assms (1)] by (simp add: fulfillment_inv_def)
  let ?reason = "callback_reason provider request"
  let ?odb1 = "if takes_effect fate then delivered_db now ?reason shipment odb else odb"
  let ?s = "recorded_status now request (Some DELIVERED) shipment"
  obtain r1 db1 where 1: "handle_callback True False now reg (order_saga_post True now fate) provider request (db, odb) = (Inr r1, db1, ?odb1)"
    and finds: "callback_finds reg provider request db1 DELIVERED ?s"
    and rows: "fd_shipments db1 = map (\<lambda>s. if sh_id s = sh_id shipment then recorded_status now request (Some DELIVERED) s else s) (fd_shipments db)"
    and settled: "fd_settlement_rows db1 = fd_settlement_rows db"
    by (rule handle_callback_finds [OF assms (2) action ok, of now "order_saga_post True now fate" odb])
      (simp add: order_saga_post_state delivered_db_def)
  have ok1: "shipments_ok (fd_shipments db1)"
    using ok unfolding rows by (subst shipments_ok_map) (auto simp: same_parcel_def)
  have s: "?s \<in> set (fd_shipments db1)" using finds by (auto simp: callback_finds_def dest: find_SomeD)
  have found: "find (\<lambda>s. sh_provider s = sh_provider shipment \<and> sh_tracking_code s = Some reference) (fd_shipments db1) = Some ?s"
    by (rule find_only [OF s]) (use assms (7) in \<open>auto intro!: shipments_ok_inj [OF ok1 _ s] simp: same_parcel_def\<close>)
  have fresh: "\<not> (\<exists>r\<in>set (fd_settlement_rows db). sr_seller_order_id r = Some (sh_seller_order_id shipment) \<and> sr_outcome r = ''matched'')"
    using assms (10) by auto
  obtain so' where so': "saga_row_of ?odb1 ?s = Some so'" "so_subtotal_cents so' = so_subtotal_cents so"
      "so_status so' = (if takes_effect fate then ''DELIVERED'' else ''DISPATCHED'')" "distinct (map so_id (od_seller_orders ?odb1))"
    using delivered_row [OF assms (3,4,6), of now ?reason] delivered_distinct [OF assms (3,4,6), of now ?reason] assms (3,4,6)
    by (cases "takes_effect fate") auto
  have known: "known_for (order_saga_get fates ?odb1) k ?s
      = (if fates k = GetAnswered then \<lparr>kn_expected_cents = so_subtotal_cents so, kn_status = so_status so'\<rparr>
         else \<lparr>kn_expected_cents = sh_cod_amount_cents shipment, kn_status = ''DELIVERED''\<rparr>)"
    using snapshot_of_order [OF so' (1,4), of fates k] so' (2) by (simp add: known_for_def recorded_status_def)
  have "rc_outcome (snd (classify_row (sh_provider shipment) (order_saga_get fates ?odb1) k (fd_shipments db1) (fd_settlement_rows db1)
          \<lparr>si_reference = reference, si_collected_cents = remitted\<rparr>))
        = (let expected = if fates k = GetAnswered then so_subtotal_cents so else sh_cod_amount_cents shipment in
           if fates k = GetAnswered \<and> \<not> takes_effect fate then NOT_DELIVERED
           else if remitted = expected then MATCHED else if remitted < expected then SHORT else OVER)"
    using found fresh so' (3) known assms (5,8,9)
    by (simp add: classify_row_def Let_def settled reconcile_row_def reconciliation_def dict_get_null_def)
  moreover have "\<exists>s\<in>set (fd_shipments db1). sh_id s = sh_id shipment \<and> sh_status s = courier_value DELIVERED"
    using s by (intro bexI [of _ ?s]) (simp_all add: recorded_status_def)
  ultimately show ?thesis using 1 by blast
qed

section \<open>A parcel of a dispatched seller order\<close>

definition demo_waiting :: Shipment where
  "demo_waiting = new_shipment ''p1'' manual_courier demo_parcel"

definition demo_seller_order :: seller_order where
  "demo_seller_order = \<lparr>so_id = ''s1'', so_order_id = ''o1'', so_seller_id = ''v1'', so_status = ''DISPATCHED'', so_status_reason = None,
     so_subtotal_cents = 1500, so_currency = ''BDT'', so_item_count = 1, so_confirmed_at = None, so_dispatched_at = Some 1,
     so_delivered_at = None, so_settled_at = None, so_courier_name = None, so_tracking_code = None, so_created_at = 0,
     so_updated_at = 1\<rparr>"

definition demo_odb :: order_db where
  "demo_odb = \<lparr>od_sagas = [], od_seller_orders = [demo_seller_order], od_order_lines = [], od_outbox = [], od_idempotency_keys = []\<rparr>"

lemma demo_db1_reachable: "reachable no_fulfillment (fulfillment_step demo_couriers) demo_db1"
proof -
  have "no_fulfillment demo_db0" by (simp add: no_fulfillment_def demo_db0_def)
  then have "reachable no_fulfillment (fulfillment_step demo_couriers) demo_db0" by (rule reachable.intros)
  then show ?thesis unfolding demo_db1_def by (rule reachable.intros) (rule fulfillment_step.create)
qed

lemma demo_db1_shipments: "fd_shipments demo_db1 = [demo_waiting]" "fd_settlement_rows demo_db1 = []"
  by code_simp+

lemma demo_finds: "callback_finds demo_couriers ''manual'' demo_delivered demo_db1 DELIVERED demo_waiting"
proof -
  have "get_courier demo_couriers ''manual'' = Some manual_courier" by code_simp
  moreover have "courier_canonical manual_courier (Some (cb_status demo_delivered)) = Some DELIVERED" by code_simp
  moreover have "callback_query ''manual'' demo_delivered = Some (\<lambda>s. sh_provider s = ''manual'' \<and> sh_tracking_code s = Some ''T1'')"
    by (simp add: callback_query_def demo_delivered_def)
  moreover have "cu_provider manual_courier = ''manual''" by (simp add: manual_courier_def)
  moreover have "sh_provider demo_waiting = ''manual''" "sh_tracking_code demo_waiting = Some ''T1''"
    by (simp_all add: demo_waiting_def new_shipment_def manual_courier_def demo_parcel_def)
  ultimately show ?thesis by (simp add: callback_finds_def demo_db1_shipments)
qed

lemma demo_row: "saga_row_of demo_odb demo_waiting = Some demo_seller_order"
  by (simp add: demo_odb_def demo_seller_order_def demo_waiting_def new_shipment_def demo_parcel_def)

lemma demo_row_facts: "so_status demo_seller_order = ''DISPATCHED''" "so_subtotal_cents demo_seller_order = 1500"
    "distinct (map so_id (od_seller_orders demo_odb))" "sh_tracking_code demo_waiting = Some ''T1''" "py_strip ''T1'' = ''T1''"
  by (simp_all add: demo_seller_order_def demo_odb_def demo_waiting_def new_shipment_def demo_parcel_def)
    code_simp

theorem resent_delivery_converges_witness:
  "\<exists>r1 db1 odb1 r2 db2.
      handle_callback True False 7 demo_couriers (order_saga_post True 7 CallLate) ''manual'' demo_delivered (demo_db1, demo_odb) = (Inr r1, db1, odb1)
    \<and> handle_callback True False 8 demo_couriers (order_saga_post True 8 CallAnswered) ''manual'' demo_delivered (db1, odb1)
        = (Inr r2, db2, delivered_db 7 (callback_reason ''manual'' demo_delivered) demo_waiting demo_odb)
    \<and> cl_action_result r2 = Some ''not_applicable''"
  using resent_delivery_converges [OF demo_db1_reachable demo_finds demo_row demo_row_facts (1,3),
      where ?now1.0 = 7 and ?now2.0 = 8 and fate = CallLate]
  by (simp add: takes_effect_def)

theorem settlement_after_delivery_witness:
  "(\<exists>r1 db1 odb1.
      handle_callback True False 7 demo_couriers (order_saga_post True 7 CallLost) ''manual'' demo_delivered (demo_db1, demo_odb) = (Inr r1, db1, odb1)
    \<and> rc_outcome (snd (classify_row (sh_provider demo_waiting) (order_saga_get (\<lambda>_. GetAnswered) odb1) 0 (fd_shipments db1) (fd_settlement_rows db1)
          \<lparr>si_reference = ''T1'', si_collected_cents = 1500\<rparr>)) = NOT_DELIVERED)
   \<and> (\<exists>r1 db1 odb1.
      handle_callback True False 7 demo_couriers (order_saga_post True 7 CallLost) ''manual'' demo_delivered (demo_db1, demo_odb) = (Inr r1, db1, odb1)
    \<and> rc_outcome (snd (classify_row (sh_provider demo_waiting) (order_saga_get (\<lambda>_. GetLost) odb1) 0 (fd_shipments db1) (fd_settlement_rows db1)
          \<lparr>si_reference = ''T1'', si_collected_cents = 1500\<rparr>)) = MATCHED)"
proof -
  have amount: "sh_cod_amount_cents demo_waiting = 1500" by code_simp
  have "sr_outcome ` {r \<in> set (fd_settlement_rows demo_db1). sr_seller_order_id r = Some (sh_seller_order_id demo_waiting)}
      \<subseteq> {outcome_value SHORT, outcome_value OVER, outcome_value NOT_DELIVERED}"
    by (simp add: demo_db1_shipments)
  note settled = settlement_after_delivery [OF demo_db1_reachable demo_finds demo_row demo_row_facts (1) _ demo_row_facts (3-5) _ this,
      where now = 7 and fate = CallLost and k = 0 and remitted = 1500]
  from settled [of "\<lambda>_. GetAnswered"] settled [of "\<lambda>_. GetLost"] show ?thesis
    by (simp add: takes_effect_def amount) blast
qed

end
