(* ===== verification/Review_Rules.thy ===== *)
theory Review_Rules
  imports Prelude
begin

text \<open>
  The rules of the reviews service (\<open>review_rules.py\<close>): who may review a purchase and until
  when, the rating scale, the aggregates, and what a report or a moderator may do to a review.
  Times are in seconds. An average is the exact quotient; the rounding of Python's float is left
  out.
\<close>

section \<open>Eligibility\<close>

definition MIN_RATING :: int where "MIN_RATING = 1"

definition MAX_RATING :: int where "MAX_RATING = 5"

definition REVIEW_WINDOW_DAYS :: int where "REVIEW_WINDOW_DAYS = 90"

definition EDIT_WINDOW_DAYS :: int where "EDIT_WINDOW_DAYS = 14"

definition days :: "int \<Rightarrow> int" where "days n = n * 86400"

datatype Verdict = V_ALLOWED | V_NOT_DELIVERED | V_NOT_IN_ORDER | V_ALREADY_REVIEWED | V_WINDOW_CLOSED | V_NOT_THE_BUYER

definition DELIVERED_STATES :: "string list" where
  "DELIVERED_STATES = [''DELIVERED'', ''SETTLED'']"

record Eligibility =
  el_verdict :: Verdict
  el_detail :: "string option"

definition el_allowed :: "Eligibility \<Rightarrow> bool" where
  "el_allowed e \<longleftrightarrow> el_verdict e = V_ALLOWED"

fun verdict_status :: "Verdict \<Rightarrow> int" where
  "verdict_status V_ALLOWED = 200"
| "verdict_status V_NOT_THE_BUYER = 403"
| "verdict_status V_NOT_DELIVERED = 403"
| "verdict_status V_NOT_IN_ORDER = 404"
| "verdict_status V_ALREADY_REVIEWED = 409"
| "verdict_status V_WINDOW_CLOSED = 422"

definition eligibility :: "Verdict \<Rightarrow> string \<Rightarrow> Eligibility" where
  "eligibility v detail = \<lparr>el_verdict = v, el_detail = Some detail\<rparr>"

definition may_review ::
  "string \<Rightarrow> string \<Rightarrow> string \<Rightarrow> string list \<Rightarrow> string \<Rightarrow> int option \<Rightarrow> int \<Rightarrow> bool \<Rightarrow> int \<Rightarrow> Eligibility" where
  "may_review buyer_id order_buyer_id status product_ids_in_order product_id delivered_at now already_reviewed window_days =
     (if buyer_id \<noteq> order_buyer_id then
        eligibility V_NOT_THE_BUYER ''a purchase may only be reviewed by its buyer''
      else if status \<notin> set DELIVERED_STATES then
        eligibility V_NOT_DELIVERED
          (''this order is '' @ status @ ''; a product can only be reviewed once it has been delivered'')
      else if product_id \<notin> set product_ids_in_order then
        eligibility V_NOT_IN_ORDER ''that product was not part of this order''
      else if already_reviewed then
        eligibility V_ALREADY_REVIEWED
          ''this purchase has already been reviewed; edit that review instead of adding another''
      else if (case delivered_at of None \<Rightarrow> False | Some t \<Rightarrow> days window_days < now - t) then
        eligibility V_WINDOW_CLOSED (''reviews close '' @ show_int window_days @ '' days after delivery'')
      else \<lparr>el_verdict = V_ALLOWED, el_detail = None\<rparr>)"

definition may_edit :: "int \<Rightarrow> int \<Rightarrow> int \<Rightarrow> bool" where
  "may_edit authored_at now window_days \<longleftrightarrow> now - authored_at \<le> days window_days"

text \<open>\<open>Inl\<close> is \<open>ValueError\<close>; a \<open>bool\<close> is an \<open>int\<close> in Python and is refused by name.\<close>

definition validate_rating :: "json \<Rightarrow> string \<Rightarrow> string + int" where
  "validate_rating value field =
     (case value of
        JInt n \<Rightarrow>
          if MIN_RATING \<le> n \<and> n \<le> MAX_RATING then Inr n
          else Inl (field @ '' must be between '' @ show_int MIN_RATING @ '' and '' @ show_int MAX_RATING @ '', got '' @ show_int n)
      | _ \<Rightarrow> Inl (field @ '' must be a whole number of stars, got '' @ py_repr value))"

section \<open>Aggregates\<close>

record Aggregate =
  ag_average :: "rat option"
  ag_count :: nat

definition ag_known :: "Aggregate \<Rightarrow> bool" where
  "ag_known a \<longleftrightarrow> 0 < ag_count a"

definition present_ratings :: "int option list \<Rightarrow> int list" where
  "present_ratings ratings = map the (filter (\<lambda>r. r \<noteq> None) ratings)"

definition aggregate_ratings :: "int option list \<Rightarrow> Aggregate" where
  "aggregate_ratings ratings =
     (let present = present_ratings ratings in
      if present = [] then \<lparr>ag_average = None, ag_count = 0\<rparr>
      else \<lparr>ag_average = Some (of_int (sum_list present) / of_nat (length present)), ag_count = length present\<rparr>)"

definition count_star :: "(int \<times> nat) list \<Rightarrow> int option \<Rightarrow> (int \<times> nat) list" where
  "count_star counts rating =
     (case rating of
        None \<Rightarrow> counts
      | Some r \<Rightarrow> (case map_of counts r of None \<Rightarrow> counts | Some n \<Rightarrow> dict_set counts r (n + 1)))"

definition distribution :: "int option list \<Rightarrow> (int \<times> nat) list" where
  "distribution ratings = foldl count_star (map (\<lambda>star. (star, 0)) [MIN_RATING..MAX_RATING]) ratings"

definition quality_signal :: "Aggregate \<Rightarrow> rat option \<times> nat" where
  "quality_signal a = (ag_average a, ag_count a)"

section \<open>Moderation\<close>

datatype ReportReason = ABUSIVE | SPAM | IRRELEVANT | PERSONAL_INFO | FAKE

fun reason_value :: "ReportReason \<Rightarrow> string" where
  "reason_value ABUSIVE = ''abusive''"
| "reason_value SPAM = ''spam''"
| "reason_value IRRELEVANT = ''irrelevant''"
| "reason_value PERSONAL_INFO = ''personal_info''"
| "reason_value FAKE = ''fake''"

text \<open>\<open>ReportReason(value)\<close>; \<open>None\<close> is \<open>ValueError\<close>.\<close>

definition as_reason :: "string \<Rightarrow> ReportReason option" where
  "as_reason v = find (\<lambda>r. reason_value r = v) [ABUSIVE, SPAM, IRRELEVANT, PERSONAL_INFO, FAKE]"

definition REPORTS_TO_HIDE :: nat where "REPORTS_TO_HIDE = 3"

datatype ModerationState = M_VISIBLE | M_HIDDEN_PENDING_REVIEW | M_REMOVED | M_CLEARED

fun moderation_value :: "ModerationState \<Rightarrow> string" where
  "moderation_value M_VISIBLE = ''visible''"
| "moderation_value M_HIDDEN_PENDING_REVIEW = ''hidden_pending_review''"
| "moderation_value M_REMOVED = ''removed''"
| "moderation_value M_CLEARED = ''cleared''"

definition REPORTABLE_STATES :: "ModerationState list" where
  "REPORTABLE_STATES = [M_VISIBLE, M_HIDDEN_PENDING_REVIEW]"

definition PUBLIC_STATES :: "ModerationState list" where
  "PUBLIC_STATES = [M_VISIBLE, M_CLEARED]"

text \<open>\<open>_as_state\<close> on the string a column holds.\<close>

definition as_state :: "string \<Rightarrow> ModerationState option" where
  "as_state v = find (\<lambda>s. moderation_value s = v) [M_VISIBLE, M_HIDDEN_PENDING_REVIEW, M_REMOVED, M_CLEARED]"

definition is_public :: "string \<Rightarrow> bool" where
  "is_public state \<longleftrightarrow> (case as_state state of None \<Rightarrow> False | Some s \<Rightarrow> s \<in> set PUBLIC_STATES)"

definition may_report :: "string \<Rightarrow> bool \<Rightarrow> Eligibility" where
  "may_report state reporter_is_author =
     (if reporter_is_author then
        eligibility V_NOT_THE_BUYER ''a review cannot be reported by the person who wrote it''
      else case as_state state of
        None \<Rightarrow> eligibility V_ALREADY_REVIEWED ''this review is in a state that cannot be reported''
      | Some current \<Rightarrow>
          if current \<notin> set REPORTABLE_STATES then
            eligibility V_ALREADY_REVIEWED ''a moderator has already ruled on this review''
          else \<lparr>el_verdict = V_ALLOWED, el_detail = None\<rparr>)"

definition state_after_report :: "string \<Rightarrow> nat \<Rightarrow> nat \<Rightarrow> ModerationState" where
  "state_after_report current distinct_reporters threshold =
     (case as_state current of
        None \<Rightarrow> M_HIDDEN_PENDING_REVIEW
      | Some state \<Rightarrow>
          if state \<noteq> M_VISIBLE then state
          else if threshold \<le> distinct_reporters then M_HIDDEN_PENDING_REVIEW
          else M_VISIBLE)"

definition visible_to :: "string \<Rightarrow> bool \<Rightarrow> bool" where
  "visible_to state viewer_is_author \<longleftrightarrow> viewer_is_author \<or> is_public state"

section \<open>Facts\<close>

lemma as_state_iff: "as_state v = Some s \<longleftrightarrow> v = moderation_value s"
  by (cases s) (auto simp: as_state_def)

lemma as_state_value [simp]: "as_state (moderation_value s) = Some s"
  by (simp add: as_state_iff)

lemma moderation_value_inj [simp]: "moderation_value s = moderation_value t \<longleftrightarrow> s = t"
  by (metis as_state_value option.inject)

lemma is_public_value: "is_public v \<longleftrightarrow> v \<in> moderation_value ` set PUBLIC_STATES"
  by (auto simp: is_public_def as_state_iff split: option.splits)

lemma may_report_allowed:
  "el_allowed (may_report state author) \<longleftrightarrow> \<not> author \<and> (state = moderation_value M_VISIBLE \<or> state = moderation_value M_HIDDEN_PENDING_REVIEW)"
  by (auto simp: may_report_def el_allowed_def eligibility_def REPORTABLE_STATES_def as_state_iff simp del: moderation_value.simps
      split: option.splits)

lemma may_review_allowed:
  "el_allowed (may_review buyer order_buyer status products product delivered now already window) \<longleftrightarrow>
     buyer = order_buyer \<and> status \<in> {''DELIVERED'', ''SETTLED''} \<and> product \<in> set products \<and> \<not> already
     \<and> (\<forall>t. delivered = Some t \<longrightarrow> now - t \<le> days window)"
  by (auto simp: may_review_def el_allowed_def eligibility_def DELIVERED_STATES_def split: option.splits)

lemma validate_rating_ok: "validate_rating v field = Inr n \<longleftrightarrow> v = JInt n \<and> 1 \<le> n \<and> n \<le> 5"
  by (auto simp: validate_rating_def MIN_RATING_def MAX_RATING_def split: json.splits)

text \<open>The mean of ratings on the scale is on the scale.\<close>

lemma present_ratings_bounds:
  "(\<And>r. Some r \<in> set ratings \<Longrightarrow> 1 \<le> r \<and> r \<le> 5) \<Longrightarrow> r \<in> set (present_ratings ratings) \<Longrightarrow> 1 \<le> r \<and> r \<le> 5"
  by (auto simp: present_ratings_def)

lemma sum_list_on_scale:
  "list_all (\<lambda>r. 1 \<le> r \<and> r \<le> (5::int)) xs \<Longrightarrow> int (length xs) \<le> sum_list xs \<and> sum_list xs \<le> 5 * int (length xs)"
  by (induction xs) auto

lemma aggregate_on_scale:
  assumes "\<And>r. Some r \<in> set ratings \<Longrightarrow> 1 \<le> r \<and> r \<le> 5" "ag_average (aggregate_ratings ratings) = Some a"
  shows "1 \<le> a \<and> a \<le> 5"
proof -
  let ?xs = "present_ratings ratings"
  have ne: "?xs \<noteq> []" and a: "a = of_int (sum_list ?xs) / of_nat (length ?xs)"
    using assms (2) by (auto simp: aggregate_ratings_def Let_def split: if_splits)
  have b: "int (length ?xs) \<le> sum_list ?xs" "sum_list ?xs \<le> 5 * int (length ?xs)"
    using sum_list_on_scale [of ?xs] present_ratings_bounds [OF assms (1)] by (auto simp: list_all_iff)
  have "(of_int (int (length ?xs)) :: rat) \<le> of_int (sum_list ?xs)" "(of_int (sum_list ?xs) :: rat) \<le> of_int (5 * int (length ?xs))"
    using b by (simp_all only: of_int_le_iff)
  then show ?thesis using ne by (simp add: a field_simps)
qed

text \<open>The distribution counts each star value, and on the scale it leaves out nothing.\<close>

lemma count_star_keys: "map fst (count_star counts r) = map fst counts"
  by (auto simp: count_star_def keys_dict_set map_of_eq_None_iff split: option.splits dest!: map_of_SomeD)
    (metis fst_conv image_eqI)

lemma count_stars_keys: "map fst (foldl count_star counts ratings) = map fst counts"
  by (induction ratings arbitrary: counts) (simp_all add: count_star_keys)

lemma count_stars:
  "map_of counts star = Some n \<Longrightarrow>
     map_of (foldl count_star counts ratings) star = Some (n + length (filter (\<lambda>r. r = Some star) ratings))"
proof (induction ratings arbitrary: counts n)
  case (Cons r ratings)
  have "map_of (count_star counts r) star = Some (n + (if r = Some star then 1 else 0))"
    using Cons.prems by (auto simp: count_star_def lookup_dict_set split: option.splits)
  from Cons.IH [OF this] show ?case by simp
qed simp

lemma distribution_star:
  assumes "1 \<le> star" "star \<le> 5"
  shows "map_of (distribution ratings) star = Some (length (filter (\<lambda>r. r = Some star) ratings))"
proof -
  have "star \<in> set [MIN_RATING..MAX_RATING]" using assms by (simp add: MIN_RATING_def MAX_RATING_def)
  then have "map_of (map (\<lambda>star. (star, 0::nat)) [MIN_RATING..MAX_RATING]) star = Some 0" by (simp add: map_of_map_restrict restrict_map_def)
  from count_stars [OF this] show ?thesis by (simp add: distribution_def)
qed

lemma sum_dict_set:
  "map_of d k = Some n \<Longrightarrow> sum_list (map snd (dict_set d k (n + 1))) = Suc (sum_list (map snd d))"
  by (induction d k "n + 1" rule: dict_set.induct) (auto split: if_splits)

lemma sum_count_stars:
  "\<forall>r. Some r \<in> set ratings \<longrightarrow> r \<in> fst ` set counts \<Longrightarrow>
     sum_list (map snd (foldl count_star counts ratings)) = sum_list (map snd counts) + length (present_ratings ratings)"
proof (induction ratings arbitrary: counts)
  case Nil then show ?case by (simp add: present_ratings_def)
next
  case (Cons r ratings)
  have keys: "fst ` set (count_star counts r) = fst ` set counts" by (metis count_star_keys list.set_map)
  have "sum_list (map snd (count_star counts r)) = sum_list (map snd counts) + (if r = None then 0 else 1)"
  proof (cases r)
    case (Some v)
    then obtain n where n: "map_of counts v = Some n" using Cons.prems by (cases "map_of counts v") (auto simp: map_of_eq_None_iff)
    then show ?thesis using sum_dict_set [OF n] Some by (simp add: count_star_def)
  qed (simp add: count_star_def)
  then show ?case using Cons.IH [of "count_star counts r"] Cons.prems by (auto simp: keys present_ratings_def)
qed

lemma distribution_total:
  assumes "\<And>r. Some r \<in> set ratings \<Longrightarrow> 1 \<le> r \<and> r \<le> 5"
  shows "sum_list (map snd (distribution ratings)) = ag_count (aggregate_ratings ratings)"
proof -
  have zero: "sum_list (map snd (map (\<lambda>star. (star, 0::nat)) xs)) = 0" for xs :: "int list" by (induction xs) auto
  have "Some r \<in> set ratings \<Longrightarrow> r \<in> fst ` set (map (\<lambda>star. (star, 0::nat)) [MIN_RATING..MAX_RATING])" for r
    using assms [of r] by (simp add: image_image MIN_RATING_def MAX_RATING_def)
  then show ?thesis
    using sum_count_stars [of ratings "map (\<lambda>star. (star, 0)) [MIN_RATING..MAX_RATING]"] zero [of "[MIN_RATING..MAX_RATING]"]
    by (auto simp: distribution_def aggregate_ratings_def Let_def)
qed

end
