(* ===== verification/Reviews.thy ===== *)
theory Reviews
  imports Review_Rules Order_Saga
begin

text \<open>
  The reviews service (\<open>review_service.py\<close>, \<open>order_client.py\<close>, \<open>routes/reviews.py\<close>): a buyer
  submits and edits a review, other people report it, a moderator rules on it, and the summaries that
  the product page and the ranking read. The order service's answer about a purchase is an argument
  of the submission. A report commits twice, and each part is a definition of its own, so that other
  requests can run between them.
\<close>

section \<open>Tables\<close>

record Review =
  vw_id :: uuid
  vw_seller_order_id :: uuid
  vw_order_id :: uuid
  vw_product_id :: uuid
  vw_seller_id :: uuid
  vw_buyer_id :: uuid
  vw_product_rating :: int
  vw_seller_rating :: "int option"
  vw_title :: "string option"
  vw_body :: "string option"
  vw_created_at :: int
  vw_updated_at :: int
  vw_moderation_state :: string
  vw_moderated_at :: "int option"
  vw_moderation_note :: "string option"

record ReviewReport =
  vr_id :: uuid
  vr_review_id :: uuid
  vr_reporter_id :: uuid
  vr_reason :: string
  vr_note :: "string option"

record review_db =
  vd_reviews :: "Review list"
  vd_reports :: "ReviewReport list"
  vd_keys :: "(string \<times> uuid option) list"
  vd_outbox :: "outbox_message list"

definition get_review :: "review_db \<Rightarrow> uuid \<Rightarrow> Review option" where
  "get_review db i = find (\<lambda>r. vw_id r = i) (vd_reviews db)"

definition update_review :: "uuid \<Rightarrow> (Review \<Rightarrow> Review) \<Rightarrow> review_db \<Rightarrow> review_db" where
  "update_review i f db = db\<lparr>vd_reviews := map (\<lambda>r. if vw_id r = i then f r else r) (vd_reviews db)\<rparr>"

definition add_event :: "outbox_message \<Rightarrow> review_db \<Rightarrow> review_db" where
  "add_event m db = db\<lparr>vd_outbox := vd_outbox db @ [m]\<rparr>"

text \<open>The columns that \<open>_view\<close> shows.\<close>

record review_view =
  vv_id :: uuid
  vv_seller_order_id :: uuid
  vv_product_id :: uuid
  vv_seller_id :: uuid
  vv_buyer_id :: uuid
  vv_product_rating :: int
  vv_seller_rating :: "int option"
  vv_title :: "string option"
  vv_body :: "string option"
  vv_created_at :: int
  vv_updated_at :: int
  vv_moderation_state :: string

definition view :: "Review \<Rightarrow> review_view" where
  "view r =
     \<lparr>vv_id = vw_id r, vv_seller_order_id = vw_seller_order_id r, vv_product_id = vw_product_id r, vv_seller_id = vw_seller_id r,
      vv_buyer_id = vw_buyer_id r, vv_product_rating = vw_product_rating r, vv_seller_rating = vw_seller_rating r,
      vv_title = vw_title r, vv_body = vw_body r, vv_created_at = vw_created_at r, vv_updated_at = vw_updated_at r,
      vv_moderation_state = vw_moderation_state r\<rparr>"

definition event_payload :: "Review \<Rightarrow> (string \<times> json) list" where
  "event_payload r =
     [(''review_id'', JStr (vw_id r)), (''product_id'', JStr (vw_product_id r)), (''seller_id'', JStr (vw_seller_id r)),
      (''seller_order_id'', JStr (vw_seller_order_id r)), (''product_rating'', JInt (vw_product_rating r)),
      (''seller_rating'', int_or_null (vw_seller_rating r))]"

section \<open>Submitting\<close>

datatype purchase_reply = PR_Refused | PR_Unreachable | PR_Status int | PR_Purchase purchase

definition fetch_purchase :: "purchase_reply \<Rightarrow> purchase result" where
  "fetch_purchase reply =
     (case reply of
        PR_Refused \<Rightarrow> Inl (HTTPException 503)
      | PR_Unreachable \<Rightarrow> Inl (HTTPException 503)
      | PR_Status code \<Rightarrow> if code = 404 then Inl (HTTPException 404) else Inl (HTTPException 503)
      | PR_Purchase p \<Rightarrow> Inr p)"

record SubmitRequest =
  sb_seller_order_id :: uuid
  sb_product_id :: uuid
  sb_product_rating :: int
  sb_seller_rating :: "int option"
  sb_title :: "string option"
  sb_body :: "string option"

definition title_fits :: "string option \<Rightarrow> bool" where
  "title_fits t \<longleftrightarrow> (case t of None \<Rightarrow> True | Some s \<Rightarrow> length s \<le> 200)"

text \<open>The answer under a key that is known: \<open>None\<close> lets the submission go on.\<close>

definition replayed :: "review_db \<Rightarrow> string option \<Rightarrow> review_view result option" where
  "replayed db key =
     (case key of
        None \<Rightarrow> None
      | Some k \<Rightarrow>
          if k = [] then None
          else case map_of (vd_keys db) k of
            None \<Rightarrow> None
          | Some None \<Rightarrow> Some (Inl (HTTPException 409))
          | Some (Some i) \<Rightarrow> map_option (\<lambda>r. Inr (view r)) (get_review db i))"

definition validate_optional :: "int option \<Rightarrow> string \<Rightarrow> string + int option" where
  "validate_optional rating field =
     (case rating of
        None \<Rightarrow> Inr None
      | Some n \<Rightarrow> (case validate_rating (JInt n) field of Inl e \<Rightarrow> Inl e | Inr v \<Rightarrow> Inr (Some v)))"

definition new_review :: "int \<Rightarrow> uuid \<Rightarrow> purchase \<Rightarrow> uuid \<Rightarrow> SubmitRequest \<Rightarrow> Review" where
  "new_review now fresh p buyer request =
     \<lparr>vw_id = fresh, vw_seller_order_id = sb_seller_order_id request, vw_order_id = pu_order_id p,
      vw_product_id = sb_product_id request, vw_seller_id = pu_seller_id p, vw_buyer_id = buyer,
      vw_product_rating = sb_product_rating request, vw_seller_rating = sb_seller_rating request,
      vw_title = sb_title request, vw_body = sb_body request, vw_created_at = now, vw_updated_at = now,
      vw_moderation_state = ''visible'', vw_moderated_at = None, vw_moderation_note = None\<rparr>"

definition on_scale :: "int option \<Rightarrow> bool" where
  "on_scale r \<longleftrightarrow> (case r of None \<Rightarrow> True | Some n \<Rightarrow> 1 \<le> n \<and> n \<le> 5)"

text \<open>The primary key, \<open>uq_review_per_purchase_product\<close> and the two CHECK constraints.\<close>

definition review_storable :: "Review list \<Rightarrow> Review \<Rightarrow> bool" where
  "review_storable rows r \<longleftrightarrow>
     vw_id r \<notin> vw_id ` set rows
     \<and> (vw_seller_order_id r, vw_product_id r) \<notin> (\<lambda>x. (vw_seller_order_id x, vw_product_id x)) ` set rows
     \<and> on_scale (Some (vw_product_rating r)) \<and> on_scale (vw_seller_rating r)"

definition use_key :: "string option \<Rightarrow> string option" where
  "use_key key = (case key of None \<Rightarrow> None | Some k \<Rightarrow> if k = [] then None else Some k)"

text \<open>
  \<open>seen\<close> are the rows the count of earlier reviews sees. A key that is longer than its column
  is a \<open>DataError\<close>, which no handler catches; a violated constraint is answered with 409.
\<close>

definition insert_review :: "bool \<Rightarrow> string option \<Rightarrow> Review \<Rightarrow> review_db \<Rightarrow> review_view result \<times> review_db" where
  "insert_review io key r db =
     (if \<not> io then (Inl (Uncaught ''DBAPIError''), db)
      else if (case key of None \<Rightarrow> False | Some k \<Rightarrow> 255 < length k) then (Inl (Uncaught ''DataError''), db)
      else if \<not> review_storable (vd_reviews db) r \<or> (case key of None \<Rightarrow> False | Some k \<Rightarrow> k \<in> fst ` set (vd_keys db)) then
        (Inl (HTTPException 409), db)
      else
        (Inr (view r),
         db\<lparr>vd_reviews := vd_reviews db @ [r],
            vd_keys := vd_keys db @ (case key of None \<Rightarrow> [] | Some k \<Rightarrow> [(k, Some (vw_id r))]),
            vd_outbox := vd_outbox db @ [outbox ''Review'' (vw_id r) ''ReviewPublished'' (JObj (event_payload r))]\<rparr>))"

definition submit_review ::
  "bool \<Rightarrow> int \<Rightarrow> uuid \<Rightarrow> purchase_reply \<Rightarrow> Review list \<Rightarrow> string \<Rightarrow> SubmitRequest \<Rightarrow> string option \<Rightarrow> review_db \<Rightarrow>
     review_view result \<times> review_db" where
  "submit_review io now fresh reply seen buyer_id request idempotency_key db =
     (case replayed db idempotency_key of
        Some answer \<Rightarrow> (answer, db)
      | None \<Rightarrow>
          (case fetch_purchase reply of
             Inl e \<Rightarrow> (Inl e, db)
           | Inr p \<Rightarrow>
               (let already = length (filter (\<lambda>r. vw_seller_order_id r = sb_seller_order_id request
                                              \<and> vw_product_id r = sb_product_id request) seen);
                    verdict = may_review buyer_id (pu_buyer_id p) (pu_status p) (pu_product_ids p) (sb_product_id request)
                      (pu_delivered_at p) now (0 < already) REVIEW_WINDOW_DAYS
                in if \<not> el_allowed verdict then (Inl (HTTPException (verdict_status (el_verdict verdict))), db)
                   else case (validate_rating (JInt (sb_product_rating request)) ''product_rating'',
                              validate_optional (sb_seller_rating request) ''seller_rating'') of
                     (Inr _, Inr _) \<Rightarrow>
                       (case py_uuid buyer_id of
                          None \<Rightarrow> (Inl (Uncaught ''ValueError''), db)
                        | Some buyer \<Rightarrow> insert_review io (use_key idempotency_key) (new_review now fresh p buyer request) db)
                   | _ \<Rightarrow> (Inl (HTTPException 422), db))))"

text \<open>\<open>require_buyer\<close>: the identity the gateway puts on the request.\<close>

definition require_buyer :: "string option \<Rightarrow> string result" where
  "require_buyer x_user_id = (case x_user_id of None \<Rightarrow> Inl (HTTPException 401) | Some u \<Rightarrow> if u = [] then Inl (HTTPException 401) else Inr u)"

definition submit_endpoint ::
  "bool \<Rightarrow> int \<Rightarrow> uuid \<Rightarrow> purchase_reply \<Rightarrow> Review list \<Rightarrow> string option \<Rightarrow> SubmitRequest \<Rightarrow> string option \<Rightarrow> review_db \<Rightarrow>
     review_view result \<times> review_db" where
  "submit_endpoint io now fresh reply seen x_user_id request key db =
     (case require_buyer x_user_id of
        Inl e \<Rightarrow> (Inl e, db)
      | Inr buyer_id \<Rightarrow>
          if \<not> title_fits (sb_title request) then (Inl (HTTPException 422), db)
          else submit_review io now fresh reply seen buyer_id request key db)"

section \<open>Editing\<close>

record EditRequest =
  ed_product_rating :: "int option"
  ed_seller_rating :: "int option"
  ed_title :: "string option"
  ed_body :: "string option"

definition edited :: "int \<Rightarrow> EditRequest \<Rightarrow> Review \<Rightarrow> Review" where
  "edited now request r =
     r\<lparr>vw_product_rating := (case ed_product_rating request of None \<Rightarrow> vw_product_rating r | Some n \<Rightarrow> n),
       vw_seller_rating := (case ed_seller_rating request of None \<Rightarrow> vw_seller_rating r | Some n \<Rightarrow> Some n),
       vw_title := (case ed_title request of None \<Rightarrow> vw_title r | Some t \<Rightarrow> Some t),
       vw_body := (case ed_body request of None \<Rightarrow> vw_body r | Some b \<Rightarrow> Some b),
       vw_updated_at := now\<rparr>"

definition edit_review ::
  "bool \<Rightarrow> int \<Rightarrow> uuid \<Rightarrow> string \<Rightarrow> EditRequest \<Rightarrow> review_db \<Rightarrow> review_view result \<times> review_db" where
  "edit_review io now review_id buyer_id request db =
     (case get_review db review_id of
        None \<Rightarrow> (Inl (HTTPException 404), db)
      | Some r \<Rightarrow>
          if vw_buyer_id r \<noteq> buyer_id then (Inl (HTTPException 404), db)
          else if \<not> may_edit (vw_created_at r) now EDIT_WINDOW_DAYS then (Inl (HTTPException 422), db)
          else case (validate_optional (ed_product_rating request) ''product_rating'',
                     validate_optional (ed_seller_rating request) ''seller_rating'') of
            (Inr _, Inr _) \<Rightarrow>
              (let r' = edited now request r in
               if \<not> io then (Inl (Uncaught ''DBAPIError''), db)
               else (Inr (view r'),
                     add_event (outbox ''Review'' (vw_id r) ''ReviewUpdated'' (JObj (event_payload r')))
                       (update_review review_id (edited now request) db)))
          | _ \<Rightarrow> (Inl (HTTPException 422), db))"

definition edit_endpoint ::
  "bool \<Rightarrow> int \<Rightarrow> uuid \<Rightarrow> string option \<Rightarrow> EditRequest \<Rightarrow> review_db \<Rightarrow> review_view result \<times> review_db" where
  "edit_endpoint io now review_id x_user_id request db =
     (case require_buyer x_user_id of
        Inl e \<Rightarrow> (Inl e, db)
      | Inr buyer_id \<Rightarrow>
          if \<not> title_fits (ed_title request) then (Inl (HTTPException 422), db)
          else edit_review io now review_id buyer_id request db)"

section \<open>Reporting\<close>

record ReportRequest =
  rr_reason :: string
  rr_note :: "string option"

definition note_fits :: "string option \<Rightarrow> bool" where
  "note_fits n \<longleftrightarrow> (case n of None \<Rightarrow> True | Some s \<Rightarrow> length s \<le> 1000)"

text \<open>
  What a report holds in memory between its commits: the review as it was loaded, which the
  commits do not refresh (\<open>expire_on_commit=False\<close>), and the report it files.
\<close>

record report_ticket =
  tk_review :: Review
  tk_reporter :: uuid
  tk_reason :: ReportReason
  tk_note :: "string option"

definition report_load :: "uuid \<Rightarrow> string \<Rightarrow> ReportRequest \<Rightarrow> review_db \<Rightarrow> report_ticket result" where
  "report_load review_id reporter_id request db =
     (case as_reason (rr_reason request) of
        None \<Rightarrow> Inl (HTTPException 422)
      | Some reason \<Rightarrow>
          (case get_review db review_id of
             None \<Rightarrow> Inl (HTTPException 404)
           | Some r \<Rightarrow>
               (let verdict = may_report (vw_moderation_state r) (vw_buyer_id r = reporter_id) in
                if \<not> el_allowed verdict then Inl (HTTPException (verdict_status (el_verdict verdict)))
                else case py_uuid reporter_id of
                  None \<Rightarrow> Inl (Uncaught ''ValueError'')
                | Some reporter \<Rightarrow> Inr \<lparr>tk_review = r, tk_reporter = reporter, tk_reason = reason, tk_note = rr_note request\<rparr>)))"

definition report_insert :: "bool \<Rightarrow> uuid \<Rightarrow> report_ticket \<Rightarrow> review_db \<Rightarrow> unit result \<times> review_db" where
  "report_insert io fresh t db =
     (let report = \<lparr>vr_id = fresh, vr_review_id = vw_id (tk_review t), vr_reporter_id = tk_reporter t,
                    vr_reason = reason_value (tk_reason t), vr_note = tk_note t\<rparr>
      in if \<not> io then (Inl (Uncaught ''DBAPIError''), db)
         else if fresh \<in> vr_id ` set (vd_reports db)
               \<or> (vw_id (tk_review t), tk_reporter t) \<in> (\<lambda>x. (vr_review_id x, vr_reporter_id x)) ` set (vd_reports db) then
           (Inl (HTTPException 409), db)
         else (Inr (), db\<lparr>vd_reports := vd_reports db @ [report]\<rparr>))"

definition distinct_reporters :: "review_db \<Rightarrow> uuid \<Rightarrow> nat" where
  "distinct_reporters db i = length (remdups (map vr_reporter_id (filter (\<lambda>x. vr_review_id x = i) (vd_reports db))))"

record report_response =
  ra_distinct_reporters :: nat
  ra_moderation_state :: string

definition report_apply :: "bool \<Rightarrow> int \<Rightarrow> report_ticket \<Rightarrow> review_db \<Rightarrow> report_response result \<times> review_db" where
  "report_apply io now t db =
     (let r = tk_review t;
          reporters = distinct_reporters db (vw_id r);
          new_state = moderation_value (state_after_report (vw_moderation_state r) reporters REPORTS_TO_HIDE)
      in if new_state = vw_moderation_state r then
           (Inr \<lparr>ra_distinct_reporters = reporters, ra_moderation_state = new_state\<rparr>, db)
         else if \<not> io then (Inl (Uncaught ''DBAPIError''), db)
         else
           (Inr \<lparr>ra_distinct_reporters = reporters, ra_moderation_state = new_state\<rparr>,
            add_event (outbox ''Review'' (vw_id r) ''ReviewHidden'' (JObj (event_payload r @ [(''reporters'', JInt (int reporters))])))
              (update_review (vw_id r) (\<lambda>x. x\<lparr>vw_moderation_state := new_state, vw_updated_at := now\<rparr>) db)))"

text \<open>A report with no other request between its parts; \<open>io1\<close> and \<open>io2\<close> are its two commits.\<close>

definition report_review ::
  "bool \<Rightarrow> bool \<Rightarrow> int \<Rightarrow> uuid \<Rightarrow> uuid \<Rightarrow> string \<Rightarrow> ReportRequest \<Rightarrow> review_db \<Rightarrow> report_response result \<times> review_db" where
  "report_review io1 io2 now fresh review_id reporter_id request db =
     (case report_load review_id reporter_id request db of
        Inl e \<Rightarrow> (Inl e, db)
      | Inr t \<Rightarrow>
          (case report_insert io1 fresh t db of
             (Inl e, db1) \<Rightarrow> (Inl e, db1)
           | (Inr _, db1) \<Rightarrow> report_apply io2 now t db1))"

definition report_endpoint ::
  "bool \<Rightarrow> bool \<Rightarrow> int \<Rightarrow> uuid \<Rightarrow> uuid \<Rightarrow> string option \<Rightarrow> ReportRequest \<Rightarrow> review_db \<Rightarrow> report_response result \<times> review_db" where
  "report_endpoint io1 io2 now fresh review_id x_user_id request db =
     (case require_buyer x_user_id of
        Inl e \<Rightarrow> (Inl e, db)
      | Inr reporter_id \<Rightarrow>
          if \<not> note_fits (rr_note request) then (Inl (HTTPException 422), db)
          else report_review io1 io2 now fresh review_id reporter_id request db)"

section \<open>Moderation\<close>

definition ruled :: "int \<Rightarrow> string \<Rightarrow> string option \<Rightarrow> Review \<Rightarrow> Review" where
  "ruled now ruling note r =
     r\<lparr>vw_moderation_state := moderation_value (if ruling = ''remove'' then M_REMOVED else M_CLEARED),
       vw_moderated_at := Some now, vw_moderation_note := note, vw_updated_at := now\<rparr>"

definition moderate_review ::
  "bool \<Rightarrow> int \<Rightarrow> uuid \<Rightarrow> string \<Rightarrow> string option \<Rightarrow> review_db \<Rightarrow> review_view result \<times> review_db" where
  "moderate_review io now review_id ruling note db =
     (if ruling \<noteq> ''remove'' \<and> ruling \<noteq> ''clear'' then (Inl (HTTPException 422), db)
      else case get_review db review_id of
        None \<Rightarrow> (Inl (HTTPException 404), db)
      | Some r \<Rightarrow>
          if \<not> io then (Inl (Uncaught ''DBAPIError''), db)
          else
            (let r' = ruled now ruling note r in
             (Inr (view r'),
              add_event (outbox ''Review'' (vw_id r) ''ReviewModerated''
                  (JObj (event_payload r' @ [(''moderation_state'', JStr (vw_moderation_state r'))])))
                (update_review review_id (ruled now ruling note) db))))"

definition moderate_endpoint ::
  "bool \<Rightarrow> int \<Rightarrow> uuid \<Rightarrow> string \<Rightarrow> string option \<Rightarrow> review_db \<Rightarrow> review_view result \<times> review_db" where
  "moderate_endpoint io now review_id ruling note db =
     (if \<not> note_fits note then (Inl (HTTPException 422), db) else moderate_review io now review_id ruling note db)"

section \<open>Reading\<close>

definition public_rows :: "review_db \<Rightarrow> Review list" where
  "public_rows db = filter (\<lambda>r. vw_moderation_state r \<in> set (map moderation_value PUBLIC_STATES)) (vd_reviews db)"

record product_rating_summary =
  ps_average_rating :: "rat option"
  ps_review_count :: nat
  ps_distribution :: "(int \<times> nat) list"

definition product_summary :: "review_db \<Rightarrow> uuid \<Rightarrow> product_rating_summary" where
  "product_summary db product_id =
     (let ratings = map (Some \<circ> vw_product_rating) (filter (\<lambda>r. vw_product_id r = product_id) (public_rows db));
          summary = aggregate_ratings ratings
      in \<lparr>ps_average_rating = ag_average summary, ps_review_count = ag_count summary, ps_distribution = distribution ratings\<rparr>)"

definition seller_summary :: "review_db \<Rightarrow> uuid \<Rightarrow> (rat option \<times> nat) \<times> (int \<times> nat) list" where
  "seller_summary db seller_id =
     (let ratings = map vw_seller_rating (filter (\<lambda>r. vw_seller_id r = seller_id) (public_rows db)) in
      (quality_signal (aggregate_ratings ratings), distribution ratings))"

text \<open>\<open>LIMIT\<close> refuses a negative count.\<close>

definition limited :: "int \<Rightarrow> int \<Rightarrow> 'a list \<Rightarrow> 'a list result" where
  "limited limit bound rows = (if min limit bound < 0 then Inl (Uncaught ''DBAPIError'') else Inr (take (nat (min limit bound)) rows))"

definition list_for_product :: "review_db \<Rightarrow> uuid \<Rightarrow> int \<Rightarrow> review_view list result" where
  "list_for_product db product_id limit =
     map_sum id (map view)
       (limited limit 100 (sort_key (\<lambda>r. - vw_created_at r) (filter (\<lambda>r. vw_product_id r = product_id) (public_rows db))))"

record queue_entry =
  qe_view :: review_view
  qe_report_count :: nat
  qe_reasons :: "string list"
  qe_notes :: "string list"

definition queue_entry_of :: "review_db \<Rightarrow> Review \<Rightarrow> queue_entry" where
  "queue_entry_of db r =
     (let rows = filter (\<lambda>x. vr_review_id x = vw_id r) (vd_reports db) in
      \<lparr>qe_view = view r, qe_report_count = length rows, qe_reasons = sort (remdups (map vr_reason rows)),
       qe_notes = [n. x \<leftarrow> rows, n \<leftarrow> (case vr_note x of None \<Rightarrow> [] | Some n \<Rightarrow> if n = [] then [] else [n])]\<rparr>)"

definition moderation_queue :: "review_db \<Rightarrow> int \<Rightarrow> queue_entry list result" where
  "moderation_queue db limit =
     map_sum id (map (queue_entry_of db))
       (limited limit 200 (sort_key vw_created_at
          (filter (\<lambda>r. vw_moderation_state r = moderation_value M_HIDDEN_PENDING_REVIEW) (vd_reviews db))))"

definition my_reviews :: "review_db \<Rightarrow> string \<Rightarrow> int \<Rightarrow> review_view list result" where
  "my_reviews db buyer_id limit =
     (case py_uuid buyer_id of
        None \<Rightarrow> Inl (Uncaught ''ValueError'')
      | Some buyer \<Rightarrow>
          map_sum id (\<lambda>rows. map view (filter (\<lambda>r. visible_to (vw_moderation_state r) True) rows))
            (limited limit 200 (sort_key (\<lambda>r. - vw_created_at r) (filter (\<lambda>r. vw_buyer_id r = buyer) (vd_reviews db)))))"

section \<open>A retried submission\<close>

lemma view_sel [simp]: "vv_id (view r) = vw_id r" "vv_moderation_state (view r) = vw_moderation_state r"
  by (simp_all add: view_def)

lemma insert_review_cases:
  assumes "insert_review io key r db = (x, db')"
  shows "(\<exists>e. x = Inl e \<and> db' = db) \<or>
    (x = Inr (view r) \<and> review_storable (vd_reviews db) r \<and> vd_reviews db' = vd_reviews db @ [r] \<and> vd_reports db' = vd_reports db
     \<and> vd_keys db' = vd_keys db @ (case key of None \<Rightarrow> [] | Some k \<Rightarrow> [(k, Some (vw_id r))])
     \<and> (\<forall>k. key = Some k \<longrightarrow> k \<notin> fst ` set (vd_keys db)))"
  using assms by (auto simp: insert_review_def split: if_splits option.splits)

text \<open>A submission answers from a stored key, fails and leaves the tables, or inserts one verified review.\<close>

definition verified :: "purchase \<Rightarrow> string \<Rightarrow> SubmitRequest \<Rightarrow> int \<Rightarrow> bool" where
  "verified p buyer_id request now \<longleftrightarrow>
     buyer_id = pu_buyer_id p \<and> pu_status p \<in> {''DELIVERED'', ''SETTLED''} \<and> sb_product_id request \<in> set (pu_product_ids p)
     \<and> (\<forall>t. pu_delivered_at p = Some t \<longrightarrow> now - t \<le> days REVIEW_WINDOW_DAYS)
     \<and> on_scale (Some (sb_product_rating request)) \<and> on_scale (sb_seller_rating request)"

lemma validate_optional_ok: "validate_optional r field = Inr v \<Longrightarrow> v = r \<and> on_scale r"
  by (auto simp: validate_optional_def on_scale_def validate_rating_ok split: option.splits sum.splits)

lemma submit_review_cases:
  assumes "submit_review io now fresh reply seen buyer_id request key db = (x, db')"
  shows "(replayed db key = Some x \<and> db' = db) \<or> (\<exists>e. x = Inl e \<and> db' = db) \<or>
    (\<exists>p buyer. replayed db key = None \<and> reply = PR_Purchase p \<and> verified p buyer_id request now \<and> py_uuid buyer_id = Some buyer
       \<and> insert_review io (use_key key) (new_review now fresh p buyer request) db = (x, db'))"
proof (cases "replayed db key")
  case None
  show ?thesis
  proof (cases "\<exists>e. x = Inl e \<and> db' = db")
    case False
    then obtain p where reply: "fetch_purchase reply = Inr p"
      using assms None by (cases "fetch_purchase reply") (auto simp: submit_review_def)
    then have p: "reply = PR_Purchase p" by (auto simp: fetch_purchase_def split: purchase_reply.splits if_splits)
    define already where "already = (0 < length (filter (\<lambda>r. vw_seller_order_id r = sb_seller_order_id request
        \<and> vw_product_id r = sb_product_id request) seen))"
    define verdict where "verdict = may_review buyer_id (pu_buyer_id p) (pu_status p) (pu_product_ids p) (sb_product_id request)
        (pu_delivered_at p) now already REVIEW_WINDOW_DAYS"
    have ok: "el_allowed verdict"
      using False assms None reply by (auto simp: submit_review_def Let_def verdict_def already_def split: if_splits)
    then obtain a b where ab: "validate_rating (JInt (sb_product_rating request)) ''product_rating'' = Inr a"
        "validate_optional (sb_seller_rating request) ''seller_rating'' = Inr b"
      using False assms None reply
      by (auto simp: submit_review_def Let_def verdict_def already_def split: if_splits sum.splits)
    then obtain buyer where buyer: "py_uuid buyer_id = Some buyer"
      using False assms None reply ok
      by (auto simp: submit_review_def Let_def verdict_def already_def split: if_splits option.splits)
    have "insert_review io (use_key key) (new_review now fresh p buyer request) db = (x, db')"
      using assms None reply ok ab buyer by (simp add: submit_review_def Let_def verdict_def already_def)
    moreover have "verified p buyer_id request now"
      using ok validate_optional_ok [OF ab (2)] ab (1)
      by (simp add: verified_def verdict_def may_review_allowed validate_rating_ok on_scale_def)
    ultimately show ?thesis using p None buyer by blast
  qed simp
next
  case (Some answer)
  then show ?thesis using assms by (simp add: submit_review_def)
qed

lemma submit_failure: "submit_review io now fresh reply seen buyer_id request key db = (Inl e, db') \<Longrightarrow> db' = db"
  using submit_review_cases insert_review_cases by fastforce

text \<open>The answer under a key does not depend on who asks again, or for what.\<close>

lemma submit_replay:
  assumes "submit_review io now fresh reply seen buyer_id request (Some k) db = (Inr v, db')" "k \<noteq> []"
  shows "submit_review io' now' fresh' reply' seen' buyer_id' request' (Some k) db' = (Inr v, db')"
proof -
  have "replayed db' (Some k) = Some (Inr v)"
    using submit_review_cases [OF assms (1)]
  proof (elim disjE exE conjE)
    fix p buyer
    assume none: "replayed db (Some k) = None"
      and ins: "insert_review io (use_key (Some k)) (new_review now fresh p buyer request) db = (Inr v, db')"
    define r where "r = new_review now fresh p buyer request"
    have use: "use_key (Some k) = Some k" using assms (2) by (simp add: use_key_def)
    have i: "v = view r" "review_storable (vd_reviews db) r" "vd_reviews db' = vd_reviews db @ [r]"
        "vd_keys db' = vd_keys db @ [(k, Some (vw_id r))]" "k \<notin> fst ` set (vd_keys db)"
      using insert_review_cases [OF ins] by (auto simp: use r_def)
    have "map_of (vd_keys db) k = None" using i (5) by (simp add: map_of_eq_None_iff)
    then have "map_of (vd_keys db') k = Some (Some (vw_id r))" using i (4) by (simp add: map_add_def)
    moreover have "get_review db' (vw_id r) = Some r"
      using i (2,3) by (simp add: get_review_def review_storable_def find_append_fresh)
    ultimately show "replayed db' (Some k) = Some (Inr v)" using assms (2) i (1) by (simp add: replayed_def)
  qed auto
  then show ?thesis by (simp add: submit_review_def)
qed

interpretation submit_delivery: idempotent_handler
  "\<lambda>(io, now, fresh, reply, seen). submit_review io now fresh reply seen buyer_id request (Some (c # k))" for buyer_id request c k
  by unfold_locales (auto dest: submit_failure submit_replay)

section \<open>What the tables keep\<close>

text \<open>
  The requests as steps. A report is three steps, with the loaded review kept in \<open>wd_loaded\<close>; a
  ticket may be used again, which only adds behaviours.
\<close>

record review_world =
  wd_db :: review_db
  wd_loaded :: "report_ticket list"

definition no_reviews :: "review_world \<Rightarrow> bool" where
  "no_reviews w \<longleftrightarrow> vd_reviews (wd_db w) = [] \<and> vd_reports (wd_db w) = [] \<and> vd_keys (wd_db w) = [] \<and> wd_loaded w = []"

inductive review_change :: "review_world \<Rightarrow> review_world \<Rightarrow> bool" where
  edit: "review_change w (w\<lparr>wd_db := snd (edit_endpoint io now i user edit (wd_db w))\<rparr>)"
| load_report: "report_load i reporter report (wd_db w) = Inr t \<Longrightarrow> review_change w (w\<lparr>wd_loaded := t # wd_loaded w\<rparr>)"
| file_report: "t \<in> set (wd_loaded w) \<Longrightarrow> review_change w (w\<lparr>wd_db := snd (report_insert io fresh t (wd_db w))\<rparr>)"
| apply_report: "t \<in> set (wd_loaded w) \<Longrightarrow> review_change w (w\<lparr>wd_db := snd (report_apply io now t (wd_db w))\<rparr>)"
| moderate: "review_change w (w\<lparr>wd_db := snd (moderate_endpoint io now i ruling note (wd_db w))\<rparr>)"

inductive review_step :: "review_world \<Rightarrow> review_world \<Rightarrow> bool" where
  submit: "review_step w (w\<lparr>wd_db := snd (submit_endpoint io now fresh reply seen user request key (wd_db w))\<rparr>)"
| change: "review_change w w' \<Longrightarrow> review_step w w'"

definition review_ok :: "review_db \<Rightarrow> Review \<Rightarrow> bool" where
  "review_ok db r \<longleftrightarrow> on_scale (Some (vw_product_rating r)) \<and> on_scale (vw_seller_rating r)
     \<and> (\<exists>s. vw_moderation_state r = moderation_value s)
     \<and> (vw_moderation_state r = moderation_value M_HIDDEN_PENDING_REVIEW \<longrightarrow> REPORTS_TO_HIDE \<le> distinct_reporters db (vw_id r))"

definition reviews_inv :: "review_db \<Rightarrow> bool" where
  "reviews_inv db \<longleftrightarrow> distinct (map vw_id (vd_reviews db))
     \<and> distinct (map (\<lambda>r. (vw_seller_order_id r, vw_product_id r)) (vd_reviews db))
     \<and> distinct (map (\<lambda>x. (vr_review_id x, vr_reporter_id x)) (vd_reports db))
     \<and> list_all (review_ok db) (vd_reviews db)"

definition ticket_ok :: "report_ticket \<Rightarrow> bool" where
  "ticket_ok t \<longleftrightarrow> vw_moderation_state (tk_review t) \<in> {moderation_value M_VISIBLE, moderation_value M_HIDDEN_PENDING_REVIEW}"

definition world_inv :: "review_world \<Rightarrow> bool" where
  "world_inv w \<longleftrightarrow> reviews_inv (wd_db w) \<and> list_all ticket_ok (wd_loaded w)"

lemma update_review_sel [simp]:
  "vd_reports (update_review i f db) = vd_reports db" "vd_keys (update_review i f db) = vd_keys db"
  "vd_reviews (update_review i f db) = map (\<lambda>r. if vw_id r = i then f r else r) (vd_reviews db)"
  by (simp_all add: update_review_def)

lemma add_event_sel [simp]:
  "vd_reports (add_event m db) = vd_reports db" "vd_keys (add_event m db) = vd_keys db" "vd_reviews (add_event m db) = vd_reviews db"
  by (simp_all add: add_event_def)

lemma distinct_reporters_cong: "vd_reports db = vd_reports db' \<Longrightarrow> distinct_reporters db i = distinct_reporters db' i"
  by (simp add: distinct_reporters_def)

lemma review_ok_cong: "vd_reports db = vd_reports db' \<Longrightarrow> review_ok db = review_ok db'"
  by (simp add: review_ok_def fun_eq_iff distinct_reporters_cong [of db db'])

text \<open>An update of one row that keeps its keys and leaves it well-formed keeps the tables well-formed.\<close>

lemma update_review_inv:
  assumes "reviews_inv db" "\<And>r. vw_id (f r) = vw_id r"
    "\<And>r. vw_seller_order_id (f r) = vw_seller_order_id r" "\<And>r. vw_product_id (f r) = vw_product_id r"
    "\<And>r. r \<in> set (vd_reviews db) \<Longrightarrow> vw_id r = i \<Longrightarrow> review_ok db r \<Longrightarrow> review_ok db (f r)"
  shows "reviews_inv (add_event m (update_review i f db))"
proof -
  have "vw_id \<circ> (\<lambda>r. if vw_id r = i then f r else r) = vw_id"
    "(\<lambda>r. (vw_seller_order_id r, vw_product_id r)) \<circ> (\<lambda>r. if vw_id r = i then f r else r)
       = (\<lambda>r. (vw_seller_order_id r, vw_product_id r))"
    using assms (2-4) by (auto simp: fun_eq_iff)
  moreover have "list_all (review_ok db) (map (\<lambda>r. if vw_id r = i then f r else r) (vd_reviews db))"
    using assms (1,5) by (auto simp: reviews_inv_def list_all_iff)
  ultimately show ?thesis
    using assms (1) review_ok_cong [of "add_event m (update_review i f db)" db] by (simp add: reviews_inv_def)
qed

lemma distinct_reporters_mono:
  "distinct_reporters db i \<le> distinct_reporters (db\<lparr>vd_reports := vd_reports db @ xs\<rparr>) i"
  by (auto simp: distinct_reporters_def length_remdups_card_conv intro!: card_mono)

lemma submit_inv: "reviews_inv db \<Longrightarrow> reviews_inv (snd (submit_endpoint io now fresh reply seen user request key db))"
proof -
  assume inv: "reviews_inv db"
  have "reviews_inv db'" if "submit_review io now fresh reply seen buyer request key db = (x, db')" for buyer x db'
    using submit_review_cases [OF that]
  proof (elim disjE exE conjE)
    fix p b
    assume v: "verified p buyer request now"
      and ins: "insert_review io (use_key key) (new_review now fresh p b request) db = (x, db')"
    have "review_ok db (new_review now fresh p b request)"
      using v by (auto simp: review_ok_def new_review_def verified_def intro: exI [of _ M_VISIBLE])
    then show "reviews_inv db'"
      using insert_review_cases [OF ins] inv review_ok_cong [of db' db]
      by (auto simp: reviews_inv_def review_storable_def)
  qed (use inv in auto)
  then show ?thesis using inv
    by (auto simp: submit_endpoint_def split: sum.splits) (metis prod.collapse)
qed

lemma edit_inv: "reviews_inv db \<Longrightarrow> reviews_inv (snd (edit_endpoint io now i user request db))"
proof -
  assume inv: "reviews_inv db"
  have "review_ok db (edited now request r)"
    if "validate_optional (ed_product_rating request) f1 = Inr a" "validate_optional (ed_seller_rating request) f2 = Inr b" "review_ok db r"
    for r f1 f2 a b
    using validate_optional_ok [OF that (1)] validate_optional_ok [OF that (2)] that (3)
    by (auto simp: review_ok_def edited_def on_scale_def split: option.splits)
  then show ?thesis using inv
    by (auto simp: edit_endpoint_def edit_review_def Let_def split: sum.splits option.splits
        intro!: update_review_inv) (auto simp: edited_def)
qed

lemma report_insert_inv: "reviews_inv db \<Longrightarrow> reviews_inv (snd (report_insert io fresh t db))"
proof -
  assume inv: "reviews_inv db"
  have "review_ok db r \<Longrightarrow> review_ok (db\<lparr>vd_reports := vd_reports db @ xs\<rparr>) r" for r xs
    using distinct_reporters_mono [of db "vw_id r" xs] by (auto simp: review_ok_def)
  then have "list_all (review_ok (db\<lparr>vd_reports := vd_reports db @ xs\<rparr>)) (vd_reviews db)" for xs
    using inv by (auto simp: reviews_inv_def list_all_iff)
  then show ?thesis using inv by (auto simp: report_insert_def Let_def reviews_inv_def)
qed

lemma report_apply_inv:
  assumes "reviews_inv db" "ticket_ok t"
  shows "reviews_inv (snd (report_apply io now t db))"
proof -
  define s where "s = state_after_report (vw_moderation_state (tk_review t)) (distinct_reporters db (vw_id (tk_review t))) REPORTS_TO_HIDE"
  have "s = M_HIDDEN_PENDING_REVIEW \<and> REPORTS_TO_HIDE \<le> distinct_reporters db (vw_id (tk_review t))"
    if "moderation_value s \<noteq> vw_moderation_state (tk_review t)"
    using that assms (2) unfolding s_def ticket_ok_def
    by (elim insertE) (auto simp: state_after_report_def simp del: moderation_value.simps split: if_splits)
  then show ?thesis using assms (1)
    by (auto simp: report_apply_def Let_def simp del: moderation_value.simps simp flip: s_def intro!: update_review_inv)
      (auto simp: review_ok_def simp del: moderation_value.simps)
qed

lemma moderate_inv: "reviews_inv db \<Longrightarrow> reviews_inv (snd (moderate_endpoint io now i ruling note db))"
  by (auto simp: moderate_endpoint_def moderate_review_def Let_def split: option.splits intro!: update_review_inv)
    (auto simp: ruled_def review_ok_def simp del: moderation_value.simps)

interpretation reviews: inductive_invariant no_reviews review_step world_inv
proof unfold_locales
  show "no_reviews w \<Longrightarrow> world_inv w" for w
    by (simp add: no_reviews_def world_inv_def reviews_inv_def)
  have load: "ticket_ok t" if "report_load i reporter request db = Inr t" for i reporter request db t
    using that by (auto simp: report_load_def Let_def ticket_ok_def may_report_allowed split: option.splits if_splits)
  have change: "world_inv w \<Longrightarrow> review_change w w' \<Longrightarrow> world_inv w'" for w w'
    by (erule review_change.cases)
      (auto simp: world_inv_def list_all_iff load edit_inv report_insert_inv report_apply_inv moderate_inv)
  show "world_inv w \<Longrightarrow> review_step w w' \<Longrightarrow> world_inv w'" for w w'
    by (erule review_step.cases) (simp add: world_inv_def submit_inv, simp add: change)
qed

section \<open>Properties\<close>

text \<open>
  Property C17 (what the review tables hold): whatever submissions, edits, reports and rulings
  arrive, and however the parts of the reports interleave with them, ratings are whole stars from 1
  to 5, a purchase has at most one review of a product, a person has at most one report of a review,
  a review's state is one of the four, and a review that reports have hidden has reports of at least
  three different people.
\<close>

theorem reviews_well_formed:
  assumes "reachable no_reviews review_step w"
  shows "distinct (map (\<lambda>r. (vw_seller_order_id r, vw_product_id r)) (vd_reviews (wd_db w)))
    \<and> distinct (map (\<lambda>x. (vr_review_id x, vr_reporter_id x)) (vd_reports (wd_db w)))
    \<and> (\<forall>r\<in>set (vd_reviews (wd_db w)).
         1 \<le> vw_product_rating r \<and> vw_product_rating r \<le> 5
       \<and> (\<forall>n. vw_seller_rating r = Some n \<longrightarrow> 1 \<le> n \<and> n \<le> 5)
       \<and> (\<exists>s. vw_moderation_state r = moderation_value s)
       \<and> (vw_moderation_state r = moderation_value M_HIDDEN_PENDING_REVIEW \<longrightarrow> 3 \<le> distinct_reporters (wd_db w) (vw_id r)))"
proof -
  have inv: "reviews_inv (wd_db w)" using reviews.reachable_inv [OF assms] by (simp add: world_inv_def)
  have "review_ok (wd_db w) r" if "r \<in> set (vd_reviews (wd_db w))" for r
    using inv that by (simp add: reviews_inv_def list_all_iff)
  moreover have "review_ok (wd_db w) r \<Longrightarrow> 1 \<le> vw_product_rating r \<and> vw_product_rating r \<le> 5
       \<and> (\<forall>n. vw_seller_rating r = Some n \<longrightarrow> 1 \<le> n \<and> n \<le> 5)
       \<and> (\<exists>s. vw_moderation_state r = moderation_value s)
       \<and> (vw_moderation_state r = moderation_value M_HIDDEN_PENDING_REVIEW \<longrightarrow> 3 \<le> distinct_reporters (wd_db w) (vw_id r))" for r
    by (simp add: review_ok_def on_scale_def REPORTS_TO_HIDE_def del: moderation_value.simps split: option.splits)
  moreover have "distinct (map (\<lambda>r. (vw_seller_order_id r, vw_product_id r)) (vd_reviews (wd_db w)))"
      "distinct (map (\<lambda>x. (vr_review_id x, vr_reporter_id x)) (vd_reports (wd_db w)))"
    using inv by (simp_all add: reviews_inv_def)
  ultimately show ?thesis by blast
qed

text \<open>
  The summary is about what is shown: for every reachable database, the count of a
  product's summary is the number of its reviews that are public, the same ones its page lists; the
  average exists exactly when there is one and lies between 1 and 5; each entry of the distribution is
  the number of shown reviews with that many stars, and the entries add up to the count.
\<close>

theorem summary_matches_listing:
  assumes "reachable no_reviews review_step w"
  shows "(let shown = filter (\<lambda>r. vw_product_id r = p \<and> is_public (vw_moderation_state r)) (vd_reviews (wd_db w));
              s = product_summary (wd_db w) p
          in ps_review_count s = length shown
           \<and> (\<exists>vs. list_for_product (wd_db w) p 100 = Inr vs \<and> length vs = min 100 (length shown)
                \<and> set vs \<subseteq> view ` set shown)
           \<and> (case ps_average_rating s of None \<Rightarrow> shown = [] | Some a \<Rightarrow> shown \<noteq> [] \<and> 1 \<le> a \<and> a \<le> 5)
           \<and> (\<forall>star\<in>{1..5}. map_of (ps_distribution s) star = Some (length (filter (\<lambda>r. vw_product_rating r = star) shown)))
           \<and> sum_list (map snd (ps_distribution s)) = length shown)"
proof -
  define shown where "shown = filter (\<lambda>r. vw_product_id r = p \<and> is_public (vw_moderation_state r)) (vd_reviews (wd_db w))"
  define ratings where "ratings = map (Some \<circ> vw_product_rating) shown"
  have rows: "filter (\<lambda>r. vw_product_id r = p) (public_rows (wd_db w)) = shown"
    by (auto simp: public_rows_def shown_def is_public_value intro: filter_cong)
  have scale: "1 \<le> n \<and> n \<le> 5" if "Some n \<in> set ratings" for n
    using that reviews.reachable_inv [OF assms]
    by (auto simp: ratings_def shown_def world_inv_def reviews_inv_def review_ok_def on_scale_def list_all_iff)
  have present: "present_ratings ratings = map vw_product_rating shown"
    by (simp add: present_ratings_def ratings_def filter_map comp_def)
  have summary: "product_summary (wd_db w) p = \<lparr>ps_average_rating = ag_average (aggregate_ratings ratings),
      ps_review_count = ag_count (aggregate_ratings ratings), ps_distribution = distribution ratings\<rparr>"
    by (simp add: product_summary_def rows ratings_def Let_def)
  have count: "ag_count (aggregate_ratings ratings) = length shown"
    by (simp add: aggregate_ratings_def present Let_def)
  have average: "case ag_average (aggregate_ratings ratings) of None \<Rightarrow> shown = [] | Some a \<Rightarrow> shown \<noteq> [] \<and> 1 \<le> a \<and> a \<le> 5"
    using aggregate_on_scale [OF scale] by (auto simp: aggregate_ratings_def present Let_def split: option.splits if_splits)
  have stars: "map_of (distribution ratings) star = Some (length (filter (\<lambda>r. vw_product_rating r = star) shown))"
    if "star \<in> {1..5}" for star
    using distribution_star [of star ratings] that by (simp add: ratings_def filter_map comp_def)
  have "set (take 100 (sort_key (\<lambda>r. - vw_created_at r) shown)) \<subseteq> set shown"
    using set_take_subset [of 100 "sort_key (\<lambda>r. - vw_created_at r) shown"] by simp
  then have listing: "\<exists>vs. list_for_product (wd_db w) p 100 = Inr vs \<and> length vs = min 100 (length shown) \<and> set vs \<subseteq> view ` set shown"
    by (auto simp: list_for_product_def limited_def rows)
  show ?thesis
    unfolding Let_def shown_def [symmetric] summary
    using count average stars listing distribution_total [OF scale] by simp
qed

text \<open>Everything but a ruling on review \<open>i\<close>, each request run to its end before the next.\<close>

inductive quiet_step :: "uuid \<Rightarrow> review_db \<Rightarrow> review_db \<Rightarrow> bool" for i where
  submit: "quiet_step i db (snd (submit_endpoint io now fresh reply seen user request key db))"
| edit: "quiet_step i db (snd (edit_endpoint io now j user edit db))"
| report: "quiet_step i db (snd (report_endpoint io1 io2 now fresh j user report db))"
| moderate: "j \<noteq> i \<Longrightarrow> quiet_step i db (snd (moderate_endpoint io now j ruling note db))"

definition ruled_as :: "uuid \<Rightarrow> ModerationState \<Rightarrow> int option \<Rightarrow> string option \<Rightarrow> review_db \<Rightarrow> bool" where
  "ruled_as i s moderated_at note db \<longleftrightarrow> s \<in> {M_REMOVED, M_CLEARED} \<and>
     (\<exists>r. get_review db i = Some r \<and> vw_moderation_state r = moderation_value s \<and> vw_moderated_at r = moderated_at
        \<and> vw_moderation_note r = note)"

lemma find_map_if_id:
  "(\<And>r. vw_id (f r) = vw_id r) \<Longrightarrow>
     find (\<lambda>r. vw_id r = i) (map (\<lambda>r. if vw_id r = j then f r else r) rs)
       = map_option (\<lambda>r. if i = j then f r else r) (find (\<lambda>r. vw_id r = i) rs)"
  by (induction rs) auto

lemma get_review_update:
  "(\<And>r. vw_id (f r) = vw_id r) \<Longrightarrow>
     get_review (add_event m (update_review j f db)) i = map_option (\<lambda>r. if i = j then f r else r) (get_review db i)"
  by (simp add: get_review_def find_map_if_id)

lemma submit_ruled:
  assumes "ruled_as i s m n db"
  shows "ruled_as i s m n (snd (submit_endpoint io now fresh reply seen user request key db))"
proof -
  have "ruled_as i s m n db'" if "vd_reviews db' = vd_reviews db @ xs" for db' xs
    using that assms find_append_kept by (fastforce simp: ruled_as_def get_review_def)
  moreover have "db' = db \<or> (\<exists>xs. vd_reviews db' = vd_reviews db @ xs)"
    if "submit_review io now fresh reply seen buyer request key db = (x, db')" for buyer x db'
    using submit_review_cases [OF that] insert_review_cases by blast
  ultimately have "ruled_as i s m n db'" if "submit_review io now fresh reply seen buyer request key db = (x, db')" for buyer x db'
    using that assms by blast
  then show ?thesis using assms by (auto simp: submit_endpoint_def split: sum.splits) (metis prod.collapse)
qed

text \<open>An update keeps the ruling if it keeps those columns or is about another review.\<close>

lemma update_ruled:
  assumes "ruled_as i s m n db" "\<And>r. vw_id (f r) = vw_id r"
    and "\<And>r. j = i \<Longrightarrow> vw_moderation_state (f r) = vw_moderation_state r \<and> vw_moderated_at (f r) = vw_moderated_at r
      \<and> vw_moderation_note (f r) = vw_moderation_note r"
  shows "ruled_as i s m n (add_event e (update_review j f db))"
proof -
  obtain r where r: "get_review db i = Some r" "vw_moderation_state r = moderation_value s" "vw_moderated_at r = m" "vw_moderation_note r = n"
      "s \<in> {M_REMOVED, M_CLEARED}"
    using assms (1) unfolding ruled_as_def by blast
  have "get_review (add_event e (update_review j f db)) i = Some (if i = j then f r else r)"
    by (simp add: get_review_update [OF assms (2)] r (1))
  then show ?thesis unfolding ruled_as_def using r (2-5) assms (3) [of r] by (cases "i = j") simp_all
qed

lemma edited_sel [simp]:
  "vw_id (edited now request r) = vw_id r" "vw_moderation_state (edited now request r) = vw_moderation_state r"
  "vw_moderated_at (edited now request r) = vw_moderated_at r" "vw_moderation_note (edited now request r) = vw_moderation_note r"
  by (simp_all add: edited_def)

lemma edit_ruled: "ruled_as i s m n db \<Longrightarrow> ruled_as i s m n (snd (edit_endpoint io now j user request db))"
  by (simp add: edit_endpoint_def edit_review_def Let_def update_ruled split: sum.splits option.splits)

text \<open>A report of a review that was ruled on stops at the rules; a report of another one leaves it.\<close>

lemma report_ruled:
  assumes "ruled_as i s m n db"
  shows "ruled_as i s m n (snd (report_endpoint io1 io2 now fresh j user request db))"
proof -
  have insert: "ruled_as i s m n (snd (report_insert io fresh t db))" for io t
    using assms by (auto simp: report_insert_def Let_def ruled_as_def get_review_def)
  have apply_other: "ruled_as i s m n (snd (report_apply io now t db'))" if "ruled_as i s m n db'" "vw_id (tk_review t) \<noteq> i" for io t db'
    using that by (simp add: report_apply_def Let_def update_ruled del: moderation_value.simps)
  have other: "vw_id (tk_review t) \<noteq> i" if load: "report_load j reporter request db = Inr t" for t reporter
  proof -
    have t: "get_review db j = Some (tk_review t)"
        "vw_moderation_state (tk_review t) \<in> {moderation_value M_VISIBLE, moderation_value M_HIDDEN_PENDING_REVIEW}"
      using load by (auto simp: report_load_def Let_def may_report_allowed simp del: moderation_value.simps split: option.splits if_splits)
    moreover have "vw_id (tk_review t) = j" using t (1) by (auto simp: get_review_def dest: find_SomeD)
    ultimately show ?thesis using assms by (auto simp: ruled_as_def simp del: moderation_value.simps)
  qed
  have "ruled_as i s m n (snd (report_review io1 io2 now fresh j reporter request db))" for reporter
    using insert apply_other other assms
    by (auto simp: report_review_def split: sum.splits prod.splits) (metis snd_conv)+
  then show ?thesis using assms by (auto simp: report_endpoint_def split: sum.splits)
qed

lemma moderate_other_ruled: "ruled_as i s m n db \<Longrightarrow> j \<noteq> i \<Longrightarrow> ruled_as i s m n (snd (moderate_endpoint io now j ruling note db))"
  by (simp add: moderate_endpoint_def moderate_review_def Let_def update_ruled ruled_def split: option.splits)

interpretation rulings: inductive_invariant "ruled_as i s m n" "quiet_step i" "ruled_as i s m n" for i s m n
proof unfold_locales
  show "ruled_as i s m n db \<Longrightarrow> quiet_step i db db' \<Longrightarrow> ruled_as i s m n db'" for db db'
    by (erule quiet_step.cases) (simp_all add: submit_ruled edit_ruled report_ruled moderate_other_ruled)
qed

text \<open>
  Property C35 (a ruling is final): once a moderator has removed or cleared a review, no number of
  submissions, edits, reports or rulings on other reviews, one after the other, changes its state, the
  time of the ruling or its note.
\<close>

theorem ruling_final:
  assumes "moderate_endpoint True now i ruling note db = (Inr v, db1)" "(quiet_step i)\<^sup>*\<^sup>* db1 db2"
  shows "\<exists>r. get_review db2 i = Some r \<and> vw_moderated_at r = Some now \<and> vw_moderation_note r = note
    \<and> vw_moderation_state r = moderation_value (if ruling = ''remove'' then M_REMOVED else M_CLEARED)"
proof -
  have "ruled_as i (if ruling = ''remove'' then M_REMOVED else M_CLEARED) (Some now) note db1"
    using assms (1)
    by (auto simp: moderate_endpoint_def moderate_review_def Let_def ruled_as_def get_review_update ruled_def
        simp del: moderation_value.simps split: option.splits if_splits)
  from rulings.steps_inv [OF assms (2) this] show ?thesis by (auto simp: ruled_as_def simp del: moderation_value.simps)
qed

text \<open>
  A ruling between the parts of a report: a report that loaded the review while it was visible
  and commits after a moderator cleared it hides it again, when two other people have reported it.
\<close>

theorem racing_report_undoes_ruling:
  assumes load: "report_load i reporter request db = Inr t" and visible: "vw_moderation_state (tk_review t) = moderation_value M_VISIBLE"
    and ruling: "moderate_review True now i ''clear'' note db = (Inr v, db1)"
    and others: "distinct_reporters db i = 2" "tk_reporter t \<notin> vr_reporter_id ` set (vd_reports db)" "fresh \<notin> vr_id ` set (vd_reports db)"
  shows "\<exists>db2 db3 a r. report_insert True fresh t db1 = (Inr (), db2) \<and> report_apply True later t db2 = (Inr a, db3)
    \<and> get_review db3 i = Some r \<and> vw_moderated_at r = Some now \<and> vw_moderation_state r = moderation_value M_HIDDEN_PENDING_REVIEW"
proof -
  have t: "get_review db i = Some (tk_review t)" "vw_id (tk_review t) = i"
    using load by (auto simp: report_load_def Let_def get_review_def split: option.splits if_splits dest: find_SomeD)
  have db1: "vd_reports db1 = vd_reports db" "get_review db1 i = Some (ruled now ''clear'' note (tk_review t))"
    using ruling t by (auto simp: moderate_review_def Let_def get_review_update ruled_def simp del: moderation_value.simps)
  define report where "report = \<lparr>vr_id = fresh, vr_review_id = i, vr_reporter_id = tk_reporter t, vr_reason = reason_value (tk_reason t),
      vr_note = tk_note t\<rparr>"
  define db2 where "db2 = db1\<lparr>vd_reports := vd_reports db @ [report]\<rparr>"
  have insert: "report_insert True fresh t db1 = (Inr (), db2)"
    using others (2,3) by (auto simp: report_insert_def Let_def db1 t db2_def report_def image_iff)
  have "distinct_reporters db2 i = Suc (distinct_reporters db i)"
    using others (2) by (auto simp: distinct_reporters_def db2_def report_def length_remdups_card_conv image_iff card_insert_if)
  then have hides: "state_after_report (vw_moderation_state (tk_review t)) (distinct_reporters db2 i) REPORTS_TO_HIDE = M_HIDDEN_PENDING_REVIEW"
    using others (1) by (simp add: state_after_report_def visible REPORTS_TO_HIDE_def del: moderation_value.simps)
  have "get_review db2 i = Some (ruled now ''clear'' note (tk_review t))" using db1 (2) by (simp add: db2_def get_review_def)
  then show ?thesis
    using insert hides t
    by (simp add: report_apply_def Let_def visible get_review_update ruled_def del: moderation_value.simps)
qed

text \<open>An author may rewrite a review that a moderator has cleared, and nobody may report it any more.\<close>

theorem cleared_review_rewritten:
  assumes "get_review db i = Some r" "vw_moderation_state r = moderation_value M_CLEARED" "as_reason (rr_reason request) = Some reason"
    and "now - vw_created_at r \<le> days EDIT_WINDOW_DAYS"
  shows "\<exists>v db'. edit_review True now i (vw_buyer_id r) \<lparr>ed_product_rating = None, ed_seller_rating = None, ed_title = None,
        ed_body = Some text\<rparr> db = (Inr v, db') \<and> vv_body v = Some text
      \<and> (\<exists>e. report_load i reporter request db' = Inl e)"
  using assms
  by (auto simp: edit_review_def may_edit_def validate_optional_def Let_def report_load_def get_review_update edited_def view_def
      may_report_allowed simp del: moderation_value.simps split: option.splits)

section \<open>One review\<close>

definition demo_purchase :: purchase where
  "demo_purchase = \<lparr>pu_seller_order_id = ''s1'', pu_order_id = ''o1'', pu_seller_id = ''v1'', pu_buyer_id = uuid_text 7,
     pu_status = ''DELIVERED'', pu_delivered_at = Some 100, pu_product_ids = [''p1'']\<rparr>"

definition demo_submit :: SubmitRequest where
  "demo_submit = \<lparr>sb_seller_order_id = ''s1'', sb_product_id = ''p1'', sb_product_rating = 4, sb_seller_rating = None,
     sb_title = None, sb_body = Some ''fine''\<rparr>"

definition empty_reviews :: review_db where
  "empty_reviews = \<lparr>vd_reviews = [], vd_reports = [], vd_keys = [], vd_outbox = []\<rparr>"

definition demo_reviews :: review_db where
  "demo_reviews = snd (submit_endpoint True 200 ''r1'' (PR_Purchase demo_purchase) [] (Some (uuid_text 7)) demo_submit None empty_reviews)"

definition demo_review :: Review where
  "demo_review = new_review 200 ''r1'' demo_purchase (uuid_text 7) demo_submit"

lemma demo_reviews_rows: "vd_reviews demo_reviews = [demo_review]" "vd_reports demo_reviews = []"
proof -
  have "py_uuid (uuid_text 7) = Some (uuid_text 7)" by (simp add: py_uuid_text)
  moreover have "title_fits (sb_title demo_submit)" by (simp add: title_fits_def demo_submit_def)
  ultimately show "vd_reviews demo_reviews = [demo_review]" "vd_reports demo_reviews = []"
    by (simp_all add: demo_reviews_def submit_endpoint_def require_buyer_def submit_review_def replayed_def
        fetch_purchase_def may_review_def DELIVERED_STATES_def el_allowed_def demo_purchase_def demo_submit_def days_def REVIEW_WINDOW_DAYS_def
        validate_rating_def validate_optional_def MIN_RATING_def MAX_RATING_def use_key_def insert_review_def empty_reviews_def
        review_storable_def new_review_def on_scale_def demo_review_def Let_def)
qed

lemma demo_reviews_reachable: "reachable no_reviews review_step \<lparr>wd_db = demo_reviews, wd_loaded = []\<rparr>"
proof -
  have "reachable no_reviews review_step \<lparr>wd_db = empty_reviews, wd_loaded = []\<rparr>"
    by (rule reach_init) (simp add: no_reviews_def empty_reviews_def)
  from reach_step [OF this review_step.submit] show ?thesis by (simp add: demo_reviews_def)
qed

theorem reviews_well_formed_witness: "1 \<le> vw_product_rating demo_review \<and> vw_product_rating demo_review \<le> 5"
  using reviews_well_formed [OF demo_reviews_reachable] by (simp add: demo_reviews_rows)

theorem summary_matches_listing_witness: "ps_review_count (product_summary demo_reviews ''p1'') = 1"
proof -
  have "vw_product_id demo_review = ''p1''" "is_public (vw_moderation_state demo_review)"
    by (simp_all add: demo_review_def new_review_def demo_submit_def is_public_value PUBLIC_STATES_def)
  then show ?thesis
    using summary_matches_listing [OF demo_reviews_reachable, of "''p1''"] by (simp add: demo_reviews_rows Let_def)
qed

definition demo_report :: ReportRequest where
  "demo_report = \<lparr>rr_reason = ''spam'', rr_note = None\<rparr>"

theorem ruling_final_witness:
  "\<exists>r. get_review (snd (report_endpoint True True 400 ''q1'' ''r1'' (Some (uuid_text 8)) demo_report
        (snd (moderate_endpoint True 300 ''r1'' ''clear'' None demo_reviews)))) ''r1'' = Some r
     \<and> vw_moderated_at r = Some 300 \<and> vw_moderation_state r = moderation_value M_CLEARED"
proof -
  have "vw_id demo_review = ''r1''" by (simp add: demo_review_def new_review_def)
  then obtain v db1 where m: "moderate_endpoint True 300 ''r1'' ''clear'' None demo_reviews = (Inr v, db1)"
    by (auto simp: moderate_endpoint_def note_fits_def moderate_review_def get_review_def demo_reviews_rows Let_def)
  have "(quiet_step ''r1'')\<^sup>*\<^sup>* db1 (snd (report_endpoint True True 400 ''q1'' ''r1'' (Some (uuid_text 8)) demo_report db1))"
    by (rule r_into_rtranclp) (rule quiet_step.report)
  from ruling_final [OF m this] show ?thesis by (auto simp: m simp del: moderation_value.simps)
qed

end
