(* ===== verification/Purchase_Flow.thy ===== *)
theory Purchase_Flow
  imports Reviews Order_Lifecycle
begin

text \<open>
  The reviews service and the order service together: a submission asks
  \<open>GET /orders/seller-orders/{id}/purchase\<close>, and the order goes on changing afterwards.
\<close>

section \<open>The two services\<close>

text \<open>What the order service answers about a purchase.\<close>

definition purchase_answer :: "order_db \<Rightarrow> uuid \<Rightarrow> purchase_reply" where
  "purchase_answer odb seller_order_id =
     (case get_purchase odb seller_order_id of
        Inr p \<Rightarrow> PR_Purchase p
      | Inl f \<Rightarrow> PR_Status (http_status 200 (Inl f :: purchase result)))"

inductive shop_step :: "order_db \<times> review_world \<Rightarrow> order_db \<times> review_world \<Rightarrow> bool" where
  order: "order_step odb odb' \<Longrightarrow> shop_step (odb, w) (odb', w)"
| submit: "reply \<in> {PR_Refused, PR_Unreachable, purchase_answer odb (sb_seller_order_id request)} \<Longrightarrow>
     shop_step (odb, w) (odb, w\<lparr>wd_db := snd (submit_endpoint io now fresh reply seen user request key (wd_db w))\<rparr>)"
| change: "review_change w w' \<Longrightarrow> shop_step (odb, w) (odb, w')"

definition no_shop :: "order_db \<times> review_world \<Rightarrow> bool" where
  "no_shop s \<longleftrightarrow> empty_order_db (fst s) \<and> no_reviews (snd s)"

section \<open>A review and its purchase\<close>

text \<open>The columns of a review that say what it is about; no request changes them.\<close>

definition review_core :: "Review \<Rightarrow> uuid \<times> uuid \<times> uuid \<times> uuid \<times> uuid" where
  "review_core r = (vw_seller_order_id r, vw_order_id r, vw_product_id r, vw_seller_id r, vw_buyer_id r)"

definition bought :: "order_db \<Rightarrow> uuid \<times> uuid \<times> uuid \<times> uuid \<times> uuid \<Rightarrow> bool" where
  "bought odb c \<longleftrightarrow> (case c of (seller_order, order, product, seller, buyer) \<Rightarrow>
     (\<exists>so\<in>set (od_seller_orders odb). so_id so = seller_order \<and> so_order_id so = order \<and> so_seller_id so = seller
        \<and> so_status so \<in> {''DELIVERED'', ''SETTLED''})
     \<and> (\<exists>s. saga_by_id odb order = Some s \<and> py_uuid (sg_user_id s) = Some buyer)
     \<and> (\<exists>l\<in>set (od_order_lines odb). ol_seller_order_id l = Some seller_order \<and> ol_product_id l = product))"

definition shop_inv :: "order_db \<times> review_world \<Rightarrow> bool" where
  "shop_inv s \<longleftrightarrow> order_structure (fst s) \<and> (\<forall>r\<in>set (vd_reviews (wd_db (snd s))). bought (fst s) (review_core r))"

lemma delivered_stays:
  assumes "child_next so so'" "so_status so \<in> {''DELIVERED'', ''SETTLED''}"
  shows "so_status so' \<in> {''DELIVERED'', ''SETTLED''}"
proof -
  have "b = S_SETTLED" if "child_move S_DELIVERED b" for b
    using that by (cases rule: child_move.cases) (auto elim: cod_arrow.cases)
  moreover have "\<not> child_move S_SETTLED b" for b
    by (auto elim!: child_move.cases cod_arrow.cases)
  moreover have "sos_value a = ''DELIVERED'' \<longleftrightarrow> a = S_DELIVERED" "sos_value a = ''SETTLED'' \<longleftrightarrow> a = S_SETTLED" for a
    by (cases a; simp)+
  ultimately show ?thesis using assms by (auto simp: child_next_def)
qed

text \<open>A purchase stays a purchase whatever the order service does next.\<close>

lemma bought_step:
  assumes "order_structure odb" "order_step odb odb'" "bought odb c"
  shows "bought odb' c"
proof -
  obtain so_id' order product seller buyer where c: "c = (so_id', order, product, seller, buyer)" by (cases c)
  from assms (3) c obtain so s l where so: "so \<in> set (od_seller_orders odb)" "so_id so = so_id'" "so_order_id so = order"
      "so_seller_id so = seller" "so_status so \<in> {''DELIVERED'', ''SETTLED''}"
    and s: "saga_by_id odb order = Some s" "py_uuid (sg_user_id s) = Some buyer"
    and l: "l \<in> set (od_order_lines odb)" "ol_seller_order_id l = Some so_id'" "ol_product_id l = product"
    unfolding bought_def by auto
  obtain so' where so': "so' \<in> set (od_seller_orders odb')" "child_next so so'" using step_child_next [OF assms (1,2) so (1)] by blast
  then have "so_core so' = so_core so" by (simp add: child_next_def)
  then have core: "so_id so' = so_id'" "so_order_id so' = order" "so_seller_id so' = seller" using so by (simp_all add: so_core_def)
  obtain s' where s': "saga_by_id odb' order = Some s'" "saga_next s s'" using step_saga_next [OF assms (1,2) s (1)] by blast
  have "set (od_order_lines odb) \<subseteq> set (od_order_lines odb')"
    using step_moved_or_added [OF assms (1,2)] by (auto simp: rows_moved_def rows_added_def started_def)
  then show ?thesis
    unfolding c bought_def using so' core delivered_stays [OF so' (2) so (5)] s' s (2) l by (auto simp: saga_next_def)
qed

lemma purchase_bought:
  assumes "purchase_answer odb i = PR_Purchase p" "verified p buyer_id request now" "py_uuid buyer_id = Some buyer"
    "sb_seller_order_id request = i"
  shows "bought odb (review_core (new_review now' fresh p buyer request))"
proof -
  obtain so saga where so: "find (\<lambda>so. so_id so = i) (od_seller_orders odb) = Some so" and saga: "saga_by_id odb (so_order_id so) = Some saga"
    and p: "p = \<lparr>pu_seller_order_id = so_id so, pu_order_id = so_order_id so, pu_seller_id = so_seller_id so,
          pu_buyer_id = sg_user_id saga, pu_status = so_status so, pu_delivered_at = so_delivered_at so,
          pu_product_ids = product_ids_of odb (so_id so)\<rparr>"
    using assms (1) by (auto simp: purchase_answer_def get_purchase_def split: sum.splits option.splits)
  have so_in: "so \<in> set (od_seller_orders odb)" "so_id so = i" using find_SomeD [OF so] by auto
  have v: "buyer_id = sg_user_id saga" "so_status so \<in> {''DELIVERED'', ''SETTLED''}" "sb_product_id request \<in> set (product_ids_of odb (so_id so))"
    using assms (2) unfolding verified_def p by simp_all
  have "\<exists>l\<in>set (od_order_lines odb). ol_seller_order_id l = Some i \<and> ol_product_id l = sb_product_id request"
    using v (3) so_in (2) by (auto simp: product_ids_of_def)
  moreover have "\<exists>s. saga_by_id odb (so_order_id so) = Some s \<and> py_uuid (sg_user_id s) = Some buyer"
    using saga assms (3) v (1) by blast
  moreover have "review_core (new_review now' fresh p buyer request) = (i, so_order_id so, sb_product_id request, so_seller_id so, buyer)"
    using assms (4) by (simp add: review_core_def new_review_def p)
  ultimately show ?thesis unfolding bought_def using so_in v (2) by auto
qed

definition cores :: "review_db \<Rightarrow> (uuid \<times> uuid \<times> uuid \<times> uuid \<times> uuid) list" where
  "cores db = map review_core (vd_reviews db)"

lemma cores_update: "(\<And>r. review_core (f r) = review_core r) \<Longrightarrow> cores (add_event m (update_review i f db)) = cores db"
  by (simp add: cores_def)

lemma cores_report: "cores (db\<lparr>vd_reports := x\<rparr>) = cores db"
  by (simp add: cores_def)

lemma review_core_kept:
  "review_core (edited now request r) = review_core r" "review_core (ruled now ruling n r) = review_core r"
  "review_core (r\<lparr>vw_moderation_state := s, vw_updated_at := t\<rparr>) = review_core r"
  by (simp_all add: review_core_def edited_def ruled_def)

lemma change_cores:
  assumes "review_change w w'"
  shows "cores (wd_db w') = cores (wd_db w)"
  using assms
  by cases (simp_all add: edit_endpoint_def edit_review_def report_insert_def report_apply_def moderate_endpoint_def
      moderate_review_def Let_def cores_update cores_report review_core_kept split: sum.splits option.splits)

interpretation shop: inductive_invariant no_shop shop_step shop_inv
proof unfold_locales
  show "no_shop s \<Longrightarrow> shop_inv s" for s
    by (auto simp: no_shop_def shop_inv_def no_reviews_def dest: order_structure_inv.init_inv)
  show "shop_inv t" if inv: "shop_inv s" and step: "shop_step s t" for s t
    using step
  proof cases
    case (order odb odb' w)
    have st: "order_structure odb" using inv order (1) by (simp add: shop_inv_def)
    note keep = bought_step [OF st order (3)]
    from order_structure_inv.step_inv [OF st order (3)] show ?thesis
      using inv order (1,2) keep by (simp add: shop_inv_def del: split_paired_All)
  next
    case (submit reply odb request w io now fresh seen user key)
    have "bought odb (review_core r)" if r: "r \<in> set (vd_reviews db')"
      and sub: "submit_review io now fresh reply seen buyer_id request key (wd_db w) = (x, db')" for r buyer_id x db'
      using submit_review_cases [OF sub]
    proof (elim disjE exE conjE)
      fix p buyer
      assume p: "reply = PR_Purchase p" "verified p buyer_id request now" "py_uuid buyer_id = Some buyer"
        and ins: "insert_review io (use_key key) (new_review now fresh p buyer request) (wd_db w) = (x, db')"
      have "purchase_answer odb (sb_seller_order_id request) = PR_Purchase p" using submit (3) p (1) by auto
      from purchase_bought [OF this p (2,3) refl] insert_review_cases [OF ins] r show ?thesis
        using inv submit (1) by (auto simp: shop_inv_def)
    qed (use inv submit (1) r in \<open>auto simp: shop_inv_def\<close>)
    then show ?thesis using inv submit (1,2)
      by (auto simp: shop_inv_def submit_endpoint_def split: sum.splits if_splits) (metis prod.collapse)
  next
    case (change w w' odb)
    have "\<forall>c\<in>set (cores (wd_db w)). bought odb c" using inv change (1) by (simp add: shop_inv_def cores_def)
    then have "\<forall>c\<in>set (cores (wd_db w')). bought odb c" by (simp only: change_cores [OF change (3)])
    then show ?thesis using inv change (1,2) by (simp add: shop_inv_def cores_def)
  qed
qed

text \<open>
  Property C5 (only verified purchases are reviewed): in every state the two services can reach,
  each stored review names a seller order that is delivered or settled, of the seller and the order the
  review names; the buyer of that order wrote it, and the product is one of its lines. Outages of the
  order service, retries and later changes of the order make no difference.
\<close>

theorem every_review_verified:
  assumes "reachable no_shop shop_step (odb, w)" "r \<in> set (vd_reviews (wd_db w))"
  shows "\<exists>so s l. so \<in> set (od_seller_orders odb) \<and> so_id so = vw_seller_order_id r \<and> so_seller_id so = vw_seller_id r
    \<and> so_status so \<in> {''DELIVERED'', ''SETTLED''}
    \<and> saga_by_id odb (so_order_id so) = Some s \<and> py_uuid (sg_user_id s) = Some (vw_buyer_id r)
    \<and> l \<in> set (od_order_lines odb) \<and> ol_seller_order_id l = Some (so_id so) \<and> ol_product_id l = vw_product_id r"
proof -
  have "bought odb (review_core r)" using shop.reachable_inv [OF assms (1)] assms (2) by (simp add: shop_inv_def)
  then obtain so s l where "so \<in> set (od_seller_orders odb)" "so_id so = vw_seller_order_id r" "so_order_id so = vw_order_id r"
      "so_seller_id so = vw_seller_id r" "so_status so \<in> {''DELIVERED'', ''SETTLED''}" "saga_by_id odb (vw_order_id r) = Some s"
      "py_uuid (sg_user_id s) = Some (vw_buyer_id r)" "l \<in> set (od_order_lines odb)"
      "ol_seller_order_id l = Some (vw_seller_order_id r)" "ol_product_id l = vw_product_id r"
    unfolding bought_def review_core_def by auto
  then show ?thesis by metis
qed

section \<open>From an order to its review\<close>

definition plain_action :: SellerOrderActionRequest where
  "plain_action = \<lparr>ar_reason = None, ar_courier_name = None, ar_tracking_code = None\<rparr>"

text \<open>One accepted action on the only seller order of a database, as a step of the order service.\<close>

lemma single_action:
  assumes "reachable no_shop shop_step (db, w)" "od_seller_orders db = [so]" "so_status so = sos_value a" "cod_arrow action a b e f False"
  shows "\<exists>db' so'. reachable no_shop shop_step (db', w) \<and> od_seller_orders db' = [so'] \<and> so_status so' = sos_value b
    \<and> so_core so' = so_core so \<and> od_sagas db' = od_sagas db \<and> od_order_lines db' = od_order_lines db"
proof -
  define d where "d = plan_transition action (so_status so) []"
  have d: "d = \<lparr>cd_outcome = COD_OK, cd_to = Some b, cd_event = Some e, cd_effect = f, cd_detail = py_strip []\<rparr>"
    unfolding d_def by (subst plan_transition_ok) (use assms in blast)
  define db' where "db' = snd (transition_seller_order True 0 (so_order_id so) (so_id so) action plain_action db)"
  define so' where "so' = moved_seller_order action 0 plain_action d so"
  have "db' = add_outbox 0 (transition_messages db action d so') (update_seller_orders (\<lambda>x. so_id x = so_id so) (\<lambda>_. so') db)"
    unfolding db'_def so'_def d_def using d
    by (simp add: transition_seller_order_def assms (2) plain_action_def cod_ok_def Let_def flip: d_def)
  then have rows: "od_seller_orders db' = [so']" "od_sagas db' = od_sagas db" "od_order_lines db' = od_order_lines db"
    by (simp_all add: add_outbox_def update_seller_orders_def assms (2))
  have "shop_step (db, w) (db', w)" unfolding db'_def by (intro shop_step.order order_step.seller_action)
  then have "reachable no_shop shop_step (db', w)" by (rule reach_step [OF assms (1)])
  moreover have "so_status so' = sos_value b" "so_core so' = so_core so" by (simp_all add: so'_def d)
  ultimately show ?thesis using rows by blast
qed

lemma demo_shop: "reachable no_shop shop_step (demo_db, \<lparr>wd_db = empty_reviews, wd_loaded = []\<rparr>)"
proof (rule reach_step)
  show "reachable no_shop shop_step (no_orders, \<lparr>wd_db = empty_reviews, wd_loaded = []\<rparr>)"
    by (rule reach_init) (simp add: no_shop_def empty_order_db_def no_orders_def no_reviews_def empty_reviews_def)
  show "shop_step (no_orders, \<lparr>wd_db = empty_reviews, wd_loaded = []\<rparr>) (demo_db, \<lparr>wd_db = empty_reviews, wd_loaded = []\<rparr>)"
    unfolding demo_db_def by (intro shop_step.order order_step.create)
qed

text \<open>The order of the example after its stock is reserved.\<close>

lemma demo_reserved:
  "\<exists>db so s. reachable no_shop shop_step (db, \<lparr>wd_db = empty_reviews, wd_loaded = []\<rparr>) \<and> od_seller_orders db = [so]
     \<and> so_status so = sos_value S_INVENTORY_RESERVED \<and> so_id so = uuid_text 1001 \<and> so_order_id so = uuid_text 1000 \<and> so_seller_id so = uuid_text 11
     \<and> od_sagas db = [s] \<and> sg_id s = uuid_text 1000 \<and> sg_user_id s = uuid_text 7 \<and> od_order_lines db = od_order_lines demo_db"
proof -
  let ?s = "new_saga 100 (uuid_text 1000) demo_request"
  let ?s' = "?s\<lparr>sg_status := ORDER_COMPLETED, sg_updated_at := 200\<rparr>"
  define db where "db = snd (process_saga_event_endpoint True 200 (uuid_text 1000) ''InventoryReserved'' ''k2'' demo_db)"
  have key: "check_idempotency demo_db ''k2'' = Inr None" by (rule check_idempotency_new) (simp add: demo_start)
  have res: "resolve PENDING ''InventoryReserved'' ''COD'' = decision APPLY (Some ORDER_COMPLETED) None" by code_simp
  have ends: "ORDER_COMPLETED \<notin> set SAGA_STATES_ENDING_THE_ORDER"
    by (simp add: SAGA_STATES_ENDING_THE_ORDER_def ORDER_COMPLETED_def)
  have "db = store_key ''k2'' (uuid_text 1000) (reserve_children 200 (uuid_text 1000) (update_saga (uuid_text 1000) (\<lambda>_. ?s') demo_db))"
    by (simp add: db_def process_saga_event_endpoint_def py_uuid_text advance_saga_def key demo_saga res decision_def apply_decision_def
        cancel_children_of_ended_saga_def ends Let_def)
  then have rows: "od_sagas db = [?s']" "od_order_lines db = od_order_lines demo_db"
    "\<exists>so. od_seller_orders db = [so] \<and> so_status so = ''INVENTORY_RESERVED'' \<and> so_id so = uuid_text 1001 \<and> so_order_id so = uuid_text 1000
       \<and> so_seller_id so = uuid_text 11"
    by (simp_all add: store_key_def reserve_children_def update_saga_def update_seller_orders_def demo_start new_seller_order_def)
  have "shop_step (demo_db, \<lparr>wd_db = empty_reviews, wd_loaded = []\<rparr>) (db, \<lparr>wd_db = empty_reviews, wd_loaded = []\<rparr>)"
    unfolding db_def by (intro shop_step.order order_step.saga_event)
  then have "reachable no_shop shop_step (db, \<lparr>wd_db = empty_reviews, wd_loaded = []\<rparr>)" by (rule reach_step [OF demo_shop])
  moreover have "sg_id ?s' = uuid_text 1000" "sg_user_id ?s' = uuid_text 7" by (simp_all add: new_saga_def demo_request_def)
  ultimately show ?thesis using rows by fastforce
qed

lemma demo_delivered_order:
  "\<exists>db so s. reachable no_shop shop_step (db, \<lparr>wd_db = empty_reviews, wd_loaded = []\<rparr>) \<and> od_seller_orders db = [so]
     \<and> so_status so = ''DELIVERED'' \<and> so_id so = uuid_text 1001 \<and> so_order_id so = uuid_text 1000
     \<and> od_sagas db = [s] \<and> sg_id s = uuid_text 1000 \<and> sg_user_id s = uuid_text 7 \<and> od_order_lines db = od_order_lines demo_db"
proof -
  obtain db0 so0 s where 0: "reachable no_shop shop_step (db0, \<lparr>wd_db = empty_reviews, wd_loaded = []\<rparr>)" "od_seller_orders db0 = [so0]"
      "so_status so0 = sos_value S_INVENTORY_RESERVED" "so_id so0 = uuid_text 1001" "so_order_id so0 = uuid_text 1000"
      "od_sagas db0 = [s]" "sg_id s = uuid_text 1000" "sg_user_id s = uuid_text 7" "od_order_lines db0 = od_order_lines demo_db"
    using demo_reserved by blast
  from single_action [OF 0 (1-3) cod_arrow.confirm] obtain db1 so1 where
    1: "reachable no_shop shop_step (db1, \<lparr>wd_db = empty_reviews, wd_loaded = []\<rparr>)" "od_seller_orders db1 = [so1]"
      "so_status so1 = sos_value S_CONFIRMED" "so_core so1 = so_core so0" "od_sagas db1 = od_sagas db0" "od_order_lines db1 = od_order_lines db0"
    by blast
  from single_action [OF 1 (1-3) cod_arrow.dispatch] obtain db2 so2 where
    2: "reachable no_shop shop_step (db2, \<lparr>wd_db = empty_reviews, wd_loaded = []\<rparr>)" "od_seller_orders db2 = [so2]"
      "so_status so2 = sos_value S_DISPATCHED" "so_core so2 = so_core so1" "od_sagas db2 = od_sagas db1" "od_order_lines db2 = od_order_lines db1"
    by blast
  from single_action [OF 2 (1-3) cod_arrow.deliver] obtain db3 so3 where
    3: "reachable no_shop shop_step (db3, \<lparr>wd_db = empty_reviews, wd_loaded = []\<rparr>)" "od_seller_orders db3 = [so3]"
      "so_status so3 = sos_value S_DELIVERED" "so_core so3 = so_core so2" "od_sagas db3 = od_sagas db2" "od_order_lines db3 = od_order_lines db2"
    by blast
  have "so_id so3 = uuid_text 1001" "so_order_id so3 = uuid_text 1000"
    using 0 (4,5) 1 (4) 2 (4) 3 (4) by (simp_all add: so_core_def)
  then show ?thesis using 3 2 (5,6) 1 (5,6) 0 (6-9) by force
qed

definition demo_opinion :: SubmitRequest where
  "demo_opinion = \<lparr>sb_seller_order_id = uuid_text 1001, sb_product_id = uuid_text 21, sb_product_rating = 4, sb_seller_rating = None,
     sb_title = None, sb_body = None\<rparr>"

theorem every_review_verified_witness:
  "\<exists>odb w r so. reachable no_shop shop_step (odb, w) \<and> vd_reviews (wd_db w) = [r] \<and> vw_buyer_id r = uuid_text 7
     \<and> so \<in> set (od_seller_orders odb) \<and> so_id so = vw_seller_order_id r \<and> so_status so \<in> {''DELIVERED'', ''SETTLED''}"
proof -
  obtain odb so s where odb: "reachable no_shop shop_step (odb, \<lparr>wd_db = empty_reviews, wd_loaded = []\<rparr>)"
      "od_seller_orders odb = [so]" "so_status so = ''DELIVERED''" "so_id so = uuid_text 1001" "so_order_id so = uuid_text 1000"
      "od_sagas odb = [s]" "sg_id s = uuid_text 1000" "sg_user_id s = uuid_text 7" "od_order_lines odb = od_order_lines demo_db"
    using demo_delivered_order by blast
  define now where "now = (case so_delivered_at so of None \<Rightarrow> 0 | Some t \<Rightarrow> t)"
  define reply where "reply = purchase_answer odb (sb_seller_order_id demo_opinion)"
  define w where "w = \<lparr>wd_db = snd (submit_endpoint True now ''r1'' reply [] (Some (uuid_text 7)) demo_opinion None empty_reviews), wd_loaded = []\<rparr>"
  have step: "shop_step (odb, \<lparr>wd_db = empty_reviews, wd_loaded = []\<rparr>) (odb, w)"
    using shop_step.submit [of reply odb demo_opinion "\<lparr>wd_db = empty_reviews, wd_loaded = []\<rparr>" True now "''r1''" "[]" "Some (uuid_text 7)" None]
    by (simp add: w_def reply_def)
  have reach: "reachable no_shop shop_step (odb, w)" by (rule reach_step [OF odb (1) step])
  define p where "p = \<lparr>pu_seller_order_id = so_id so, pu_order_id = so_order_id so, pu_seller_id = so_seller_id so,
      pu_buyer_id = uuid_text 7, pu_status = ''DELIVERED'', pu_delivered_at = so_delivered_at so, pu_product_ids = [uuid_text 21]\<rparr>"
  have p: "reply = PR_Purchase p"
    by (simp add: reply_def purchase_answer_def get_purchase_def odb saga_by_id_def demo_opinion_def product_ids_of_def demo_start
        new_order_line_def p_def)
  have "el_allowed (may_review (uuid_text 7) (pu_buyer_id p) (pu_status p) (pu_product_ids p) (sb_product_id demo_opinion)
      (pu_delivered_at p) now False REVIEW_WINDOW_DAYS)"
    by (simp add: may_review_allowed p_def demo_opinion_def now_def days_def REVIEW_WINDOW_DAYS_def)
  moreover have "validate_rating (JInt (sb_product_rating demo_opinion)) ''product_rating'' = Inr 4"
      "validate_optional (sb_seller_rating demo_opinion) ''seller_rating'' = Inr None"
    by (simp_all add: demo_opinion_def validate_rating_def validate_optional_def MIN_RATING_def MAX_RATING_def)
  moreover have "py_uuid (uuid_text 7) = Some (uuid_text 7)" by (simp add: py_uuid_text)
  ultimately have sub: "submit_review True now ''r1'' reply [] (uuid_text 7) demo_opinion None empty_reviews
      = insert_review True None (new_review now ''r1'' p (uuid_text 7) demo_opinion) empty_reviews"
    by (simp add: submit_review_def replayed_def fetch_purchase_def p use_key_def)
  define r where "r = new_review now ''r1'' p (uuid_text 7) demo_opinion"
  have r: "vd_reviews (wd_db w) = [r]" "vw_buyer_id r = uuid_text 7"
    by (simp_all add: w_def submit_endpoint_def require_buyer_def title_fits_def sub)
      (simp_all add: demo_opinion_def insert_review_def empty_reviews_def review_storable_def on_scale_def new_review_def r_def)
  from every_review_verified [OF reach, of r] r reach show ?thesis by auto
qed

end
