(* ===== verification/Media.thy ===== *)
theory Media
  imports Prelude
begin

text \<open>
  The media service (\<open>src/services/media-service\<close>): the rules of \<open>services/media_rules.py\<close>, the
  handlers of \<open>services/media_service.py\<close> over the tables of \<open>models.py\<close>, the two functions of
  \<open>storage.py\<close> and the routes. The service keeps metadata; the bytes are in an object store, whose
  signing function is an argument of \<open>presigned_upload_url\<close>.

  A handler loads an asset and decides on what it loaded. The load and the rest are separate
  definitions, so that other requests can run between them.
\<close>

section \<open>Statuses and decisions\<close>

datatype MediaStatus = QUARANTINED | SCANNING | CLEAN | INFECTED | DELETED

fun media_status_value :: "MediaStatus \<Rightarrow> string" where
  "media_status_value QUARANTINED = ''quarantined''"
| "media_status_value SCANNING = ''scanning''"
| "media_status_value CLEAN = ''clean''"
| "media_status_value INFECTED = ''infected''"
| "media_status_value DELETED = ''deleted''"

definition as_media_status :: "string \<Rightarrow> MediaStatus option" where
  "as_media_status v = find (\<lambda>s. media_status_value s = v) [QUARANTINED, SCANNING, CLEAN, INFECTED, DELETED]"

definition MEDIA_TERMINAL :: "MediaStatus list" where
  "MEDIA_TERMINAL = [INFECTED, DELETED]"

definition EVENT_REGISTERED :: string where "EVENT_REGISTERED = ''MediaRegistered''"

definition EVENT_SCAN_STARTED :: string where "EVENT_SCAN_STARTED = ''MediaScanStarted''"

definition EVENT_PUBLISHED :: string where "EVENT_PUBLISHED = ''MediaPublished''"

definition EVENT_QUARANTINED :: string where "EVENT_QUARANTINED = ''MediaQuarantined''"

definition EVENT_DELETED :: string where "EVENT_DELETED = ''MediaDeleted''"

definition ALLOWED_CONTENT_TYPES :: "string list" where
  "ALLOWED_CONTENT_TYPES = [''image/jpeg'', ''image/png'', ''image/webp'', ''image/gif'', ''video/mp4'']"

definition MAX_BYTES :: int where
  "MAX_BYTES = 25 * 1024 * 1024"

datatype MediaOutcome = MOK | MINVALID | MNOT_ALLOWED

record MediaDecision =
  mdc_outcome :: MediaOutcome
  mdc_new_status :: "MediaStatus option"
  mdc_event :: "string option"
  mdc_detail :: string

definition mdc_ok :: "MediaDecision \<Rightarrow> bool" where
  "mdc_ok d \<longleftrightarrow> mdc_outcome d = MOK"

definition media_decision :: "MediaOutcome \<Rightarrow> MediaStatus option \<Rightarrow> string option \<Rightarrow> string \<Rightarrow> MediaDecision" where
  "media_decision outcome new_status event detail =
     \<lparr>mdc_outcome = outcome, mdc_new_status = new_status, mdc_event = event, mdc_detail = detail\<rparr>"

definition is_servable :: "string \<Rightarrow> bool" where
  "is_servable status \<longleftrightarrow> status = media_status_value CLEAN"

definition plan_media_registration :: "string \<Rightarrow> string \<Rightarrow> int \<Rightarrow> string list option \<Rightarrow> MediaDecision" where
  "plan_media_registration filename content_type size_bytes allowed =
     (let permitted = (case allowed of None \<Rightarrow> ALLOWED_CONTENT_TYPES | Some a \<Rightarrow> a) in
      if filename = [] \<or> py_strip filename = [] then media_decision MINVALID None None ''filename is required''
      else if content_type \<notin> set permitted then
        media_decision MINVALID None None (''content type '' @ repr_str content_type @ '' is not allowed'')
      else if size_bytes \<le> 0 then
        media_decision MINVALID None None (''size must be positive, got '' @ show_int size_bytes)
      else if size_bytes > MAX_BYTES then
        media_decision MINVALID None None
          (''size '' @ show_int size_bytes @ '' exceeds the '' @ show_int MAX_BYTES @ '' byte limit'')
      else media_decision MOK (Some QUARANTINED) (Some EVENT_REGISTERED) ''registered and quarantined pending scan'')"

definition plan_scan_start :: "MediaStatus \<Rightarrow> MediaDecision" where
  "plan_scan_start current =
     (if current \<in> set MEDIA_TERMINAL then
        media_decision MNOT_ALLOWED None None (media_status_value current @ '' is terminal'')
      else if current = SCANNING then media_decision MOK (Some SCANNING) None ''scan already in progress''
      else media_decision MOK (Some SCANNING) (Some EVENT_SCAN_STARTED)
             ''scan started; asset is not servable while it runs'')"

definition plan_scan_result :: "MediaStatus \<Rightarrow> bool \<Rightarrow> MediaDecision" where
  "plan_scan_result current infected =
     (if current \<in> set MEDIA_TERMINAL then
        if current = INFECTED \<and> infected then
          media_decision MOK (Some INFECTED) None ''already quarantined as infected''
        else media_decision MNOT_ALLOWED None None (media_status_value current @ '' is terminal'')
      else if current \<noteq> SCANNING then
        media_decision MNOT_ALLOWED None None
          (''no scan in progress (status is '' @ media_status_value current @ '')'')
      else if infected then
        media_decision MOK (Some INFECTED) (Some EVENT_QUARANTINED)
          ''scanner reported infected; quarantined permanently''
      else media_decision MOK (Some CLEAN) (Some EVENT_PUBLISHED) ''scanned clean; asset is now servable'')"

definition plan_delete :: "MediaStatus \<Rightarrow> MediaDecision" where
  "plan_delete current =
     (if current = DELETED then media_decision MOK (Some DELETED) None ''already deleted''
      else media_decision MOK (Some DELETED) (Some EVENT_DELETED) ''deleted'')"

section \<open>Purposes\<close>

datatype AssetPurpose = PRODUCT_IMAGE | SELLER_DOCUMENT | TRY_ON_SOURCE | POST_MEDIA

fun purpose_value :: "AssetPurpose \<Rightarrow> string" where
  "purpose_value PRODUCT_IMAGE = ''product_image''"
| "purpose_value SELLER_DOCUMENT = ''seller_document''"
| "purpose_value TRY_ON_SOURCE = ''try_on_source''"
| "purpose_value POST_MEDIA = ''post_media''"

definition all_purposes :: "AssetPurpose list" where
  "all_purposes = [PRODUCT_IMAGE, SELLER_DOCUMENT, TRY_ON_SOURCE, POST_MEDIA]"

definition as_purpose :: "string \<Rightarrow> AssetPurpose option" where
  "as_purpose v = find (\<lambda>p. purpose_value p = v) all_purposes"

definition CONFIDENTIAL_PURPOSES :: "AssetPurpose list" where
  "CONFIDENTIAL_PURPOSES = [SELLER_DOCUMENT, TRY_ON_SOURCE]"

definition DOCUMENT_CONTENT_TYPES :: "string list" where
  "DOCUMENT_CONTENT_TYPES = [''application/pdf'']"

definition is_confidential :: "string \<Rightarrow> bool" where
  "is_confidential purpose =
     (case as_purpose purpose of None \<Rightarrow> True | Some p \<Rightarrow> p \<in> set CONFIDENTIAL_PURPOSES)"

definition is_publicly_servable :: "string \<Rightarrow> string \<Rightarrow> bool" where
  "is_publicly_servable status purpose \<longleftrightarrow> is_servable status \<and> \<not> is_confidential purpose"

definition allowed_content_types :: "string \<Rightarrow> string list" where
  "allowed_content_types purpose =
     (case as_purpose purpose of
        None \<Rightarrow> []
      | Some p \<Rightarrow> if p = SELLER_DOCUMENT then ALLOWED_CONTENT_TYPES @ DOCUMENT_CONTENT_TYPES else ALLOWED_CONTENT_TYPES)"

fun prefix_of :: "AssetPurpose \<Rightarrow> string" where
  "prefix_of PRODUCT_IMAGE = ''products''"
| "prefix_of SELLER_DOCUMENT = ''documents''"
| "prefix_of TRY_ON_SOURCE = ''try-on''"
| "prefix_of POST_MEDIA = ''posts''"

text \<open>\<open>None\<close> is the exception \<open>InvalidPurpose\<close>.\<close>

definition storage_key :: "string \<Rightarrow> string \<Rightarrow> string \<Rightarrow> string option" where
  "storage_key purpose owner_id asset_id =
     map_option (\<lambda>p. prefix_of p @ ''/'' @ owner_id @ ''/'' @ asset_id) (as_purpose purpose)"

definition plan_registration_for :: "string \<Rightarrow> string \<Rightarrow> string \<Rightarrow> int \<Rightarrow> MediaDecision" where
  "plan_registration_for purpose filename content_type size_bytes =
     (case as_purpose purpose of
        None \<Rightarrow> media_decision MINVALID None None (''unknown purpose '' @ repr_str purpose)
      | Some _ \<Rightarrow> plan_media_registration filename content_type size_bytes (Some (allowed_content_types purpose)))"

section \<open>Layout and policy of the bucket\<close>

definition DEFAULT_BUCKET :: string where
  "DEFAULT_BUCKET = ''media''"

text \<open>\<open>s.split("/")[0]\<close>.\<close>

definition before_slash :: "string \<Rightarrow> string" where
  "before_slash s = takeWhile (\<lambda>c. c \<noteq> CHR ''/'') s"

definition purpose_prefix :: "AssetPurpose \<Rightarrow> string option" where
  "purpose_prefix p = map_option before_slash (storage_key (purpose_value p) ''_'' ''_'')"

definition public_prefixes :: "string list" where
  "public_prefixes = List.map_filter purpose_prefix (filter (\<lambda>p. \<not> is_confidential (purpose_value p)) all_purposes)"

definition confidential_prefixes :: "string list" where
  "confidential_prefixes = List.map_filter purpose_prefix (filter (\<lambda>p. is_confidential (purpose_value p)) all_purposes)"

definition policy_resource :: "string \<Rightarrow> string \<Rightarrow> string" where
  "policy_resource bucket prefix = ''arn:aws:s3:::'' @ bucket @ ''/'' @ prefix @ ''/*''"

definition bucket_policy :: "string \<Rightarrow> json" where
  "bucket_policy bucket =
     JObj
       [(''Version'', JStr ''2012-10-17''),
        (''Statement'', JArr
          [JObj
            [(''Sid'', JStr ''PublicReadByPurpose''),
             (''Effect'', JStr ''Allow''),
             (''Principal'', JObj [(''AWS'', JArr [JStr ''*''])]),
             (''Action'', JArr [JStr ''s3:GetObject'']),
             (''Resource'', JArr (map (JStr \<circ> policy_resource bucket) (sort public_prefixes)))]])]"

definition may_issue_upload_url :: "string \<Rightarrow> string \<Rightarrow> MediaDecision" where
  "may_issue_upload_url status purpose =
     (case as_purpose purpose of
        None \<Rightarrow> media_decision MINVALID None None (''unknown purpose '' @ repr_str purpose)
      | Some _ \<Rightarrow>
          if status = media_status_value QUARANTINED then media_decision MOK None None ''upload permitted''
          else media_decision MNOT_ALLOWED None None
                 (''upload is only permitted while quarantined (status is '' @ status @ '')''))"

section \<open>Tables\<close>

record MediaAsset =
  ma_id :: uuid
  ma_owner_id :: uuid
  ma_filename :: string
  ma_content_type :: string
  ma_size_bytes :: int
  ma_storage_key :: "string option"
  ma_checksum :: "string option"
  ma_purpose :: string
  ma_status :: string
  ma_scan_detail :: "string option"
  ma_created_at :: int
  ma_updated_at :: int

record media_db =
  mb_assets :: "MediaAsset list"
  mb_keys :: "(string \<times> uuid option) list"
  mb_outbox :: "outbox_message list"

record MediaResponse =
  mr_id :: uuid
  mr_owner_id :: uuid
  mr_filename :: string
  mr_content_type :: string
  mr_size_bytes :: int
  mr_status :: string
  mr_purpose :: string
  mr_servable :: bool
  mr_publicly_servable :: bool
  mr_scan_detail :: "string option"

definition media_response :: "MediaAsset \<Rightarrow> MediaResponse" where
  "media_response a =
     \<lparr>mr_id = ma_id a, mr_owner_id = ma_owner_id a, mr_filename = ma_filename a, mr_content_type = ma_content_type a,
      mr_size_bytes = ma_size_bytes a, mr_status = ma_status a, mr_purpose = ma_purpose a,
      mr_servable = is_servable (ma_status a),
      mr_publicly_servable = is_publicly_servable (ma_status a) (ma_purpose a),
      mr_scan_detail = ma_scan_detail a\<rparr>"

definition load_media :: "media_db \<Rightarrow> uuid \<Rightarrow> MediaAsset result" where
  "load_media db media_id =
     (case find (\<lambda>a. ma_id a = media_id) (mb_assets db) of
        None \<Rightarrow> Inl (HTTPException 404)
      | Some a \<Rightarrow> Inr a)"

definition media_payload :: "MediaAsset \<Rightarrow> json" where
  "media_payload a =
     JObj [(''media_id'', JStr (ma_id a)), (''owner_id'', JStr (ma_owner_id a)), (''status'', JStr (ma_status a)),
           (''purpose'', JStr (ma_purpose a)), (''content_type'', JStr (ma_content_type a)),
           (''filename'', JStr (ma_filename a))]"

definition emit_media :: "MediaAsset \<Rightarrow> string \<Rightarrow> media_db \<Rightarrow> media_db" where
  "emit_media a event db = db\<lparr>mb_outbox := mb_outbox db @ [outbox ''Media'' (ma_id a) event (media_payload a)]\<rparr>"

definition reject_media :: "MediaDecision \<Rightarrow> failure" where
  "reject_media d = (if mdc_outcome d = MINVALID then HTTPException 422 else HTTPException 409)"

section \<open>Handlers\<close>

text \<open>
  The \<open>UPDATE\<close> of a loaded row writes the columns that differ from what was loaded, and
  \<open>updated_at\<close> with them.
\<close>

definition write_row :: "int \<Rightarrow> MediaAsset \<Rightarrow> MediaAsset \<Rightarrow> MediaAsset \<Rightarrow> MediaAsset" where
  "write_row now loaded changed r =
     (if changed = loaded then r
      else r\<lparr>ma_status := (if ma_status changed = ma_status loaded then ma_status r else ma_status changed),
             ma_scan_detail := (if ma_scan_detail changed = ma_scan_detail loaded then ma_scan_detail r
                                else ma_scan_detail changed),
             ma_storage_key := (if ma_storage_key changed = ma_storage_key loaded then ma_storage_key r
                                else ma_storage_key changed),
             ma_updated_at := now\<rparr>)"

definition write_asset :: "int \<Rightarrow> MediaAsset \<Rightarrow> MediaAsset \<Rightarrow> media_db \<Rightarrow> media_db" where
  "write_asset now loaded changed db =
     db\<lparr>mb_assets := map (\<lambda>r. if ma_id r = ma_id loaded then write_row now loaded changed r else r) (mb_assets db)\<rparr>"

definition apply_media ::
  "bool \<Rightarrow> int \<Rightarrow> MediaAsset \<Rightarrow> MediaDecision \<Rightarrow> string option \<Rightarrow> media_db \<Rightarrow> MediaResponse result \<times> media_db" where
  "apply_media io now a d scan_detail db =
     (if \<not> mdc_ok d then (Inl (reject_media d), db)
      else case mdc_new_status d of
        None \<Rightarrow> (Inl (Uncaught ''AttributeError''), db)
      | Some s \<Rightarrow>
          (let a1 = a\<lparr>ma_status := media_status_value s\<rparr>;
               a2 = (case scan_detail of None \<Rightarrow> a1 | Some t \<Rightarrow> a1\<lparr>ma_scan_detail := Some t\<rparr>);
               db1 = write_asset now a a2 db;
               db2 = (case mdc_event d of None \<Rightarrow> db1 | Some event \<Rightarrow> emit_media a2 event db1)
           in commit io True db db2 (media_response a2)))"

text \<open>What follows the load; an unknown status makes \<open>MediaStatus(asset.status)\<close> raise.\<close>

definition with_status ::
  "MediaAsset \<Rightarrow> (MediaStatus \<Rightarrow> 'a result \<times> media_db) \<Rightarrow> media_db \<Rightarrow> 'a result \<times> media_db" where
  "with_status a f db = (case as_media_status (ma_status a) of None \<Rightarrow> (Inl (Uncaught ''ValueError''), db) | Some s \<Rightarrow> f s)"

definition scan_loaded :: "bool \<Rightarrow> int \<Rightarrow> MediaAsset \<Rightarrow> media_db \<Rightarrow> MediaResponse result \<times> media_db" where
  "scan_loaded io now a db = with_status a (\<lambda>s. apply_media io now a (plan_scan_start s) None db) db"

record ScanResultRequest =
  sq_infected :: bool
  sq_detail :: "string option"

definition verdict_loaded ::
  "bool \<Rightarrow> int \<Rightarrow> MediaAsset \<Rightarrow> ScanResultRequest \<Rightarrow> media_db \<Rightarrow> MediaResponse result \<times> media_db" where
  "verdict_loaded io now a request db =
     with_status a (\<lambda>s. apply_media io now a (plan_scan_result s (sq_infected request)) (sq_detail request) db) db"

definition delete_loaded :: "bool \<Rightarrow> int \<Rightarrow> MediaAsset \<Rightarrow> media_db \<Rightarrow> MediaResponse result \<times> media_db" where
  "delete_loaded io now a db = with_status a (\<lambda>s. apply_media io now a (plan_delete s) None db) db"

definition with_media :: "uuid \<Rightarrow> (MediaAsset \<Rightarrow> media_db \<Rightarrow> 'a result \<times> media_db) \<Rightarrow> media_db \<Rightarrow> 'a result \<times> media_db" where
  "with_media media_id f db = (case load_media db media_id of Inl e \<Rightarrow> (Inl e, db) | Inr a \<Rightarrow> f a db)"

definition start_scan :: "bool \<Rightarrow> int \<Rightarrow> uuid \<Rightarrow> media_db \<Rightarrow> MediaResponse result \<times> media_db" where
  "start_scan io now media_id db = with_media media_id (scan_loaded io now) db"

definition record_scan_result ::
  "bool \<Rightarrow> int \<Rightarrow> uuid \<Rightarrow> ScanResultRequest \<Rightarrow> media_db \<Rightarrow> MediaResponse result \<times> media_db" where
  "record_scan_result io now media_id request db =
     with_media media_id (\<lambda>a. verdict_loaded io now a request) db"

definition delete_media :: "bool \<Rightarrow> int \<Rightarrow> uuid \<Rightarrow> media_db \<Rightarrow> MediaResponse result \<times> media_db" where
  "delete_media io now media_id db = with_media media_id (delete_loaded io now) db"

definition get_media :: "media_db \<Rightarrow> uuid \<Rightarrow> MediaResponse result" where
  "get_media db media_id = map_sum id media_response (load_media db media_id)"

record MediaRegisterRequest =
  mq_owner_id :: uuid
  mq_purpose :: string
  mq_filename :: string
  mq_content_type :: string
  mq_size_bytes :: int
  mq_storage_key :: "string option"
  mq_checksum :: "string option"

definition at_most :: "nat \<Rightarrow> string option \<Rightarrow> bool" where
  "at_most n x \<longleftrightarrow> (case x of None \<Rightarrow> True | Some s \<Rightarrow> length s \<le> n)"

definition MediaRegisterRequest_valid :: "MediaRegisterRequest \<Rightarrow> bool" where
  "MediaRegisterRequest_valid r \<longleftrightarrow>
     1 \<le> length (mq_filename r) \<and> length (mq_filename r) \<le> 512
     \<and> 1 \<le> length (mq_content_type r) \<and> length (mq_content_type r) \<le> 128 \<and> 0 < mq_size_bytes r
     \<and> at_most 1024 (mq_storage_key r) \<and> at_most 128 (mq_checksum r)"

definition no_text :: "string option \<Rightarrow> bool" where
  "no_text x \<longleftrightarrow> x = None \<or> x = Some []"

definition new_asset :: "int \<Rightarrow> uuid \<Rightarrow> MediaRegisterRequest \<Rightarrow> MediaStatus \<Rightarrow> MediaAsset" where
  "new_asset now fresh r status =
     \<lparr>ma_id = fresh, ma_owner_id = mq_owner_id r, ma_filename = mq_filename r, ma_content_type = mq_content_type r,
      ma_size_bytes = mq_size_bytes r,
      ma_storage_key = (if no_text (mq_storage_key r) then storage_key (mq_purpose r) (mq_owner_id r) fresh
                        else mq_storage_key r),
      ma_checksum = mq_checksum r, ma_purpose = mq_purpose r, ma_status = media_status_value status,
      ma_scan_detail = None, ma_created_at = now, ma_updated_at = now\<rparr>"

text \<open>
  The claimed key is inserted first and rolled back with the rest, so a key is stored together with
  the asset it made. A key longer than its column, or an id that is taken, is an error of the
  database that no handler catches.
\<close>

definition register_media ::
  "bool \<Rightarrow> int \<Rightarrow> uuid \<Rightarrow> MediaRegisterRequest \<Rightarrow> string \<Rightarrow> media_db \<Rightarrow> MediaResponse result \<times> media_db" where
  "register_media io now fresh request key db =
     (if 255 < length key then (Inl (Uncaught ''DataError''), db)
      else case map_of (mb_keys db) key of
        Some None \<Rightarrow> (Inl (HTTPException 409), db)
      | Some (Some i) \<Rightarrow> (map_sum id media_response (load_media db i), db)
      | None \<Rightarrow>
          (let d = plan_registration_for (mq_purpose request) (mq_filename request) (mq_content_type request) (mq_size_bytes request)
           in if \<not> mdc_ok d then (Inl (reject_media d), db)
              else case (mdc_new_status d, mdc_event d) of
                (Some status, Some event) \<Rightarrow>
                  (if fresh \<in> ma_id ` set (mb_assets db) then (Inl (Uncaught ''IntegrityError''), db)
                   else
                     (let a = new_asset now fresh request status in
                      commit io True db
                        (emit_media a event
                          (db\<lparr>mb_assets := mb_assets db @ [a], mb_keys := mb_keys db @ [(key, Some fresh)]\<rparr>))
                        (media_response a)))
              | _ \<Rightarrow> (Inl (Uncaught ''AttributeError''), db)))"

section \<open>Where the bytes are\<close>

definition public_url :: "string \<Rightarrow> string \<Rightarrow> string \<Rightarrow> string" where
  "public_url endpoint bucket key = rev (dropWhile (\<lambda>c. c = CHR ''/'') (rev endpoint)) @ ''/'' @ bucket @ ''/'' @ key"

record MediaLocation =
  lo_id :: uuid
  lo_storage_key :: string
  lo_url :: string

definition get_location :: "string \<Rightarrow> string \<Rightarrow> media_db \<Rightarrow> uuid \<Rightarrow> MediaLocation result" where
  "get_location endpoint bucket db media_id =
     (case load_media db media_id of
        Inl e \<Rightarrow> Inl e
      | Inr a \<Rightarrow>
          if is_confidential (ma_purpose a) then Inl (HTTPException 404)
          else if \<not> is_servable (ma_status a) then Inl (HTTPException 409)
          else case ma_storage_key a of
            None \<Rightarrow> Inl (HTTPException 404)
          | Some k \<Rightarrow>
              if k = [] then Inl (HTTPException 404)
              else Inr \<lparr>lo_id = ma_id a, lo_storage_key = k, lo_url = public_url endpoint bucket k\<rparr>)"

definition UPLOAD_URL_TTL_SECONDS :: int where
  "UPLOAD_URL_TTL_SECONDS = 900"

record UploadUrl =
  up_url :: string
  up_method :: string
  up_headers :: "(string \<times> string) list"
  up_expires_in :: int
  up_storage_key :: string

text \<open>
  \<open>sign\<close> is the store's signing function for a key, a content type and a lifetime; \<open>None\<close> is a
  service without credentials, whose \<open>_client\<close> raises.
\<close>

definition presigned_upload_url ::
  "(string \<Rightarrow> string \<Rightarrow> int \<Rightarrow> string) option \<Rightarrow> string \<Rightarrow> string \<Rightarrow> UploadUrl result" where
  "presigned_upload_url sign key content_type =
     (case sign of
        None \<Rightarrow> Inl (Uncaught ''RuntimeError'')
      | Some f \<Rightarrow>
          Inr \<lparr>up_url = f key content_type UPLOAD_URL_TTL_SECONDS, up_method = ''PUT'',
               up_headers = [(''Content-Type'', content_type)], up_expires_in = UPLOAD_URL_TTL_SECONDS,
               up_storage_key = key\<rparr>)"

definition upload_loaded ::
  "bool \<Rightarrow> int \<Rightarrow> (string \<Rightarrow> string \<Rightarrow> int \<Rightarrow> string) option \<Rightarrow> MediaAsset \<Rightarrow> media_db \<Rightarrow> UploadUrl result \<times> media_db" where
  "upload_loaded io now sign a db =
     (let d = may_issue_upload_url (ma_status a) (ma_purpose a) in
      if \<not> mdc_ok d then (Inl (reject_media d), db)
      else if no_text (ma_storage_key a) then
        (case storage_key (ma_purpose a) (ma_owner_id a) (ma_id a) of
           None \<Rightarrow> (Inl (Uncaught ''InvalidPurpose''), db)
         | Some k \<Rightarrow>
             if \<not> io then (Inl (Uncaught ''DBAPIError''), db)
             else (presigned_upload_url sign k (ma_content_type a), write_asset now a (a\<lparr>ma_storage_key := Some k\<rparr>) db))
      else (presigned_upload_url sign (the (ma_storage_key a)) (ma_content_type a), db))"

definition get_upload_url ::
  "bool \<Rightarrow> int \<Rightarrow> (string \<Rightarrow> string \<Rightarrow> int \<Rightarrow> string) option \<Rightarrow> uuid \<Rightarrow> media_db \<Rightarrow> UploadUrl result \<times> media_db" where
  "get_upload_url io now sign media_id db = with_media media_id (upload_loaded io now sign) db"

section \<open>Routes\<close>

definition register_media_endpoint ::
  "bool \<Rightarrow> int \<Rightarrow> uuid \<Rightarrow> MediaRegisterRequest \<Rightarrow> string option \<Rightarrow> media_db \<Rightarrow> MediaResponse result \<times> media_db" where
  "register_media_endpoint io now fresh request key db =
     (case key of
        None \<Rightarrow> (Inl (HTTPException 422), db)
      | Some k \<Rightarrow>
          if \<not> MediaRegisterRequest_valid request then (Inl (HTTPException 422), db)
          else if k = [] then (Inl (HTTPException 400), db)
          else register_media io now fresh request k db)"

definition scan_result_endpoint ::
  "bool \<Rightarrow> int \<Rightarrow> uuid \<Rightarrow> ScanResultRequest \<Rightarrow> media_db \<Rightarrow> MediaResponse result \<times> media_db" where
  "scan_result_endpoint io now media_id request db =
     (if \<not> at_most 1024 (sq_detail request) then (Inl (HTTPException 422), db)
      else record_scan_result io now media_id request db)"

section \<open>The machine behind the decisions\<close>

fun media_moves :: "MediaStatus \<Rightarrow> MediaStatus list" where
  "media_moves QUARANTINED = [SCANNING, DELETED]"
| "media_moves SCANNING = [CLEAN, INFECTED, DELETED]"
| "media_moves CLEAN = [SCANNING, DELETED]"
| "media_moves INFECTED = [DELETED]"
| "media_moves DELETED = []"

fun media_event :: "MediaStatus \<Rightarrow> string" where
  "media_event QUARANTINED = EVENT_REGISTERED"
| "media_event SCANNING = EVENT_SCAN_STARTED"
| "media_event CLEAN = EVENT_PUBLISHED"
| "media_event INFECTED = EVENT_QUARANTINED"
| "media_event DELETED = EVENT_DELETED"

lemma media_status_value_inj [simp]: "media_status_value s = media_status_value t \<longleftrightarrow> s = t"
  by (cases s; cases t) auto

lemma as_media_status_iff: "as_media_status v = Some s \<longleftrightarrow> v = media_status_value s"
  by (cases s) (auto simp: as_media_status_def)

lemma as_media_status_value [simp]: "as_media_status (media_status_value s) = Some s"
  by (simp add: as_media_status_iff)

lemma as_purpose_value [simp]: "as_purpose (purpose_value p) = Some p"
  by (cases p) (simp_all add: as_purpose_def all_purposes_def)

lemma as_purpose_Some: "as_purpose v = Some p \<Longrightarrow> v = purpose_value p"
  by (auto simp: as_purpose_def dest: find_SomeD)

lemma is_servable_value [simp]: "is_servable (media_status_value s) \<longleftrightarrow> s = CLEAN"
  by (cases s) (auto simp: is_servable_def)

declare media_status_value.simps [simp del]

text \<open>
  A decision that allows a change either leaves the status and has no event, or moves it along the
  machine and carries the event of the new status.
\<close>

definition sound_decision :: "MediaStatus \<Rightarrow> MediaDecision \<Rightarrow> bool" where
  "sound_decision s d \<longleftrightarrow> (mdc_ok d \<longrightarrow>
     mdc_new_status d = Some s \<and> mdc_event d = None \<or>
     (\<exists>t \<in> set (media_moves s). t \<noteq> s \<and> mdc_new_status d = Some t \<and> mdc_event d = Some (media_event t)))"

lemmas media_plans = plan_scan_start_def plan_scan_result_def plan_delete_def media_decision_def mdc_ok_def MEDIA_TERMINAL_def

lemma sound_scan_start [simp]: "sound_decision s (plan_scan_start s)"
  by (cases s) (simp_all add: sound_decision_def media_plans)

lemma sound_scan_result [simp]: "sound_decision s (plan_scan_result s infected)"
  by (cases s) (simp_all add: sound_decision_def media_plans)

lemma sound_delete [simp]: "sound_decision s (plan_delete s)"
  by (cases s) (simp_all add: sound_decision_def media_plans)

lemma plan_registration_for_ok:
  assumes "mdc_ok (plan_registration_for purpose filename content_type n)"
  shows "mdc_new_status (plan_registration_for purpose filename content_type n) = Some QUARANTINED"
    and "mdc_event (plan_registration_for purpose filename content_type n) = Some EVENT_REGISTERED"
    and "as_purpose purpose \<noteq> None"
  using assms
  by (auto simp: plan_registration_for_def plan_media_registration_def media_decision_def mdc_ok_def Let_def
      split: option.splits if_splits)

section \<open>Rows and events\<close>

definition identity :: "MediaAsset \<Rightarrow> uuid \<times> uuid \<times> string \<times> string \<times> string \<times> string option" where
  "identity a = (ma_id a, ma_owner_id a, ma_filename a, ma_content_type a, ma_purpose a, ma_storage_key a)"

definition last_event :: "media_db \<Rightarrow> uuid \<Rightarrow> outbox_message option" where
  "last_event db i = find (\<lambda>m. om_aggregate_id m = i) (rev (mb_outbox db))"

definition told :: "media_db \<Rightarrow> MediaAsset \<Rightarrow> bool" where
  "told db a \<longleftrightarrow> (\<exists>s. ma_status a = media_status_value s
     \<and> last_event db (ma_id a) = Some (outbox ''Media'' (ma_id a) (media_event s) (media_payload a)))"

definition media_ok :: "media_db \<Rightarrow> bool" where
  "media_ok db \<longleftrightarrow> distinct (map ma_id (mb_assets db))
     \<and> (\<forall>a \<in> set (mb_assets db). told db a \<and> as_purpose (ma_purpose a) \<noteq> None \<and> \<not> no_text (ma_storage_key a))
     \<and> (\<forall>(k, v) \<in> set (mb_keys db). v \<in> Some ` ma_id ` set (mb_assets db))"

definition snapshot_ok :: "media_db \<Rightarrow> MediaAsset \<Rightarrow> bool" where
  "snapshot_ok db t \<longleftrightarrow> (\<exists>a \<in> set (mb_assets db). identity a = identity t) \<and> (\<exists>s. ma_status t = media_status_value s)"

lemma identity_sel:
  assumes "identity a = identity b"
  shows "ma_id a = ma_id b" "ma_purpose a = ma_purpose b" "ma_storage_key a = ma_storage_key b"
    "ma_owner_id a = ma_owner_id b" "ma_filename a = ma_filename b" "ma_content_type a = ma_content_type b"
  using assms by (simp_all add: identity_def)

lemma media_payload_cong: "identity a = identity b \<Longrightarrow> ma_status a = ma_status b \<Longrightarrow> media_payload a = media_payload b"
  by (simp add: identity_def media_payload_def)

lemma last_event_emit [simp]:
  "last_event (emit_media a e db) i =
     (if ma_id a = i then Some (outbox ''Media'' i e (media_payload a)) else last_event db i)"
  by (simp add: last_event_def emit_media_def)

lemma last_event_cong: "mb_outbox db = mb_outbox db' \<Longrightarrow> last_event db i = last_event db' i"
  by (simp add: last_event_def)

lemma emit_media_sel [simp]:
  "mb_assets (emit_media a e db) = mb_assets db" "mb_keys (emit_media a e db) = mb_keys db"
  by (simp_all add: emit_media_def)

lemma write_asset_sel [simp]:
  "mb_keys (write_asset now a b db) = mb_keys db" "mb_outbox (write_asset now a b db) = mb_outbox db"
  by (simp_all add: write_asset_def)

text \<open>
  A write of a loaded asset that keeps its storage key keeps every row's identity; the row's status
  becomes the new one when it differs from the loaded one, and is left otherwise.
\<close>

lemma write_asset_rows:
  assumes "ma_storage_key b = ma_storage_key a"
  shows "\<exists>f. mb_assets (write_asset now a b db) = map f (mb_assets db)
    \<and> (\<forall>r. identity (f r) = identity r
         \<and> ma_status (f r) = (if ma_id r = ma_id a \<and> ma_status b \<noteq> ma_status a then ma_status b else ma_status r))"
proof -
  let ?f = "\<lambda>r. if ma_id r = ma_id a then write_row now a b r else r"
  have "identity (?f r) = identity r
      \<and> ma_status (?f r) = (if ma_id r = ma_id a \<and> ma_status b \<noteq> ma_status a then ma_status b else ma_status r)" for r
    using assms by (auto simp: write_row_def identity_def)
  then show ?thesis by (intro exI [of _ ?f]) (simp add: write_asset_def)
qed

lemma loaded_in_table: "load_media db i = Inr a \<Longrightarrow> a \<in> set (mb_assets db) \<and> ma_id a = i"
  by (auto simp: load_media_def split: option.splits dest: find_SomeD)

lemma asset_unique: "media_ok db \<Longrightarrow> a \<in> set (mb_assets db) \<Longrightarrow> b \<in> set (mb_assets db) \<Longrightarrow> ma_id a = ma_id b \<Longrightarrow> a = b"
  by (auto simp: media_ok_def distinct_map inj_on_def)

text \<open>What a handler does to the tables once it has loaded its asset.\<close>

lemma apply_media_cases:
  assumes "apply_media io now a d detail db = (x, db')" and "sound_decision s d" and "ma_status a = media_status_value s"
  shows "db' = db
    \<or> (\<exists>b. identity b = identity a \<and> ma_status b = ma_status a \<and> db' = write_asset now a b db)
    \<or> (\<exists>b. \<exists>t \<in> set (media_moves s). identity b = identity a \<and> t \<noteq> s \<and> ma_status b = media_status_value t
         \<and> db' = emit_media b (media_event t) (write_asset now a b db))"
proof (cases "mdc_ok d \<and> io")
  case True
  define b where "b t = (case detail of None \<Rightarrow> a\<lparr>ma_status := media_status_value t\<rparr>
      | Some u \<Rightarrow> a\<lparr>ma_status := media_status_value t, ma_scan_detail := Some u\<rparr>)" for t
  have b: "identity (b t) = identity a" "ma_status (b t) = media_status_value t" for t
    by (simp_all add: b_def identity_def split: option.split)
  from True assms(2) consider "mdc_new_status d = Some s" "mdc_event d = None"
    | t where "t \<in> set (media_moves s)" "t \<noteq> s" "mdc_new_status d = Some t" "mdc_event d = Some (media_event t)"
    by (auto simp: sound_decision_def)
  then show ?thesis
  proof cases
    case 1
    with True assms(1) have "db' = write_asset now a (b s) db"
      by (simp add: apply_media_def Let_def b_def split: option.splits)
    then show ?thesis using b [of s] assms(3) by auto
  next
    case 2
    with True assms(1) have "db' = emit_media (b t) (media_event t) (write_asset now a (b t) db)"
      by (simp add: apply_media_def Let_def b_def split: option.splits)
    then show ?thesis using b [of t] 2 by blast
  qed
next
  case False
  with assms(1) show ?thesis by (auto simp: apply_media_def Let_def commit_def split: if_splits option.splits)
qed

lemma write_keeps_ok:
  assumes ok: "media_ok db" and b: "identity b = identity a" "ma_status b = ma_status a"
  shows "media_ok (write_asset now a b db)"
proof -
  have "ma_storage_key b = ma_storage_key a" using b by (simp add: identity_def)
  from write_asset_rows [OF this, of now db] obtain f where f: "mb_assets (write_asset now a b db) = map f (mb_assets db)"
      "\<And>r. identity (f r) = identity r" "\<And>r. ma_status (f r) = ma_status r"
    using b by auto
  have id: "ma_id (f r) = ma_id r" "ma_purpose (f r) = ma_purpose r" "ma_storage_key (f r) = ma_storage_key r" for r
    using identity_sel [OF f(2) [of r]] by auto
  have "told (write_asset now a b db) (f r)" if "told db r" for r
    using that media_payload_cong [OF f(2,3), of r] last_event_cong [of db "write_asset now a b db"]
    by (simp add: told_def f(3) id)
  then show ?thesis using ok by (simp add: media_ok_def f(1) id comp_def image_image)
qed

lemma move_keeps_ok:
  assumes ok: "media_ok db" and a: "\<exists>r \<in> set (mb_assets db). identity r = identity a"
    and b: "identity b = identity a" "ma_status b = media_status_value t" "ma_status b \<noteq> ma_status a"
  shows "media_ok (emit_media b (media_event t) (write_asset now a b db))"
proof -
  have "ma_storage_key b = ma_storage_key a" using b by (simp add: identity_def)
  from write_asset_rows [OF this, of now db] b(3) obtain f where f: "mb_assets (write_asset now a b db) = map f (mb_assets db)"
      "\<And>r. identity (f r) = identity r" "\<And>r. ma_status (f r) = (if ma_id r = ma_id a then ma_status b else ma_status r)"
    by auto
  have id: "ma_id (f r) = ma_id r" "ma_purpose (f r) = ma_purpose r" "ma_storage_key (f r) = ma_storage_key r" for r
    using identity_sel [OF f(2) [of r]] by auto
  have ba: "ma_id b = ma_id a" using identity_sel [OF b(1)] by simp
  from a obtain r0 where r0: "r0 \<in> set (mb_assets db)" "identity r0 = identity a" by blast
  have told: "told (emit_media b (media_event t) (write_asset now a b db)) (f r)" if r: "r \<in> set (mb_assets db)" for r
  proof (cases "ma_id r = ma_id a")
    case True
    then have "r = r0" using asset_unique [OF ok r r0(1)] identity_sel [OF r0(2)] by simp
    then have "media_payload (f r) = media_payload b"
      using True f(2) [of r] r0(2) b(1) by (intro media_payload_cong) (simp_all add: f(3))
    then show ?thesis using True b(2) by (auto simp: told_def id ba f(3))
  next
    case False
    then have "media_payload (f r) = media_payload r" using f(2) by (intro media_payload_cong) (simp_all add: f(3))
    moreover have "told db r" using ok r by (simp add: media_ok_def)
    ultimately show ?thesis
      using False last_event_cong [of "write_asset now a b db" db] by (auto simp: told_def id ba f(3))
  qed
  show ?thesis
    unfolding media_ok_def emit_media_sel write_asset_sel
    using ok told by (simp add: media_ok_def f(1) id comp_def image_image)
qed

lemma snapshots_kept:
  assumes "snapshot_ok db t" and "\<And>r. r \<in> set (mb_assets db) \<Longrightarrow> \<exists>r' \<in> set (mb_assets db'). identity r' = identity r"
  shows "snapshot_ok db' t"
  using assms unfolding snapshot_ok_def by metis

lemma apply_media_keeps:
  assumes "apply_media io now a d detail db = (x, db')" "sound_decision s d" "ma_status a = media_status_value s"
    and "media_ok db" "snapshot_ok db a"
  shows "media_ok db' \<and> (\<forall>r \<in> set (mb_assets db). \<exists>r' \<in> set (mb_assets db'). identity r' = identity r)"
proof -
  have rows: "\<exists>r' \<in> set (mb_assets (write_asset now a b db)). identity r' = identity r"
    if "identity b = identity a" "r \<in> set (mb_assets db)" for b r
    using write_asset_rows [of b a now db] identity_sel(3) [OF that(1)] that(2) by force
  from apply_media_cases [OF assms(1-3)] show ?thesis
  proof (elim disjE exE bexE conjE)
    fix b assume b: "identity b = identity a" "ma_status b = ma_status a" "db' = write_asset now a b db"
    then show ?thesis using write_keeps_ok [OF assms(4) b(1,2)] rows by blast
  next
    fix b t assume b: "identity b = identity a" "t \<noteq> s" "ma_status b = media_status_value t"
        "db' = emit_media b (media_event t) (write_asset now a b db)"
    then show ?thesis
      using move_keeps_ok [OF assms(4) _ b(1,3)] rows assms(3,5) unfolding snapshot_ok_def by auto
  qed (use assms(4) in auto)
qed

section \<open>Registration\<close>

lemma register_media_cases:
  assumes "register_media io now fresh request key db = (x, db')"
  shows "(db' = db \<and> (\<forall>r. x = Inr r \<longrightarrow> (\<exists>i. map_of (mb_keys db) key = Some (Some i))) \<and> (length key \<le> 255 \<or> (\<exists>e. x = Inl e)))
    \<or> (x = Inr (media_response (new_asset now fresh request QUARANTINED)) \<and> fresh \<notin> ma_id ` set (mb_assets db)
       \<and> as_purpose (mq_purpose request) \<noteq> None \<and> map_of (mb_keys db) key = None \<and> length key \<le> 255
       \<and> db' = emit_media (new_asset now fresh request QUARANTINED) EVENT_REGISTERED
           (db\<lparr>mb_assets := mb_assets db @ [new_asset now fresh request QUARANTINED], mb_keys := mb_keys db @ [(key, Some fresh)]\<rparr>))"
  using assms plan_registration_for_ok
    [of "mq_purpose request" "mq_filename request" "mq_content_type request" "mq_size_bytes request"]
  by (auto simp: register_media_def Let_def commit_def split: if_splits option.splits)

lemma new_asset_sel [simp]:
  "ma_id (new_asset now fresh r s) = fresh" "ma_status (new_asset now fresh r s) = media_status_value s"
  "ma_purpose (new_asset now fresh r s) = mq_purpose r"
  by (simp_all add: new_asset_def)

lemma new_asset_stored: "as_purpose (mq_purpose r) \<noteq> None \<Longrightarrow> \<not> no_text (ma_storage_key (new_asset now fresh r s))"
  by (auto simp: new_asset_def storage_key_def no_text_def)

lemma told_emit_other: "told db a \<Longrightarrow> ma_id b \<noteq> ma_id a \<Longrightarrow> mb_outbox db' = mb_outbox db \<Longrightarrow> told (emit_media b e db') a"
  using last_event_cong [of db' db] by (simp add: told_def)

lemma register_keeps_ok:
  assumes "media_ok db" and "register_media io now fresh request key db = (x, db')"
  shows "media_ok db' \<and> set (mb_assets db) \<subseteq> set (mb_assets db')"
proof -
  let ?a = "new_asset now fresh request QUARANTINED"
  let ?db = "db\<lparr>mb_assets := mb_assets db @ [?a], mb_keys := mb_keys db @ [(key, Some fresh)]\<rparr>"
  consider "db' = db" | "fresh \<notin> ma_id ` set (mb_assets db)" "as_purpose (mq_purpose request) \<noteq> None"
      "db' = emit_media ?a EVENT_REGISTERED ?db"
    using register_media_cases [OF assms(2)] by blast
  then show ?thesis
  proof cases
    case 2
    have "told db' ?a" by (auto simp: 2(3) told_def intro!: exI [of _ QUARANTINED])
    moreover have "told db' a" if "a \<in> set (mb_assets db)" for a
    proof -
      have "told db a" using that assms(1) by (simp add: media_ok_def)
      moreover have "ma_id ?a \<noteq> ma_id a" using that 2(1) by auto
      ultimately show ?thesis unfolding 2(3) by (rule told_emit_other) simp
    qed
    moreover have "mb_assets db' = mb_assets db @ [?a]" "mb_keys db' = mb_keys db @ [(key, Some fresh)]"
      by (simp_all add: 2(3))
    ultimately show ?thesis
      using assms(1) 2(1,2) new_asset_stored [OF 2(2)] by (auto simp: media_ok_def)
  qed (use assms(1) in simp)
qed

lemma register_replay:
  assumes "register_media io now fresh request key db = (Inr r, db')"
  shows "\<exists>r'. register_media io' now' fresh' request key db' = (Inr r', db')"
proof (cases "map_of (mb_keys db) key")
  case (Some v)
  with register_media_cases [OF assms] obtain i where "v = Some i" "length key \<le> 255" "db' = db" by auto
  then show ?thesis using assms Some by (auto simp: register_media_def)
next
  case None
  let ?a = "new_asset now fresh request QUARANTINED"
  from None register_media_cases [OF assms] have *: "fresh \<notin> ma_id ` set (mb_assets db)" "map_of (mb_keys db) key = None"
      "length key \<le> 255" "mb_assets db' = mb_assets db @ [?a]" "mb_keys db' = mb_keys db @ [(key, Some fresh)]"
    by auto
  have "load_media db' fresh = Inr ?a" using *(1,4) by (simp add: load_media_def find_append_fresh)
  moreover have "map_of (mb_keys db') key = Some (Some fresh)" using *(2,5) by (simp add: map_add_def)
  ultimately show ?thesis using *(3) by (simp add: register_media_def)
qed

interpretation media_delivery: idempotent_handler
  "\<lambda>(io, now, fresh). register_media io now fresh request key" for request key
proof unfold_locales
  fix e db f db'
  assume "(case e of (io, now, fresh) \<Rightarrow> register_media io now fresh request key) db = (Inl f, db')"
  then show "db' = db" using register_media_cases by (cases e) fastforce
next
  fix e db r db' and e' :: "bool \<times> int \<times> string"
  assume "(case e of (io, now, fresh) \<Rightarrow> register_media io now fresh request key) db = (Inr r, db')"
  then show "\<exists>r'. (case e' of (io, now, fresh) \<Rightarrow> register_media io now fresh request key) db' = (Inr r', db')"
    using register_replay by (cases e; cases e') auto
qed

section \<open>Overlapping requests\<close>

record media_world =
  mw_db :: media_db
  mw_loaded :: "MediaAsset list"

definition no_media :: "media_world \<Rightarrow> bool" where
  "no_media w \<longleftrightarrow> mb_assets (mw_db w) = [] \<and> mb_keys (mw_db w) = [] \<and> mb_outbox (mw_db w) = [] \<and> mw_loaded w = []"

text \<open>A loaded asset may be used at any later time, which covers every overlap of two requests.\<close>

inductive media_step :: "media_world \<Rightarrow> media_world \<Rightarrow> bool" where
  register: "media_step w (w\<lparr>mw_db := snd (register_media_endpoint io now fresh request key (mw_db w))\<rparr>)"
| load_asset: "load_media (mw_db w) i = Inr a \<Longrightarrow> media_step w (w\<lparr>mw_loaded := a # mw_loaded w\<rparr>)"
| scan: "a \<in> set (mw_loaded w) \<Longrightarrow> media_step w (w\<lparr>mw_db := snd (scan_loaded io now a (mw_db w))\<rparr>)"
| verdict: "a \<in> set (mw_loaded w) \<Longrightarrow> media_step w (w\<lparr>mw_db := snd (verdict_loaded io now a result (mw_db w))\<rparr>)"
| delete: "a \<in> set (mw_loaded w) \<Longrightarrow> media_step w (w\<lparr>mw_db := snd (delete_loaded io now a (mw_db w))\<rparr>)"
| upload: "a \<in> set (mw_loaded w) \<Longrightarrow> media_step w (w\<lparr>mw_db := snd (upload_loaded io now sign a (mw_db w))\<rparr>)"

definition media_world_inv :: "media_world \<Rightarrow> bool" where
  "media_world_inv w \<longleftrightarrow> media_ok (mw_db w) \<and> (\<forall>t \<in> set (mw_loaded w). snapshot_ok (mw_db w) t)"

lemma world_change:
  assumes "media_world_inv w" and "media_ok db'"
    and "\<forall>r \<in> set (mb_assets (mw_db w)). \<exists>r' \<in> set (mb_assets db'). identity r' = identity r"
  shows "media_world_inv (w\<lparr>mw_db := db'\<rparr>)"
  using assms snapshots_kept [of "mw_db w" _ db'] by (simp add: media_world_inv_def)

lemma status_step:
  assumes "media_world_inv w" and "a \<in> set (mw_loaded w)"
    and "\<And>s. sound_decision s (plan s)"
  shows "media_world_inv (w\<lparr>mw_db := snd (with_status a (\<lambda>s. apply_media io now a (plan s) detail (mw_db w)) (mw_db w))\<rparr>)"
proof -
  from assms(1,2) obtain s where s: "ma_status a = media_status_value s" and t: "snapshot_ok (mw_db w) a"
    by (auto simp: media_world_inv_def snapshot_ok_def)
  obtain x db' where x: "apply_media io now a (plan s) detail (mw_db w) = (x, db')" by fastforce
  have "media_world_inv (w\<lparr>mw_db := db'\<rparr>)"
    using apply_media_keeps [OF x assms(3) s _ t] assms(1) by (intro world_change) (auto simp: media_world_inv_def)
  then show ?thesis by (simp add: with_status_def s x)
qed

lemma upload_reads:
  assumes "snapshot_ok db a" and "media_ok db"
  shows "snd (upload_loaded io now sign a db) = db"
proof -
  have "\<not> no_text (ma_storage_key a)"
    using assms identity_sel(3) unfolding snapshot_ok_def media_ok_def by metis
  then show ?thesis by (simp add: upload_loaded_def Let_def)
qed

lemma register_step:
  assumes "media_world_inv w"
  shows "media_world_inv (w\<lparr>mw_db := snd (register_media_endpoint io now fresh request key (mw_db w))\<rparr>)"
proof -
  have keep: "media_world_inv (w\<lparr>mw_db := mw_db w\<rparr>)" using assms by simp
  have "media_world_inv (w\<lparr>mw_db := snd (register_media io now fresh request k (mw_db w))\<rparr>)" for k
  proof -
    obtain x db' where x: "register_media io now fresh request k (mw_db w) = (x, db')" by fastforce
    from register_keeps_ok [OF _ x] assms show ?thesis
      unfolding x snd_conv by (intro world_change) (auto simp: media_world_inv_def)
  qed
  with keep show ?thesis by (simp add: register_media_endpoint_def split: option.split)
qed

interpretation media: inductive_invariant no_media media_step media_world_inv
proof
  fix w assume "no_media w"
  then show "media_world_inv w" by (simp add: no_media_def media_world_inv_def media_ok_def)
next
  fix w w' assume w: "media_world_inv w" and "media_step w w'"
  from this(2) show "media_world_inv w'"
  proof cases
    case (load_asset i a)
    then have "snapshot_ok (mw_db w) a"
      using w loaded_in_table by (auto simp: media_world_inv_def media_ok_def snapshot_ok_def told_def)
    with w load_asset(1) show ?thesis by (simp add: media_world_inv_def)
  next
    case (scan a io now)
    then show ?thesis using status_step [OF w scan(2), of plan_scan_start] by (simp add: scan_loaded_def)
  next
    case (verdict a io now result)
    then show ?thesis
      using status_step [OF w verdict(2), of "\<lambda>s. plan_scan_result s (sq_infected result)"] by (simp add: verdict_loaded_def)
  next
    case (delete a io now)
    then show ?thesis using status_step [OF w delete(2), of plan_delete] by (simp add: delete_loaded_def)
  next
    case (upload a io now sign)
    then show ?thesis using w upload_reads by (simp add: media_world_inv_def)
  qed (simp_all add: register_step w)
qed

section \<open>Requests one after another\<close>

definition empty_media :: "media_db \<Rightarrow> bool" where
  "empty_media db \<longleftrightarrow> mb_assets db = [] \<and> mb_keys db = [] \<and> mb_outbox db = []"

inductive media_request :: "media_db \<Rightarrow> media_db \<Rightarrow> bool" where
  request_register: "media_request db (snd (register_media_endpoint io now fresh request key db))"
| request_scan: "media_request db (snd (start_scan io now i db))"
| request_verdict: "media_request db (snd (scan_result_endpoint io now i result db))"
| request_delete: "media_request db (snd (delete_media io now i db))"
| request_upload: "media_request db (snd (get_upload_url io now sign i db))"

definition moved :: "media_db \<Rightarrow> media_db \<Rightarrow> MediaAsset \<Rightarrow> bool" where
  "moved db db' a \<longleftrightarrow> (\<exists>a' \<in> set (mb_assets db'). \<exists>s t. identity a' = identity a \<and> ma_status a = media_status_value s
     \<and> ma_status a' = media_status_value t \<and> (t = s \<or> t \<in> set (media_moves s)))"

lemma moved_refl: "media_ok db \<Longrightarrow> a \<in> set (mb_assets db) \<Longrightarrow> moved db db a"
  by (fastforce simp: moved_def media_ok_def told_def)

lemma apply_moves:
  assumes ok: "media_ok db" and a: "load_media db i = Inr a" and plan: "\<And>s. sound_decision s (plan s)"
    and db': "db' = snd (with_status a (\<lambda>s. apply_media io now a (plan s) detail db) db)"
  shows "media_ok db' \<and> (\<forall>r \<in> set (mb_assets db). moved db db' r)"
proof -
  have a_in: "a \<in> set (mb_assets db)" using loaded_in_table [OF a] by simp
  then obtain s where s: "ma_status a = media_status_value s" using ok by (auto simp: media_ok_def told_def)
  have snap: "snapshot_ok db a" using a_in s by (auto simp: snapshot_ok_def)
  obtain x where x: "apply_media io now a (plan s) detail db = (x, db')" by (auto simp: db' with_status_def s prod_eq_iff)
  have rows: "moved db (write_asset now a b db) r"
    if b: "identity b = identity a" "ma_status b = media_status_value t" "t = s \<or> t \<in> set (media_moves s)"
      and r: "r \<in> set (mb_assets db)" for b r t
  proof -
    from write_asset_rows [OF identity_sel(3) [OF b(1)], of now db] obtain f
      where f: "mb_assets (write_asset now a b db) = map f (mb_assets db)" "\<And>r. identity (f r) = identity r"
        "\<And>r. ma_status (f r) = (if ma_id r = ma_id a \<and> ma_status b \<noteq> ma_status a then ma_status b else ma_status r)"
      by auto
    from r ok obtain u where u: "ma_status r = media_status_value u" by (auto simp: media_ok_def told_def)
    have "ma_id r = ma_id a \<Longrightarrow> u = s" using asset_unique [OF ok r a_in] s u by auto
    then show ?thesis
      unfolding moved_def f(1) using r f(2,3) [of r] b(2,3) u by (intro bexI [of _ "f r"]) auto
  qed
  have "moved db db' r" if r: "r \<in> set (mb_assets db)" for r
    using apply_media_cases [OF x plan s]
  proof (elim disjE exE bexE conjE)
    fix b t assume b: "t \<in> set (media_moves s)" "identity b = identity a" "ma_status b = media_status_value t"
        "db' = emit_media b (media_event t) (write_asset now a b db)"
    with rows [OF b(2,3) _ r] show ?thesis by (simp add: moved_def)
  qed (use moved_refl [OF ok r] rows [of _ s r] r s in auto)
  then show ?thesis using apply_media_keeps [OF x plan s ok snap] by blast
qed

lemma with_media_moves:
  assumes "media_ok db" and "\<And>a. load_media db i = Inr a \<Longrightarrow> media_ok (snd (f a db)) \<and> (\<forall>r \<in> set (mb_assets db). moved db (snd (f a db)) r)"
  shows "media_ok (snd (with_media i f db)) \<and> (\<forall>r \<in> set (mb_assets db). moved db (snd (with_media i f db)) r)"
  using assms moved_refl by (simp add: with_media_def split: sum.split)

lemma request_moves:
  assumes "media_request db db'" and "media_ok db"
  shows "media_ok db' \<and> (\<forall>r \<in> set (mb_assets db). moved db db' r)"
  using assms(1)
proof cases
  case (request_register io now fresh request key)
  have "media_ok (snd (register_media io now fresh request k db))
      \<and> (\<forall>r \<in> set (mb_assets db). moved db (snd (register_media io now fresh request k db)) r)" for k
  proof -
    obtain x d where x: "register_media io now fresh request k db = (x, d)" by fastforce
    from register_keeps_ok [OF assms(2) x] have "media_ok d" "set (mb_assets db) \<subseteq> set (mb_assets d)" by auto
    then show ?thesis using assms(2) unfolding x snd_conv by (fastforce simp: moved_def media_ok_def told_def)
  qed
  then show ?thesis
    using request_register assms(2) moved_refl by (simp add: register_media_endpoint_def split: option.splits)
next
  case (request_scan io now i)
  then show ?thesis
    using with_media_moves [OF assms(2), of i "scan_loaded io now"] apply_moves [OF assms(2)]
    by (simp add: start_scan_def scan_loaded_def)
next
  case (request_verdict io now i result)
  then show ?thesis
    using with_media_moves [OF assms(2), of i "\<lambda>a. verdict_loaded io now a result"] moved_refl assms(2)
      apply_moves [OF assms(2), of i _ "\<lambda>s. plan_scan_result s (sq_infected result)"]
    by (simp add: scan_result_endpoint_def record_scan_result_def verdict_loaded_def)
next
  case (request_delete io now i)
  then show ?thesis
    using with_media_moves [OF assms(2), of i "delete_loaded io now"] apply_moves [OF assms(2)]
    by (simp add: delete_media_def delete_loaded_def)
next
  case (request_upload io now sign i)
  have "snd (upload_loaded io now sign a db) = db" if "load_media db i = Inr a" for a
    using loaded_in_table [OF that] assms(2) by (intro upload_reads) (auto simp: snapshot_ok_def media_ok_def told_def)
  then show ?thesis
    using request_upload assms(2) moved_refl with_media_moves [OF assms(2), of i "upload_loaded io now sign"]
    by (simp add: get_upload_url_def)
qed

lemma empty_media_ok: "empty_media db \<Longrightarrow> media_ok db"
  by (simp add: empty_media_def media_ok_def)

interpretation media_requests: inductive_invariant empty_media media_request media_ok
  by unfold_locales (blast intro: empty_media_ok dest: request_moves)+

lemma requests_move:
  assumes "media_request\<^sup>*\<^sup>* db db'" and "media_ok db" and "a \<in> set (mb_assets db)"
  shows "\<exists>a' \<in> set (mb_assets db'). \<exists>s t. identity a' = identity a \<and> ma_status a = media_status_value s
    \<and> ma_status a' = media_status_value t \<and> (\<lambda>x y. y \<in> set (media_moves x))\<^sup>*\<^sup>* s t"
  using assms(1)
proof (induction rule: rtranclp_induct)
  case base
  then show ?case using assms(2,3) by (fastforce simp: media_ok_def told_def)
next
  case (step d d')
  then obtain a1 s t where a1: "a1 \<in> set (mb_assets d)" "identity a1 = identity a" "ma_status a = media_status_value s"
      "ma_status a1 = media_status_value t" "(\<lambda>x y. y \<in> set (media_moves x))\<^sup>*\<^sup>* s t" by blast
  have "media_ok d" using media_requests.steps_inv [OF step(1)] assms(2) by simp
  with request_moves [OF step(2)] a1(1) have "moved d d' a1" by blast
  then obtain a2 u where a2: "a2 \<in> set (mb_assets d')" "identity a2 = identity a1" "ma_status a2 = media_status_value u"
      "u = t \<or> u \<in> set (media_moves t)" using a1(4) by (auto simp: moved_def)
  then have "(\<lambda>x y. y \<in> set (media_moves x))\<^sup>*\<^sup>* s u" using a1(5) by (auto intro: rtranclp.rtrancl_into_rtrancl)
  then show ?case using a1 a2 by auto
qed

lemma terminal_moves:
  assumes "(\<lambda>x y. y \<in> set (media_moves x))\<^sup>*\<^sup>* s t" and "s \<in> {INFECTED, DELETED}"
  shows "t \<in> {INFECTED, DELETED}"
  using assms by (induction rule: rtranclp_induct) auto

section \<open>Properties\<close>

text \<open>
  Property C16 (events and rows agree). However requests overlap, the last event of an asset in the
  outbox is the event of the status in its row, with a payload that describes the row. A location is
  handed out only for an asset that is clean and not confidential, so its last event is
  \<open>MediaPublished\<close>.
\<close>

theorem media_events_tell_rows:
  assumes "reachable no_media media_step w" and "a \<in> set (mb_assets (mw_db w))"
  shows "\<exists>s. ma_status a = media_status_value s
    \<and> last_event (mw_db w) (ma_id a) = Some (outbox ''Media'' (ma_id a) (media_event s) (media_payload a))
    \<and> (\<forall>endpoint bucket loc. get_location endpoint bucket (mw_db w) (ma_id a) = Inr loc \<longrightarrow>
         s = CLEAN \<and> \<not> is_confidential (ma_purpose a) \<and> ma_storage_key a = Some (lo_storage_key loc))"
proof -
  from media.reachable_inv [OF assms(1)] have ok: "media_ok (mw_db w)" by (simp add: media_world_inv_def)
  with assms(2) obtain s where s: "ma_status a = media_status_value s"
      "last_event (mw_db w) (ma_id a) = Some (outbox ''Media'' (ma_id a) (media_event s) (media_payload a))"
    by (auto simp: media_ok_def told_def)
  have "s = CLEAN \<and> \<not> is_confidential (ma_purpose a) \<and> ma_storage_key a = Some (lo_storage_key loc)"
    if loc: "get_location endpoint bucket (mw_db w) (ma_id a) = Inr loc" for endpoint bucket loc
  proof -
    from loc obtain b where b: "load_media (mw_db w) (ma_id a) = Inr b"
      by (auto simp: get_location_def split: sum.splits)
    then have "b = a" using loaded_in_table asset_unique [OF ok _ assms(2)] by blast
    then show ?thesis using loc b s by (auto simp: get_location_def split: if_splits option.splits)
  qed
  with s show ?thesis by blast
qed

definition demo_photo :: MediaRegisterRequest where
  "demo_photo = \<lparr>mq_owner_id = ''o1'', mq_purpose = ''product_image'', mq_filename = ''a.png'',
     mq_content_type = ''image/png'', mq_size_bytes = 10, mq_storage_key = None, mq_checksum = None\<rparr>"

definition demo_clean :: ScanResultRequest where
  "demo_clean = \<lparr>sq_infected = False, sq_detail = None\<rparr>"

definition demo_media0 :: media_db where
  "demo_media0 = \<lparr>mb_assets = [], mb_keys = [], mb_outbox = []\<rparr>"

definition demo_media1 :: media_db where
  "demo_media1 = snd (register_media_endpoint True 1 ''m1'' demo_photo (Some ''k1'') demo_media0)"

definition demo_asset :: MediaAsset where
  "demo_asset = new_asset 1 ''m1'' demo_photo QUARANTINED"

definition demo_media2 :: media_db where
  "demo_media2 = snd (start_scan True 2 ''m1'' demo_media1)"

definition demo_media3 :: media_db where
  "demo_media3 = snd (scan_result_endpoint True 3 ''m1'' demo_clean demo_media2)"

lemma demo_media1_value: "load_media demo_media1 ''m1'' = Inr demo_asset"
  by code_simp

lemma demo_media1_assets: "mb_assets demo_media1 = [demo_asset]"
  by code_simp

lemma demo_media_reachable: "reachable no_media media_step \<lparr>mw_db = demo_media1, mw_loaded = []\<rparr>"
proof -
  have "no_media \<lparr>mw_db = demo_media0, mw_loaded = []\<rparr>" by (simp add: no_media_def demo_media0_def)
  then have "reachable no_media media_step \<lparr>mw_db = demo_media0, mw_loaded = []\<rparr>" by (rule reach_init)
  moreover have "media_step \<lparr>mw_db = demo_media0, mw_loaded = []\<rparr> \<lparr>mw_db = demo_media1, mw_loaded = []\<rparr>"
    using media_step.register [of "\<lparr>mw_db = demo_media0, mw_loaded = []\<rparr>" True 1 "''m1''" demo_photo "Some ''k1''"]
    by (simp add: demo_media1_def)
  ultimately show ?thesis by (rule reach_step)
qed

lemma media_events_tell_rows_witness:
  "reachable no_media media_step \<lparr>mw_db = demo_media1, mw_loaded = []\<rparr> \<and> demo_asset \<in> set (mb_assets demo_media1)
   \<and> (\<exists>s. ma_status demo_asset = media_status_value s
        \<and> last_event demo_media1 (ma_id demo_asset) = Some (outbox ''Media'' (ma_id demo_asset) (media_event s) (media_payload demo_asset)))"
proof -
  have a: "demo_asset \<in> set (mb_assets demo_media1)" by (simp add: demo_media1_assets)
  with demo_media_reachable media_events_tell_rows [OF demo_media_reachable, of demo_asset] show ?thesis
    unfolding media_world.simps by blast
qed

text \<open>
  Property C20 (statuses follow the machine). When requests do not overlap, an asset keeps its
  identity, its status moves along the machine of the rules, and an asset that was found infected
  or was deleted is never servable again.
\<close>

theorem media_follows_machine:
  assumes "reachable empty_media media_request db" and "media_request\<^sup>*\<^sup>* db db'" and "a \<in> set (mb_assets db)"
  shows "\<exists>a' \<in> set (mb_assets db'). \<exists>s t. identity a' = identity a \<and> ma_status a = media_status_value s
    \<and> ma_status a' = media_status_value t \<and> (\<lambda>x y. y \<in> set (media_moves x))\<^sup>*\<^sup>* s t
    \<and> (s \<in> set MEDIA_TERMINAL \<longrightarrow> \<not> is_servable (ma_status a'))"
proof -
  from requests_move [OF assms(2) media_requests.reachable_inv [OF assms(1)] assms(3)]
  obtain a' s t where *: "a' \<in> set (mb_assets db')" "identity a' = identity a" "ma_status a = media_status_value s"
      "ma_status a' = media_status_value t" "(\<lambda>x y. y \<in> set (media_moves x))\<^sup>*\<^sup>* s t" by blast
  have "\<not> is_servable (ma_status a')" if "s \<in> set MEDIA_TERMINAL"
    using terminal_moves [OF *(5)] that *(4) by (auto simp: MEDIA_TERMINAL_def)
  with * show ?thesis by blast
qed

lemma demo_requests: "reachable empty_media media_request demo_media1" "media_request\<^sup>*\<^sup>* demo_media1 demo_media3"
proof -
  have "empty_media demo_media0" by (simp add: empty_media_def demo_media0_def)
  then have "reachable empty_media media_request demo_media0" by (rule reach_init)
  moreover have "media_request demo_media0 demo_media1" unfolding demo_media1_def by (rule request_register)
  ultimately show "reachable empty_media media_request demo_media1" by (rule reach_step)
  have "media_request demo_media1 demo_media2" "media_request demo_media2 demo_media3"
    by (simp_all add: demo_media2_def demo_media3_def request_scan request_verdict)
  then show "media_request\<^sup>*\<^sup>* demo_media1 demo_media3" by (blast intro: rtranclp_trans)
qed

lemma media_follows_machine_witness:
  "reachable empty_media media_request demo_media1 \<and> media_request\<^sup>*\<^sup>* demo_media1 demo_media3 \<and> demo_asset \<in> set (mb_assets demo_media1)
   \<and> (\<exists>a' \<in> set (mb_assets demo_media3). \<exists>s t. identity a' = identity demo_asset \<and> ma_status demo_asset = media_status_value s
        \<and> ma_status a' = media_status_value t \<and> (\<lambda>x y. y \<in> set (media_moves x))\<^sup>*\<^sup>* s t)"
proof -
  have a: "demo_asset \<in> set (mb_assets demo_media1)" by (simp add: demo_media1_assets)
  with demo_requests media_follows_machine [OF demo_requests a] show ?thesis by blast
qed

text \<open>
  Two verdicts on one scan that overlap: both load the asset while it is scanned, the infected one
  commits first, and the clean one then makes the asset servable.
\<close>

lemma racing_verdicts_clear_infected:
  assumes a: "a \<in> set (mb_assets db)" "ma_status a = media_status_value SCANNING"
    and db1: "db1 = snd (verdict_loaded True now1 a \<lparr>sq_infected = True, sq_detail = d1\<rparr> db)"
    and db2: "db2 = snd (verdict_loaded True now2 a \<lparr>sq_infected = False, sq_detail = d2\<rparr> db1)"
  shows "\<exists>r1 \<in> set (mb_assets db1). ma_id r1 = ma_id a \<and> ma_status r1 = media_status_value INFECTED"
    and "\<exists>r2 \<in> set (mb_assets db2). ma_id r2 = ma_id a \<and> is_servable (ma_status r2)"
proof -
  have effect: "\<exists>b. mb_assets (snd (verdict_loaded True now a \<lparr>sq_infected = i, sq_detail = d\<rparr> db0))
        = mb_assets (write_asset now a b db0) \<and> identity b = identity a
        \<and> ma_status b = media_status_value (if i then INFECTED else CLEAN)" for now i d db0
    using a(2)
    by (intro exI [of _ "case d of None \<Rightarrow> a\<lparr>ma_status := media_status_value (if i then INFECTED else CLEAN)\<rparr>
          | Some u \<Rightarrow> a\<lparr>ma_status := media_status_value (if i then INFECTED else CLEAN), ma_scan_detail := Some u\<rparr>"])
      (cases d; cases i; simp add: verdict_loaded_def with_status_def apply_media_def media_plans identity_def Let_def)
  have row: "\<exists>r' \<in> set (mb_assets (write_asset now a b db0)). ma_id r' = ma_id a \<and> ma_status r' = ma_status b"
    if h: "r \<in> set (mb_assets db0)" "ma_id r = ma_id a" "identity b = identity a" "ma_status b \<noteq> ma_status a" for now b db0 r
  proof -
    from write_asset_rows [OF identity_sel(3) [OF h(3)], of now db0] obtain f
      where f: "mb_assets (write_asset now a b db0) = map f (mb_assets db0)" "\<And>r. identity (f r) = identity r"
        "\<And>r. ma_status (f r) = (if ma_id r = ma_id a \<and> ma_status b \<noteq> ma_status a then ma_status b else ma_status r)"
      by auto
    then show ?thesis using h identity_sel(1) [OF f(2) [of r]] by (intro bexI [of _ "f r"]) auto
  qed
  from effect [of now1 True d1 db] row [OF a(1) refl] a(2) db1
  show 1: "\<exists>r1 \<in> set (mb_assets db1). ma_id r1 = ma_id a \<and> ma_status r1 = media_status_value INFECTED" by fastforce
  from 1 obtain r1 where r1: "r1 \<in> set (mb_assets db1)" "ma_id r1 = ma_id a" by blast
  from effect [of now2 False d2 db1] row [OF r1] a(2) db2
  show "\<exists>r2 \<in> set (mb_assets db2). ma_id r2 = ma_id a \<and> is_servable (ma_status r2)" by fastforce
qed

text \<open>
  Anonymous read is granted exactly to the derived keys of purposes that are not confidential: the
  resource patterns of the policy end in a star.
\<close>

lemma anonymous_read_iff_public:
  assumes "storage_key purpose owner i = Some k"
  shows "(\<exists>p \<in> set (sort public_prefixes). starts_with (''arn:aws:s3:::'' @ bucket @ ''/'' @ k) (butlast (policy_resource bucket p)))
    \<longleftrightarrow> \<not> is_confidential purpose"
proof -
  from assms obtain p where p: "purpose = purpose_value p" "k = prefix_of p @ ''/'' @ owner @ ''/'' @ i"
    using as_purpose_Some by (auto simp: storage_key_def)
  have prefixes: "set (sort public_prefixes) = {''products'', ''posts''}" by code_simp
  have "starts_with (''arn:aws:s3:::'' @ bucket @ ''/'' @ k) (butlast (policy_resource bucket q)) \<longleftrightarrow> starts_with k (q @ ''/'')" for q
    by (simp add: starts_with_def policy_resource_def butlast_append)
  then show ?thesis unfolding prefixes p
    by (cases p) (simp_all add: starts_with_def is_confidential_def CONFIDENTIAL_PURPOSES_def as_purpose_def all_purposes_def)
qed

text \<open>
  A cleared key can be written again. A caller may choose the storage key of a new
  asset. Whoever registers one under the key of an asset that is served gets a signed upload address
  for that key, while the location of the cleared asset stays the same: its bytes can be replaced
  after the scan.
\<close>

theorem cleared_key_writable:
  assumes "reachable empty_media media_request db" and "get_location endpoint bucket db i = Inr loc"
    and "mq_storage_key request = Some (lo_storage_key loc)" and "MediaRegisterRequest_valid request"
    and "mdc_ok (plan_registration_for (mq_purpose request) (mq_filename request) (mq_content_type request) (mq_size_bytes request))"
    and "key \<noteq> []" "length key \<le> 255" "map_of (mb_keys db) key = None" "fresh \<notin> ma_id ` set (mb_assets db)"
    and "db' = snd (register_media_endpoint True now fresh request (Some key) db)"
  shows "get_location endpoint bucket db' i = Inr loc
    \<and> (\<exists>url. get_upload_url True now' (Some sign) fresh db' = (Inr url, db') \<and> up_storage_key url = lo_storage_key loc)"
proof -
  let ?a = "new_asset now fresh request QUARANTINED"
  note plan = plan_registration_for_ok [OF assms(5)]
  have key: "lo_storage_key loc \<noteq> []" "\<exists>a. load_media db i = Inr a"
    using assms(2) by (auto simp: get_location_def split: sum.splits if_splits option.splits)
  have db': "mb_assets db' = mb_assets db @ [?a]"
    using assms(4-10) plan(1,2) by (simp add: register_media_endpoint_def register_media_def Let_def)
  obtain a where a: "load_media db i = Inr a" using key(2) by blast
  then have "load_media db' i = Inr a"
    by (auto simp: load_media_def db' find_append_kept split: option.splits)
  then have 1: "get_location endpoint bucket db' i = get_location endpoint bucket db i"
    using a by (simp add: get_location_def)
  have "load_media db' fresh = Inr ?a" using assms(9) by (simp add: load_media_def db' find_append_fresh)
  moreover have "ma_storage_key ?a = Some (lo_storage_key loc)" using assms(3) key(1) by (simp add: new_asset_def no_text_def)
  ultimately have "\<exists>url. get_upload_url True now' (Some sign) fresh db' = (Inr url, db') \<and> up_storage_key url = lo_storage_key loc"
    using plan(3) key(1)
    by (auto simp: get_upload_url_def with_media_def upload_loaded_def may_issue_upload_url_def media_decision_def mdc_ok_def
        presigned_upload_url_def no_text_def)
  with 1 assms(2) show ?thesis by simp
qed

definition demo_intruder :: MediaRegisterRequest where
  "demo_intruder = demo_photo\<lparr>mq_owner_id := ''o2'', mq_storage_key := Some ''products/o1/m1''\<rparr>"

lemma cleared_key_writable_witness:
  "\<exists>url. get_upload_url True 5 (Some (\<lambda>k c t. k)) ''m2'' (snd (register_media_endpoint True 4 ''m2'' demo_intruder (Some ''k2'') demo_media3))
       = (Inr url, snd (register_media_endpoint True 4 ''m2'' demo_intruder (Some ''k2'') demo_media3))
     \<and> up_storage_key url = ''products/o1/m1''"
proof -
  have r: "reachable empty_media media_request demo_media3"
    using demo_requests(2,1) by (induction rule: rtranclp_induct) (auto intro: reach_step)
  have loc: "get_location ''e'' ''media'' demo_media3 ''m1''
      = Inr \<lparr>lo_id = ''m1'', lo_storage_key = ''products/o1/m1'', lo_url = ''e/media/products/o1/m1''\<rparr>"
    by code_simp
  have *: "mq_storage_key demo_intruder = Some ''products/o1/m1''" "MediaRegisterRequest_valid demo_intruder"
    "mdc_ok (plan_registration_for (mq_purpose demo_intruder) (mq_filename demo_intruder) (mq_content_type demo_intruder)
        (mq_size_bytes demo_intruder))"
    "map_of (mb_keys demo_media3) ''k2'' = None" "''m2'' \<notin> ma_id ` set (mb_assets demo_media3)"
    by code_simp+
  from cleared_key_writable [OF r loc _ *(2,3) _ _ *(4,5) refl, of 4 5 "\<lambda>k c t. k"] show ?thesis by (simp add: *(1))
qed

end
