(* ===== verification/Digest.thy ===== *)
theory Digest
  imports Prelude "HOL-Library.Word"
begin

text \<open>
  The parts of Python's \<open>hashlib\<close>, \<open>hmac\<close> and \<open>json\<close> that the audit log, the dead-letter worker
  and the webhook handler use: \<open>sha256(b).hexdigest()\<close>, \<open>hmac.new(key, b, sha256).hexdigest()\<close> and
  \<open>json.dumps\<close> in its canonical form. A byte string is a list of characters, one per byte.
\<close>

unbundle bit_operations_syntax

section \<open>SHA-256\<close>

type_synonym w32 = "32 word"

text \<open>
  The constants of the standard are the first 32 bits of the fractional parts of roots of prime
  numbers: cube roots of the first 64 primes for the rounds, square roots of the first eight for the
  initial state. \<open>integer_root b k n r\<close> adds to \<open>r\<close> the lower \<open>b\<close> bits of the \<open>k\<close>-th root of \<open>n\<close>.
\<close>

fun integer_root :: "nat \<Rightarrow> nat \<Rightarrow> int \<Rightarrow> int \<Rightarrow> int" where
  "integer_root 0 k n r = r"
| "integer_root (Suc b) k n r = integer_root b k n (if (r + 2 ^ b) ^ k \<le> n then r + 2 ^ b else r)"

definition root_fraction :: "nat \<Rightarrow> int \<Rightarrow> w32" where
  "root_fraction k p = word_of_int (integer_root 36 k (p * 2 ^ (32 * k)) 0)"

definition is_prime :: "int \<Rightarrow> bool" where
  "is_prime p \<longleftrightarrow> list_all (\<lambda>d. p mod d \<noteq> 0) [2..p - 1]"

definition round_constants :: "w32 list" where
  "round_constants = map (root_fraction 3) (filter is_prime [2..311])"

definition initial_state :: "w32 list" where
  "initial_state = map (root_fraction 2) [2, 3, 5, 7, 11, 13, 17, 19]"

definition rotr :: "nat \<Rightarrow> w32 \<Rightarrow> w32" where
  "rotr n x = drop_bit n x OR push_bit (32 - n) x"

fun big_endian :: "nat \<Rightarrow> int \<Rightarrow> string" where
  "big_endian 0 n = []"
| "big_endian (Suc k) n = big_endian k (n div 256) @ [char_of (n mod 256)]"

definition padded :: "string \<Rightarrow> string" where
  "padded m = m @ char_of (128::nat) # replicate ((55 + 64 - length m mod 64) mod 64) (char_of (0::nat))
     @ big_endian 8 (8 * int (length m))"

fun words_of :: "string \<Rightarrow> w32 list" where
  "words_of (a # b # c # d # cs) =
     word_of_int (((of_char a * 256 + of_char b) * 256 + of_char c) * 256 + of_char d) # words_of cs"
| "words_of _ = []"

text \<open>The message schedule, newest word first.\<close>

fun extend_schedule :: "nat \<Rightarrow> w32 list \<Rightarrow> w32 list" where
  "extend_schedule 0 ws = ws"
| "extend_schedule (Suc k) ws =
     (let x = ws ! 14; y = ws ! 1;
          s0 = rotr 7 x XOR rotr 18 x XOR drop_bit 3 x;
          s1 = rotr 17 y XOR rotr 19 y XOR drop_bit 10 y
      in extend_schedule k ((ws ! 15 + s0 + ws ! 6 + s1) # ws))"

fun sha_round :: "w32 list \<Rightarrow> w32 \<times> w32 \<Rightarrow> w32 list" where
  "sha_round [a, b, c, d, e, f, g, h] (k, w) =
     (let s1 = rotr 6 e XOR rotr 11 e XOR rotr 25 e;
          ch = (e AND f) XOR (NOT e AND g);
          t1 = h + s1 + ch + k + w;
          s0 = rotr 2 a XOR rotr 13 a XOR rotr 22 a;
          maj = (a AND b) XOR (a AND c) XOR (b AND c)
      in [t1 + s0 + maj, a, b, c, d + t1, e, f, g])"
| "sha_round st _ = st"

definition compress :: "w32 list \<Rightarrow> w32 list \<Rightarrow> w32 list" where
  "compress st block =
     map2 (+) st (foldl sha_round st (zip round_constants (rev (extend_schedule 48 (rev block)))))"

function sha_blocks :: "w32 list \<Rightarrow> w32 list \<Rightarrow> w32 list" where
  "sha_blocks st ws = (if ws = [] then st else sha_blocks (compress st (take 16 ws)) (drop 16 ws))"
  by pat_completeness auto
termination
  by (relation "measure (\<lambda>(st, ws). length ws)") auto

declare sha_blocks.simps [simp del]

definition sha256_bytes :: "string \<Rightarrow> string" where
  "sha256_bytes m = concat (map (\<lambda>w. big_endian 4 (uint w)) (sha_blocks initial_state (words_of (padded m))))"

definition hexdigest :: "string \<Rightarrow> string" where
  "hexdigest bs = concat (map (\<lambda>c. hex_digits 2 (of_char c)) bs)"

definition sha256 :: "string \<Rightarrow> string" where
  "sha256 m = hexdigest (sha256_bytes m)"

lemma length_big_endian [simp]: "length (big_endian k n) = k"
  by (induction k arbitrary: n) auto

lemma length_sha_round [simp]: "length (sha_round st kw) = length st"
  by (induction st kw rule: sha_round.induct) (auto simp: Let_def)

lemma length_rounds [simp]: "length (foldl sha_round st kws) = length st"
  by (induction kws arbitrary: st) auto

lemma length_sha_blocks [simp]: "length (sha_blocks st ws) = length st"
  by (induction st ws rule: sha_blocks.induct) (simp add: sha_blocks.simps compress_def)

lemma length_concat_map: "(\<And>x. x \<in> set xs \<Longrightarrow> length (f x) = n) \<Longrightarrow> length (concat (map f xs)) = n * length xs"
  by (induction xs) auto

lemma length_sha256 [simp]: "length (sha256 m) = 64"
  by (simp add: sha256_def hexdigest_def sha256_bytes_def length_concat_map initial_state_def)

lemma sha256_not_Nil [simp]: "sha256 m \<noteq> []" "[] \<noteq> sha256 m"
  using length_sha256 [of m] by (metis list.size(3) zero_neq_numeral)+

section \<open>HMAC\<close>

definition hmac_block :: "string \<Rightarrow> string" where
  "hmac_block key =
     (let k = (if 64 < length key then sha256_bytes key else key) in k @ replicate (64 - length k) (char_of (0::int)))"

definition xor_byte :: "int \<Rightarrow> char \<Rightarrow> char" where
  "xor_byte b c = char_of (b XOR of_char c)"

definition hmac_sha256 :: "string \<Rightarrow> string \<Rightarrow> string" where
  "hmac_sha256 key m =
     (let k = hmac_block key in
      sha256 (map (xor_byte 0x5c) k @ sha256_bytes (map (xor_byte 0x36) k @ m)))"

section \<open>Canonical JSON\<close>

text \<open>A string as \<open>json.dumps\<close> writes it with \<open>ensure_ascii\<close>.\<close>

definition dumps_char :: "char \<Rightarrow> string" where
  "dumps_char c =
     (let n = (of_char c :: nat) in
      if n = 34 \<or> n = 92 then [char_of (92::nat), c]
      else if n = 10 then [char_of (92::nat), CHR ''n'']
      else if n = 13 then [char_of (92::nat), CHR ''r'']
      else if n = 9 then [char_of (92::nat), CHR ''t'']
      else if n = 8 then [char_of (92::nat), CHR ''b'']
      else if n = 12 then [char_of (92::nat), CHR ''f'']
      else if n < 32 \<or> 126 < n then char_of (92::nat) # CHR ''u'' # hex_digits 4 n
      else [c])"

definition dumps_string :: "string \<Rightarrow> string" where
  "dumps_string s = char_of (34::nat) # concat (map dumps_char s) @ [char_of (34::nat)]"

text \<open>\<open>json.dumps(x, sort_keys=True, separators=(",", ":"))\<close>.\<close>

fun json_dumps :: "json \<Rightarrow> string" where
  "json_dumps JNull = ''null''"
| "json_dumps (JBool b) = (if b then ''true'' else ''false'')"
| "json_dumps (JInt n) = show_int n"
| "json_dumps (JFloat t _) = t"
| "json_dumps (JStr s) = dumps_string s"
| "json_dumps (JArr xs) = ''['' @ join_with '','' (map json_dumps xs) @ '']''"
| "json_dumps (JObj kvs) =
     ''{'' @ join_with '','' (map (\<lambda>kt. dumps_string (fst kt) @ '':'' @ snd kt)
       (sort_key fst (map (\<lambda>kv. (fst kv, json_dumps (snd kv))) kvs))) @ ''}''"

text \<open>The text of a JSON string, and nothing for another value.\<close>

definition json_text :: "json \<Rightarrow> string option" where
  "json_text x = (case x of JStr s \<Rightarrow> Some s | _ \<Rightarrow> None)"

lemma json_text_JStr [simp]: "json_text (JStr s) = Some s"
  by (simp add: json_text_def)

lemma json_text_Some [simp]: "json_text x = Some s \<longleftrightarrow> x = JStr s"
  by (cases x) (auto simp: json_text_def)

section \<open>Times as text\<close>

text \<open>A \<open>datetime\<close> with a time zone: microseconds since 1970 in UTC, and the zone's offset in seconds.\<close>

record datetime =
  dt_instant :: int
  dt_offset :: int

text \<open>Year, month and day of a day number counted from 1970-01-01 in the Gregorian calendar.\<close>

definition civil :: "int \<Rightarrow> int \<times> int \<times> int" where
  "civil days =
     (let z = days + 719468; era = z div 146097; doe = z mod 146097;
          yoe = (doe - doe div 1460 + doe div 36524 - doe div 146096) div 365;
          doy = doe - (365 * yoe + yoe div 4 - yoe div 100);
          mp = (5 * doy + 2) div 153;
          d = doy - (153 * mp + 2) div 5 + 1;
          m = (if mp < 10 then mp + 3 else mp - 9)
      in (yoe + era * 400 + (if m \<le> 2 then 1 else 0), m, d))"

definition zero_padded :: "nat \<Rightarrow> int \<Rightarrow> string" where
  "zero_padded k n = (let t = show_int n in replicate (k - length t) (CHR ''0'') @ t)"

definition offset_text :: "int \<Rightarrow> string" where
  "offset_text o_seconds =
     (let a = \<bar>o_seconds\<bar> in
      (if o_seconds < 0 then ''-'' else ''+'') @ zero_padded 2 (a div 3600) @ '':'' @ zero_padded 2 (a mod 3600 div 60)
        @ (if a mod 60 = 0 then [] else '':'' @ zero_padded 2 (a mod 60)))"

text \<open>\<open>d.isoformat()\<close>.\<close>

definition isoformat :: "datetime \<Rightarrow> string" where
  "isoformat d =
     (let us = dt_instant d + dt_offset d * 1000000; s = us div 1000000; frac = us mod 1000000; t = s mod 86400 in
      case civil (s div 86400) of
        (y, m, day) \<Rightarrow>
          zero_padded 4 y @ ''-'' @ zero_padded 2 m @ ''-'' @ zero_padded 2 day @ ''T''
            @ zero_padded 2 (t div 3600) @ '':'' @ zero_padded 2 (t mod 3600 div 60) @ '':'' @ zero_padded 2 (t mod 60)
            @ (if frac = 0 then [] else ''.'' @ zero_padded 6 frac) @ offset_text (dt_offset d))"

section \<open>Numbers and digests as text\<close>

lemma show_nat_chars: "c \<in> set (show_nat n) \<Longrightarrow> \<exists>d < 10. c = digit_char d"
proof (induction n rule: show_nat.induct)
  case (1 n)
  then show ?case by (cases "n < 10") (auto simp: show_nat.simps [of n] intro: exI [of _ "n mod 10"])
qed

lemma show_nat_not_Nil [simp]: "show_nat n \<noteq> []"
  by (simp add: show_nat.simps [of n])

lemma parse_show_nat:
  "parse_digits 10 d acc (show_nat n @ rest) = parse_digits 10 True (acc * 10 ^ length (show_nat n) + n) rest"
proof (induction n arbitrary: d acc rest rule: show_nat.induct)
  case (1 n)
  have digit: "digit_of (digit_char m) = Some m" "digit_char m \<noteq> CHR ''_''" if "m < 10" for m
    using digit_char_hex(1,2) [of m] that by auto
  show ?case
  proof (cases "n < 10")
    case True
    then show ?thesis using digit [of n] by (simp add: show_nat.simps [of n])
  next
    case False
    have "parse_digits 10 d acc (show_nat n @ rest)
        = parse_digits 10 True (acc * 10 ^ length (show_nat (n div 10)) + n div 10) (digit_char (n mod 10) # rest)"
      using 1 [OF False, of d acc "digit_char (n mod 10) # rest"] False by (simp add: show_nat.simps [of n])
    also have "\<dots> = parse_digits 10 True ((acc * 10 ^ length (show_nat (n div 10)) + n div 10) * 10 + n mod 10) rest"
      using digit [of "n mod 10"] by simp
    also have "(acc * 10 ^ length (show_nat (n div 10)) + n div 10) * 10 + n mod 10 = acc * 10 ^ length (show_nat n) + n"
      using False by (simp add: show_nat.simps [of n] algebra_simps)
    finally show ?thesis .
  qed
qed

lemma digit_char_plain:
  assumes "d < 16"
  shows "digit_char d \<notin> {CHR '','', CHR ''='', CHR ''-'', CHR ''+''}" "\<not> py_isspace (digit_char d)" "(of_char (digit_char d) :: nat) < 128"
proof -
  have "digit_char d \<noteq> c" if "of_char c \<notin> {48..57::nat} \<union> {97..102}" for c
    using of_char_digit [OF assms] that assms by (auto split: if_splits)
  then show "digit_char d \<notin> {CHR '','', CHR ''='', CHR ''-'', CHR ''+''}" by auto
  show "\<not> py_isspace (digit_char d)" using digit_char_hex(4) [OF assms] .
  show "(of_char (digit_char d) :: nat) < 128" using of_char_digit [OF assms] assms by simp
qed

lemma show_int_plain:
  assumes "c \<in> set (show_int i)"
  shows "c \<notin> {CHR '','', CHR ''=''}" "\<not> py_isspace c"
proof -
  consider "c = CHR ''-''" | d where "d < 10" "c = digit_char d"
    using assms show_nat_chars by (auto simp: show_int_def split: if_splits)
  then show "c \<notin> {CHR '','', CHR ''=''}" "\<not> py_isspace c"
    using digit_char_plain by (cases; force simp: py_isspace_def)+
qed

text \<open>\<open>int(str(i))\<close> is \<open>i\<close>.\<close>

lemma py_int_show: "py_int_str 10 (show_int i) = Some i"
proof -
  have strip: "py_strip (show_int i) = show_int i"
    unfolding py_strip_def using show_int_plain(2) by (intro strip_by_absent)
  have parse: "parse_magnitude 10 (show_nat n) = Some n" for n
    using parse_show_nat [of False 0 n "[]"] by (simp add: parse_magnitude_def)
  have hd: "hd (show_nat n) \<notin> {CHR '','', CHR ''='', CHR ''-'', CHR ''+''}" for n
  proof -
    obtain d where "d < 10" "hd (show_nat n) = digit_char d"
      using show_nat_chars [OF hd_in_set [OF show_nat_not_Nil [of n]]] by blast
    then show ?thesis using digit_char_plain(1) [of d] by simp
  qed
  show ?thesis
  proof (cases "i < 0")
    case True
    then show ?thesis using strip parse by (simp add: py_int_str_def show_int_def)
  next
    case False
    obtain c cs where cs: "show_nat (nat i) = c # cs" by (cases "show_nat (nat i)") auto
    then show ?thesis using False strip parse [of "nat i"] hd [of "nat i"] by (simp add: py_int_str_def show_int_def)
  qed
qed

lemma sha256_chars: "c \<in> set (sha256 m) \<Longrightarrow> \<exists>d < 16. c = digit_char d"
  using hex_digits_set by (auto simp: sha256_def hexdigest_def)

end
