(* ===== verification/Audit_Log.thy ===== *)
theory Audit_Log
  imports Digest
begin

text \<open>
  The audit service (\<open>src/services/audit-service\<close>): the hash chain of \<open>services/audit_rules.py\<close>, the
  handlers of \<open>services/audit_service.py\<close> over the table of \<open>models.py\<close>, and the routes.

  A row keeps the instant of \<open>recorded_at\<close>: the column is a \<open>timestamptz\<close>, which is read back in UTC.
  What PostgreSQL gives back for a stored JSONB document is the argument \<open>jsonb\<close> of the handlers.
\<close>

section \<open>The chain\<close>

definition GENESIS_HASH :: string where
  "GENESIS_HASH = replicate 64 (CHR ''0'')"

definition HASHED_FIELDS :: "string list" where
  "HASHED_FIELDS = [''sequence'', ''actor'', ''action'', ''resource_type'', ''resource_id'', ''recorded_at'', ''payload'']"

record ChainBreak =
  cb_index :: nat
  cb_sequence :: "int option"
  cb_reason :: string

definition canonical_bytes :: "json \<Rightarrow> string" where
  "canonical_bytes rec = json_dumps (JObj (map (\<lambda>field. (field, dict_get_null rec field)) HASHED_FIELDS))"

definition or_genesis :: "string option \<Rightarrow> string" where
  "or_genesis h = (case h of None \<Rightarrow> GENESIS_HASH | Some x \<Rightarrow> if x = [] then GENESIS_HASH else x)"

definition compute_hash :: "string \<Rightarrow> json \<Rightarrow> string" where
  "compute_hash prev_hash rec = sha256 (or_genesis (Some prev_hash) @ canonical_bytes rec)"

definition link :: "string option \<Rightarrow> json \<Rightarrow> string \<times> string" where
  "link prev_hash rec = (let resolved_prev = or_genesis prev_hash in (resolved_prev, compute_hash resolved_prev rec))"

text \<open>\<open>record.get(k)\<close> for a field that holds text, or a number, or is missing.\<close>

definition get_text :: "json \<Rightarrow> string \<Rightarrow> string option" where
  "get_text d k = (case dict_get_null d k of JStr s \<Rightarrow> Some s | _ \<Rightarrow> None)"

definition get_number :: "json \<Rightarrow> string \<Rightarrow> int option" where
  "get_number d k = (case dict_get_null d k of JInt n \<Rightarrow> Some n | _ \<Rightarrow> None)"

definition text_or_None :: "string option \<Rightarrow> string" where
  "text_or_None x = (case x of None \<Rightarrow> ''None'' | Some s \<Rightarrow> s)"

definition prev_reason :: "string \<Rightarrow> string option \<Rightarrow> string" where
  "prev_reason expected found =
     ''prev_hash does not match the previous record's hash (expected '' @ take 12 expected @ ''..., found ''
       @ take 12 (text_or_None found) @ ''...)''"

definition CONTENTS_REASON :: string where
  "CONTENTS_REASON = ''record_hash does not match the record's contents; a field was changed after it was written''"

definition sequence_breaks :: "nat \<Rightarrow> int option \<Rightarrow> int option \<Rightarrow> ChainBreak list" where
  "sequence_breaks index last_sequence sequence =
     (case (last_sequence, sequence) of
        (Some l, Some n) \<Rightarrow>
          if n \<le> l then
            [\<lparr>cb_index = index, cb_sequence = sequence,
              cb_reason = ''sequence went backwards or repeated ('' @ show_int l @ '' then '' @ show_int n @ '')''\<rparr>]
          else if n \<noteq> l + 1 then
            [\<lparr>cb_index = index, cb_sequence = sequence,
              cb_reason = ''sequence gap: '' @ show_int l @ '' then '' @ show_int n\<rparr>]
          else []
      | _ \<Rightarrow> [])"

text \<open>
  The loop over the records. A mismatch against a record without a stored hash makes the slice of
  the message raise \<open>TypeError\<close>, which is \<open>None\<close>.
\<close>

fun verify_from :: "nat \<Rightarrow> string option \<Rightarrow> int option \<Rightarrow> json list \<Rightarrow> ChainBreak list option" where
  "verify_from index expected_prev last_sequence [] = Some []"
| "verify_from index expected_prev last_sequence (rec # records) =
     (let sequence = get_number rec ''sequence'';
          prev = get_text rec ''prev_hash'';
          recomputed = compute_hash (or_genesis prev) rec;
          contents = (if get_text rec ''record_hash'' \<noteq> Some recomputed
                      then [\<lparr>cb_index = index, cb_sequence = sequence, cb_reason = CONTENTS_REASON\<rparr>] else []);
          later = verify_from (index + 1) (get_text rec ''record_hash'')
                    (if sequence \<noteq> None then sequence else last_sequence) records;
          rest = map_option (\<lambda>bs. contents @ sequence_breaks index last_sequence sequence @ bs) later
      in if prev = expected_prev then rest
         else case expected_prev of
           None \<Rightarrow> None
         | Some e \<Rightarrow>
             map_option (\<lambda>bs. \<lparr>cb_index = index, cb_sequence = sequence, cb_reason = prev_reason e prev\<rparr> # bs) rest)"

definition verify_chain :: "json list \<Rightarrow> ChainBreak list option" where
  "verify_chain records = verify_from 0 (Some GENESIS_HASH) None records"

definition chain_is_intact :: "json list \<Rightarrow> bool option" where
  "chain_is_intact records = map_option (\<lambda>bs. bs = []) (verify_chain records)"

section \<open>Appending and reading\<close>

record AuditRecord =
  ar_sequence :: int
  ar_actor :: string
  ar_action :: string
  ar_resource_type :: string
  ar_resource_id :: string
  ar_payload :: json
  ar_recorded_at :: int
  ar_prev_hash :: string
  ar_record_hash :: string

record audit_db =
  ab_records :: "AuditRecord list"
  ab_outbox :: "outbox_message list"

definition to_dict :: "AuditRecord \<Rightarrow> json" where
  "to_dict r =
     JObj [(''sequence'', JInt (ar_sequence r)), (''actor'', JStr (ar_actor r)), (''action'', JStr (ar_action r)),
           (''resource_type'', JStr (ar_resource_type r)), (''resource_id'', JStr (ar_resource_id r)),
           (''recorded_at'', JStr (isoformat \<lparr>dt_instant = ar_recorded_at r, dt_offset = 0\<rparr>)), (''payload'', ar_payload r),
           (''prev_hash'', JStr (ar_prev_hash r)), (''record_hash'', JStr (ar_record_hash r))]"

record AuditAppendRequest =
  aq_actor :: string
  aq_action :: string
  aq_resource_type :: string
  aq_resource_id :: string
  aq_payload :: json
  aq_recorded_at :: "datetime option"

definition between :: "nat \<Rightarrow> nat \<Rightarrow> string \<Rightarrow> bool" where
  "between a b s \<longleftrightarrow> a \<le> length s \<and> length s \<le> b"

definition AuditAppendRequest_valid :: "AuditAppendRequest \<Rightarrow> bool" where
  "AuditAppendRequest_valid q \<longleftrightarrow> between 1 255 (aq_actor q) \<and> between 1 255 (aq_action q)
     \<and> between 1 128 (aq_resource_type q) \<and> between 1 255 (aq_resource_id q) \<and> is_dict (aq_payload q)"

definition audit_tail :: "AuditRecord list \<Rightarrow> AuditRecord option" where
  "audit_tail rows = (case sort_key (\<lambda>r. - ar_sequence r) rows of [] \<Rightarrow> None | r # _ \<Rightarrow> Some r)"

definition recorded_time :: "int \<Rightarrow> AuditAppendRequest \<Rightarrow> datetime" where
  "recorded_time now q = (case aq_recorded_at q of None \<Rightarrow> \<lparr>dt_instant = now, dt_offset = 0\<rparr> | Some d \<Rightarrow> d)"

definition append_fields :: "int \<Rightarrow> datetime \<Rightarrow> AuditAppendRequest \<Rightarrow> json" where
  "append_fields next_sequence recorded_at q =
     JObj [(''sequence'', JInt next_sequence), (''actor'', JStr (aq_actor q)), (''action'', JStr (aq_action q)),
           (''resource_type'', JStr (aq_resource_type q)), (''resource_id'', JStr (aq_resource_id q)),
           (''recorded_at'', JStr (isoformat recorded_at)), (''payload'', aq_payload q)]"

definition new_record :: "int \<Rightarrow> datetime \<Rightarrow> AuditAppendRequest \<Rightarrow> string \<times> string \<Rightarrow> AuditRecord" where
  "new_record next_sequence recorded_at q hashes =
     \<lparr>ar_sequence = next_sequence, ar_actor = aq_actor q, ar_action = aq_action q, ar_resource_type = aq_resource_type q,
      ar_resource_id = aq_resource_id q, ar_payload = aq_payload q, ar_recorded_at = dt_instant recorded_at,
      ar_prev_hash = fst hashes, ar_record_hash = snd hashes\<rparr>"

definition appended_event :: "AuditRecord \<Rightarrow> outbox_message" where
  "appended_event r =
     outbox ''Audit'' (show_int (ar_sequence r)) ''AuditRecordAppended''
       (JObj [(''sequence'', JInt (ar_sequence r)), (''actor'', JStr (ar_actor r)), (''action'', JStr (ar_action r)),
              (''resource_type'', JStr (ar_resource_type r)), (''resource_id'', JStr (ar_resource_id r)),
              (''record_hash'', JStr (ar_record_hash r))])"

text \<open>
  \<open>seen\<close> are the rows the query for the tail sees. The advisory lock makes them the present rows;
  without it they may be older. The table's two unique columns are checked at the commit.
\<close>

definition append_record ::
  "(json \<Rightarrow> json) \<Rightarrow> bool \<Rightarrow> int \<Rightarrow> AuditRecord list \<Rightarrow> AuditAppendRequest \<Rightarrow> audit_db \<Rightarrow> AuditRecord result \<times> audit_db" where
  "append_record jsonb io now seen q db =
     (let next_sequence = (case audit_tail seen of None \<Rightarrow> 1 | Some t \<Rightarrow> ar_sequence t + 1);
          prev_hash = (case audit_tail seen of None \<Rightarrow> GENESIS_HASH | Some t \<Rightarrow> ar_record_hash t);
          recorded_at = recorded_time now q;
          hashes = link (Some prev_hash) (append_fields next_sequence recorded_at q);
          r = new_record next_sequence recorded_at q hashes
      in if \<not> io \<or> 2 ^ 63 \<le> next_sequence then (Inl (HTTPException 500), db)
         else if next_sequence \<in> ar_sequence ` set (ab_records db) \<or> snd hashes \<in> ar_record_hash ` set (ab_records db) then
           (Inl (HTTPException 409), db)
         else
           (Inr r, db\<lparr>ab_records := ab_records db @ [r\<lparr>ar_payload := jsonb (aq_payload q)\<rparr>],
                      ab_outbox := ab_outbox db @ [appended_event r]\<rparr>))"

definition append_endpoint ::
  "(json \<Rightarrow> json) \<Rightarrow> bool \<Rightarrow> int \<Rightarrow> AuditRecord list \<Rightarrow> AuditAppendRequest \<Rightarrow> audit_db \<Rightarrow> AuditRecord result \<times> audit_db" where
  "append_endpoint jsonb io now seen q db =
     (if \<not> AuditAppendRequest_valid q then (Inl (HTTPException 422), db) else append_record jsonb io now seen q db)"

definition list_records :: "audit_db \<Rightarrow> nat \<Rightarrow> nat \<Rightarrow> AuditRecord list" where
  "list_records db limit offset = take limit (drop offset (sort_key ar_sequence (ab_records db)))"

definition get_by_resource :: "audit_db \<Rightarrow> string \<Rightarrow> nat \<Rightarrow> AuditRecord list" where
  "get_by_resource db resource_id limit =
     take limit (sort_key ar_sequence (filter (\<lambda>r. ar_resource_id r = resource_id) (ab_records db)))"

text \<open>The number of rows checked and the breaks found; \<open>None\<close> is the exception of \<open>verify_chain\<close>.\<close>

definition verify_log :: "audit_db \<Rightarrow> (nat \<times> ChainBreak list) option" where
  "verify_log db =
     (let records = map to_dict (sort_key ar_sequence (ab_records db)) in
      map_option (\<lambda>breaks. (length records, breaks)) (verify_chain records))"

record VerifyResponse =
  vy_records_checked :: nat
  vy_intact :: bool
  vy_breaks :: "ChainBreak list"

definition verify_endpoint :: "audit_db \<Rightarrow> VerifyResponse result" where
  "verify_endpoint db =
     (case verify_log db of
        None \<Rightarrow> Inl (Uncaught ''TypeError'')
      | Some (n, breaks) \<Rightarrow> Inr \<lparr>vy_records_checked = n, vy_intact = (breaks = []), vy_breaks = breaks\<rparr>)"

definition list_records_endpoint :: "string option \<Rightarrow> int \<Rightarrow> int \<Rightarrow> audit_db \<Rightarrow> AuditRecord list result" where
  "list_records_endpoint resource_id limit offset db =
     (if limit < 1 \<or> 1000 < limit \<or> offset < 0 then Inl (HTTPException 422)
      else case resource_id of
        None \<Rightarrow> Inr (list_records db (nat limit) (nat offset))
      | Some i \<Rightarrow> if i = [] then Inr (list_records db (nat limit) (nat offset)) else Inr (get_by_resource db i (nat limit)))"

section \<open>Chained rows\<close>

fun chained :: "string \<Rightarrow> int \<Rightarrow> AuditRecord list \<Rightarrow> bool" where
  "chained p n [] = True"
| "chained p n (r # rs) \<longleftrightarrow> ar_prev_hash r = p \<and> ar_sequence r = n \<and> ar_record_hash r = sha256 (p @ canonical_bytes (to_dict r))
     \<and> chained (ar_record_hash r) (n + 1) rs"

lemma to_dict_get [simp]:
  "get_number (to_dict r) ''sequence'' = Some (ar_sequence r)"
  "get_text (to_dict r) ''prev_hash'' = Some (ar_prev_hash r)"
  "get_text (to_dict r) ''record_hash'' = Some (ar_record_hash r)"
  by (simp_all add: get_number_def get_text_def dict_get_null_def to_dict_def)

lemma genesis_not_Nil [simp]: "GENESIS_HASH \<noteq> []"
  by (simp add: GENESIS_HASH_def)

lemma or_genesis_Some [simp]: "p \<noteq> [] \<Longrightarrow> or_genesis (Some p) = p"
  by (simp add: or_genesis_def)

lemma compute_hash_sha [simp]: "p \<noteq> [] \<Longrightarrow> compute_hash p d = sha256 (p @ canonical_bytes d)"
  by (simp add: compute_hash_def)

lemma no_sequence_break [simp]: "l = None \<or> l = Some (n - 1) \<Longrightarrow> sequence_breaks i l (Some n) = []"
  by (auto simp: sequence_breaks_def)

lemma chained_hash_not_Nil: "chained p n rs \<Longrightarrow> r \<in> set rs \<Longrightarrow> ar_record_hash r \<noteq> []"
  by (induction p n rs rule: chained.induct) auto

lemma chained_sequences: "chained p n rs \<Longrightarrow> map ar_sequence rs = map (\<lambda>i. n + int i) [0..<length rs]"
proof (induction p n rs rule: chained.induct)
  case (2 p n r rs)
  then have "map ar_sequence rs = map (\<lambda>i. n + 1 + int i) [0..<length rs]" by auto
  then have "map ar_sequence rs = map (\<lambda>i. n + int (Suc i)) [0..<length rs]" by (simp add: add.assoc)
  then show ?case using 2(2) by (simp add: upt_conv_Cons map_Suc_upt [symmetric] comp_def del: upt_Suc)
qed simp

lemma chained_nth: "chained p n rs \<Longrightarrow> j < length rs \<Longrightarrow> ar_sequence (rs ! j) = n + int j"
  using chained_sequences [of p n rs] by (metis (no_types, lifting) add_0 length_map nth_map nth_upt)

lemma chained_hash:
  "chained p n rs \<Longrightarrow> j < length rs \<Longrightarrow> ar_record_hash (rs ! j) = sha256 (ar_prev_hash (rs ! j) @ canonical_bytes (to_dict (rs ! j)))"
proof (induction p n rs arbitrary: j rule: chained.induct)
  case (2 p n r rs)
  then show ?case by (cases j) auto
qed simp

lemma sorted_without_nth: "sorted (map f xs) \<Longrightarrow> sorted (map f (take j xs @ drop (Suc j) xs))"
proof -
  assume *: "sorted (map f xs)"
  have "sorted (map f (take j xs) @ map f (drop j xs))" using * by (simp flip: map_append)
  then have "sorted (map f (take j xs))" "sorted (map f (drop j xs))" "\<forall>x \<in> set (take j xs). \<forall>y \<in> set (drop j xs). f x \<le> f y"
    unfolding sorted_append by simp_all
  then show ?thesis
    using set_drop_subset_set_drop [of j "Suc j" xs] sorted_wrt_drop [of "(\<le>)" "map f (drop j xs)" 1]
    by (auto simp: sorted_append drop_map)
qed

lemma chained_append: "chained p n (rs @ [r]) \<longleftrightarrow> chained p n rs
    \<and> chained (if rs = [] then p else ar_record_hash (last rs)) (n + int (length rs)) [r]"
  by (induction p n rs rule: chained.induct) (auto simp: algebra_simps)

lemma chained_take: "chained p n rs \<Longrightarrow> chained p n (take k rs)"
proof (induction p n rs arbitrary: k rule: chained.induct)
  case (2 p n r rs)
  then show ?case by (cases k) auto
qed simp

lemma chained_sorted: "chained p n rs \<Longrightarrow> sorted (map ar_sequence rs) \<and> distinct (map ar_sequence rs)"
  by (auto simp: chained_sequences sorted_iff_nth_mono distinct_map inj_on_def)

lemma verify_from_Cons:
  assumes "ar_prev_hash r = p" "p \<noteq> []" "l = None \<or> l = Some (ar_sequence r - 1)"
  shows "verify_from i (Some p) l (to_dict r # ds) =
    map_option (\<lambda>bs. (if ar_record_hash r = sha256 (p @ canonical_bytes (to_dict r)) then []
                      else [\<lparr>cb_index = i, cb_sequence = Some (ar_sequence r), cb_reason = CONTENTS_REASON\<rparr>]) @ bs)
      (verify_from (i + 1) (Some (ar_record_hash r)) (Some (ar_sequence r)) ds)"
  using assms by (auto simp: Let_def)

declare verify_from.simps(2) [simp del]

lemma verify_chained:
  "chained p n rs \<Longrightarrow> p \<noteq> [] \<Longrightarrow> l = None \<or> l = Some (n - 1) \<Longrightarrow> verify_from i (Some p) l (map to_dict rs) = Some []"
  by (induction p n rs arbitrary: i l rule: chained.induct) (auto simp: verify_from_Cons)

text \<open>A row whose contents were replaced is the only one the check blames, and it blames it unless the digests agree.\<close>

lemma verify_edited:
  assumes "chained p n rs" "p \<noteq> []" "l = None \<or> l = Some (n - 1)" "j < length rs"
    and "ar_sequence r' = ar_sequence (rs ! j)" "ar_prev_hash r' = ar_prev_hash (rs ! j)" "ar_record_hash r' = ar_record_hash (rs ! j)"
  shows "verify_from i (Some p) l (map to_dict (rs[j := r'])) =
    Some (if ar_record_hash r' = sha256 (ar_prev_hash r' @ canonical_bytes (to_dict r')) then []
          else [\<lparr>cb_index = i + j, cb_sequence = Some (ar_sequence r'), cb_reason = CONTENTS_REASON\<rparr>])"
  using assms
proof (induction p n rs arbitrary: i l j rule: chained.induct)
  case (2 p n r rs)
  show ?case
  proof (cases j)
    case 0
    then show ?thesis
      using "2.prems" verify_chained [of "ar_record_hash r" "n + 1" rs "Some n" "Suc i"] by (auto simp: verify_from_Cons)
  next
    case (Suc k)
    then have "verify_from (Suc i) (Some (ar_record_hash r)) (Some n) (map to_dict (rs[k := r'])) =
      Some (if ar_record_hash r' = sha256 (ar_prev_hash r' @ canonical_bytes (to_dict r')) then []
            else [\<lparr>cb_index = Suc i + k, cb_sequence = Some (ar_sequence r'), cb_reason = CONTENTS_REASON\<rparr>])"
      using "2.prems" by (intro "2.IH") auto
    then show ?thesis using Suc "2.prems" by (simp add: verify_from_Cons)
  qed
qed simp

text \<open>The check answers for any rows, and an inner row that is missing leaves a gap in the numbers.\<close>

lemma verify_answers: "\<exists>bs. verify_from i (Some p) l (map to_dict rs) = Some bs"
proof (induction rs arbitrary: i p l)
  case (Cons r rs)
  then obtain bs where "verify_from (Suc i) (Some (ar_record_hash r)) (Some (ar_sequence r)) (map to_dict rs) = Some bs" by blast
  then show ?case by (auto simp: verify_from.simps Let_def)
qed simp

lemma verify_jump:
  assumes "ar_sequence r \<noteq> m + 1"
  shows "verify_from i (Some p) (Some m) (map to_dict (r # rs)) \<noteq> Some []"
  using assms verify_answers [of "Suc i" "ar_record_hash r" "Some (ar_sequence r)" rs]
  by (auto simp: verify_from.simps(2) Let_def sequence_breaks_def)

lemma verify_wrong_start:
  assumes "ar_prev_hash r \<noteq> p"
  shows "verify_from i (Some p) l (map to_dict (r # rs)) \<noteq> Some []"
  using assms verify_answers [of "Suc i" "ar_record_hash r" "Some (ar_sequence r)" rs]
  by (auto simp: verify_from.simps(2) Let_def)

lemma verify_removed:
  assumes "chained p n rs" "p \<noteq> []" "l = None \<or> l = Some (n - 1)" "Suc j < length rs" "l \<noteq> None \<or> 0 < j \<or> ar_record_hash (hd rs) \<noteq> p"
  shows "verify_from i (Some p) l (map to_dict (take j rs @ drop (Suc j) rs)) \<noteq> Some []"
  using assms
proof (induction p n rs arbitrary: i l j rule: chained.induct)
  case (2 p n r rs)
  show ?case
  proof (cases j)
    case 0
    with "2.prems" obtain r1 rs' where rs: "rs = r1 # rs'" by (cases rs) auto
    show ?thesis
    proof (cases l)
      case None
      then show ?thesis using verify_wrong_start [of r1 p i l rs'] 0 rs "2.prems" by simp
    next
      case (Some m)
      then show ?thesis using verify_jump [of r1 m i p rs'] 0 rs "2.prems" by simp
    qed
  next
    case (Suc k)
    then have "verify_from (Suc i) (Some (ar_record_hash r)) (Some n) (map to_dict (take k rs @ drop (Suc k) rs)) \<noteq> Some []"
      using "2.prems" by (intro "2.IH") auto
    then show ?thesis using Suc "2.prems" by (simp add: verify_from_Cons)
  qed
qed simp

section \<open>What the log keeps\<close>

text \<open>
  A request whose row is read back as it was hashed: its time is absent or in UTC, and PostgreSQL gives
  back a payload with the same canonical text.
\<close>

definition survives :: "(json \<Rightarrow> json) \<Rightarrow> AuditAppendRequest \<Rightarrow> bool" where
  "survives jsonb q \<longleftrightarrow> (\<forall>d. aq_recorded_at q = Some d \<longrightarrow> dt_offset d = 0)
     \<and> json_dumps (jsonb (aq_payload q)) = json_dumps (aq_payload q)"

inductive audit_step :: "(json \<Rightarrow> json) \<Rightarrow> audit_db \<Rightarrow> audit_db \<Rightarrow> bool" for jsonb :: "json \<Rightarrow> json" where
  append_step: "survives jsonb q \<Longrightarrow> audit_step jsonb db (snd (append_endpoint jsonb io now (take n (ab_records db)) q db))"

definition empty_log :: "audit_db \<Rightarrow> bool" where
  "empty_log db \<longleftrightarrow> ab_records db = []"

definition audit_inv :: "audit_db \<Rightarrow> bool" where
  "audit_inv db \<longleftrightarrow> chained GENESIS_HASH 1 (ab_records db)"

lemma json_dumps_obj_cong:
  "map (\<lambda>kv. (fst kv, json_dumps (snd kv))) kvs = map (\<lambda>kv. (fst kv, json_dumps (snd kv))) kvs' \<Longrightarrow>
     json_dumps (JObj kvs) = json_dumps (JObj kvs')"
  by simp

lemma survives_canonical:
  assumes "survives jsonb q"
  shows "canonical_bytes (to_dict (new_record n (recorded_time now q) q hs\<lparr>ar_payload := jsonb (aq_payload q)\<rparr>))
    = canonical_bytes (append_fields n (recorded_time now q) q)"
proof -
  have "isoformat \<lparr>dt_instant = dt_instant (recorded_time now q), dt_offset = 0\<rparr> = isoformat (recorded_time now q)"
    using assms by (cases "aq_recorded_at q") (auto simp: survives_def recorded_time_def isoformat_def)
  then show ?thesis
    using assms unfolding canonical_bytes_def
    by (intro json_dumps_obj_cong)
      (simp add: HASHED_FIELDS_def to_dict_def append_fields_def new_record_def dict_get_null_def survives_def)
qed

lemma sort_key_descending:
  fixes f :: "'a \<Rightarrow> int"
  assumes "sorted (map f xs)" "distinct (map f xs)"
  shows "sort_key (\<lambda>x. - f x) xs = rev xs"
proof -
  have "distinct (map (\<lambda>x. - f x) xs)" using assms(2) by (auto simp: distinct_map inj_on_def)
  then have "sort_key (\<lambda>x. - f x) xs = sort_key (\<lambda>x. - f x) (rev xs)" by (intro sort_key_mset_eq) simp_all
  moreover have "sorted (map (\<lambda>x. - f x) (rev xs))"
    using assms(1) by (simp add: rev_map [symmetric] sorted_wrt_rev sorted_wrt_map)
  ultimately show ?thesis by (simp add: sort_key_id_if_sorted)
qed

lemma chained_tail: "chained p n rs \<Longrightarrow> audit_tail rs = (if rs = [] then None else Some (last rs))"
  using chained_sorted [of p n rs] sort_key_descending [of ar_sequence rs]
  by (cases rs rule: rev_cases) (simp_all add: audit_tail_def)

text \<open>An append that reads an old tail meets the unique sequence number; one that reads the tail extends the chain.\<close>

lemma append_record_cases:
  assumes inv: "audit_inv db" and q: "survives jsonb q"
    and app: "append_record jsonb io now (take k (ab_records db)) q db = (x, db')"
  shows "(\<exists>e. x = Inl e) \<and> db' = db \<or>
    (\<exists>r r'. x = Inr r \<and> r' = r\<lparr>ar_payload := jsonb (aq_payload q)\<rparr> \<and> ab_records db' = ab_records db @ [r']
       \<and> ar_sequence r = int (length (ab_records db)) + 1 \<and> audit_inv db')"
proof -
  define rs where "rs = ab_records db"
  have ch: "chained GENESIS_HASH 1 rs" using inv by (simp add: audit_inv_def rs_def)
  have tail: "audit_tail (take k rs) = (if take k rs = [] then None else Some (last (take k rs)))"
    using chained_tail [OF chained_take [OF ch]] by simp
  show ?thesis
  proof (cases "k < length rs")
    case True
    have "ar_sequence (rs ! k) = 1 + int k" using chained_nth [OF ch True] by simp
    moreover have "take k rs \<noteq> [] \<Longrightarrow> ar_sequence (last (take k rs)) = int k"
      using chained_nth [OF ch, of "k - 1"] True by (cases k) (auto simp: last_conv_nth)
    ultimately have "(case audit_tail (take k rs) of None \<Rightarrow> 1 | Some t \<Rightarrow> ar_sequence t + 1) \<in> ar_sequence ` set rs"
      using True tail by (auto simp: image_iff intro!: bexI [of _ "rs ! k"])
    then show ?thesis using app by (auto simp: append_record_def Let_def rs_def split: if_splits)
  next
    case False
    define p where "p = (if rs = [] then GENESIS_HASH else ar_record_hash (last rs))"
    have p: "p \<noteq> []" using chained_hash_not_Nil [OF ch, of "last rs"] by (simp add: p_def)
    have "rs \<noteq> [] \<Longrightarrow> ar_sequence (last rs) = int (length rs)"
      using chained_nth [OF ch, of "length rs - 1"] by (cases rs rule: rev_cases) auto
    then have next_seq: "(case audit_tail (take k rs) of None \<Rightarrow> 1 | Some t \<Rightarrow> ar_sequence t + 1) = int (length rs) + 1"
      using False tail by simp
    have prev: "(case audit_tail (take k rs) of None \<Rightarrow> GENESIS_HASH | Some t \<Rightarrow> ar_record_hash t) = p"
      using False tail by (simp add: p_def)
    define n where "n = int (length rs) + 1"
    define r where "r = new_record n (recorded_time now q) q (p, sha256 (p @ canonical_bytes (append_fields n (recorded_time now q) q)))"
    have "link (Some p) (append_fields n (recorded_time now q) q) = (p, sha256 (p @ canonical_bytes (append_fields n (recorded_time now q) q)))"
      using p by (simp add: link_def)
    then consider "\<exists>e. x = Inl e" "db' = db"
      | "x = Inr r" "ab_records db' = rs @ [r\<lparr>ar_payload := jsonb (aq_payload q)\<rparr>]"
      using app next_seq prev by (auto simp: append_record_def Let_def rs_def [symmetric] n_def r_def split: if_splits)
    then show ?thesis
    proof cases
      case 2
      have "chained p n [r\<lparr>ar_payload := jsonb (aq_payload q)\<rparr>]"
        using survives_canonical [OF q, of n now "(p, sha256 (p @ canonical_bytes (append_fields n (recorded_time now q) q)))"]
        by (simp add: r_def new_record_def)
      then have "audit_inv db'" using ch by (simp add: audit_inv_def 2(2) chained_append p_def n_def add.commute)
      then show ?thesis using 2 by (auto simp: rs_def n_def r_def new_record_def)
    qed blast
  qed
qed

interpretation audit_log: inductive_invariant empty_log "audit_step jsonb" audit_inv for jsonb
proof
  fix db assume "empty_log db"
  then show "audit_inv db" by (simp add: empty_log_def audit_inv_def)
next
  fix db db' assume inv: "audit_inv db" and "audit_step jsonb db db'"
  from this(2) show "audit_inv db'"
  proof cases
    case (append_step q io now n)
    obtain x d where "append_record jsonb io now (take n (ab_records db)) q db = (x, d)" by fastforce
    with append_record_cases [OF inv append_step(2) this] inv append_step(1) show ?thesis
      by (auto simp: append_endpoint_def)
  qed
qed

lemma sorted_log: "audit_inv db \<Longrightarrow> sort_key ar_sequence (ab_records db) = ab_records db"
  using chained_sorted sort_key_id_if_sorted unfolding audit_inv_def by blast

lemma verify_log_inv: "audit_inv db \<Longrightarrow> verify_log db = Some (length (ab_records db), [])"
  using verify_chained [of GENESIS_HASH 1 "ab_records db" None 0]
  by (simp add: audit_inv_def verify_log_def verify_chain_def sorted_log)

section \<open>Properties\<close>

text \<open>
  Property C14 (the log verifies). However appends interleave, also when an append reads an old tail
  because the advisory lock is not held, the check of the log finds no break, as long as times are in
  UTC and payloads keep their canonical text in the database.
\<close>

theorem audit_log_verifies:
  assumes "reachable empty_log (audit_step jsonb) db"
  shows "verify_endpoint db = Inr \<lparr>vy_records_checked = length (ab_records db), vy_intact = True, vy_breaks = []\<rparr>"
  using verify_log_inv [OF audit_log.reachable_inv [OF assms]] by (simp add: verify_endpoint_def)

text \<open>A database that gives the keys of a document back in another order.\<close>

fun reordered :: "json \<Rightarrow> json" where
  "reordered (JObj kvs) = JObj (rev kvs)"
| "reordered x = x"

definition demo_entry :: AuditAppendRequest where
  "demo_entry = \<lparr>aq_actor = ''ops'', aq_action = ''ban'', aq_resource_type = ''Seller'', aq_resource_id = ''s1'',
     aq_payload = JObj [(''a'', JInt 1), (''b'', JStr ''x'')], aq_recorded_at = None\<rparr>"

definition demo_log :: audit_db where
  "demo_log = snd (append_endpoint reordered True 5 [] demo_entry \<lparr>ab_records = [], ab_outbox = []\<rparr>)"

lemma demo_survives: "survives reordered demo_entry"
proof -
  have "json_dumps (reordered (aq_payload demo_entry)) = json_dumps (aq_payload demo_entry)" by code_simp
  then show ?thesis by (simp add: survives_def demo_entry_def)
qed

lemma demo_log_reachable: "reachable empty_log (audit_step reordered) demo_log"
proof -
  have "reachable empty_log (audit_step reordered) \<lparr>ab_records = [], ab_outbox = []\<rparr>"
    by (rule reach_init) (simp add: empty_log_def)
  moreover have "audit_step reordered \<lparr>ab_records = [], ab_outbox = []\<rparr> demo_log"
    using append_step [OF demo_survives, of "\<lparr>ab_records = [], ab_outbox = []\<rparr>" True 5 0] by (simp add: demo_log_def)
  ultimately show ?thesis by (rule reach_step)
qed

lemma demo_log_records: "length (ab_records demo_log) = 1"
proof -
  have "AuditAppendRequest_valid demo_entry" by code_simp
  then show ?thesis by (simp add: demo_log_def append_endpoint_def append_record_def Let_def audit_tail_def)
qed

lemma audit_log_verifies_witness:
  "reachable empty_log (audit_step reordered) demo_log
   \<and> verify_endpoint demo_log = Inr \<lparr>vy_records_checked = 1, vy_intact = True, vy_breaks = []\<rparr>"
  using demo_log_reachable audit_log_verifies [OF demo_log_reachable] by (simp add: demo_log_records)

text \<open>
  Property C21 (tampering is found and blamed). Replace the contents of one row and keep its number
  and its hashes: the check reports that row and no other, unless the new contents have the digest
  of the old ones. Take out a row that is not the last one: the check reports a break, where for the
  first row this needs that its hash is not the anchor.
\<close>

theorem tampering_found:
  assumes "reachable empty_log (audit_step jsonb) db" and "j < length (ab_records db)" and "r = ab_records db ! j"
    and "ar_sequence r' = ar_sequence r" "ar_prev_hash r' = ar_prev_hash r" "ar_record_hash r' = ar_record_hash r"
  shows "verify_log (db\<lparr>ab_records := (ab_records db)[j := r']\<rparr>) = Some (length (ab_records db),
      if sha256 (ar_prev_hash r @ canonical_bytes (to_dict r')) = sha256 (ar_prev_hash r @ canonical_bytes (to_dict r)) then []
      else [\<lparr>cb_index = j, cb_sequence = Some (ar_sequence r), cb_reason = CONTENTS_REASON\<rparr>])
    \<and> (Suc j < length (ab_records db) \<and> (0 < j \<or> ar_record_hash r \<noteq> GENESIS_HASH) \<longrightarrow>
        (\<exists>n bs. verify_log (db\<lparr>ab_records := take j (ab_records db) @ drop (Suc j) (ab_records db)\<rparr>) = Some (n, bs) \<and> bs \<noteq> []))"
proof -
  define rs where "rs = ab_records db"
  from audit_log.reachable_inv [OF assms(1)] have ch: "chained GENESIS_HASH 1 rs" by (simp add: audit_inv_def rs_def)
  note sorted = chained_sorted [OF ch]
  have hash: "ar_record_hash r = sha256 (ar_prev_hash r @ canonical_bytes (to_dict r))"
    using ch assms(2,3) by (simp add: rs_def [symmetric] chained_hash)
  have "map ar_sequence (rs[j := r']) = map ar_sequence rs"
    using assms(2-4) by (simp add: map_update rs_def list_update_same_conv)
  then have "sort_key ar_sequence (rs[j := r']) = rs[j := r']" using sorted by (simp add: sort_key_id_if_sorted)
  moreover have "verify_from 0 (Some GENESIS_HASH) None (map to_dict (rs[j := r'])) =
      Some (if ar_record_hash r' = sha256 (ar_prev_hash r' @ canonical_bytes (to_dict r')) then []
            else [\<lparr>cb_index = 0 + j, cb_sequence = Some (ar_sequence r'), cb_reason = CONTENTS_REASON\<rparr>])"
    using assms(2-6) by (intro verify_edited [OF ch]) (simp_all add: rs_def)
  ultimately have 1: "verify_log (db\<lparr>ab_records := rs[j := r']\<rparr>) = Some (length rs,
      if sha256 (ar_prev_hash r @ canonical_bytes (to_dict r')) = sha256 (ar_prev_hash r @ canonical_bytes (to_dict r)) then []
      else [\<lparr>cb_index = j, cb_sequence = Some (ar_sequence r), cb_reason = CONTENTS_REASON\<rparr>])"
    using assms(4-6) hash by (auto simp: verify_log_def verify_chain_def)
  have 2: "\<exists>n bs. verify_log (db\<lparr>ab_records := take j rs @ drop (Suc j) rs\<rparr>) = Some (n, bs) \<and> bs \<noteq> []"
    if "Suc j < length rs" "0 < j \<or> ar_record_hash r \<noteq> GENESIS_HASH"
  proof -
    have "sorted (map ar_sequence (take j rs @ drop (Suc j) rs))"
      using sorted by (intro sorted_without_nth) simp
    then have "sort_key ar_sequence (take j rs @ drop (Suc j) rs) = take j rs @ drop (Suc j) rs" by (rule sort_key_id_if_sorted)
    moreover have "verify_from 0 (Some GENESIS_HASH) None (map to_dict (take j rs @ drop (Suc j) rs)) \<noteq> Some []"
      using that assms(3) by (intro verify_removed [OF ch]) (cases rs; auto simp: rs_def)+
    ultimately show ?thesis
      using verify_answers [of 0 GENESIS_HASH None "take j rs @ drop (Suc j) rs"] by (auto simp: verify_log_def verify_chain_def)
  qed
  from 1 2 show ?thesis by (simp add: rs_def)
qed

lemma tampering_found_witness:
  "verify_log (demo_log\<lparr>ab_records := (ab_records demo_log)[0 := (ab_records demo_log ! 0)\<lparr>ar_actor := ''eve''\<rparr>]\<rparr>) = Some (1,
     if sha256 (ar_prev_hash (ab_records demo_log ! 0) @ canonical_bytes (to_dict ((ab_records demo_log ! 0)\<lparr>ar_actor := ''eve''\<rparr>)))
        = sha256 (ar_prev_hash (ab_records demo_log ! 0) @ canonical_bytes (to_dict (ab_records demo_log ! 0))) then []
     else [\<lparr>cb_index = 0, cb_sequence = Some (ar_sequence (ab_records demo_log ! 0)), cb_reason = CONTENTS_REASON\<rparr>])"
  using tampering_found [OF demo_log_reachable, of 0 "ab_records demo_log ! 0" "(ab_records demo_log ! 0)\<lparr>ar_actor := ''eve''\<rparr>"]
  by (simp add: demo_log_records)

text \<open>The canonical text of a record, field by field.\<close>

lemma hashed_fields_sorted:
  "sort_key fst [(''sequence'', a), (''actor'', b), (''action'', c), (''resource_type'', d), (''resource_id'', e),
     (''recorded_at'', f), (''payload'', g :: string)]
   = [(''action'', c), (''actor'', b), (''payload'', g), (''recorded_at'', f), (''resource_id'', e), (''resource_type'', d),
      (''sequence'', a)]"
  by code_simp

lemma epoch_civil: "civil 0 = (1970, 1, 1)"
  by code_simp

lemma epoch_numbers: "show_int 1970 = ''1970''" "show_int 0 = ''0''" "show_int 1 = ''1''" "show_int 6 = ''6''"
  by ((simp add: show_int_def show_nat.simps digit_char_def), code_simp)+

lemma epoch_texts:
  "isoformat \<lparr>dt_instant = 0, dt_offset = 0\<rparr> = ''1970-01-01T00:00:00+00:00''"
  "isoformat \<lparr>dt_instant = 0, dt_offset = 21600\<rparr> = ''1970-01-01T06:00:00+06:00''"
  by (simp_all add: isoformat_def epoch_civil zero_padded_def offset_text_def epoch_numbers)

lemma epoch_texts_differ: "dumps_string ''1970-01-01T06:00:00+06:00'' \<noteq> dumps_string ''1970-01-01T00:00:00+00:00''"
  by code_simp

text \<open>
  A request with the original time in another zone: the hash covers the time as it was sent, the
  check hashes the same instant in UTC. The two texts differ, so an untouched log is reported as
  tampered unless their digests agree.
\<close>

definition demo_local :: AuditAppendRequest where
  "demo_local = demo_entry\<lparr>aq_recorded_at := Some \<lparr>dt_instant = 0, dt_offset = 21600\<rparr>\<rparr>"

definition demo_local_row :: AuditRecord where
  "demo_local_row = new_record 1 (recorded_time 5 demo_local) demo_local
     (GENESIS_HASH, sha256 (GENESIS_HASH @ canonical_bytes (append_fields 1 (recorded_time 5 demo_local) demo_local)))"

lemma local_time_reported_as_tampering:
  assumes "db = snd (append_endpoint id True 5 [] demo_local \<lparr>ab_records = [], ab_outbox = []\<rparr>)"
  shows "ab_records db = [demo_local_row]"
    and "canonical_bytes (append_fields 1 (recorded_time 5 demo_local) demo_local) \<noteq> canonical_bytes (to_dict demo_local_row)"
    and "verify_log db = Some (1,
      if sha256 (GENESIS_HASH @ canonical_bytes (append_fields 1 (recorded_time 5 demo_local) demo_local))
         = sha256 (GENESIS_HASH @ canonical_bytes (to_dict demo_local_row)) then []
      else [\<lparr>cb_index = 0, cb_sequence = Some 1, cb_reason = CONTENTS_REASON\<rparr>])"
proof -
  have "AuditAppendRequest_valid demo_local" by code_simp
  then show rows: "ab_records db = [demo_local_row]"
    by (simp add: assms append_endpoint_def append_record_def Let_def audit_tail_def link_def demo_local_row_def new_record_def)
  show "canonical_bytes (append_fields 1 (recorded_time 5 demo_local) demo_local) \<noteq> canonical_bytes (to_dict demo_local_row)"
    using epoch_texts_differ
    by (simp add: canonical_bytes_def HASHED_FIELDS_def append_fields_def to_dict_def demo_local_row_def new_record_def
        recorded_time_def demo_local_def demo_entry_def dict_get_null_def hashed_fields_sorted epoch_texts)
  show "verify_log db = Some (1,
      if sha256 (GENESIS_HASH @ canonical_bytes (append_fields 1 (recorded_time 5 demo_local) demo_local))
         = sha256 (GENESIS_HASH @ canonical_bytes (to_dict demo_local_row)) then []
      else [\<lparr>cb_index = 0, cb_sequence = Some 1, cb_reason = CONTENTS_REASON\<rparr>])"
    using rows verify_from_Cons [of demo_local_row GENESIS_HASH None 0 "[]"]
    by (auto simp: verify_log_def verify_chain_def demo_local_row_def new_record_def)
qed

end
