(* ===== verification/Dead_Letters.thy ===== *)
theory Dead_Letters
  imports Digest
begin

text \<open>
  The dead-letter worker (\<open>src/workers/dlq-reprocessor\<close>): the policy of \<open>dlq_rules.py\<close>, and
  \<open>error_header\<close>, \<open>escalate\<close>, \<open>handle\<close> and one turn of the loop of \<open>consume_forever\<close> from \<open>main.py\<close>.

  Redis is a list of keys with a number and the time it expires. The audit service is the argument
  \<open>post\<close>, which takes a request body and the service's state; the clock counts whole seconds. What the
  broker and Redis do in one turn is the environment of the turn.
\<close>

section \<open>The policy\<close>

definition MAX_RETRIES :: int where "MAX_RETRIES = 3"

definition DEFAULT_BACKOFF_SECONDS :: int where "DEFAULT_BACKOFF_SECONDS = 3600"

definition ATTEMPT_TTL_SECONDS :: int where "ATTEMPT_TTL_SECONDS = 7 * 24 * 60 * 60"

definition SCHEMA_ERROR_PATTERNS :: "string list" where
  "SCHEMA_ERROR_PATTERNS =
     [''schema'', ''avro'', ''deserial'', ''incompatible'', ''magic byte'', ''unknown magic'', ''serializationerror'', ''registry'']"

datatype RecoveryAction = REPUBLISH | ESCALATE | WAIT

record Recovery =
  rc_action :: RecoveryAction
  rc_reason :: string
  rc_schema_incompatible :: bool

definition message_fingerprint :: "string option \<Rightarrow> string" where
  "message_fingerprint payload = sha256 (case payload of None \<Rightarrow> [] | Some p \<Rightarrow> p)"

definition attempts_key :: "string \<Rightarrow> string" where
  "attempts_key fingerprint = ''dlq:attempts:'' @ fingerprint"

text \<open>\<open>pattern in text\<close>.\<close>

definition occurs_in :: "string \<Rightarrow> string \<Rightarrow> bool" where
  "occurs_in p s \<longleftrightarrow> (\<exists>i \<in> set [0..<Suc (length s)]. take (length p) (drop i s) = p)"

definition is_schema_incompatible :: "string option \<Rightarrow> bool" where
  "is_schema_incompatible error_text =
     (case error_text of
        None \<Rightarrow> False
      | Some t \<Rightarrow> if t = [] then False else \<exists>p \<in> set SCHEMA_ERROR_PATTERNS. occurs_in p (py_lower t))"

definition plan_recovery :: "int \<Rightarrow> string option \<Rightarrow> int option \<Rightarrow> int \<Rightarrow> int \<Rightarrow> Recovery" where
  "plan_recovery attempts error_text seconds_since_last_attempt max_retries backoff_seconds =
     (if is_schema_incompatible error_text then
        \<lparr>rc_action = ESCALATE, rc_reason = ''schema-incompatible; requires manual schema resolution'', rc_schema_incompatible = True\<rparr>
      else if max_retries \<le> attempts then
        \<lparr>rc_action = ESCALATE,
         rc_reason = ''exhausted '' @ show_int attempts @ '' of '' @ show_int max_retries @ '' automatic retries'',
         rc_schema_incompatible = False\<rparr>
      else case seconds_since_last_attempt of
        Some s \<Rightarrow>
          if s < backoff_seconds then
            \<lparr>rc_action = WAIT, rc_reason = ''backoff has '' @ show_int (backoff_seconds - s) @ ''s remaining'', rc_schema_incompatible = False\<rparr>
          else
            \<lparr>rc_action = REPUBLISH, rc_reason = ''retry '' @ show_int (attempts + 1) @ '' of '' @ show_int max_retries,
             rc_schema_incompatible = False\<rparr>
      | None \<Rightarrow>
          \<lparr>rc_action = REPUBLISH, rc_reason = ''retry '' @ show_int (attempts + 1) @ '' of '' @ show_int max_retries,
           rc_schema_incompatible = False\<rparr>)"

definition original_topic :: "string \<Rightarrow> string option" where
  "original_topic dlq_topic =
     (if \<not> starts_with dlq_topic ''dlq.'' then None
      else let remainder = drop 4 dlq_topic in if remainder = [] then None else Some remainder)"

definition topic_char :: "char \<Rightarrow> bool" where
  "topic_char c \<longleftrightarrow> (let n = (of_char c :: nat) in
     65 \<le> n \<and> n \<le> 90 \<or> 97 \<le> n \<and> n \<le> 122 \<or> 48 \<le> n \<and> n \<le> 57 \<or> c = CHR ''.'' \<or> c = CHR ''_'' \<or> c = CHR ''-'')"

text \<open>The pattern's \<open>$\<close> also matches before a line feed at the end.\<close>

definition is_valid_topic :: "string option \<Rightarrow> bool" where
  "is_valid_topic topic =
     (case topic of
        None \<Rightarrow> False
      | Some t \<Rightarrow>
          t \<noteq> [] \<and> list_all topic_char t
          \<or> (let b = butlast t in b \<noteq> [] \<and> list_all topic_char b \<and> last t = char_of (10::nat)))"

section \<open>The worker\<close>

record dlq_message =
  dm_topic :: string
  dm_partition :: int
  dm_offset :: int
  dm_value :: "string option"
  dm_headers :: "(string \<times> string) list"

record dlq_stats =
  ds_seen :: int
  ds_republished :: int
  ds_escalated :: int
  ds_waiting :: int
  ds_errors :: int

record dlq_world =
  dw_redis :: "(string \<times> int \<times> int) list"
  dw_topics :: "(string \<times> string) list"
  dw_committed :: "((string \<times> int) \<times> int) list"
  dw_stats :: dlq_stats

text \<open>
  \<open>produce\<close> only queues a record and \<open>flush(10)\<close> returns after ten seconds whether or not it was
  acknowledged, so a call that does not raise may still have delivered nothing.
\<close>

datatype produced = ProduceRaised | Delivered | Undelivered

record dlq_env =
  de_now :: int
  de_backoff :: int
  de_redis_reads :: bool
  de_redis_sets_count :: bool
  de_redis_sets_time :: bool
  de_produced :: produced

datatype audit_reply = AuditUnreachable | AuditStatus int

definition bump :: "(dlq_stats \<Rightarrow> dlq_stats) \<Rightarrow> dlq_world \<Rightarrow> dlq_world" where
  "bump f w = w\<lparr>dw_stats := f (dw_stats w)\<rparr>"

definition count_seen :: "dlq_stats \<Rightarrow> dlq_stats" where "count_seen s = s\<lparr>ds_seen := ds_seen s + 1\<rparr>"

definition count_republished :: "dlq_stats \<Rightarrow> dlq_stats" where "count_republished s = s\<lparr>ds_republished := ds_republished s + 1\<rparr>"

definition count_escalated :: "dlq_stats \<Rightarrow> dlq_stats" where "count_escalated s = s\<lparr>ds_escalated := ds_escalated s + 1\<rparr>"

definition count_waiting :: "dlq_stats \<Rightarrow> dlq_stats" where "count_waiting s = s\<lparr>ds_waiting := ds_waiting s + 1\<rparr>"

definition count_error :: "dlq_stats \<Rightarrow> dlq_stats" where "count_error s = s\<lparr>ds_errors := ds_errors s + 1\<rparr>"

definition counter_get :: "int \<Rightarrow> dlq_world \<Rightarrow> string \<Rightarrow> int option" where
  "counter_get now w k =
     (case map_of (dw_redis w) k of None \<Rightarrow> None | Some (v, expires) \<Rightarrow> if now < expires then Some v else None)"

definition counter_set :: "int \<Rightarrow> string \<Rightarrow> int \<Rightarrow> dlq_world \<Rightarrow> dlq_world" where
  "counter_set now k v w = w\<lparr>dw_redis := (k, v, now + ATTEMPT_TTL_SECONDS) # dw_redis w\<rparr>"

definition error_header :: "dlq_message \<Rightarrow> string" where
  "error_header msg = (case map_of (dm_headers msg) ''error'' of None \<Rightarrow> [] | Some v \<Rightarrow> v)"

definition message_payload :: "dlq_message \<Rightarrow> string" where
  "message_payload msg = (case dm_value msg of None \<Rightarrow> [] | Some p \<Rightarrow> p)"

definition escalation_body :: "dlq_message \<Rightarrow> string \<Rightarrow> string \<Rightarrow> bool \<Rightarrow> json" where
  "escalation_body msg payload reason schema_incompatible =
     JObj
       [(''actor'', JStr ''dlq-reprocessor''),
        (''action'', JStr ''dlq.escalated''),
        (''resource_type'', JStr ''KafkaMessage''),
        (''resource_id'', JStr (dm_topic msg @ '':'' @ show_int (dm_partition msg) @ '':'' @ show_int (dm_offset msg))),
        (''payload'', JObj
          [(''topic'', JStr (dm_topic msg)),
           (''partition'', JInt (dm_partition msg)),
           (''offset'', JInt (dm_offset msg)),
           (''reason'', JStr reason),
           (''schema_incompatible'', JBool schema_incompatible),
           (''error'', JStr (take 2000 (error_header msg))),
           (''payload_preview'', JStr (take 512 payload)),
           (''payload_sha256'', JStr (message_fingerprint (Some payload)))])]"

definition escalate ::
  "(json \<Rightarrow> 'a \<Rightarrow> audit_reply \<times> 'a) \<Rightarrow> dlq_message \<Rightarrow> string \<Rightarrow> string \<Rightarrow> bool \<Rightarrow> 'a \<Rightarrow> bool \<times> 'a" where
  "escalate post msg payload reason schema_incompatible a =
     (case post (escalation_body msg payload reason schema_incompatible) a of
        (AuditStatus code, a') \<Rightarrow> (code < 300, a')
      | (AuditUnreachable, a') \<Rightarrow> (False, a'))"

text \<open>The counter and the seconds since the last attempt; without Redis the message counts as new.\<close>

definition history :: "dlq_env \<Rightarrow> string \<Rightarrow> dlq_world \<Rightarrow> int \<times> int option" where
  "history env key w =
     (if \<not> de_redis_reads env then (0, None)
      else (case counter_get (de_now env) w key of None \<Rightarrow> 0 | Some n \<Rightarrow> n,
            map_option (\<lambda>t. de_now env - t) (counter_get (de_now env) w (key @ '':at''))))"

definition record_attempt :: "dlq_env \<Rightarrow> string \<Rightarrow> int \<Rightarrow> dlq_world \<Rightarrow> dlq_world" where
  "record_attempt env key attempts w =
     (if \<not> de_redis_sets_count env then w
      else let w1 = counter_set (de_now env) key (attempts + 1) w in
           if \<not> de_redis_sets_time env then w1 else counter_set (de_now env) (key @ '':at'') (de_now env) w1)"

definition republish :: "dlq_env \<Rightarrow> string \<Rightarrow> string \<Rightarrow> string \<Rightarrow> int \<Rightarrow> dlq_world \<Rightarrow> bool \<times> dlq_world" where
  "republish env target payload key attempts w =
     (case de_produced env of
        ProduceRaised \<Rightarrow> (False, bump count_error w)
      | Delivered \<Rightarrow>
          (True, bump count_republished (record_attempt env key attempts (w\<lparr>dw_topics := dw_topics w @ [(target, payload)]\<rparr>)))
      | Undelivered \<Rightarrow> (True, bump count_republished (record_attempt env key attempts w)))"

text \<open>\<open>True\<close> says that the offset may be committed.\<close>

definition handle_message ::
  "dlq_env \<Rightarrow> (json \<Rightarrow> 'a \<Rightarrow> audit_reply \<times> 'a) \<Rightarrow> dlq_message \<Rightarrow> dlq_world \<times> 'a \<Rightarrow> bool \<times> dlq_world \<times> 'a" where
  "handle_message env post msg wa =
     (case wa of (w, a) \<Rightarrow>
       (let payload = message_payload msg; target = original_topic (dm_topic msg) in
        if \<not> is_valid_topic target then
          (case escalate post msg payload (''no valid original topic for '' @ dm_topic msg) False a of
             (ok, a') \<Rightarrow> (ok, bump count_escalated w, a'))
        else
          (let key = attempts_key (message_fingerprint (Some payload)) in
           case history env key w of
             (attempts, since) \<Rightarrow>
               (let d = plan_recovery attempts (Some (error_header msg)) since MAX_RETRIES (de_backoff env) in
                case rc_action d of
                  WAIT \<Rightarrow> (False, bump count_waiting w, a)
                | ESCALATE \<Rightarrow>
                    (case escalate post msg payload (rc_reason d) (rc_schema_incompatible d) a of
                       (ok, a') \<Rightarrow> (ok, bump (if ok then count_escalated else count_error) w, a'))
                | REPUBLISH \<Rightarrow>
                    (case republish env (the target) payload key attempts w of (ok, w') \<Rightarrow> (ok, w', a))))))"

text \<open>
  One turn of the loop for what \<open>poll\<close> returned. \<open>commits\<close> says whether the commit of the offset goes
  through; if it raises, the loop counts an error and goes on.
\<close>

datatype polled = NothingPolled | PolledError bool | Polled dlq_message

definition consume_one ::
  "dlq_env \<Rightarrow> bool \<Rightarrow> (json \<Rightarrow> 'a \<Rightarrow> audit_reply \<times> 'a) \<Rightarrow> polled \<Rightarrow> dlq_world \<times> 'a \<Rightarrow> dlq_world \<times> 'a" where
  "consume_one env commits post p wa =
     (case p of
        NothingPolled \<Rightarrow> wa
      | PolledError _ \<Rightarrow> wa
      | Polled msg \<Rightarrow>
          (case handle_message env post msg (bump count_seen (fst wa), snd wa) of
             (False, wa') \<Rightarrow> wa'
           | (True, w', a') \<Rightarrow>
               if commits then
                 (w'\<lparr>dw_committed := ((dm_topic msg, dm_partition msg), dm_offset msg + 1) # dw_committed w'\<rparr>, a')
               else (bump count_error w', a')))"

section \<open>What a turn does\<close>

lemma bump_sel [simp]:
  "dw_redis (bump f w) = dw_redis w" "dw_topics (bump f w) = dw_topics w" "dw_committed (bump f w) = dw_committed w"
  by (simp_all add: bump_def)

lemma counter_set_sel [simp]:
  "dw_topics (counter_set now k v w) = dw_topics w" "dw_committed (counter_set now k v w) = dw_committed w"
  "dw_redis (counter_set now k v w) = (k, v, now + ATTEMPT_TTL_SECONDS) # dw_redis w"
  by (simp_all add: counter_set_def)

lemma record_attempt_topics [simp]: "dw_topics (record_attempt env key n w) = dw_topics w"
  by (simp add: record_attempt_def Let_def)

lemma record_attempt_committed [simp]: "dw_committed (record_attempt env key n w) = dw_committed w"
  by (simp add: record_attempt_def Let_def)

text \<open>The decision to republish is taken with attempts left, the backoff over and no decoding error.\<close>

lemma plan_republish:
  "rc_action (plan_recovery n e since m b) = REPUBLISH \<longleftrightarrow>
     \<not> is_schema_incompatible e \<and> n < m \<and> (\<forall>s. since = Some s \<longrightarrow> b \<le> s)"
  by (auto simp: plan_recovery_def split: option.split)

lemma plan_escalate:
  "rc_action (plan_recovery n e since m b) = ESCALATE \<longleftrightarrow> is_schema_incompatible e \<or> m \<le> n"
  by (auto simp: plan_recovery_def split: option.split)

definition fingerprint_key :: "dlq_message \<Rightarrow> string" where
  "fingerprint_key msg = attempts_key (message_fingerprint (Some (message_payload msg)))"

lemma handle_cases:
  assumes "handle_message env post msg (w, a) = (ok, w', a')"
  obtains (kept) "dw_redis w' = dw_redis w" "dw_topics w' = dw_topics w" "dw_committed w' = dw_committed w"
      "ok \<Longrightarrow> \<exists>reason schema. escalate post msg (message_payload msg) reason schema a = (True, a')"
  | (sent) target attempts since where "original_topic (dm_topic msg) = Some target" "history env (fingerprint_key msg) w = (attempts, since)"
      "rc_action (plan_recovery attempts (Some (error_header msg)) since MAX_RETRIES (de_backoff env)) = REPUBLISH"
      "de_produced env \<noteq> ProduceRaised" "ok" "a' = a" "dw_committed w' = dw_committed w"
      "dw_redis w' = dw_redis (record_attempt env (fingerprint_key msg) attempts w)"
      "dw_topics w' = dw_topics w @ (if de_produced env = Delivered then [(target, message_payload msg)] else [])"
      "is_valid_topic (original_topic (dm_topic msg))"
proof (cases "is_valid_topic (original_topic (dm_topic msg))")
  case False
  then obtain reason where "escalate post msg (message_payload msg) reason False a = (ok, a')" "w' = bump count_escalated w"
    using assms by (auto simp: handle_message_def Let_def split: prod.splits)
  then show thesis by (intro that(1)) auto
next
  case True
  then obtain target where target: "original_topic (dm_topic msg) = Some target" by (auto simp: is_valid_topic_def split: option.splits)
  obtain attempts since where hist: "history env (fingerprint_key msg) w = (attempts, since)" by fastforce
  define d where "d = plan_recovery attempts (Some (error_header msg)) since MAX_RETRIES (de_backoff env)"
  note unfold = assms [unfolded handle_message_def] True target hist [unfolded fingerprint_key_def]
  show thesis
  proof (cases "rc_action d")
    case REPUBLISH
    have red: "dw_redis (record_attempt env k n (w\<lparr>dw_topics := t\<rparr>)) = dw_redis (record_attempt env k n w)" for k n t
      by (simp add: record_attempt_def Let_def)
    from unfold REPUBLISH have "republish env target (message_payload msg) (fingerprint_key msg) attempts w = (ok, w')" "a' = a"
      by (auto simp: Let_def d_def fingerprint_key_def split: prod.splits)
    then show thesis using that target hist REPUBLISH True
      by (cases "de_produced env") (auto simp: republish_def d_def red)
  next
    case ESCALATE
    with unfold obtain ok' where "escalate post msg (message_payload msg) (rc_reason d) (rc_schema_incompatible d) a = (ok, a')"
        "w' = bump ok' w"
      by (auto simp: Let_def d_def split: prod.splits)
    then show thesis by (intro that(1)) auto
  next
    case WAIT
    with unfold have "w' = bump count_waiting w" "\<not> ok" by (auto simp: Let_def d_def split: prod.splits)
    then show thesis by (intro that(1)) auto
  qed
qed

text \<open>
  When a message is to be put back: its topic has a valid original, its error is not one of decoding,
  attempts are left and the backoff is over.
\<close>

definition republish_due :: "dlq_env \<Rightarrow> dlq_message \<Rightarrow> dlq_world \<Rightarrow> bool" where
  "republish_due env msg w \<longleftrightarrow> is_valid_topic (original_topic (dm_topic msg))
     \<and> \<not> is_schema_incompatible (Some (error_header msg))
     \<and> fst (history env (fingerprint_key msg) w) < MAX_RETRIES
     \<and> (\<forall>s. snd (history env (fingerprint_key msg) w) = Some s \<longrightarrow> de_backoff env \<le> s)"

lemma handle_due:
  assumes "republish_due env msg w"
  shows "handle_message env post msg (w, a) =
    (case republish env (the (original_topic (dm_topic msg))) (message_payload msg) (fingerprint_key msg)
            (fst (history env (fingerprint_key msg) w)) w of (ok, w') \<Rightarrow> (ok, w', a))"
proof -
  obtain attempts since where hist: "history env (fingerprint_key msg) w = (attempts, since)" by fastforce
  have "rc_action (plan_recovery attempts (Some (error_header msg)) since MAX_RETRIES (de_backoff env)) = REPUBLISH"
    using assms hist by (simp add: plan_republish republish_due_def)
  then show ?thesis
    using assms hist by (simp add: handle_message_def Let_def republish_due_def fingerprint_key_def)
qed

lemma handle_not_due:
  assumes "\<not> republish_due env msg w" and "handle_message env post msg (w, a) = (ok, w', a')"
  shows "dw_topics w' = dw_topics w \<and> (ok \<longrightarrow> (\<exists>reason schema. escalate post msg (message_payload msg) reason schema a = (True, a')))"
  using assms(2)
proof (cases rule: handle_cases)
  case (sent target attempts since)
  then have "republish_due env msg w" by (simp add: republish_due_def plan_republish)
  with assms(1) show ?thesis ..
qed auto

section \<open>The retry budget\<close>

definition counter :: "dlq_world \<Rightarrow> string \<Rightarrow> int" where
  "counter w k = (case map_of (dw_redis w) k of None \<Rightarrow> 0 | Some (v, _) \<Rightarrow> v)"

definition copies :: "string \<Rightarrow> dlq_world \<Rightarrow> nat" where
  "copies payload w = length (filter (\<lambda>tv. snd tv = payload) (dw_topics w))"

definition budget_inv :: "int \<Rightarrow> dlq_world \<Rightarrow> bool" where
  "budget_inv T0 w \<longleftrightarrow> (\<forall>(k, v, expires) \<in> set (dw_redis w). T0 + ATTEMPT_TTL_SECONDS \<le> expires)
     \<and> (\<forall>p. int (copies p w) \<le> counter w (attempts_key (sha256 p)) \<and> counter w (attempts_key (sha256 p)) \<le> MAX_RETRIES)"

text \<open>A turn within the lifetime of a counter, with Redis answering and storing the count.\<close>

definition counted :: "int \<Rightarrow> dlq_env \<Rightarrow> bool" where
  "counted T0 env \<longleftrightarrow> T0 \<le> de_now env \<and> de_now env < T0 + ATTEMPT_TTL_SECONDS \<and> de_redis_reads env \<and> de_redis_sets_count env"

lemma key_not_time: "attempts_key (sha256 p) \<noteq> attempts_key (sha256 q) @ '':at''"
proof
  assume "attempts_key (sha256 p) = attempts_key (sha256 q) @ '':at''"
  then have "length (attempts_key (sha256 p)) = length (attempts_key (sha256 q) @ '':at'')" by simp
  then show False by (simp add: attempts_key_def)
qed

lemma history_counter:
  assumes "budget_inv T0 w" "counted T0 env"
  shows "fst (history env k w) = counter w k"
proof (cases "map_of (dw_redis w) k")
  case (Some ve)
  then obtain v e where ve: "map_of (dw_redis w) k = Some (v, e)" by (cases ve) auto
  then have "(k, v, e) \<in> set (dw_redis w)" by (rule map_of_SomeD)
  then have "T0 + ATTEMPT_TTL_SECONDS \<le> e" using assms(1) by (auto simp: budget_inv_def)
  then show ?thesis using assms(2) ve by (simp add: history_def counter_get_def counter_def counted_def)
qed (use assms(2) in \<open>simp add: history_def counter_get_def counter_def counted_def\<close>)

lemma counter_recorded:
  assumes "counted T0 env" "dw_redis w' = dw_redis (record_attempt env (attempts_key (sha256 q)) n w)"
  shows "counter w' (attempts_key (sha256 p)) =
    (if sha256 p = sha256 q then n + 1 else counter w (attempts_key (sha256 p)))"
  using assms key_not_time [of p q]
  by (auto simp: counter_def record_attempt_def Let_def counted_def attempts_key_def)

lemma handle_keeps_budget:
  assumes "budget_inv T0 w" "counted T0 env" "handle_message env post msg (w, a) = (ok, w', a')"
  shows "budget_inv T0 w'"
  using assms(3)
proof (cases rule: handle_cases)
  case kept
  then show ?thesis using assms(1) by (simp add: budget_inv_def counter_def copies_def)
next
  case (sent target attempts since)
  define q where "q = message_payload msg"
  have key: "fingerprint_key msg = attempts_key (sha256 q)" by (simp add: fingerprint_key_def message_fingerprint_def q_def)
  have n: "attempts = counter w (attempts_key (sha256 q))"
    using history_counter [OF assms(1,2), of "attempts_key (sha256 q)"] sent(2) key by simp
  have less: "attempts < MAX_RETRIES" using sent(3) by (simp add: plan_republish)
  have redis: "dw_redis w' = dw_redis (record_attempt env (attempts_key (sha256 q)) attempts w)" using sent(8) key by simp
  note counter' = counter_recorded [OF assms(2) redis]
  have "int (copies p w') \<le> counter w' (attempts_key (sha256 p)) \<and> counter w' (attempts_key (sha256 p)) \<le> MAX_RETRIES" for p
  proof -
    have "copies p w' \<le> copies p w + (if p = q then 1 else 0)" by (simp add: copies_def sent(9) q_def)
    moreover have "int (copies p w) \<le> counter w (attempts_key (sha256 p))" "counter w (attempts_key (sha256 p)) \<le> MAX_RETRIES"
      using assms(1) by (simp_all add: budget_inv_def)
    ultimately show ?thesis using counter' [of p] n less by (auto split: if_splits)
  qed
  moreover have "\<forall>(k, v, expires) \<in> set (dw_redis w'). T0 + ATTEMPT_TTL_SECONDS \<le> expires"
    using assms(1,2) unfolding redis by (auto simp: budget_inv_def record_attempt_def Let_def counted_def)
  ultimately show ?thesis by (simp add: budget_inv_def)
qed

lemma consume_keeps_budget:
  assumes "budget_inv T0 (fst wa)" "counted T0 env"
  shows "budget_inv T0 (fst (consume_one env commits post p wa))"
proof (cases p)
  case (Polled msg)
  obtain ok w' a' where h: "handle_message env post msg (bump count_seen (fst wa), snd wa) = (ok, w', a')" by (metis prod_cases3)
  have "budget_inv T0 (bump count_seen (fst wa))" using assms(1) by (simp add: budget_inv_def counter_def copies_def)
  from handle_keeps_budget [OF this assms(2) h] have "budget_inv T0 w'" .
  then show ?thesis using Polled h
    by (cases ok) (auto simp: consume_one_def budget_inv_def counter_def copies_def)
qed (use assms(1) in \<open>simp_all add: consume_one_def\<close>)

section \<open>Properties\<close>

text \<open>
  Property C19 (the retry budget holds). In any run of the loop that starts without counters and lasts no
  longer than a counter lives, with Redis available, the worker puts the same bytes back on their
  topics at most three times, whatever the messages, their order, the audit service and the broker
  do.
\<close>

theorem retry_budget:
  assumes "dw_redis w0 = []" and "dw_topics w0 = []" and "\<forall>(env, commits, p) \<in> set turns. counted T0 env"
  shows "int (copies payload (fst (foldl (\<lambda>wa (env, commits, p). consume_one env commits post p wa) (w0, a0) turns))) \<le> MAX_RETRIES"
proof -
  have "budget_inv T0 w0" using assms(1,2) by (simp add: budget_inv_def counter_def copies_def MAX_RETRIES_def)
  then have "budget_inv T0 (fst (foldl (\<lambda>wa (env, commits, p). consume_one env commits post p wa) (w0, a0) turns))"
    using assms(3)
  proof (induction turns arbitrary: w0 a0)
    case (Cons t turns)
    obtain env commits p where t: "t = (env, commits, p)" by (cases t) auto
    have "budget_inv T0 (fst (consume_one env commits post p (w0, a0)))"
      using Cons.prems t by (intro consume_keeps_budget) auto
    then show ?case using Cons.IH [of "fst (consume_one env commits post p (w0, a0))" "snd (consume_one env commits post p (w0, a0))"]
        Cons.prems t by simp
  qed simp
  then show ?thesis by (meson budget_inv_def order_trans)
qed

definition demo_dlq :: dlq_world where
  "demo_dlq = \<lparr>dw_redis = [], dw_topics = [], dw_committed = [], dw_stats = \<lparr>ds_seen = 0, ds_republished = 0, ds_escalated = 0, ds_waiting = 0, ds_errors = 0\<rparr>\<rparr>"

definition demo_turn :: "int \<Rightarrow> dlq_env" where
  "demo_turn now = \<lparr>de_now = now, de_backoff = 3600, de_redis_reads = True, de_redis_sets_count = True, de_redis_sets_time = True,
     de_produced = Delivered\<rparr>"

definition demo_poison :: "int \<Rightarrow> string \<Rightarrow> dlq_message" where
  "demo_poison i err = \<lparr>dm_topic = ''dlq.Order.events'', dm_partition = 0, dm_offset = i, dm_value = Some ''x'', dm_headers = [(''error'', err)]\<rparr>"

definition demo_turns :: "(dlq_env \<times> bool \<times> polled) list" where
  "demo_turns = map (\<lambda>i. (demo_turn (4000 * i), True, Polled (demo_poison i ''timeout''))) [0, 1, 2, 3, 4]"

lemma retry_budget_witness:
  "list_all (\<lambda>(env, commits, p). counted 0 env) demo_turns
   \<and> int (copies ''x'' (fst (foldl (\<lambda>wa (env, commits, p). consume_one env commits (\<lambda>body n. (AuditStatus 201, n + 1)) p wa) (demo_dlq, 0 :: int) demo_turns))) \<le> MAX_RETRIES"
proof -
  have ok: "\<forall>(env, commits, p) \<in> set demo_turns. counted 0 env"
    by (simp add: demo_turns_def counted_def demo_turn_def ATTEMPT_TTL_SECONDS_def)
  then have "list_all (\<lambda>(env, commits, p). counted 0 env) demo_turns" by (simp add: list_all_iff)
  with ok show ?thesis
    using retry_budget [of demo_dlq demo_turns 0 "''x''" "\<lambda>body n. (AuditStatus 201, n + 1)" 0] by (simp add: demo_dlq_def)
qed

text \<open>
  A republish that the broker never acknowledged is committed all the same: the message is then neither
  on its topic nor in the audit log.
\<close>

lemma unacknowledged_republish_lost:
  assumes "original_topic (dm_topic msg) = Some target" "is_valid_topic (Some target)"
    and "rc_action (plan_recovery (fst (history env (fingerprint_key msg) w)) (Some (error_header msg))
           (snd (history env (fingerprint_key msg) w)) MAX_RETRIES (de_backoff env)) = REPUBLISH"
    and "de_produced env = Undelivered"
  shows "\<exists>w'. handle_message env post msg (w, a) = (True, w', a) \<and> dw_topics w' = dw_topics w"
  using assms
  by (cases "history env (fingerprint_key msg) w") (auto simp: handle_message_def Let_def republish_def fingerprint_key_def)

text \<open>
  A message in its backoff is left uncommitted, and the next message of the partition that is settled
  commits the offset after itself. The group then resumes behind the waiting message, which is
  neither on its topic nor in the audit log.
\<close>

lemma waiting_message_skipped:
  assumes "original_topic (dm_topic m1) = Some target" "is_valid_topic (Some target)"
    and "rc_action (plan_recovery (fst (history env1 (fingerprint_key m1) w)) (Some (error_header m1))
           (snd (history env1 (fingerprint_key m1) w)) MAX_RETRIES (de_backoff env1)) = WAIT"
    and "dm_topic m2 = dm_topic m1" "dm_partition m2 = dm_partition m1" "dm_offset m2 = dm_offset m1 + 1"
    and "is_schema_incompatible (Some (error_header m2))" "\<And>body a. fst (post body a) = AuditStatus 201"
    and "wa1 = consume_one env1 True post (Polled m1) (w, a)" "wa2 = consume_one env2 True post (Polled m2) wa1"
  shows "snd wa1 = a \<and> dw_topics (fst wa2) = dw_topics w
    \<and> map_of (dw_committed (fst wa2)) (dm_topic m1, dm_partition m1) = Some (dm_offset m1 + 2)"
proof -
  have h: "history env1 k (bump f w) = history env1 k w" for k f by (simp add: history_def counter_get_def)
  obtain n since where n: "history env1 (attempts_key (message_fingerprint (Some (message_payload m1)))) w = (n, since)" by fastforce
  have wa1: "wa1 = (bump count_waiting (bump count_seen w), a)"
    using assms(1-3,9) n by (auto simp: consume_one_def handle_message_def Let_def h fingerprint_key_def)
  obtain n2 s2 where n2: "history env2 (attempts_key (message_fingerprint (Some (message_payload m2))))
      (bump count_seen (bump count_waiting (bump count_seen w))) = (n2, s2)" by fastforce
  have "rc_action (plan_recovery n2 (Some (error_header m2)) s2 MAX_RETRIES (de_backoff env2)) = ESCALATE"
    using assms(7) by (simp add: plan_escalate)
  moreover have "fst (escalate post m2 p r sc a) = True" for p r sc a
    using assms(8) [of "escalation_body m2 p r sc" a] by (cases "post (escalation_body m2 p r sc) a") (simp add: escalate_def)
  ultimately show ?thesis
    using assms(1,2,4-6,10) n2 wa1
    by (auto simp: consume_one_def handle_message_def Let_def split: prod.splits bool.splits)
       (metis fst_conv)+
qed

end
