(* ===== verification/Escalation_Flow.thy ===== *)
theory Escalation_Flow
  imports Audit_Log Dead_Letters
begin

text \<open>
  The dead-letter worker with the audit service behind it: \<open>post\<close> of \<open>Dead_Letters\<close> is the audit
  service's append route. The body the worker sends has no \<open>recorded_at\<close>, so the service stamps its
  own time.
\<close>

section \<open>The call\<close>

datatype post_fate = PostLost | AnswerLost | PostAnswered

text \<open>The request model of the append route for a body without a time; \<open>None\<close> is refused with 422.\<close>

definition append_request_of :: "json \<Rightarrow> AuditAppendRequest option" where
  "append_request_of body =
     (case (json_text (dict_get_null body ''actor''), json_text (dict_get_null body ''action''),
            json_text (dict_get_null body ''resource_type''), json_text (dict_get_null body ''resource_id'')) of
        (Some actor, Some action, Some resource_type, Some resource_id) \<Rightarrow>
          Some \<lparr>aq_actor = actor, aq_action = action, aq_resource_type = resource_type, aq_resource_id = resource_id,
                aq_payload = (case dict_get body ''payload'' of None \<Rightarrow> JObj [] | Some p \<Rightarrow> p), aq_recorded_at = None\<rparr>
      | _ \<Rightarrow> None)"

definition audit_post ::
  "(json \<Rightarrow> json) \<Rightarrow> post_fate \<Rightarrow> bool \<Rightarrow> int \<Rightarrow> json \<Rightarrow> audit_db \<Rightarrow> audit_reply \<times> audit_db" where
  "audit_post jsonb fate io now body db =
     (if fate = PostLost then (AuditUnreachable, db)
      else
        (let (answer, db') = (case append_request_of body of
               None \<Rightarrow> (Inl (HTTPException 422), db)
             | Some q \<Rightarrow> append_endpoint jsonb io now (ab_records db) q db)
         in (if fate = AnswerLost then AuditUnreachable else AuditStatus (http_status 201 answer), db')))"

definition escalation_payload :: "dlq_message \<Rightarrow> string \<Rightarrow> bool \<Rightarrow> json" where
  "escalation_payload msg reason schema = dict_get_null (escalation_body msg (message_payload msg) reason schema) ''payload''"

lemma append_request_of_escalation:
  "append_request_of (escalation_body msg (message_payload msg) reason schema) =
     Some \<lparr>aq_actor = ''dlq-reprocessor'', aq_action = ''dlq.escalated'', aq_resource_type = ''KafkaMessage'',
           aq_resource_id = dm_topic msg @ '':'' @ show_int (dm_partition msg) @ '':'' @ show_int (dm_offset msg),
           aq_payload = escalation_payload msg reason schema, aq_recorded_at = None\<rparr>"
  by (simp add: append_request_of_def escalation_payload_def escalation_body_def dict_get_null_def json_text_def)

lemma append_status: "http_status 201 r < 300 \<Longrightarrow> (\<exists>y. r = Inr y) \<or> (\<exists>c < 300. r = Inl (HTTPException c))"
  by (cases r) (auto simp: http_status_def split: failure.splits)

text \<open>An escalation that the worker takes as done is one more row of the log.\<close>

lemma escalated_is_logged:
  assumes "audit_inv db" and "json_dumps (jsonb (escalation_payload msg reason schema)) = json_dumps (escalation_payload msg reason schema)"
    and "escalate (audit_post jsonb fate io now) msg (message_payload msg) reason schema db = (True, db')"
  shows "\<exists>r. ab_records db' = ab_records db @ [r] \<and> audit_inv db' \<and> ar_action r = ''dlq.escalated''
    \<and> json_dumps (ar_payload r) = json_dumps (escalation_payload msg reason schema)"
proof -
  define q where "q = the (append_request_of (escalation_body msg (message_payload msg) reason schema))"
  have q: "append_request_of (escalation_body msg (message_payload msg) reason schema) = Some q"
    "aq_payload q = escalation_payload msg reason schema" "aq_action q = ''dlq.escalated''" "survives jsonb q"
    using assms(2) by (simp_all add: q_def append_request_of_escalation survives_def)
  obtain answer d where app: "append_endpoint jsonb io now (ab_records db) q db = (answer, d)" by fastforce
  have "audit_post jsonb fate io now (escalation_body msg (message_payload msg) reason schema) db =
      (if fate = PostLost then (AuditUnreachable, db)
       else (if fate = AnswerLost then AuditUnreachable else AuditStatus (http_status 201 answer), d))"
    by (simp add: audit_post_def q(1) app)
  with assms(3) have "http_status 201 answer < 300" "db' = d"
    unfolding escalate_def by (cases fate; simp)+
  moreover have "answer \<noteq> Inl (HTTPException c)" if "c < 300" for c
    using app that by (auto simp: append_endpoint_def append_record_def Let_def split: if_splits)
  ultimately obtain r where r: "answer = Inr r" using append_status [of answer] by auto
  then have "append_record jsonb io now (take (length (ab_records db)) (ab_records db)) q db = (Inr r, db')"
    using app \<open>db' = d\<close> by (auto simp: append_endpoint_def split: if_splits)
  from append_record_cases [OF assms(1) q(4) this]
  have "ab_records db' = ab_records db @ [r\<lparr>ar_payload := jsonb (aq_payload q)\<rparr>]" "audit_inv db'" by auto
  moreover have "ar_action r = aq_action q"
    using app r by (auto simp: append_endpoint_def append_record_def Let_def new_record_def split: if_splits)
  ultimately show ?thesis using assms(2) q(2,3) by auto
qed

section \<open>Properties\<close>

text \<open>
  Property C18 (what the release of an offset means). What the worker does with a message, case by case.
  When the message is due to be put back, the audit log is not touched and the broker decides: what it
  acknowledged is at the end of the original topic and the offset may be committed; what it refused
  leaves the topic and the offset as they were; and what it neither refused nor acknowledged within the
  flush is released although it is on no topic and in no log, which is the one way in which handling a
  message loses it. When it is not due, no topic changes, and the offset may be committed only after the
  audit log has got one more row that describes the message; the log then still verifies. The theorem is
  about the message's own offset: \<open>waiting_message_skipped\<close> shows a later commit that passes over a message
  which is still waiting.
\<close>

theorem released_offset_accounted:
  assumes "reachable empty_log (audit_step jsonb) db"
    and "\<forall>reason schema. json_dumps (jsonb (escalation_payload msg reason schema)) = json_dumps (escalation_payload msg reason schema)"
    and "handle_message env (audit_post jsonb fate io now) msg (w, db) = (ok, w', db')"
  shows "if republish_due env msg w then
      db' = db \<and> ok = (de_produced env \<noteq> ProduceRaised)
      \<and> dw_topics w' = dw_topics w @ (if de_produced env = Delivered then [(the (original_topic (dm_topic msg)), message_payload msg)] else [])
    else
      dw_topics w' = dw_topics w
      \<and> (ok \<longrightarrow> (\<exists>r reason schema. ab_records db' = ab_records db @ [r] \<and> ar_action r = ''dlq.escalated''
           \<and> json_dumps (ar_payload r) = json_dumps (escalation_payload msg reason schema)
           \<and> verify_log db' = Some (length (ab_records db'), [])))"
proof (cases "republish_due env msg w")
  case True
  from assms(3) show ?thesis
    unfolding handle_due [OF True] using True by (cases "de_produced env") (auto simp: republish_def)
next
  case False
  have "\<exists>r reason schema. ab_records db' = ab_records db @ [r] \<and> ar_action r = ''dlq.escalated''
      \<and> json_dumps (ar_payload r) = json_dumps (escalation_payload msg reason schema)
      \<and> verify_log db' = Some (length (ab_records db'), [])" if ok
  proof -
    from handle_not_due [OF False assms(3)] that obtain reason schema
      where esc: "escalate (audit_post jsonb fate io now) msg (message_payload msg) reason schema db = (True, db')" by blast
    from escalated_is_logged [OF audit_log.reachable_inv [OF assms(1)] _ esc] assms(2)
    obtain r where r: "ab_records db' = ab_records db @ [r]" "audit_inv db'" "ar_action r = ''dlq.escalated''"
        "json_dumps (ar_payload r) = json_dumps (escalation_payload msg reason schema)" by blast
    have "verify_log db' = Some (length (ab_records db'), [])" using r(2) by (rule verify_log_inv)
    with r show ?thesis by blast
  qed
  with False handle_not_due [OF False assms(3)] show ?thesis by simp
qed

lemma reordered_dumps: "distinct (map fst kvs) \<Longrightarrow> json_dumps (reordered (JObj kvs)) = json_dumps (JObj kvs)"
proof -
  assume *: "distinct (map fst kvs)"
  let ?f = "map (\<lambda>kv. (fst kv, json_dumps (snd kv)))"
  have "sort_key fst (?f (rev kvs)) = sort_key fst (?f kvs)"
    using * by (intro sort_key_mset_eq) (simp_all add: comp_def distinct_rev flip: rev_map)
  then show ?thesis by simp
qed

lemma escalation_payload_dict: "\<exists>kvs. escalation_payload msg reason schema = JObj kvs \<and> distinct (map fst kvs)"
  by (simp add: escalation_payload_def escalation_body_def dict_get_null_def)

theorem released_offset_accounted_witness:
  "\<exists>w' db'. handle_message (demo_turn 0) (audit_post reordered PostAnswered True 5) (demo_poison 0 ''timeout'') (demo_dlq, demo_log) = (True, w', db')
     \<and> republish_due (demo_turn 0) (demo_poison 0 ''timeout'') demo_dlq \<and> db' = demo_log
     \<and> dw_topics w' = [(''Order.events'', message_payload (demo_poison 0 ''timeout''))]"
proof -
  let ?m = "demo_poison 0 ''timeout''"
  have h: "history (demo_turn 0) k demo_dlq = (0, None)" for k
    by (simp add: history_def demo_turn_def demo_dlq_def counter_get_def)
  have d: "\<not> is_schema_incompatible (Some (error_header ?m))" "(0::int) < MAX_RETRIES"
    "original_topic (dm_topic ?m) = Some ''Order.events''" "is_valid_topic (Some ''Order.events'')" "de_produced (demo_turn 0) = Delivered"
    by code_simp+
  have due: "republish_due (demo_turn 0) ?m demo_dlq" by (simp add: republish_due_def h d)
  obtain ok w' db' where run: "handle_message (demo_turn 0) (audit_post reordered PostAnswered True 5) ?m (demo_dlq, demo_log) = (ok, w', db')"
    by (metis prod_cases3)
  have "json_dumps (reordered (escalation_payload ?m reason schema)) = json_dumps (escalation_payload ?m reason schema)" for reason schema
    using escalation_payload_dict [of ?m reason schema] reordered_dumps by metis
  with released_offset_accounted [OF demo_log_reachable _ run] due d(3,5) run show ?thesis
    by (auto simp: demo_dlq_def)
qed

end
