(* ===== verification/Webhooks.thy ===== *)
theory Webhooks
  imports Digest
begin

text \<open>
  The webhook handler (\<open>src/workers/webhook-handler\<close>): the signature check of \<open>webhook_rules.py\<close> and
  the route \<open>receive_webhook\<close> of \<open>main.py\<close> over Redis and the two tables of the payment database it
  writes. What \<open>json.loads\<close> makes of the body is the argument \<open>loads\<close>; the environment of a request
  says which of Redis, the database and the commit fail.
\<close>

section \<open>Signatures\<close>

definition DEFAULT_TOLERANCE_SECONDS :: int where "DEFAULT_TOLERANCE_SECONDS = 300"

definition DEDUP_TTL_SECONDS :: int where "DEDUP_TTL_SECONDS = 7 * 24 * 60 * 60"

definition SIGNATURE_SCHEME :: string where "SIGNATURE_SCHEME = ''v1''"

datatype Admission = ACCEPT | MISSING_SIGNATURE | MALFORMED_SIGNATURE | BAD_SIGNATURE | STALE

record SignatureCheck =
  sc_admission :: Admission
  sc_detail :: string
  sc_timestamp :: "int option"

definition sc_accepted :: "SignatureCheck \<Rightarrow> bool" where
  "sc_accepted c \<longleftrightarrow> sc_admission c = ACCEPT"

text \<open>\<open>s.split(c)\<close> and \<open>s.partition(c)\<close> for one character.\<close>

fun split_char :: "char \<Rightarrow> string \<Rightarrow> string list" where
  "split_char c [] = [[]]"
| "split_char c (x # xs) =
     (if x = c then [] # split_char c xs
      else case split_char c xs of [] \<Rightarrow> [[x]] | p # ps \<Rightarrow> (x # p) # ps)"

definition partition_char :: "char \<Rightarrow> string \<Rightarrow> string \<times> string" where
  "partition_char c s = (takeWhile (\<lambda>x. x \<noteq> c) s, tl (dropWhile (\<lambda>x. x \<noteq> c) s))"

definition parse_part :: "int option \<times> string option \<Rightarrow> string \<Rightarrow> int option \<times> string option" where
  "parse_part acc raw =
     (let part = py_strip raw in
      if CHR ''='' \<notin> set part then acc
      else case partition_char (CHR ''='') part of
        (k, v) \<Rightarrow>
          (let key = py_strip k; value = py_strip v in
           if key = ''t'' then (py_int_str 10 value, snd acc)
           else if key = SIGNATURE_SCHEME then (fst acc, Some value)
           else acc))"

definition parse_signature_header :: "string option \<Rightarrow> int option \<times> string option" where
  "parse_signature_header header =
     (case header of
        None \<Rightarrow> (None, None)
      | Some h \<Rightarrow> if h = [] then (None, None) else foldl parse_part (None, None) (split_char (CHR '','') h))"

definition expected_signature :: "string \<Rightarrow> int \<Rightarrow> string \<Rightarrow> string" where
  "expected_signature secret timestamp raw_body = hmac_sha256 secret (show_int timestamp @ ''.'' @ raw_body)"

definition signature_check :: "Admission \<Rightarrow> string \<Rightarrow> int option \<Rightarrow> SignatureCheck result" where
  "signature_check admission detail timestamp = Inr \<lparr>sc_admission = admission, sc_detail = detail, sc_timestamp = timestamp\<rparr>"

text \<open>\<open>hmac.compare_digest\<close> refuses text that is not ASCII with \<open>TypeError\<close>.\<close>

definition verify_signature :: "string \<Rightarrow> string \<Rightarrow> string option \<Rightarrow> int \<Rightarrow> int \<Rightarrow> SignatureCheck result" where
  "verify_signature secret raw_body header now tolerance =
     (if header = None \<or> header = Some [] then signature_check MISSING_SIGNATURE ''no signature header'' None
      else case parse_signature_header header of
        (Some timestamp, Some signature) \<Rightarrow>
          if signature = [] then signature_check MALFORMED_SIGNATURE ''signature header is missing t or v1'' None
          else
            (let age = now - timestamp in
             if tolerance < age then
               signature_check STALE
                 (''timestamp is '' @ show_int age @ ''s old, tolerance is '' @ show_int tolerance @ ''s'') (Some timestamp)
             else if age < - tolerance then
               signature_check STALE
                 (''timestamp is '' @ show_int (- age) @ ''s in the future, tolerance is '' @ show_int tolerance @ ''s'') (Some timestamp)
             else if list_ex (\<lambda>c. 127 < (of_char c :: nat)) signature then Inl (Uncaught ''TypeError'')
             else if expected_signature secret timestamp raw_body \<noteq> signature then
               signature_check BAD_SIGNATURE ''signature does not match'' (Some timestamp)
             else signature_check ACCEPT ''signature verified'' (Some timestamp))
      | _ \<Rightarrow> signature_check MALFORMED_SIGNATURE ''signature header is missing t or v1'' None)"

definition dedup_key :: "json \<Rightarrow> string" where
  "dedup_key event_id = ''webhook:seen:'' @ py_str event_id"

section \<open>The route\<close>

datatype loads_outcome = Loaded json | NotJson | Undecodable

record webhook_state =
  ws_redis :: "(string \<times> int) list"
  ws_processed :: "(string \<times> string) list"
  ws_outbox :: "outbox_message list"

record webhook_env =
  we_now :: int
  we_redis_up :: bool
  we_database_up :: bool
  we_commits :: bool

type_synonym webhook_answer = "(int \<times> json) result"

definition detail :: "int \<Rightarrow> string \<Rightarrow> webhook_answer" where
  "detail code text = Inr (code, JObj [(''detail'', JStr text)])"

definition duplicate :: "string \<Rightarrow> webhook_answer" where
  "duplicate layer = Inr (200, JObj [(''status'', JStr ''duplicate''), (''layer'', JStr layer)])"

definition webhook_message :: "int \<Rightarrow> json \<Rightarrow> string \<Rightarrow> string \<Rightarrow> outbox_message" where
  "webhook_message now event event_id event_type =
     (let intent = dict_get_null event ''payment_intent_id'' in
      outbox ''Payment'' (py_str (if truthy intent then intent else JStr event_id)) (''PspWebhook.'' @ event_type)
        (JObj [(''event_id'', JStr event_id), (''event_type'', JStr event_type), (''received_at'', JInt now), (''psp_payload'', event)]))"

text \<open>
  Layers 3 and 4. The driver takes only text for the two text columns, and the outbox columns hold at
  most 255 characters; what it refuses is an exception that no handler catches.
\<close>

definition record_webhook :: "webhook_env \<Rightarrow> json \<Rightarrow> json \<Rightarrow> json \<Rightarrow> webhook_state \<Rightarrow> webhook_answer \<times> webhook_state" where
  "record_webhook env event event_id event_type s =
     (if \<not> we_database_up env then (Inl (Uncaught ''DBAPIError''), s)
      else case (json_text event_id, json_text event_type) of
        (Some i, Some t) \<Rightarrow>
          if i \<in> fst ` set (ws_processed s) then (duplicate ''postgres'', s)
          else
            (let m = webhook_message (we_now env) event i t in
             if 255 < length (om_aggregate_id m) \<or> 255 < length (om_type m) then (Inl (Uncaught ''DataError''), s)
             else if \<not> we_commits env then (detail 500 ''failed to record'', s)
             else (Inr (200, JObj [(''status'', JStr ''accepted''), (''event_id'', JStr i)]),
                   s\<lparr>ws_processed := ws_processed s @ [(i, t)], ws_outbox := ws_outbox s @ [m]\<rparr>))
      | _ \<Rightarrow> (Inl (Uncaught ''DataError''), s))"

definition seen_in_redis :: "int \<Rightarrow> string \<Rightarrow> webhook_state \<Rightarrow> bool" where
  "seen_in_redis now k s \<longleftrightarrow> (\<exists>(k', expires) \<in> set (ws_redis s). k' = k \<and> now < expires)"

definition admit_webhook :: "webhook_env \<Rightarrow> json \<Rightarrow> webhook_state \<Rightarrow> webhook_answer \<times> webhook_state" where
  "admit_webhook env event s =
     (if \<not> is_dict event then (Inl (Uncaught ''AttributeError''), s)
      else
        (let event_id = dict_get_null event ''id'';
             event_type = (case dict_get event ''type'' of None \<Rightarrow> JStr ''unknown'' | Some t \<Rightarrow> t);
             key = dedup_key event_id
         in if \<not> truthy event_id then (detail 400 ''event has no id'', s)
            else if \<not> we_redis_up env then record_webhook env event event_id event_type s
            else if seen_in_redis (we_now env) key s then (duplicate ''redis'', s)
            else record_webhook env event event_id event_type
                   (s\<lparr>ws_redis := (key, we_now env + DEDUP_TTL_SECONDS) # ws_redis s\<rparr>)))"

definition receive_webhook ::
  "string \<Rightarrow> (string \<Rightarrow> loads_outcome) \<Rightarrow> webhook_env \<Rightarrow> string \<Rightarrow> string option \<Rightarrow> webhook_state \<Rightarrow> webhook_answer \<times> webhook_state" where
  "receive_webhook secret loads env raw_body signature s =
     (case verify_signature secret raw_body signature (we_now env) DEFAULT_TOLERANCE_SECONDS of
        Inl e \<Rightarrow> (Inl e, s)
      | Inr check \<Rightarrow>
          if \<not> sc_accepted check then
            (detail (if sc_admission check = MALFORMED_SIGNATURE then 400 else 401) (sc_detail check), s)
          else case loads raw_body of
            Undecodable \<Rightarrow> (Inl (Uncaught ''UnicodeDecodeError''), s)
          | NotJson \<Rightarrow> (detail 400 ''body is not JSON'', s)
          | Loaded event \<Rightarrow> admit_webhook env event s)"

section \<open>What a request does\<close>

text \<open>A request that passes layer 1: signed with the secret, at a time within the tolerance.\<close>

definition genuine :: "string \<Rightarrow> string \<Rightarrow> string option \<Rightarrow> int \<Rightarrow> bool" where
  "genuine secret raw_body header now \<longleftrightarrow>
     (\<exists>t. parse_signature_header header = (Some t, Some (expected_signature secret t raw_body)) \<and> \<bar>now - t\<bar> \<le> DEFAULT_TOLERANCE_SECONDS)"

lemma verify_signature_accepts:
  assumes "verify_signature secret raw_body header now DEFAULT_TOLERANCE_SECONDS = Inr c" "sc_accepted c"
  shows "genuine secret raw_body header now"
proof -
  obtain a b where ab: "parse_signature_header header = (a, b)" by fastforce
  obtain t sig where ts: "a = Some t" "b = Some sig"
    using assms ab by (cases a; cases b) (auto simp: verify_signature_def signature_check_def sc_accepted_def split: if_splits)
  have stale: "\<not> DEFAULT_TOLERANCE_SECONDS < now - t" "\<not> now - t < - DEFAULT_TOLERANCE_SECONDS"
    using assms ab ts by (auto simp: verify_signature_def signature_check_def sc_accepted_def Let_def split: if_splits)
  have "sig = expected_signature secret t raw_body"
    using assms ab ts stale by (auto simp: verify_signature_def signature_check_def sc_accepted_def Let_def split: if_splits)
  then show ?thesis using ab ts stale by (auto simp: genuine_def)
qed

text \<open>The header a sender makes, and that it is read back.\<close>

definition signature_header :: "int \<Rightarrow> string \<Rightarrow> string" where
  "signature_header t sig = ''t='' @ show_int t @ '','' @ ''v1='' @ sig"

lemma split_char_absent: "c \<notin> set s \<Longrightarrow> split_char c s = [s]"
  by (induction s) auto

lemma split_char_append: "c \<notin> set s \<Longrightarrow> split_char c (s @ c # r) = s # split_char c r"
  by (induction s) auto

lemma strip_plain: "(\<And>c. c \<in> set s \<Longrightarrow> \<not> py_isspace c) \<Longrightarrow> py_strip s = s"
  unfolding py_strip_def by (rule strip_by_absent)

lemma parse_header:
  assumes "\<And>c. c \<in> set sig \<Longrightarrow> c \<noteq> CHR '','' \<and> \<not> py_isspace c"
  shows "parse_signature_header (Some (signature_header t sig)) = (Some t, Some sig)"
proof -
  have spaces: "\<not> py_isspace (CHR ''t'')" "\<not> py_isspace (CHR ''='')" "\<not> py_isspace (CHR ''v'')" "\<not> py_isspace (CHR ''1'')"
    by (simp_all add: py_isspace_def)
  have a: "CHR '','' \<notin> set (''t='' @ show_int t)" using show_int_plain(1) by auto
  have b: "CHR '','' \<notin> set (''v1='' @ sig)" using assms by auto
  have "signature_header t sig = (''t='' @ show_int t) @ CHR '','' # (''v1='' @ sig)" by (simp add: signature_header_def)
  then have "split_char (CHR '','') (signature_header t sig) = [''t='' @ show_int t, ''v1='' @ sig]"
    by (simp only: split_char_append [OF a] split_char_absent [OF b])
  moreover have "py_strip (''t='' @ show_int t) = ''t='' @ show_int t" "py_strip (''v1='' @ sig) = ''v1='' @ sig"
      "py_strip (show_int t) = show_int t" "py_strip sig = sig" "py_strip ''t'' = ''t''" "py_strip ''v1'' = ''v1''"
    using show_int_plain(2) assms spaces by (intro strip_plain; auto)+
  ultimately show ?thesis
    by (simp add: parse_signature_header_def signature_header_def parse_part_def partition_char_def SIGNATURE_SCHEME_def Let_def py_int_show)
qed

lemma expected_signature_chars:
  assumes "c \<in> set (expected_signature secret t body)"
  shows "c \<noteq> CHR '',''" "\<not> py_isspace c" "(of_char c :: nat) < 128"
proof -
  obtain d where d: "d < 16" "c = digit_char d"
    using assms sha256_chars by (auto simp: expected_signature_def hmac_sha256_def Let_def)
  show "c \<noteq> CHR '',''" "\<not> py_isspace c" "(of_char c :: nat) < 128"
    using digit_char_plain [OF d(1)] d(2) by auto
qed

lemma expected_signature_not_Nil [simp]: "expected_signature secret t body \<noteq> []"
  by (simp add: expected_signature_def hmac_sha256_def Let_def)

lemma genuine_accepted:
  assumes "\<bar>now - t\<bar> \<le> DEFAULT_TOLERANCE_SECONDS"
  shows "verify_signature secret body (Some (signature_header t (expected_signature secret t body))) now DEFAULT_TOLERANCE_SECONDS
    = Inr \<lparr>sc_admission = ACCEPT, sc_detail = ''signature verified'', sc_timestamp = Some t\<rparr>"
proof -
  let ?sig = "expected_signature secret t body"
  have "parse_signature_header (Some (signature_header t ?sig)) = (Some t, Some ?sig)"
    using expected_signature_chars by (intro parse_header) blast
  moreover have "\<not> list_ex (\<lambda>c. 127 < (of_char c :: nat)) ?sig"
    using expected_signature_chars(3) by (fastforce simp: list_ex_iff)
  moreover have "signature_header t ?sig \<noteq> []" by (simp add: signature_header_def)
  ultimately show ?thesis using assms by (simp add: verify_signature_def signature_check_def Let_def abs_le_iff)
qed

lemma record_webhook_cases:
  assumes "record_webhook env event event_id event_type s = (x, s')"
  obtains (same) "s' = s"
  | (recorded) i t where "event_id = JStr i" "event_type = JStr t" "i \<notin> fst ` set (ws_processed s)"
      "s' = s\<lparr>ws_processed := ws_processed s @ [(i, t)], ws_outbox := ws_outbox s @ [webhook_message (we_now env) event i t]\<rparr>"
proof (cases "s' = s")
  case False
  with assms obtain i t where it: "json_text event_id = Some i" "json_text event_type = Some t"
    by (cases "json_text event_id"; cases "json_text event_type") (auto simp: record_webhook_def split: if_splits)
  define m where "m = webhook_message (we_now env) event i t"
  from assms False it have "i \<notin> fst ` set (ws_processed s)"
      "s' = s\<lparr>ws_processed := ws_processed s @ [(i, t)], ws_outbox := ws_outbox s @ [m]\<rparr>"
    by (auto simp: record_webhook_def Let_def m_def split: if_splits)
  with it show thesis by (intro recorded) (simp_all add: m_def)
qed (rule same)

lemma admit_webhook_cases:
  assumes "admit_webhook env event s = (x, s')"
  obtains (same) "ws_processed s' = ws_processed s" "ws_outbox s' = ws_outbox s"
  | (recorded) i t where "dict_get_null event ''id'' = JStr i" "i \<notin> fst ` set (ws_processed s)"
      "ws_processed s' = ws_processed s @ [(i, t)]" "ws_outbox s' = ws_outbox s @ [webhook_message (we_now env) event i t]"
proof -
  consider "s' = s"
    | s1 event_type where "record_webhook env event (dict_get_null event ''id'') event_type s1 = (x, s')"
        "ws_processed s1 = ws_processed s" "ws_outbox s1 = ws_outbox s"
    using assms by (fastforce simp: admit_webhook_def Let_def split: if_splits)
  then show thesis
  proof cases
    case 2
    from 2(1) show thesis by (cases rule: record_webhook_cases) (use 2 that in auto)
  qed (use that(1) in auto)
qed

section \<open>Any number of requests\<close>

text \<open>Redis may lose entries at any time: a restart, an eviction, an entry that expired.\<close>

inductive webhook_step :: "string \<Rightarrow> (string \<Rightarrow> loads_outcome) \<Rightarrow> webhook_state \<Rightarrow> webhook_state \<Rightarrow> bool"
  for secret :: string and loads :: "string \<Rightarrow> loads_outcome" where
  receive: "webhook_step secret loads s (snd (receive_webhook secret loads env raw_body header s))"
| lose: "webhook_step secret loads s (s\<lparr>ws_redis := filter keep (ws_redis s)\<rparr>)"

definition no_webhooks :: "webhook_state \<Rightarrow> bool" where
  "no_webhooks s \<longleftrightarrow> ws_redis s = [] \<and> ws_processed s = [] \<and> ws_outbox s = []"

definition webhook_inv :: "webhook_state \<Rightarrow> bool" where
  "webhook_inv s \<longleftrightarrow> distinct (map fst (ws_processed s))
     \<and> map (\<lambda>m. dict_get (om_payload m) ''event_id'') (ws_outbox s) = map (\<lambda>p. Some (JStr (fst p))) (ws_processed s)"

lemma webhook_message_id: "dict_get (om_payload (webhook_message now event i t)) ''event_id'' = Some (JStr i)"
  by (simp add: webhook_message_def Let_def)

lemma receive_keeps:
  assumes "webhook_inv s"
  shows "webhook_inv (snd (receive_webhook secret loads env raw_body header s))"
proof -
  have "webhook_inv (snd (admit_webhook env event s))" for event
  proof -
    obtain x s' where adm: "admit_webhook env event s = (x, s')" by fastforce
    then have "webhook_inv s'"
      by (cases rule: admit_webhook_cases) (use assms in \<open>auto simp: webhook_inv_def webhook_message_id\<close>)
    then show ?thesis by (simp add: adm)
  qed
  then show ?thesis using assms by (simp add: receive_webhook_def split: sum.split loads_outcome.split)
qed

interpretation webhooks: inductive_invariant no_webhooks "webhook_step secret loads" webhook_inv for secret loads
proof
  fix s assume "no_webhooks s"
  then show "webhook_inv s" by (simp add: no_webhooks_def webhook_inv_def)
next
  fix s s' assume inv: "webhook_inv s" and "webhook_step secret loads s s'"
  from this(2) show "webhook_inv s'"
    by cases (use inv receive_keeps in \<open>auto simp: webhook_inv_def\<close>)
qed

section \<open>Properties\<close>

text \<open>
  Property C15 (an event is emitted once). Whatever requests arrive, however often an event is delivered,
  and whatever Redis forgets, the events in the outbox are the recorded ones, one message for each
  event id.
\<close>

theorem webhook_emitted_once:
  assumes "reachable no_webhooks (webhook_step secret loads) s"
  shows "map (\<lambda>m. dict_get (om_payload m) ''event_id'') (ws_outbox s) = map (\<lambda>p. Some (JStr (fst p))) (ws_processed s)
    \<and> distinct (map (\<lambda>m. dict_get (om_payload m) ''event_id'') (ws_outbox s))"
proof -
  from webhooks.reachable_inv [OF assms] have inv: "webhook_inv s" .
  then have "distinct (map (\<lambda>p. Some (JStr (fst p))) (ws_processed s))"
    by (auto simp: webhook_inv_def distinct_map inj_on_def)
  with inv show ?thesis by (simp add: webhook_inv_def)
qed

definition demo_webhook_event :: json where
  "demo_webhook_event = JObj [(''id'', JStr ''evt1''), (''type'', JStr ''charge.ok'')]"

definition demo_loads :: "string \<Rightarrow> loads_outcome" where
  "demo_loads body = (if body = ''{}'' then Loaded demo_webhook_event else NotJson)"

definition demo_webhook_env :: "bool \<Rightarrow> int \<Rightarrow> webhook_env" where
  "demo_webhook_env commits now = \<lparr>we_now = now, we_redis_up = True, we_database_up = True, we_commits = commits\<rparr>"

definition demo_header :: "string option" where
  "demo_header = Some (signature_header 100 (expected_signature ''k'' 100 ''{}''))"

definition demo_webhook_state :: webhook_state where
  "demo_webhook_state = \<lparr>ws_redis = [], ws_processed = [], ws_outbox = []\<rparr>"

lemma receive_genuine:
  assumes "\<bar>we_now env - t\<bar> \<le> DEFAULT_TOLERANCE_SECONDS" "loads body = Loaded event"
  shows "receive_webhook secret loads env body (Some (signature_header t (expected_signature secret t body))) s = admit_webhook env event s"
  using genuine_accepted [OF assms(1), of secret body] assms(2) by (simp add: receive_webhook_def sc_accepted_def)

lemma demo_received:
  "receive_webhook ''k'' demo_loads (demo_webhook_env c 100) ''{}'' demo_header s = admit_webhook (demo_webhook_env c 100) demo_webhook_event s"
  unfolding demo_header_def
  by (rule receive_genuine) (simp_all add: demo_webhook_env_def DEFAULT_TOLERANCE_SECONDS_def demo_loads_def)

definition demo_emitted :: webhook_state where
  "demo_emitted = snd (receive_webhook ''k'' demo_loads (demo_webhook_env True 100) ''{}'' demo_header demo_webhook_state)"

lemma demo_emitted_rows: "ws_processed demo_emitted = [(''evt1'', ''charge.ok'')]"
  unfolding demo_emitted_def demo_received by code_simp

lemma demo_emitted_reachable: "reachable no_webhooks (webhook_step ''k'' demo_loads) demo_emitted"
proof -
  have "reachable no_webhooks (webhook_step ''k'' demo_loads) demo_webhook_state"
    by (rule reach_init) (simp add: no_webhooks_def demo_webhook_state_def)
  then show ?thesis unfolding demo_emitted_def by (rule reach_step) (rule receive)
qed

lemma webhook_emitted_once_witness:
  "reachable no_webhooks (webhook_step ''k'' demo_loads) demo_emitted
   \<and> map (\<lambda>m. dict_get (om_payload m) ''event_id'') (ws_outbox demo_emitted) = [Some (JStr ''evt1'')]"
  using demo_emitted_reachable webhook_emitted_once [OF demo_emitted_reachable] by (simp add: demo_emitted_rows)

text \<open>
  Property C22 (only the holder of the secret is heard). A request that is not signed with the secret over
  its own time and body, or whose time is more than five minutes away, changes nothing. The header a
  sender builds for a body is read back and admitted at any time within the tolerance.
\<close>

theorem webhook_signature_decides:
  "(\<not> genuine secret raw_body header (we_now env) \<longrightarrow> snd (receive_webhook secret loads env raw_body header s) = s)
   \<and> (\<bar>we_now env - t\<bar> \<le> DEFAULT_TOLERANCE_SECONDS \<longrightarrow>
        verify_signature secret raw_body (Some (signature_header t (expected_signature secret t raw_body))) (we_now env) DEFAULT_TOLERANCE_SECONDS
          = Inr \<lparr>sc_admission = ACCEPT, sc_detail = ''signature verified'', sc_timestamp = Some t\<rparr>)"
proof -
  have "snd (receive_webhook secret loads env raw_body header s) = s" if "\<not> genuine secret raw_body header (we_now env)"
  proof (cases "verify_signature secret raw_body header (we_now env) DEFAULT_TOLERANCE_SECONDS")
    case (Inr c)
    with that verify_signature_accepts have "\<not> sc_accepted c" by blast
    with Inr show ?thesis by (simp add: receive_webhook_def)
  qed (simp add: receive_webhook_def)
  then show ?thesis using genuine_accepted by blast
qed

lemma webhook_signature_decides_witness:
  "snd (receive_webhook ''k'' demo_loads (demo_webhook_env True 100) ''{}'' None demo_webhook_state) = demo_webhook_state
   \<and> verify_signature ''k'' ''{}'' demo_header 100 DEFAULT_TOLERANCE_SECONDS
       = Inr \<lparr>sc_admission = ACCEPT, sc_detail = ''signature verified'', sc_timestamp = Some 100\<rparr>"
proof -
  have "\<not> genuine ''k'' ''{}'' None (we_now (demo_webhook_env True 100))" by (simp add: genuine_def parse_signature_header_def)
  with webhook_signature_decides [of "''k''" "''{}''" None "demo_webhook_env True 100" demo_loads demo_webhook_state 100]
  show ?thesis by (simp add: demo_header_def demo_webhook_env_def DEFAULT_TOLERANCE_SECONDS_def)
qed

section \<open>A commit that fails\<close>

lemma seen_answers_duplicate:
  assumes "is_dict event" "truthy (dict_get_null event ''id'')" "we_redis_up env"
    and "seen_in_redis (we_now env) (dedup_key (dict_get_null event ''id'')) s"
  shows "admit_webhook env event s = (duplicate ''redis'', s)"
  using assms by (simp add: admit_webhook_def Let_def)

text \<open>
  Property C40 (a failed commit loses the event). The Redis entry of an event is made before the database
  transaction and stays when the commit fails. The answer 500 asks the provider to deliver the event
  again; every delivery of the following seven days is then answered as a duplicate and nothing is
  emitted, as long as Redis keeps the entry.
\<close>

theorem failed_commit_loses_event:
  assumes "dict_get event ''id'' = Some (JStr i)" "i \<noteq> []" "dict_get event ''type'' = Some (JStr t)"
    and "loads body = Loaded event" "genuine_at = (\<lambda>n. Some (signature_header n (expected_signature secret n body)))"
    and "we_redis_up env" "we_database_up env" "\<not> we_commits env" "i \<notin> fst ` set (ws_processed s)"
    and "\<not> seen_in_redis (we_now env) (dedup_key (JStr i)) s"
    and "length (om_aggregate_id (webhook_message (we_now env) event i t)) \<le> 255" "length t \<le> 244"
    and "receive_webhook secret loads env body (genuine_at (we_now env)) s = (x, s1)"
    and "\<forall>e \<in> set retries. we_redis_up e \<and> we_now env \<le> we_now e \<and> we_now e < we_now env + DEDUP_TTL_SECONDS"
  shows "x = detail 500 ''failed to record'' \<and> ws_outbox s1 = ws_outbox s
    \<and> foldl (\<lambda>r e. snd (receive_webhook secret loads e body (genuine_at (we_now e)) r)) s1 retries = s1
    \<and> (\<forall>e \<in> set retries. fst (receive_webhook secret loads e body (genuine_at (we_now e)) s1) = duplicate ''redis'')"
proof -
  have ev: "is_dict event" "dict_get_null event ''id'' = JStr i" using assms(1) by (cases event; simp add: dict_get_null_def)+
  have recv: "receive_webhook secret loads e body (genuine_at (we_now e)) r = admit_webhook e event r" for e r
    unfolding assms(5) using assms(4) by (intro receive_genuine) (simp_all add: DEFAULT_TOLERANCE_SECONDS_def)
  define s' where "s' = s\<lparr>ws_redis := (dedup_key (JStr i), we_now env + DEDUP_TTL_SECONDS) # ws_redis s\<rparr>"
  have ty: "length (om_type (webhook_message (we_now env) event i t)) \<le> 255" using assms(12) by (simp add: webhook_message_def Let_def)
  have rec: "record_webhook env event (JStr i) (JStr t) s' = (detail 500 ''failed to record'', s')"
    using assms(7-9,11) ty by (simp add: record_webhook_def Let_def s'_def)
  have "admit_webhook env event s = record_webhook env event (JStr i) (JStr t) s'"
    using ev assms(2,3,6,10) by (simp add: admit_webhook_def Let_def s'_def)
  with rec recv assms(13) have x: "x = detail 500 ''failed to record''" "s1 = s'" by auto
  have dup: "receive_webhook secret loads e body (genuine_at (we_now e)) s1 = (duplicate ''redis'', s1)" if "e \<in> set retries" for e
  proof -
    have "seen_in_redis (we_now e) (dedup_key (JStr i)) s1" using assms(14) that by (auto simp: seen_in_redis_def x(2) s'_def)
    then show ?thesis using ev assms(2,14) that unfolding recv by (intro seen_answers_duplicate) simp_all
  qed
  have "foldl (\<lambda>r e. snd (receive_webhook secret loads e body (genuine_at (we_now e)) r)) s1 retries = s1"
    using dup by (induction retries) auto
  then show ?thesis using x dup by (simp add: s'_def)
qed

lemma demo_get:
  "dict_get demo_webhook_event ''id'' = Some (JStr ''evt1'')" "dict_get demo_webhook_event ''type'' = Some (JStr ''charge.ok'')"
  by (simp_all add: demo_webhook_event_def)

lemma failed_commit_loses_event_witness:
  "\<exists>s1. receive_webhook ''k'' demo_loads (demo_webhook_env False 100) ''{}'' demo_header demo_webhook_state = (detail 500 ''failed to record'', s1)
     \<and> foldl (\<lambda>r e. snd (receive_webhook ''k'' demo_loads e ''{}'' (Some (signature_header (we_now e) (expected_signature ''k'' (we_now e) ''{}''))) r))
         s1 [demo_webhook_env True 160] = s1 \<and> ws_outbox s1 = []"
proof -
  let ?g = "\<lambda>n. Some (signature_header n (expected_signature ''k'' n ''{}''))"
  obtain x s1 where r: "receive_webhook ''k'' demo_loads (demo_webhook_env False 100) ''{}'' (?g (we_now (demo_webhook_env False 100))) demo_webhook_state = (x, s1)"
    by fastforce
  have env: "we_redis_up (demo_webhook_env c n)" "we_database_up (demo_webhook_env c n)" "we_commits (demo_webhook_env c n) = c"
      "we_now (demo_webhook_env c n) = n" for c n
    by (simp_all add: demo_webhook_env_def)
  have len: "length (om_aggregate_id (webhook_message 100 demo_webhook_event ''evt1'' ''charge.ok'')) \<le> 255" by code_simp
  from failed_commit_loses_event [of demo_webhook_event "''evt1''" "''charge.ok''" demo_loads "''{}''" ?g "''k''"
      "demo_webhook_env False 100" demo_webhook_state x s1 "[demo_webhook_env True 160]"] r len
  show ?thesis
    by (simp add: env demo_webhook_event_def [symmetric] demo_loads_def demo_header_def seen_in_redis_def DEDUP_TTL_SECONDS_def demo_get demo_webhook_state_def)
qed

end
