(* ===== verification/Spec2Isabelle.thy ===== *)
theory Spec2Isabelle
  imports Order_Lifecycle Payments Escrow Reservation_Flow Cart Resilience Delivery_Flow Purchase_Flow
    Media Escalation_Flow Webhooks
begin

text \<open>
  A verification of the order, stock, money, delivery and media flows of an e-commerce platform. The
  source is a set of Python services that own one database each and talk over HTTP, and of workers that
  move commands and events between them. Paths below are relative to \<open>src/\<close>.

  \<^bold>\<open>The parts and how they interact.\<close> A cart (\<open>services/cart-service\<close>) is checked out into an order. The
  order service (\<open>services/order-saga\<close>) splits it by seller and writes commands to its outbox. The
  dispatcher (\<open>workers/saga-dispatcher\<close>) carries them out against inventory and payment and reports back.
  Couriers report to the fulfilment service (\<open>services/fulfillment-service\<close>), which moves the seller orders
  and compares the couriers' settlements with them. The payment service (\<open>services/payment-service\<close>) keeps card
  payments and the escrow ledger of the sellers, whose commission it asks of the seller service
  (\<open>services/seller-service\<close>). The reviews service (\<open>services/reviews-service\<close>) admits reviews of delivered
  purchases. The media service (\<open>services/media-service\<close>) quarantines uploads until a scan clears them.
  Payment providers call the webhook handler (\<open>workers/webhook-handler\<close>); messages no consumer could take
  go to the dead-letter worker (\<open>workers/dlq-reprocessor\<close>), which records what it gives up in the audit service
  (\<open>services/audit-service\<close>). Synchronous calls go through a circuit breaker.

  \<^bold>\<open>How the code is modelled.\<close> A table is a list of records with the columns of \<open>models.py\<close>, a database is a
  record of tables, and a handler is a function from a request and a database to a result and a
  database. A result is a value or a failure: an HTTP status, or an exception nobody catches. What the code does
  not decide is an argument: the clock, fresh identifiers, whether the commit goes through, which rows a lock or
  another instance holds back, the reply of another service. Names are those of the source; a name that two
  services use has the service in it.

  \<^bold>\<open>Overlapping requests.\<close> Where a handler reads without a lock and commits later, requests overtake each other.
  The handlers of \<open>Media\<close> and \<open>Sellers\<close>, \<open>report_review\<close>, and the addition and the checkout of \<open>Cart\<close> are split there:
  the part after the read takes what was read as an argument, the flush writes the columns that changed, and the
  step relation lets parts interleave. \<open>create_shipment\<close>, \<open>ingest_settlement\<close>, \<open>submit_review\<close> and \<open>append_record\<close> take
  what their queries saw as an argument (\<open>seen\<close>, \<open>look\<close>). The other handlers are one step. Most of them lock what
  they work on or insert under a unique index, where an overlapping request waits or fails, and a failed commit is
  a parameter of every handler. Those that read rows without a lock all the same: \<open>edit_review\<close> and
  \<open>moderate_review\<close> decide on columns that never change; \<open>cancel_children_of_ended_saga\<close> runs inside \<open>advance_saga\<close>,
  which holds the saga's row, and by the invariant of \<open>Order_Lifecycle\<close> the seller orders of an order that its event
  ends are pending or cancelled, from where the action table leads only to cancelled; release and consume of
  \<open>Inventory\<close> read the holds of an order first, and the lemma \<open>concurrent_release_returns_twice\<close> shows what their
  overlap does. A property that holds only when certain requests do not overlap says so.

  \<^bold>\<open>Theories.\<close>
  \<^item> \<open>Prelude\<close>: failures and commits, JSON, the Python functions on strings, numbers and UUIDs, reachability
    and the contracts \<open>inductive_invariant\<close> and \<open>idempotent_handler\<close>, which every service interprets.
  \<^item> \<open>Saga_Transitions\<close>, \<open>Seller_Orders\<close>, \<open>Order_Saga\<close>, \<open>Order_Lifecycle\<close>: \<open>transitions.py\<close>; \<open>split_rules.py\<close> and
    \<open>cod_rules.py\<close>; \<open>saga_orchestrator.py\<close>, models and routes; the reaper of \<open>main.py\<close> and all operations
    together. The split loses nothing, the tables stay consistent, sagas and seller orders follow their machines
    under every interleaving, an event is applied once, work under way waits for the report of a reservation, the
    reaper's SQL closes what the Python would close and strands nothing.
  \<^item> \<open>Inventory\<close>: stock, the reservation ledger and the routes. Stock is never oversold; release and consume
    refine an abstract account of holdings (locale \<open>stock_service\<close>) and succeed when rows are free.
  \<^item> \<open>Sellers\<close>: onboarding rules, handlers and routes, and the shop that migration 015 seeds. Who else may list has
    passed review and contract, however requests overlap.
  \<^item> \<open>Payments\<close>, \<open>Escrow\<close>: charges and refunds are bounded and delivered once; the double-entry books balance
    (locale \<open>balanced_book\<close>) and the balance shown follows the answers given.
  \<^item> \<open>Dispatch\<close>, \<open>Reservation_Flow\<close>: claims, retries and the drain loop; the dispatcher against the inventory
    service, where a reservation takes everything or nothing.
  \<^item> \<open>Cart\<close>: lock, cache and checkout. Every cart leaves its active state once, however requests overlap, and a lost
    cache entry changes no answer when they do not. The outbox of the model keeps what retention would prune.
  \<^item> \<open>Resilience\<close>: the circuit breaker recovers under every interleaving of calls.
  \<^item> \<open>Courier_Rules\<close>, \<open>Fulfillment\<close>, \<open>Delivery_Flow\<close>: courier words, shipments, callbacks and settlements; the
    fulfilment service against the order service. Cash is recognised once when settlement files do not overlap, a
    repeated report is applied once, and what a remittance is compared with is known in every case.
  \<^item> \<open>Review_Rules\<close>, \<open>Reviews\<close>, \<open>Purchase_Flow\<close>: rules, handlers and moderation; the reviews service against the
    order service. Every stored review is by a buyer who received the product, and a ruling is final.
  \<^item> \<open>Media\<close>: rules, handlers, signed addresses. Rows and events agree under every overlap, locations are
    handed out only for cleared public assets, statuses follow the machine.
  \<^item> \<open>Digest\<close>: SHA-256 on 32-bit words, HMAC, canonical JSON and ISO times, which Python's standard library
    provides. \<open>Audit_Log\<close>: the hash chain verifies after any appends, and tampering is found and blamed.
    \<open>Dead_Letters\<close>: the retry budget. \<open>Escalation_Flow\<close>: the worker against the audit service; what the release
    of an offset means in every case. \<open>Webhooks\<close>: signatures decide who is heard, an event is emitted once.
  \<^item> This theory: the escrow ledger with the seller service behind it.

  \<^bold>\<open>Bounds and fuel.\<close> Python integers are \<open>int\<close>, and a column's width is a condition of the commit
  (\<open>int4\<close>, \<open>int8\<close>, text lengths). The drain loop of the dispatcher runs on fuel; one unit more than there are
  commands pending at its start and commands arriving during it is enough, and that it then ends is proved. All other loops are structural or have a
  termination proof.

  \<^bold>\<open>Assumptions.\<close> Strings are ASCII. Code that is not in the repository is an argument: the signing function of the
  object store, what PostgreSQL gives back for a JSONB document, \<open>json.loads\<close> on a webhook's body, the broker,
  Redis. Where a theorem needs something of it, the theorem says so as a hypothesis, and its witness satisfies
  it with a concrete function. Averages are exact quotients instead of floating-point numbers, and time is counted
  in whole seconds except where a rational or microseconds are named.

  \<^bold>\<open>Not modelled.\<close> The catalogue, pricing, promotion, tax, delivery-quote, fraud, user, notification and
  personalisation services: they insert and read rows behind an idempotency key, or compute scores in floating
  point, and no flow above depends on them. Search, the stream processor and the reindex worker: their results are
  defined by Elasticsearch. The JavaScript gateways and frontends: they forward requests. The clients of Kafka,
  Redis and tracing, the operations scripts and the migrations: input and output, or configuration; the
  constraints a migration adds are part of the table they constrain, and the row that migration 015 inserts is part
  of the sellers' initial state. The seller statistics of the order service:
  read-only and in floating point. Logging, metrics and tracing are left out everywhere.
\<close>

section \<open>Sellers and escrow\<close>

text \<open>
  Property C32 (a live shop gets its money booked). For a seller who may list products, as the
  seller service decides it, a delivery that was not booked before and whose amount fits the
  ledger's column is booked at the rate of the accepted contract: the seller is owed the amount
  less the commission rounded down.
\<close>

theorem live_seller_delivery_booked:
  assumes "reachable empty_book escrow_step db"
    and "get_permission (eq_seller_id request) sdb = Inr p" and "pm_may_list_products p"
    and "\<not> already_booked db (eq_seller_order_id request) DELIVERY"
    and "0 < eq_amount_cents request" and "int8 (eq_amount_cents request)" and "length (eq_currency request) \<le> 3"
    and "eq_seller_order_id request \<noteq> []"
  shows "\<exists>r db'. book_delivery True now fresh (seller_service_reply (eq_seller_id request) sdb) request db = (Inr r, db') \<and>
     lt_seller_owed_delta r = eq_amount_cents request - eq_amount_cents request * 1200 div 10000 \<and>
     already_booked db' (eq_seller_order_id request) DELIVERY"
proof -
  from assms(2,3) obtain s where s: "load_seller sdb (eq_seller_id request) = Inr s"
    "sr_accepted_contract_version s = Some CURRENT_CONTRACT_VERSION"
    by (auto simp: get_permission_def may_list_products_def split: sum.splits if_splits)
  then obtain c where c: "seller_service_reply (eq_seller_id request) sdb = Answered 200 (Some c)"
    "cm_commission_bps c = 1200" "cm_accepted_contract_version c = Some 1"
    by (simp add: seller_service_reply_def commission_endpoint_def get_commission_def commission_bps_def http_status_def
        COMMISSION_BPS_BY_VERSION_def CURRENT_CONTRACT_VERSION_def Let_def)
  from plan_delivery_total [OF assms(5), of 1200] obtain es where
    plan: "plan_delivery (eq_seller_id request) (eq_seller_order_id request) (eq_amount_cents request) 1200 = Some es" by auto
  note p = plan_delivery_Some [OF plan]
  then obtain rows where rows: "write_entries now fresh es (eq_currency request) (Some 1200) (Some 1) = Inr rows"
    by (cases "assert_balanced es") (auto simp: write_entries_def assert_balanced_def)
  have "ledger_rows_accepted (es_ledger db) rows"
    by (rule delivery_rows_accepted [OF escrow_keys.reachable_inv [OF assms(1)] assms(4) plan rows assms(6,7) _ assms(8)])
      (simp add: int4_def)
  moreover obtain r rs where "rows = r # rs" "le_reason r = DELIVERY" "le_seller_order_id r = Some (eq_seller_order_id request)"
    using rows p assms(8) by (cases es) (auto simp: write_entries_def assert_balanced_def non_empty_def split: list.splits)
  ultimately show ?thesis
    using assms(4) c plan rows p
    by (auto simp: book_delivery_def commission_for_def Let_def balance_of_def already_booked_def)
qed

theorem live_seller_delivery_booked_witness:
  "\<exists>r db'. book_delivery True 9 ''t9'' (seller_service_reply ''s1'' live_shop) demo_delivery empty_escrow = (Inr r, db') \<and>
     lt_seller_owed_delta r = 880 \<and> already_booked db' ''x1'' DELIVERY"
proof -
  from live_shop_row obtain s where s: "sd_sellers live_shop = [s]" "sr_id s = ''s1''" "sr_status s = status_value ACTIVE"
    "sr_accepted_contract_version s = Some 1" by blast
  have d: "eq_seller_id demo_delivery = ''s1''" "eq_seller_order_id demo_delivery = ''x1''" "eq_amount_cents demo_delivery = 999"
    "eq_currency demo_delivery = ''bdt''" by (simp_all add: demo_delivery_def)
  obtain p where p: "get_permission (eq_seller_id demo_delivery) live_shop = Inr p" "pm_may_list_products p"
    using demo_load [OF s(1)] by (simp add: d get_permission_def s(2-4) may_list_products_def CURRENT_CONTRACT_VERSION_def)
  have "reachable empty_book escrow_step empty_escrow" by (rule reach_init) (simp add: empty_book_def empty_escrow_def)
  from live_seller_delivery_booked [OF this p, of 9 "''t9''"] show ?thesis
    by (simp add: d already_booked_def empty_escrow_def int8_def)
qed

text \<open>
  A seller without a contract is retried, not refused. A delivery for a seller who
  has accepted no contract is answered 503, as an outage is: the seller service answers 409 and
  the payment service takes only a 404 for a final refusal.
\<close>

theorem no_contract_is_retried:
  assumes "load_seller sdb (eq_seller_id request) = Inr s" and "sr_accepted_contract_version s = None"
    and "\<not> already_booked db (eq_seller_order_id request) DELIVERY"
  shows "book_delivery io now fresh (seller_service_reply (eq_seller_id request) sdb) request db = (Inl (HTTPException 503), db)"
  using assms by (simp add: book_delivery_def seller_service_reply_def commission_endpoint_def get_commission_def
      commission_bps_def http_status_def commission_for_def)

theorem no_contract_is_retried_witness:
  "book_delivery True 9 ''t9'' (seller_service_reply ''s1'' shop1) demo_delivery empty_escrow = (Inl (HTTPException 503), empty_escrow)"
proof -
  from shop1_row obtain s where s: "sd_sellers shop1 = [s]" "sr_id s = ''s1''" "sr_accepted_contract_version s = None" by blast
  have d: "eq_seller_id demo_delivery = ''s1''" by (simp add: demo_delivery_def)
  have "load_seller shop1 (eq_seller_id demo_delivery) = Inr s" using demo_load [OF s(1)] by (simp add: d s(2))
  from no_contract_is_retried [OF this s(3), of empty_escrow True 9 "''t9''"] show ?thesis
    by (simp add: d already_booked_def empty_escrow_def)
qed

end
